(* ===== verification/Lua_Prelude.thy ===== *)
theory Lua_Prelude
  imports Main "HOL-Library.Word" "HOL-Library.Char_ord" "HOL-Library.List_Lexorder"
begin

text \<open>
  The vocabulary every other theory shares.

  \<^item> \<open>outcome\<close> is what running a Rust function can lead to: \<open>Ok\<close> and \<open>Err\<close> are the two
    constructors of \<open>Result\<close>, \<open>Panic\<close> is a Rust panic (slice index out of bounds, \<open>unwrap\<close> on
    \<open>None\<close>, arithmetic overflow under the overflow checks of a debug or test build), \<open>Timeout\<close>
    is a loop that has used up the fuel the model gives it.
  \<^item> \<open>op\<close> is a function with \<open>&mut\<close> access to a state: it returns an outcome and the state, and
    the state is also returned with an error, as Rust leaves a half-done mutation in place.
    \<open>bnd\<close> is sequencing with the \<open>?\<close> operator.
  \<^item> 64-bit integers are \<open>64 word\<close> read through \<open>sint\<close>; byte strings are HOL strings, whose
    characters are 8-bit.
\<close>

section \<open>Outcomes and state-passing operations\<close>

datatype panic = Index_out_of_bounds | Unwrap_on_none | Arithmetic_overflow | Explicit_panic

datatype ('e, 'a) outcome = Ok 'a | Err 'e | Panic panic | Timeout

type_synonym ('s, 'e, 'a) op = "'s \<Rightarrow> ('e, 'a) outcome \<times> 's"

named_theorems keeps_intros \<open>closure rules for relations between the states before and after\<close>
named_theorems op_defs \<open>the definitions of the sequencing combinators\<close>

definition ret :: "'a \<Rightarrow> ('s, 'e, 'a) op" where
  "ret a s = (Ok a, s)"

definition fail :: "'e \<Rightarrow> ('s, 'e, 'a) op" where
  "fail e s = (Err e, s)"

definition panic_with :: "panic \<Rightarrow> ('s, 'e, 'a) op" where
  "panic_with p s = (Panic p, s)"

definition timeout_op :: "('s, 'e, 'a) op" where
  "timeout_op s = (Timeout, s)"

definition bnd :: "('s, 'e, 'a) op \<Rightarrow> ('a \<Rightarrow> ('s, 'e, 'b) op) \<Rightarrow> ('s, 'e, 'b) op" where
  "bnd m f s = (case m s of (r, s') \<Rightarrow>
     (case r of Ok a \<Rightarrow> f a s' | Err e \<Rightarrow> (Err e, s') | Panic p \<Rightarrow> (Panic p, s')
      | Timeout \<Rightarrow> (Timeout, s')))"

definition reads :: "('s \<Rightarrow> 'a) \<Rightarrow> ('s, 'e, 'a) op" where
  "reads g s = (Ok (g s), s)"

definition modifies :: "('s \<Rightarrow> 's) \<Rightarrow> ('s, 'e, unit) op" where
  "modifies g s = (Ok (), g s)"

definition lift_result :: "'e + 'a \<Rightarrow> ('s, 'e, 'a) op" where
  "lift_result r = (case r of Inl e \<Rightarrow> fail e | Inr a \<Rightarrow> ret a)"

definition lift_outcome :: "('e, 'a) outcome \<Rightarrow> ('s, 'e, 'a) op" where
  "lift_outcome r s = (r, s)"

text \<open>A \<open>for\<close> loop over a list, and one that collects its results; both stop at the first error.\<close>

primrec for_each :: "('a \<Rightarrow> ('s, 'e, unit) op) \<Rightarrow> 'a list \<Rightarrow> ('s, 'e, unit) op" where
  "for_each f [] = ret ()"
| "for_each f (x # xs) = bnd (f x) (\<lambda>_. for_each f xs)"

primrec collect :: "('a \<Rightarrow> ('s, 'e, 'b) op) \<Rightarrow> 'a list \<Rightarrow> ('s, 'e, 'b list) op" where
  "collect f [] = ret []"
| "collect f (x # xs) = bnd (f x) (\<lambda>y. bnd (collect f xs) (\<lambda>ys. ret (y # ys)))"

text \<open>Indexing a slice or a \<open>Vec\<close> panics when the index is out of range.\<close>

definition index_or_panic :: "'a list \<Rightarrow> nat \<Rightarrow> ('s, 'e, 'a) op" where
  "index_or_panic xs i = (if i < length xs then ret (xs ! i) else panic_with Index_out_of_bounds)"

lemmas [op_defs] = ret_def fail_def panic_with_def timeout_op_def bnd_def reads_def modifies_def
  lift_result_def lift_outcome_def index_or_panic_def

lemma ret_apply [simp]: "ret a s = (Ok a, s)" by (simp add: ret_def)
lemma fail_apply [simp]: "fail e s = (Err e, s)" by (simp add: fail_def)
lemma panic_with_apply [simp]: "panic_with p s = (Panic p, s)" by (simp add: panic_with_def)
lemma timeout_op_apply [simp]: "timeout_op s = (Timeout, s)" by (simp add: timeout_op_def)
lemma reads_apply [simp]: "reads g s = (Ok (g s), s)" by (simp add: reads_def)
lemma modifies_apply [simp]: "modifies g s = (Ok (), g s)" by (simp add: modifies_def)
lemma lift_outcome_apply [simp]: "lift_outcome r s = (r, s)" by (simp add: lift_outcome_def)
lemma lift_result_simps [simp]:
  "lift_result (Inl e) = fail e" "lift_result (Inr a) = ret a"
  by (simp_all add: lift_result_def)

lemma bnd_ret [simp]: "bnd (ret a) f = f a"
  by (rule ext) (simp add: bnd_def)

lemma bnd_fail [simp]: "bnd (fail e) f = fail e"
  by (rule ext) (simp add: bnd_def)

lemma bnd_panic [simp]: "bnd (panic_with p) f = panic_with p"
  by (rule ext) (simp add: bnd_def)

lemma bnd_outcome [simp]:
  "bnd (Pair (Ok a)) f = f a"
  "bnd (Pair (Err e)) f = Pair (Err e)"
  "bnd (Pair (Panic p)) f = Pair (Panic p)"
  "bnd (Pair Timeout) f = Pair Timeout"
  by (rule ext; simp add: bnd_def)+

lemma bnd_assoc: "bnd (bnd m f) g = bnd m (\<lambda>a. bnd (f a) g)"
  by (rule ext) (simp add: bnd_def split: prod.splits outcome.splits)

lemma bnd_Ok_iff:
  "bnd m f s = (Ok b, s'') \<longleftrightarrow> (\<exists>a s'. m s = (Ok a, s') \<and> f a s' = (Ok b, s''))"
  by (auto simp: bnd_def split: prod.splits outcome.splits)

lemma bnd_eq:
  "m s = (Ok a, s') \<Longrightarrow> bnd m f s = f a s'"
  "m s = (Err e, s') \<Longrightarrow> bnd m f s = (Err e, s')"
  "m s = (Panic p, s') \<Longrightarrow> bnd m f s = (Panic p, s')"
  "m s = (Timeout, s') \<Longrightarrow> bnd m f s = (Timeout, s')"
  by (simp_all add: bnd_def)

section \<open>Relations every operation keeps\<close>

text \<open>
  \<open>keeps R m\<close> says that running \<open>m\<close> comes to an end (its fuel never runs out) and, whatever its
  outcome, relates the state before to the state after by \<open>R\<close>. The locale collects what follows
  when \<open>R\<close> is a preorder: the closure of \<open>keeps R\<close> under every combinator. It is interpreted on the
  orders the metering proofs use.
\<close>

definition keeps :: "('s \<Rightarrow> 's \<Rightarrow> bool) \<Rightarrow> ('s, 'e, 'a) op \<Rightarrow> bool" where
  "keeps R m \<longleftrightarrow> (\<forall>s. fst (m s) \<noteq> Timeout \<and> R s (snd (m s)))"

lemma keepsI: "(\<And>s. fst (m s) \<noteq> Timeout) \<Longrightarrow> (\<And>s. R s (snd (m s))) \<Longrightarrow> keeps R m"
  by (simp add: keeps_def)

lemma keepsD: "keeps R m \<Longrightarrow> m s = (r, s') \<Longrightarrow> r \<noteq> Timeout \<and> R s s'"
  by (metis keeps_def fst_conv snd_conv)

lemma keeps_weaken: "keeps R m \<Longrightarrow> (\<And>s t. R s t \<Longrightarrow> Q s t) \<Longrightarrow> keeps Q m"
  by (simp add: keeps_def)

locale step_preorder =
  fixes R :: "'s \<Rightarrow> 's \<Rightarrow> bool"
  assumes step_refl: "R s s"
    and step_trans: "R s t \<Longrightarrow> R t u \<Longrightarrow> R s u"
begin

lemma ret: "keeps R (ret a)"
  by (simp add: keeps_def step_refl)

lemma fail: "keeps R (fail e)"
  by (simp add: keeps_def step_refl)

lemma panic: "keeps R (panic_with p)"
  by (simp add: keeps_def step_refl)

lemma reads: "keeps R (reads g)"
  by (simp add: keeps_def step_refl)

lemma lift_result: "keeps R (lift_result r)"
  by (cases r) (simp_all add: ret fail)

lemma lift_outcome: "r \<noteq> Timeout \<Longrightarrow> keeps R (lift_outcome r)"
  by (simp add: keeps_def step_refl)

lemma outcome: "r \<noteq> Timeout \<Longrightarrow> keeps R (Pair r)"
  by (simp add: keeps_def step_refl)

lemma index: "keeps R (index_or_panic xs i)"
  by (simp add: index_or_panic_def ret panic)

text \<open>The second operation only has to keep \<open>R\<close> for the results the first can have.\<close>

lemma bnd_after:
  assumes "keeps R m" and "\<And>a s s'. m s = (Ok a, s') \<Longrightarrow> keeps R (f a)"
  shows "keeps R (bnd m f)"
proof -
  have "fst (bnd m f s) \<noteq> Timeout \<and> R s (snd (bnd m f s))" for s
  proof -
    obtain r s' where m: "m s = (r, s')" by fastforce
    have 1: "r \<noteq> Timeout" "R s s'" using keepsD [OF assms(1) m] by auto
    show ?thesis
    proof (cases r)
      case (Ok a)
      then have "keeps R (f a)" using assms(2) m by blast
      then have "fst (f a s') \<noteq> Timeout" "R s' (snd (f a s'))" by (simp_all add: keeps_def)
      then show ?thesis using 1 Ok m step_trans [OF 1(2)] by (simp add: bnd_eq(1))
    qed (use 1 m in \<open>simp_all add: bnd_def\<close>)
  qed
  then show ?thesis by (simp add: keeps_def)
qed

lemma bnd: "keeps R m \<Longrightarrow> (\<And>a. keeps R (f a)) \<Longrightarrow> keeps R (bnd m f)"
  by (rule bnd_after)

lemma for_each: "(\<And>x. keeps R (f x)) \<Longrightarrow> keeps R (for_each f xs)"
  by (induction xs) (simp_all add: ret bnd)

lemma collect: "(\<And>x. keeps R (f x)) \<Longrightarrow> keeps R (collect f xs)"
  by (induction xs) (auto intro!: ret bnd)

lemmas closure = ret fail panic reads lift_result lift_outcome outcome index bnd for_each collect

end

section \<open>Signed 64-bit integers\<close>

type_synonym i64 = "64 word"

definition in_i64 :: "int \<Rightarrow> bool" where
  "in_i64 x \<longleftrightarrow> - (2 ^ 63) \<le> x \<and> x < 2 ^ 63"

definition i64_of :: "int \<Rightarrow> i64" where
  "i64_of x = word_of_int x"

abbreviation i64_max :: i64 where "i64_max \<equiv> 0x7FFFFFFFFFFFFFFF"
abbreviation i64_min :: i64 where "i64_min \<equiv> 0x8000000000000000"

text \<open>\<open>+\<close>, \<open>-\<close> and unary \<open>-\<close> on \<open>i64\<close> where the source does not ask for wrapping: overflow panics.\<close>

definition checked_i64 :: "int \<Rightarrow> ('s, 'e, i64) op" where
  "checked_i64 x = (if in_i64 x then ret (i64_of x) else panic_with Arithmetic_overflow)"

text \<open>The \<open>checked_*\<close> methods, which return an \<open>Option\<close>.\<close>

definition option_i64 :: "int \<Rightarrow> i64 option" where
  "option_i64 x = (if in_i64 x then Some (i64_of x) else None)"

lemma in_i64_sint [simp]: "in_i64 (sint (w :: i64))"
  using sint_ge [of w] sint_lt [of w] by (simp add: in_i64_def)

lemma sint_i64_of [simp]: "in_i64 x \<Longrightarrow> sint (i64_of x) = x"
  by (simp add: in_i64_def i64_of_def int_word_sint mod_pos_pos_trivial)

lemma i64_of_sint [simp]: "i64_of (sint w) = w"
  by (simp add: i64_of_def)

lemma sint_eq_iff: "sint (a :: i64) = sint b \<longleftrightarrow> a = b"
  by (metis i64_of_sint)

lemma in_i64_nat: "n < 2 ^ 63 \<Longrightarrow> in_i64 (int n)"
proof -
  assume "n < 2 ^ 63"
  then have "int n < int (2 ^ 63)" by (simp only: of_nat_less_iff)
  then show ?thesis by (simp add: in_i64_def)
qed

lemma option_i64_Some: "option_i64 x = Some w \<longleftrightarrow> in_i64 x \<and> sint w = x"
  by (auto simp: option_i64_def)

end
