(* ===== verification/Lua_Text.thy ===== *)
theory Lua_Text
  imports Lua_Prelude
begin

text \<open>
  The text routines of the Rust standard library the source relies on, on byte strings:
  decimal and hexadecimal formatting (\<open>to_string\<close>, \<open>format!("{:x}")\<close>), \<open>str::parse\<close> and
  \<open>from_str_radix\<close>, \<open>String::from_utf8_lossy\<close> and \<open>str::trim\<close>. A Rust \<open>&str\<close> is the byte string
  of its UTF-8 encoding. The lemmas are the round trips the value, decimal and JSON theories use.
\<close>

section \<open>Numerals\<close>

definition byte_of :: "char \<Rightarrow> nat" where
  "byte_of c = of_char c"

definition digit_char :: "nat \<Rightarrow> char" where
  "digit_char d = (if d < 10 then char_of (48 + d) else char_of (87 + d))"

fun nat_radix :: "nat \<Rightarrow> nat \<Rightarrow> string" where
  "nat_radix b n = (if b < 2 \<or> n < b then [digit_char n]
     else nat_radix b (n div b) @ [digit_char (n mod b)])"

declare nat_radix.simps [simp del]

definition nat_to_string :: "nat \<Rightarrow> string" where
  "nat_to_string n = nat_radix 10 n"

definition i64_to_string :: "i64 \<Rightarrow> string" where
  "i64_to_string w = (let n = sint w in
     (if n < 0 then ''-'' else []) @ nat_to_string (nat \<bar>n\<bar>))"

text \<open>\<open>char::to_digit(radix)\<close>: digits and letters of either case.\<close>

definition digit_value :: "nat \<Rightarrow> char \<Rightarrow> nat option" where
  "digit_value b c = (let k = byte_of c;
      d = (if 48 \<le> k \<and> k \<le> 57 then k - 48
           else if 97 \<le> k \<and> k \<le> 122 then k - 87
           else if 65 \<le> k \<and> k \<le> 90 then k - 55 else b)
    in if d < b then Some d else None)"

fun digits_value :: "nat \<Rightarrow> nat \<Rightarrow> string \<Rightarrow> nat option" where
  "digits_value b acc [] = Some acc"
| "digits_value b acc (c # cs) = (case digit_value b c of None \<Rightarrow> None
     | Some d \<Rightarrow> digits_value b (acc * b + d) cs)"

text \<open>\<open>str::parse::<i64>()\<close>: an optional sign, at least one digit, the value in range.\<close>

definition parse_i64 :: "string \<Rightarrow> i64 option" where
  "parse_i64 s = (let neg = (case s of c # _ \<Rightarrow> c = CHR ''-'' | [] \<Rightarrow> False);
      ds = (case s of c # r \<Rightarrow> if c = CHR ''-'' \<or> c = CHR ''+'' then r else s | [] \<Rightarrow> s)
    in if ds = [] then None else (case digits_value 10 0 ds of None \<Rightarrow> None
      | Some n \<Rightarrow> option_i64 (if neg then - int n else int n)))"

text \<open>\<open>from_str_radix\<close> on an unsigned type of maximum \<open>m\<close>: a leading \<open>+\<close> is accepted.\<close>

definition parse_unsigned :: "nat \<Rightarrow> nat \<Rightarrow> string \<Rightarrow> nat option" where
  "parse_unsigned m b s = (let ds = (case s of c # r \<Rightarrow> if c = CHR ''+'' then r else s | [] \<Rightarrow> s)
    in if ds = [] then None else (case digits_value b 0 ds of None \<Rightarrow> None
      | Some n \<Rightarrow> if n \<le> m then Some n else None))"

lemma byte_of_less [simp]: "byte_of c < 256"
  by (simp add: byte_of_def)

lemma byte_of_char_of [simp]: "byte_of (char_of n) = n mod 256"
  by (simp add: byte_of_def)

lemma digit_value_digit_char: "d < b \<Longrightarrow> b \<le> 36 \<Longrightarrow> digit_value b (digit_char d) = Some d"
  by (auto simp: digit_value_def digit_char_def Let_def)

lemma digits_value_append:
  "digits_value b acc (xs @ ys) = (case digits_value b acc xs of None \<Rightarrow> None
     | Some n \<Rightarrow> digits_value b n ys)"
  by (induction b acc xs rule: digits_value.induct) (auto split: option.splits)

lemma digits_value_nat_radix:
  assumes "2 \<le> b" and "b \<le> 36"
  shows "digits_value b 0 (nat_radix b n) = Some n"
  using assms
proof (induction b n rule: nat_radix.induct)
  case (1 b n)
  show ?case
  proof (cases "n < b")
    case True
    with 1 show ?thesis by (subst nat_radix.simps) (simp add: digit_value_digit_char)
  next
    case False
    with 1 have "digits_value b 0 (nat_radix b (n div b)) = Some (n div b)" by simp
    moreover have "n mod b < b" using 1 by simp
    ultimately show ?thesis using 1 False
      by (subst nat_radix.simps) (simp add: digits_value_append digit_value_digit_char)
  qed
qed

lemma digits_value_nat_to_string [simp]: "digits_value 10 0 (nat_to_string n) = Some n"
  by (simp add: nat_to_string_def digits_value_nat_radix)

lemma digit_char_is_digit: "d < 10 \<Longrightarrow> 48 \<le> byte_of (digit_char d) \<and> byte_of (digit_char d) \<le> 57"
  by (simp add: digit_char_def)

lemma nat_to_string_digits:
  "c \<in> set (nat_to_string n) \<Longrightarrow> 48 \<le> byte_of c \<and> byte_of c \<le> 57"
proof -
  have "b = 10 \<Longrightarrow> c \<in> set (nat_radix b n) \<Longrightarrow> 48 \<le> byte_of c \<and> byte_of c \<le> 57" for b
  proof (induction b n rule: nat_radix.induct)
    case (1 b n)
    show ?case
    proof (cases "n < 10")
      case True
      with 1 show ?thesis by (simp add: nat_radix.simps [of 10 n] digit_char_is_digit)
    next
      case False
      with 1 show ?thesis
        by (auto simp: nat_radix.simps [of 10 n] digit_char_is_digit)
    qed
  qed
  then show "c \<in> set (nat_to_string n) \<Longrightarrow> 48 \<le> byte_of c \<and> byte_of c \<le> 57"
    by (simp add: nat_to_string_def)
qed

lemma nat_radix_not_Nil [simp]: "nat_radix b n \<noteq> []"
  by (subst nat_radix.simps) simp

lemma nat_to_string_not_Nil [simp]: "nat_to_string n \<noteq> []"
  by (simp add: nat_to_string_def)

lemma parse_i64_to_string: "parse_i64 (i64_to_string w) = Some w"
proof (cases "sint w < 0")
  case True
  then have s: "i64_to_string w = CHR ''-'' # nat_to_string (nat (- sint w))"
    by (simp add: i64_to_string_def Let_def)
  have "int (nat (- sint w)) = - sint w" using True by simp
  then show ?thesis by (simp add: parse_i64_def s Let_def option_i64_def)
next
  case False
  then have s: "i64_to_string w = nat_to_string (nat (sint w))"
    by (simp add: i64_to_string_def Let_def)
  obtain c r where cr: "nat_to_string (nat (sint w)) = c # r"
    by (cases "nat_to_string (nat (sint w))") simp_all
  have "48 \<le> byte_of c" using nat_to_string_digits [of c "nat (sint w)"] cr by simp
  then have "c \<noteq> CHR ''-''" "c \<noteq> CHR ''+''" by (auto simp: byte_of_def)
  moreover have "digits_value 10 0 (c # r) = Some (nat (sint w))"
    using digits_value_nat_to_string [of "nat (sint w)"] cr by simp
  moreover have "int (nat (sint w)) = sint w" using False by simp
  ultimately show ?thesis by (simp add: parse_i64_def s cr Let_def option_i64_def)
qed

section \<open>UTF-8\<close>

definition continuation_byte :: "char \<Rightarrow> bool" where
  "continuation_byte c \<longleftrightarrow> 128 \<le> byte_of c \<and> byte_of c \<le> 191"

text \<open>The length a leading byte announces (0 when it cannot start a character), and the second
  bytes it admits.\<close>

definition utf8_width :: "char \<Rightarrow> nat" where
  "utf8_width c = (let b = byte_of c in
     if b < 128 then 1 else if 194 \<le> b \<and> b \<le> 223 then 2
     else if 224 \<le> b \<and> b \<le> 239 then 3 else if 240 \<le> b \<and> b \<le> 244 then 4 else 0)"

definition utf8_second :: "char \<Rightarrow> char \<Rightarrow> bool" where
  "utf8_second c d = (let b = byte_of c; e = byte_of d in
     (if b = 224 then 160 else if b = 240 then 144 else 128) \<le> e \<and>
     e \<le> (if b = 237 then 159 else if b = 244 then 143 else 191))"

text \<open>Whether the next character is well formed, and how many bytes it, or the maximal ill-formed
  prefix, takes.\<close>

definition utf8_step :: "string \<Rightarrow> bool \<times> nat" where
  "utf8_step s = (let w = utf8_width (s ! 0) in
     if w = 0 then (False, 1)
     else if w = 1 then (True, 1)
     else if length s < 2 \<or> \<not> utf8_second (s ! 0) (s ! 1) then (False, 1)
     else if w = 2 then (True, 2)
     else if length s < 3 \<or> \<not> continuation_byte (s ! 2) then (False, 2)
     else if w = 3 then (True, 3)
     else if length s < 4 \<or> \<not> continuation_byte (s ! 3) then (False, 3)
     else (True, 4))"

lemma utf8_step_pos: "0 < snd (utf8_step s)"
  by (simp add: utf8_step_def Let_def)

text \<open>\<open>String::from_utf8_lossy\<close>: each maximal ill-formed part becomes U+FFFD.\<close>

definition replacement_character :: string where
  "replacement_character = [char_of (239 :: nat), char_of (191 :: nat), char_of (189 :: nat)]"

function utf8_lossy :: "string \<Rightarrow> string" where
  "utf8_lossy s = (if s = [] then [] else
     (let r = utf8_step s in
       (if fst r then take (snd r) s else replacement_character) @ utf8_lossy (drop (snd r) s)))"
  by pat_completeness auto
termination
  by (relation "measure length") (use utf8_step_pos in \<open>auto simp: Let_def\<close>)

declare utf8_lossy.simps [simp del]

text \<open>\<open>core::str::from_utf8(..).is_ok()\<close>.\<close>

function utf8_valid :: "string \<Rightarrow> bool" where
  "utf8_valid s = (if s = [] then True else
     (let r = utf8_step s in if fst r then utf8_valid (drop (snd r) s) else False))"
  by pat_completeness auto
termination
  by (relation "measure length") (use utf8_step_pos in \<open>auto simp: Let_def\<close>)

declare utf8_valid.simps [simp del]

lemma utf8_lossy_valid: "utf8_valid s \<Longrightarrow> utf8_lossy s = s"
proof (induction s rule: utf8_lossy.induct)
  case (1 s)
  show ?case
  proof (cases "s = []")
    case True
    then show ?thesis by (subst utf8_lossy.simps) simp
  next
    case False
    with "1.prems" have v: "fst (utf8_step s)" "utf8_valid (drop (snd (utf8_step s)) s)"
      by (auto simp: utf8_valid.simps [of s] Let_def split: if_splits)
    then have "utf8_lossy (drop (snd (utf8_step s)) s) = drop (snd (utf8_step s)) s"
      using "1.IH" False by blast
    with False v show ?thesis by (subst utf8_lossy.simps) (simp add: Let_def)
  qed
qed

lemma utf8_valid_ascii: "(\<And>c. c \<in> set s \<Longrightarrow> byte_of c < 128) \<Longrightarrow> utf8_valid s"
proof (induction s)
  case Nil
  then show ?case by (subst utf8_valid.simps) simp
next
  case (Cons c s)
  then have "utf8_step (c # s) = (True, 1)"
    by (simp add: utf8_step_def utf8_width_def Let_def)
  moreover have "utf8_valid s" using Cons by simp
  ultimately show ?case by (subst utf8_valid.simps) (simp add: Let_def)
qed

lemma utf8_lossy_ascii: "(\<And>c. c \<in> set s \<Longrightarrow> byte_of c < 128) \<Longrightarrow> utf8_lossy s = s"
  by (simp add: utf8_lossy_valid utf8_valid_ascii)

section \<open>Trimming white space\<close>

text \<open>\<open>str::trim\<close> removes the code points of Unicode property \<open>White_Space\<close> at both ends; the
  number of bytes of one at the front of a valid UTF-8 string, 0 when there is none.\<close>

definition space_prefix :: "nat list \<Rightarrow> nat" where
  "space_prefix bs = (case bs of [] \<Rightarrow> 0
     | b # r \<Rightarrow> if 9 \<le> b \<and> b \<le> 13 \<or> b = 32 then 1
        else (case r of [] \<Rightarrow> 0
          | c # r' \<Rightarrow> if b = 194 \<and> (c = 133 \<or> c = 160) then 2
             else (case r' of [] \<Rightarrow> 0
               | d # _ \<Rightarrow> if b = 225 \<and> c = 154 \<and> d = 128
                    \<or> b = 226 \<and> c = 128 \<and> (128 \<le> d \<and> d \<le> 138 \<or> d = 168 \<or> d = 169 \<or> d = 175)
                    \<or> b = 226 \<and> c = 129 \<and> d = 159
                    \<or> b = 227 \<and> c = 128 \<and> d = 128 then 3 else 0)))"

lemma space_prefix_le: "space_prefix bs \<le> length bs"
  by (auto simp: space_prefix_def split: list.splits)

function trim_start :: "string \<Rightarrow> string" where
  "trim_start s = (let k = space_prefix (map byte_of s) in if k = 0 then s else trim_start (drop k s))"
  by pat_completeness auto
termination
proof (relation "measure length", goal_cases)
  case (2 s k)
  then show ?case using space_prefix_le [of "map byte_of s"] by simp
qed simp

declare trim_start.simps [simp del]

text \<open>At the back: some character of one to three bytes ends the string.\<close>

definition space_suffix :: "string \<Rightarrow> nat" where
  "space_suffix s = (let bs = map byte_of s; n = length bs in
     if 1 \<le> n \<and> space_prefix (drop (n - 1) bs) = 1 then 1
     else if 2 \<le> n \<and> space_prefix (drop (n - 2) bs) = 2 then 2
     else if 3 \<le> n \<and> space_prefix (drop (n - 3) bs) = 3 then 3 else 0)"

function trim_end :: "string \<Rightarrow> string" where
  "trim_end s = (let k = space_suffix s in if k = 0 then s else trim_end (take (length s - k) s))"
  by pat_completeness auto
termination
proof (relation "measure length", goal_cases)
  case (2 s k)
  then show ?case by (auto simp: space_suffix_def Let_def split: if_splits)
qed simp

declare trim_end.simps [simp del]

definition str_trim :: "string \<Rightarrow> string" where
  "str_trim s = trim_end (trim_start s)"

text \<open>A string that neither starts nor ends with white space is left alone.\<close>

lemma str_trim_id:
  assumes "space_prefix (map byte_of s) = 0" and "space_suffix s = 0"
  shows "str_trim s = s"
  using assms by (simp add: str_trim_def trim_start.simps [of s] trim_end.simps [of s])

end
