(* ===== verification/Lua_Values.thy ===== *)
theory Lua_Values
  imports Lua_Text "HOL-Library.Signed_Division"
begin

text \<open>
  \<open>src/types/value.rs\<close>: the values of the VM and the operations on them that need no table.

  An \<open>Rc<RefCell<LuaTable>>\<close> and the upvalue cell \<open>Rc<RefCell<LuaValue>>\<close> are addresses into the
  stores of the running machine (\<open>Lua_Tables\<close>, \<open>Lua_Engine\<close>), so that aliasing is equality of
  addresses, as \<open>Rc::ptr_eq\<close> is. \<open>LuaString\<close> is a byte string. \<open>lua_len\<close> needs a table store and
  is in \<open>Lua_Tables\<close>.
\<close>

section \<open>The data\<close>

(* value.rs:11-16 LuaError *)
datatype lua_error = LuaErrorRuntime | LuaErrorMemory | LuaErrorType

(* value.rs:18-59 BuiltinId *)
datatype builtin_id =
    B_Type | B_Tostring | B_Tonumber | B_Select | B_Unpack
  | B_StringLen | B_StringSub | B_StringFind | B_StringFindLiteral | B_StringUpper
  | B_StringLower | B_StringRep | B_StringByte | B_StringChar | B_StringFormat
  | B_StringUnsupported
  | B_MathAbs | B_MathMin | B_MathMax | B_MathScaleDiv
  | B_TableInsert | B_TableRemove | B_TableConcat | B_TableSort | B_TableMove
  | B_JsonEncode | B_JsonDecode | B_JsonDecodeStrings
  | B_DecimalParse | B_DecimalFormat | B_DecimalRescale

type_synonym table_ref = nat
type_synonym cell_ref = nat
type_synonym lua_string = string

(* value.rs:61-68 LuaClosure *)
record lua_closure =
  clo_proto :: nat
  clo_upvalues :: "cell_ref list"

(* value.rs:103-112 LuaValue *)
datatype lua_value =
    VNil
  | VBool bool
  | VInt i64
  | VStr lua_string
  | VTable table_ref
  | VFun lua_closure
  | VBuiltin builtin_id

(* value.rs:9-9 MAX_TABLE_ENTRIES *)
definition max_table_entries :: nat where
  "max_table_entries = 50000"

section \<open>Inspection and comparison\<close>

(* value.rs:114-125 LuaValue::type_name *)
fun type_name :: "lua_value \<Rightarrow> string" where
  "type_name VNil = ''nil''"
| "type_name (VBool _) = ''boolean''"
| "type_name (VInt _) = ''integer''"
| "type_name (VStr _) = ''string''"
| "type_name (VTable _) = ''table''"
| "type_name (VFun _) = ''function''"
| "type_name (VBuiltin _) = ''function''"

(* value.rs:127-131 LuaValue::is_truthy *)
fun is_truthy :: "lua_value \<Rightarrow> bool" where
  "is_truthy VNil = False"
| "is_truthy (VBool b) = b"
| "is_truthy _ = True"

(* value.rs:133-153 LuaValue::eq *)
fun lua_eq :: "lua_value \<Rightarrow> lua_value \<Rightarrow> bool" where
  "lua_eq VNil VNil = True"
| "lua_eq (VBool a) (VBool b) = (a = b)"
| "lua_eq (VInt a) (VInt b) = (a = b)"
| "lua_eq (VStr a) (VStr b) = (a = b)"
| "lua_eq (VTable a) (VTable b) = (a = b)"
| "lua_eq (VFun a) (VFun b) =
     (clo_proto a = clo_proto b \<and> length (clo_upvalues a) = length (clo_upvalues b) \<and>
      list_all (\<lambda>(x, y). x = y) (zip (clo_upvalues a) (clo_upvalues b)))"
| "lua_eq (VBuiltin a) (VBuiltin b) = (a = b)"
| "lua_eq _ _ = False"

datatype cmp_ordering = Less | Equal | Greater

definition cmp_i64 :: "i64 \<Rightarrow> i64 \<Rightarrow> cmp_ordering" where
  "cmp_i64 a b = (if sint a < sint b then Less else if sint a = sint b then Equal else Greater)"

definition cmp_bytes :: "string \<Rightarrow> string \<Rightarrow> cmp_ordering" where
  "cmp_bytes a b = (if a < b then Less else if a = b then Equal else Greater)"

(* value.rs:155-165 LuaValue::lua_cmp *)
fun lua_cmp :: "lua_value \<Rightarrow> lua_value \<Rightarrow> lua_error + cmp_ordering" where
  "lua_cmp (VInt a) (VInt b) = Inr (cmp_i64 a b)"
| "lua_cmp (VStr a) (VStr b) = Inr (cmp_bytes a b)"
| "lua_cmp _ _ = Inl LuaErrorType"

section \<open>Coercions\<close>

(* value.rs:168-173 LuaValue::as_integer *)
fun as_integer :: "lua_value \<Rightarrow> lua_error + i64" where
  "as_integer (VInt n) = Inr n"
| "as_integer _ = Inl LuaErrorType"

(* value.rs:175-180 LuaValue::as_string *)
fun as_string :: "lua_value \<Rightarrow> lua_error + lua_string" where
  "as_string (VStr s) = Inr s"
| "as_string _ = Inl LuaErrorType"

(* value.rs:182-187 LuaValue::as_table *)
fun as_table :: "lua_value \<Rightarrow> lua_error + table_ref" where
  "as_table (VTable t) = Inr t"
| "as_table _ = Inl LuaErrorType"

(* value.rs:189-194 LuaValue::as_function *)
fun as_function :: "lua_value \<Rightarrow> lua_error + lua_closure" where
  "as_function (VFun c) = Inr c"
| "as_function _ = Inl LuaErrorType"

(* value.rs:196-201 LuaValue::as_bool *)
fun as_bool :: "lua_value \<Rightarrow> lua_error + bool" where
  "as_bool (VBool b) = Inr b"
| "as_bool _ = Inl LuaErrorType"

(* value.rs:204-215 LuaValue::to_number_coerce *)
fun to_number_coerce :: "lua_value \<Rightarrow> lua_value" where
  "to_number_coerce (VInt n) = VInt n"
| "to_number_coerce (VStr s) =
     (case parse_i64 (str_trim (utf8_lossy s)) of None \<Rightarrow> VNil | Some n \<Rightarrow> VInt n)"
| "to_number_coerce _ = VNil"

(* value.rs:217-228 LuaValue::to_lua_string *)
fun to_lua_string :: "lua_value \<Rightarrow> lua_string" where
  "to_lua_string VNil = ''nil''"
| "to_lua_string (VBool b) = (if b then ''true'' else ''false'')"
| "to_lua_string (VInt n) = i64_to_string n"
| "to_lua_string (VStr s) = s"
| "to_lua_string (VTable _) = ''table''"
| "to_lua_string (VFun _) = ''function''"
| "to_lua_string (VBuiltin _) = ''function''"

(* value.rs:263-274 LuaValue::fmt *)
fun display_value :: "lua_value \<Rightarrow> string" where
  "display_value VNil = ''nil''"
| "display_value (VBool b) = (if b then ''true'' else ''false'')"
| "display_value (VInt n) = i64_to_string n"
| "display_value (VStr s) = utf8_lossy s"
| "display_value (VTable _) = ''table''"
| "display_value (VFun _) = ''function''"
| "display_value (VBuiltin _) = ''function''"

section \<open>Concatenation and arithmetic\<close>

fun concat_operand :: "lua_value \<Rightarrow> lua_error + lua_string" where
  "concat_operand (VStr s) = Inr s"
| "concat_operand (VInt n) = Inr (i64_to_string n)"
| "concat_operand _ = Inl LuaErrorType"

(* value.rs:276-297 LuaValue::lua_concat *)
definition lua_concat :: "lua_value \<Rightarrow> lua_value \<Rightarrow> lua_error + lua_value" where
  "lua_concat v w = (case concat_operand v of Inl e \<Rightarrow> Inl e
     | Inr left \<Rightarrow> (case concat_operand w of Inl e \<Rightarrow> Inl e
       | Inr right \<Rightarrow> if length left + length right > 65536 then Inl LuaErrorMemory
                     else Inr (VStr (left @ right))))"

definition int_op :: "(i64 \<Rightarrow> i64 \<Rightarrow> lua_error + i64) \<Rightarrow> lua_value \<Rightarrow> lua_value \<Rightarrow> lua_error + lua_value" where
  "int_op f v w = (case as_integer v of Inl e \<Rightarrow> Inl e
     | Inr a \<Rightarrow> (case as_integer w of Inl e \<Rightarrow> Inl e
       | Inr b \<Rightarrow> (case f a b of Inl e \<Rightarrow> Inl e | Inr c \<Rightarrow> Inr (VInt c))))"

text \<open>\<open>wrapping_div\<close> and \<open>wrapping_rem\<close> truncate towards zero; \<open>i64::MIN / -1\<close> wraps.\<close>

definition wrapping_div :: "i64 \<Rightarrow> i64 \<Rightarrow> i64" where
  "wrapping_div a b = i64_of (sint a sdiv sint b)"

definition wrapping_rem :: "i64 \<Rightarrow> i64 \<Rightarrow> i64" where
  "wrapping_rem a b = i64_of (sint a smod sint b)"

(* value.rs:300-304 LuaValue::lua_add *)
definition lua_add :: "lua_value \<Rightarrow> lua_value \<Rightarrow> lua_error + lua_value" where
  "lua_add = int_op (\<lambda>a b. Inr (a + b))"

(* value.rs:305-309 LuaValue::lua_sub *)
definition lua_sub :: "lua_value \<Rightarrow> lua_value \<Rightarrow> lua_error + lua_value" where
  "lua_sub = int_op (\<lambda>a b. Inr (a - b))"

(* value.rs:310-314 LuaValue::lua_mul *)
definition lua_mul :: "lua_value \<Rightarrow> lua_value \<Rightarrow> lua_error + lua_value" where
  "lua_mul = int_op (\<lambda>a b. Inr (a * b))"

(* value.rs:315-329 LuaValue::lua_idiv *)
definition lua_idiv :: "lua_value \<Rightarrow> lua_value \<Rightarrow> lua_error + lua_value" where
  "lua_idiv = int_op (\<lambda>a b. if b = 0 then Inl LuaErrorRuntime else
     (let d = wrapping_div a b; r = wrapping_rem a b in
       if r \<noteq> 0 \<and> ((sint r < 0) \<noteq> (sint b < 0)) then Inr (d - 1) else Inr d))"

(* value.rs:330-342 LuaValue::lua_mod *)
definition lua_mod :: "lua_value \<Rightarrow> lua_value \<Rightarrow> lua_error + lua_value" where
  "lua_mod = int_op (\<lambda>a b. if b = 0 then Inl LuaErrorRuntime else
     (let r = wrapping_rem a b in
       if r \<noteq> 0 \<and> ((sint r < 0) \<noteq> (sint b < 0)) then Inr (r + b) else Inr r))"

(* value.rs:343-345 LuaValue::lua_unm *)
definition lua_unm :: "lua_value \<Rightarrow> lua_error + lua_value" where
  "lua_unm v = (case as_integer v of Inl e \<Rightarrow> Inl e | Inr a \<Rightarrow> Inr (VInt (- a)))"

section \<open>Properties\<close>

lemma zip_all_eq: "length xs = length ys \<Longrightarrow> list_all (\<lambda>(x, y). x = y) (zip xs ys) \<longleftrightarrow> xs = ys"
  by (induction xs ys rule: list_induct2) auto

text \<open>\<open>PartialEq\<close> is equality of the model's values: identity for tables and upvalue cells.\<close>

lemma lua_eq_iff: "lua_eq v w \<longleftrightarrow> v = w"
  by (cases v; cases w) (auto simp: zip_all_eq intro: lua_closure.equality)

lemma as_result_cases:
  "as_integer v = Inr n \<longleftrightarrow> v = VInt n"
  "as_table v = Inr t \<longleftrightarrow> v = VTable t"
  "as_function v = Inr c \<longleftrightarrow> v = VFun c"
  by (cases v; simp)+

text \<open>Truncated division and remainder against the floor division of HOL.\<close>

lemma sdiv_smod_floor:
  fixes a b :: int
  assumes "b \<noteq> 0"
  shows "a div b = (if a smod b \<noteq> 0 \<and> ((a smod b < 0) \<noteq> (b < 0)) then a sdiv b - 1 else a sdiv b)"
    and "a mod b = (if a smod b \<noteq> 0 \<and> ((a smod b < 0) \<noteq> (b < 0)) then a smod b + b else a smod b)"
proof -
  let ?c = "a smod b \<noteq> 0 \<and> ((a smod b < 0) \<noteq> (b < 0))"
  let ?q = "if ?c then a sdiv b - 1 else a sdiv b"
  let ?r = "if ?c then a smod b + b else a smod b"
  have eq: "a = b * ?q + ?r"
    using sdiv_mult_smod_eq [of a b] by (simp add: algebra_simps)
  have "\<bar>a smod b\<bar> < \<bar>b\<bar>"
    using assms by (simp add: signed_modulo_int_def abs_mult sgn_if)
  then have bounds: "(0 \<le> ?r \<and> ?r < b) \<or> (?r \<le> 0 \<and> b < ?r)"
    using assms by auto
  show "a div b = ?q"
    using bounds eq int_div_pos_eq int_div_neg_eq by blast
  show "a mod b = ?r"
    using bounds eq int_mod_pos_eq int_mod_neg_eq by blast
qed

lemma sint_wrapping_rem: "b \<noteq> 0 \<Longrightarrow> sint (wrapping_rem a b) = sint a smod sint b"
proof -
  assume "b \<noteq> 0"
  then have "sint b \<noteq> 0" using sint_eq_iff [of b 0] by simp
  then have "\<bar>sint a smod sint b\<bar> < \<bar>sint b\<bar>"
    by (simp add: signed_modulo_int_def abs_mult sgn_if)
  then have "in_i64 (sint a smod sint b)"
    using in_i64_sint [of b] by (auto simp: in_i64_def)
  then show ?thesis by (simp add: wrapping_rem_def)
qed

end
