(* ===== verification/Lua_Tables.thy ===== *)
theory Lua_Tables
  imports Lua_Values
begin

text \<open>
  \<open>src/types/table.rs\<close>: the table with its array part and its ordered hash part.

  \<open>BTreeMap<LuaKey, LuaValue>\<close> is an association list sorted by the key order the source derives
  (integers by value, then strings by bytes, then booleans). \<open>usize\<close> counters are natural
  numbers: the invariant keeps them exact and small. The mutating methods return the new table
  next to their result, also when the result is an error.

  Parts: the key order; the sorted association list; the table operations; the invariant
  \<open>table_inv\<close> and its preservation; lookup after an update; the interface \<open>table_spec\<close> with its
  interpretation on \<open>rawset_tracked\<close>; the table store that plays the role of the \<open>Rc\<close> heap.
\<close>

section \<open>Keys and their order\<close>

(* table.rs:11-16 LuaKey *)
datatype lua_key = KInt i64 | KStr lua_string | KBool bool

text \<open>The order the source derives, and the type class built on it.\<close>

(* table.rs:11-11 LuaKey::partial_cmp *)
fun key_le :: "lua_key \<Rightarrow> lua_key \<Rightarrow> bool" where
  "key_le (KInt x) (KInt y) \<longleftrightarrow> sint x \<le> sint y"
| "key_le (KInt _) _ \<longleftrightarrow> True"
| "key_le (KStr _) (KInt _) \<longleftrightarrow> False"
| "key_le (KStr x) (KStr y) \<longleftrightarrow> x \<le> y"
| "key_le (KStr _) (KBool _) \<longleftrightarrow> True"
| "key_le (KBool x) (KBool y) \<longleftrightarrow> (x \<longrightarrow> y)"
| "key_le (KBool _) _ \<longleftrightarrow> False"

instantiation lua_key :: linorder
begin

definition less_eq_lua_key :: "lua_key \<Rightarrow> lua_key \<Rightarrow> bool" where
  "less_eq_lua_key = key_le"

definition less_lua_key :: "lua_key \<Rightarrow> lua_key \<Rightarrow> bool" where
  "less_lua_key a b = (a \<le> b \<and> \<not> b \<le> (a :: lua_key))"

instance
proof
  fix x y z :: lua_key
  show "(x < y) = (x \<le> y \<and> \<not> y \<le> x)" by (simp add: less_lua_key_def)
  show "x \<le> x" by (cases x) (simp_all add: less_eq_lua_key_def)
  show "x \<le> y \<Longrightarrow> y \<le> z \<Longrightarrow> x \<le> z"
    by (cases x; cases y; cases z) (auto simp: less_eq_lua_key_def)
  show "x \<le> y \<Longrightarrow> y \<le> x \<Longrightarrow> x = y"
    by (cases x; cases y) (auto simp: less_eq_lua_key_def sint_eq_iff)
  show "x \<le> y \<or> y \<le> x"
    by (cases x; cases y) (auto simp: less_eq_lua_key_def)
qed

end

(* value.rs:239-251 LuaValue::into_key *)
fun into_key :: "lua_value \<Rightarrow> lua_error + lua_key" where
  "into_key (VInt n) = Inr (KInt n)"
| "into_key (VStr s) = Inr (KStr s)"
| "into_key (VBool b) = Inr (KBool b)"
| "into_key VNil = Inl LuaErrorRuntime"
| "into_key _ = Inl LuaErrorType"

(* value.rs:253-261 LuaValue::from *)
fun value_of_key :: "lua_key \<Rightarrow> lua_value" where
  "value_of_key (KInt n) = VInt n"
| "value_of_key (KStr s) = VStr s"
| "value_of_key (KBool b) = VBool b"

section \<open>Sorted association lists\<close>

fun bt_insert :: "'k::linorder \<Rightarrow> 'v \<Rightarrow> ('k \<times> 'v) list \<Rightarrow> ('k \<times> 'v) list" where
  "bt_insert k v [] = [(k, v)]"
| "bt_insert k v (kv # m) =
     (if k < fst kv then (k, v) # kv # m
      else if fst kv = k then (k, v) # m
      else kv # bt_insert k v m)"

fun bt_remove :: "'k \<Rightarrow> ('k \<times> 'v) list \<Rightarrow> ('k \<times> 'v) list" where
  "bt_remove k [] = []"
| "bt_remove k (kv # m) = (if fst kv = k then m else kv # bt_remove k m)"

abbreviation bt_get :: "('k \<times> 'v) list \<Rightarrow> 'k \<Rightarrow> 'v option" where
  "bt_get \<equiv> map_of"

definition bt_sorted :: "('k::linorder \<times> 'v) list \<Rightarrow> bool" where
  "bt_sorted m = sorted_wrt (<) (map fst m)"

lemma bt_sorted_Cons [simp]:
  "bt_sorted (kv # m) \<longleftrightarrow> (\<forall>k \<in> fst ` set m. fst kv < k) \<and> bt_sorted m"
  by (auto simp: bt_sorted_def)

lemma bt_sorted_Nil [simp]: "bt_sorted []"
  by (simp add: bt_sorted_def)

lemma bt_keys_insert: "fst ` set (bt_insert k v m) = insert k (fst ` set m)"
  by (induction m) auto

lemma bt_get_insert [simp]: "bt_get (bt_insert k v m) = (bt_get m)(k \<mapsto> v)"
  by (induction m) (auto simp: fun_eq_iff)

lemma bt_sorted_insert: "bt_sorted m \<Longrightarrow> bt_sorted (bt_insert k v m)"
  by (induction m) (force simp: bt_keys_insert)+

lemma bt_remove_set: "set (bt_remove k m) \<subseteq> set m"
  by (induction m) auto

lemma bt_sorted_remove: "bt_sorted m \<Longrightarrow> bt_sorted (bt_remove k m)"
proof (induction m)
  case (Cons kv m)
  then show ?case using bt_remove_set [of k m] by auto
qed simp

lemma bt_get_None: "bt_get m k = None \<longleftrightarrow> k \<notin> fst ` set m"
  by (rule map_of_eq_None_iff)

lemma bt_get_remove: "bt_sorted m \<Longrightarrow> bt_get (bt_remove k m) = (bt_get m)(k := None)"
proof (induction m)
  case (Cons kv m)
  have "k \<notin> fst ` set m" if "fst kv = k" using Cons.prems that by auto
  then have "bt_get m k = None" if "fst kv = k" using that by (simp add: bt_get_None)
  then show ?case using Cons by (auto simp: fun_eq_iff)
qed (simp add: fun_eq_iff)

lemma bt_get_key: "bt_get m k = Some v \<Longrightarrow> k \<in> fst ` set m"
  by (force dest: map_of_SomeD)

lemma bt_keys_remove: "bt_sorted m \<Longrightarrow> fst ` set (bt_remove k m) = fst ` set m - {k}"
  by (simp add: bt_get_remove flip: dom_map_of_conv_image_fst)

lemma length_bt_insert:
  "length (bt_insert k v m) = (if bt_get m k = None then Suc (length m) else length m)"
  if "bt_sorted m"
  using that
proof (induction m)
  case (Cons kv m)
  have "bt_get m k = None" if "k < fst kv"
    using Cons.prems that by (force simp: bt_get_None)
  then show ?case using Cons by auto
qed simp

lemma length_bt_remove:
  "length (bt_remove k m) = (if bt_get m k = None then length m else length m - 1)"
proof (induction m)
  case (Cons kv m)
  have "m \<noteq> []" if "bt_get m k \<noteq> None" using that by auto
  then show ?case using Cons by (cases m) auto
qed simp

lemma bt_remove_shrinks: "bt_get m k = Some v \<Longrightarrow> length (bt_remove k m) < length m"
  by (cases "m = []") (auto simp: length_bt_remove)

lemma bt_insert_values: "snd ` set (bt_insert k v m) \<subseteq> insert v (snd ` set m)"
  by (induction m) auto

lemma bt_get_value: "bt_get m k = Some v \<Longrightarrow> v \<in> snd ` set m"
  by (metis image_eqI map_of_SomeD snd_conv)

section \<open>The table and its operations\<close>

(* table.rs:60-72 RawsetResult *)
datatype rawset_result = Updated | Inserted bool nat

(* table.rs:74-85 LuaTable *)
record lua_table =
  tab_array :: "lua_value list"
  tab_hash :: "(lua_key \<times> lua_value) list"
  tab_entries :: nat
  tab_capacity :: nat

(* table.rs:94-101 LuaTable::new *)
definition new_table :: lua_table where
  "new_table = \<lparr>tab_array = [], tab_hash = [], tab_entries = 0, tab_capacity = 0\<rparr>"

definition in_array :: "lua_value list \<Rightarrow> i64 \<Rightarrow> bool" where
  "in_array arr i \<longleftrightarrow> 1 \<le> sint i \<and> sint i \<le> int (length arr)"

definition split_get :: "lua_value list \<Rightarrow> (lua_key \<times> lua_value) list \<Rightarrow> lua_key \<Rightarrow> lua_value option" where
  "split_get arr h key = (case key of
      KInt i \<Rightarrow> if in_array arr i then Some (arr ! nat (sint i - 1)) else bt_get h key
    | _ \<Rightarrow> bt_get h key)"

(* table.rs:103-111 LuaTable::get *)
definition table_get :: "lua_table \<Rightarrow> lua_key \<Rightarrow> lua_value option" where
  "table_get t key = split_get (tab_array t) (tab_hash t) key"

text \<open>\<open>usize::next_power_of_two\<close>.\<close>

function next_pow2_from :: "nat \<Rightarrow> nat \<Rightarrow> nat" where
  "next_pow2_from p n = (if n \<le> p \<or> p = 0 then p else next_pow2_from (2 * p) n)"
  by pat_completeness auto
termination by (relation "measure (\<lambda>(p, n). n - p)") auto

declare next_pow2_from.simps [simp del]

definition next_power_of_two :: "nat \<Rightarrow> nat" where
  "next_power_of_two n = next_pow2_from 1 n"

(* table.rs:284-290 next_power_of_two_capacity *)
definition next_power_of_two_capacity :: "nat \<Rightarrow> nat" where
  "next_power_of_two_capacity n =
     (if n = 0 then 0 else max (next_power_of_two ((n * 4 + 2) div 3)) 4)"

(* table.rs:208-215 LuaTable::update_hash_capacity *)
definition update_hash_capacity :: "lua_table \<Rightarrow> nat \<times> lua_table" where
  "update_hash_capacity t = (let needed = next_power_of_two_capacity (length (tab_hash t));
      t' = (if needed > tab_capacity t then t\<lparr>tab_capacity := needed\<rparr> else t)
    in (tab_capacity t', t'))"

text \<open>\<open>Vec::remove\<close>: the elements behind the removed one move down.\<close>

definition vec_remove :: "nat \<Rightarrow> 'a list \<Rightarrow> 'a list" where
  "vec_remove i xs = take i xs @ drop (Suc i) xs"

(* table.rs:217-232 LuaTable::rawremove *)
definition rawremove :: "lua_key \<Rightarrow> lua_table \<Rightarrow> lua_table" where
  "rawremove key t = (case key of
      KInt i \<Rightarrow> if in_array (tab_array t) i
        then t\<lparr>tab_array := vec_remove (nat (sint i - 1)) (tab_array t),
               tab_entries := tab_entries t - 1\<rparr>
        else if bt_get (tab_hash t) key = None then t
        else t\<lparr>tab_hash := bt_remove key (tab_hash t), tab_entries := tab_entries t - 1\<rparr>
    | _ \<Rightarrow> if bt_get (tab_hash t) key = None then t
        else t\<lparr>tab_hash := bt_remove key (tab_hash t), tab_entries := tab_entries t - 1\<rparr>)"

text \<open>The loop that pulls the keys behind the array's end out of the hash part.\<close>

definition next_index :: "lua_value list \<Rightarrow> lua_key" where
  "next_index arr = KInt (i64_of (int (length arr + 1)))"

(* table.rs:153-162 LuaTable::rawset_tracked *)
function consolidate :: "lua_value list \<Rightarrow> (lua_key \<times> lua_value) list
    \<Rightarrow> lua_value list \<times> (lua_key \<times> lua_value) list" where
  "consolidate arr h = (case bt_get h (next_index arr) of
      Some v \<Rightarrow> consolidate (arr @ [v]) (bt_remove (next_index arr) h)
    | None \<Rightarrow> (arr, h))"
  by pat_completeness auto
termination by (relation "measure (\<lambda>(arr, h). length h)") (auto simp: bt_remove_shrinks)

declare consolidate.simps [simp del]

(* table.rs:184-198 LuaTable::rawset_tracked *)
definition hash_set :: "lua_key \<Rightarrow> lua_value \<Rightarrow> lua_table \<Rightarrow> rawset_result \<times> lua_table" where
  "hash_set key v t = (let old_capacity = tab_capacity t;
      is_new = (bt_get (tab_hash t) key = None);
      t1 = t\<lparr>tab_hash := bt_insert key v (tab_hash t)\<rparr>
    in if is_new then
         (let r = update_hash_capacity (t1\<lparr>tab_entries := tab_entries t1 + 1\<rparr>)
          in (Inserted (fst r > old_capacity) (fst r), snd r))
       else (Updated, t1))"

(* table.rs:141-199 LuaTable::rawset_tracked *)
definition store_value :: "lua_key \<Rightarrow> lua_value \<Rightarrow> lua_table \<Rightarrow> rawset_result \<times> lua_table" where
  "store_value key v t = (case key of
      KInt i \<Rightarrow> if 1 \<le> sint i then
          (let n = nat (sint i) in
           if n \<le> length (tab_array t) + 1 then
             if n \<le> length (tab_array t)
             then (Updated, t\<lparr>tab_array := (tab_array t)[n - 1 := v]\<rparr>)
             else (let p = consolidate (tab_array t @ [v]) (tab_hash t);
                       t1 = t\<lparr>tab_array := fst p, tab_hash := snd p, tab_entries := tab_entries t + 1\<rparr>
                   in (Inserted False (tab_capacity t1), t1))
           else hash_set key v t)
        else hash_set key v t
    | _ \<Rightarrow> hash_set key v t)"

(* table.rs:122-206 LuaTable::rawset_tracked *)
definition rawset_tracked :: "lua_key \<Rightarrow> lua_value \<Rightarrow> lua_table \<Rightarrow> (lua_error + rawset_result) \<times> lua_table" where
  "rawset_tracked key v t =
     (if key = KInt i64_min then (Inl LuaErrorRuntime, t)
      else if v = VNil then (Inr Updated, rawremove key t)
      else (let r = store_value key v t in
        if tab_entries (snd r) > max_table_entries then (Inl LuaErrorMemory, snd r)
        else (Inr (fst r), snd r)))"

(* table.rs:118-120 LuaTable::rawset *)
definition rawset :: "lua_key \<Rightarrow> lua_value \<Rightarrow> lua_table \<Rightarrow> (lua_error + unit) \<times> lua_table" where
  "rawset key v t = (case rawset_tracked key v t of
      (Inl e, t') \<Rightarrow> (Inl e, t') | (Inr _, t') \<Rightarrow> (Inr (), t'))"

(* table.rs:234-236 LuaTable::length *)
definition table_length :: "lua_table \<Rightarrow> nat" where
  "table_length t = length (tab_array t)"

(* table.rs:263-275 LuaTable::sorted_keys *)
definition sorted_keys :: "lua_table \<Rightarrow> lua_value list" where
  "sorted_keys t = map (\<lambda>i. VInt (i64_of (int i))) [1..<length (tab_array t) + 1]
     @ map (\<lambda>kv. value_of_key (fst kv)) (tab_hash t)"

(* table.rs:238-261 LuaTable::next_sorted *)
definition next_sorted :: "lua_table \<Rightarrow> lua_key option \<Rightarrow> (lua_key \<times> lua_value) option" where
  "next_sorted t after = (let array_len = int (length (tab_array t));
      array_start = (case after of None \<Rightarrow> 1
        | Some (KInt i) \<Rightarrow> if 1 \<le> sint i \<and> sint i \<le> array_len then sint i + 1 else array_len + 1
        | Some _ \<Rightarrow> array_len + 1)
    in if array_start \<le> array_len
       then Some (KInt (i64_of array_start), tab_array t ! nat (array_start - 1))
       else (let it = (case after of None \<Rightarrow> tab_hash t
                | Some (KInt _) \<Rightarrow> tab_hash t
                | Some k \<Rightarrow> drop 1 (filter (\<lambda>kv. k \<le> fst kv) (tab_hash t)))
             in (case it of [] \<Rightarrow> None | kv # _ \<Rightarrow> Some kv)))"

section \<open>The invariant\<close>

definition split_inv :: "lua_value list \<Rightarrow> (lua_key \<times> lua_value) list \<Rightarrow> bool" where
  "split_inv arr h \<longleftrightarrow> VNil \<notin> set arr \<and> VNil \<notin> snd ` set h \<and> bt_sorted h
     \<and> (\<forall>i. in_array arr i \<longrightarrow> KInt i \<notin> fst ` set h)"

text \<open>
  No nil is stored; the hash keys are strictly ascending and none belongs in, or directly behind,
  the array part; the entry count is exact; the hash capacity covers the hash part.
\<close>

definition table_inv :: "lua_table \<Rightarrow> bool" where
  "table_inv t \<longleftrightarrow> split_inv (tab_array t) (tab_hash t)
     \<and> next_index (tab_array t) \<notin> fst ` set (tab_hash t)
     \<and> tab_entries t = length (tab_array t) + length (tab_hash t)
     \<and> next_power_of_two_capacity (length (tab_hash t)) \<le> tab_capacity t"

definition table_ok :: "lua_table \<Rightarrow> bool" where
  "table_ok t \<longleftrightarrow> table_inv t \<and> tab_entries t \<le> max_table_entries"

lemma table_inv_new: "table_ok new_table"
  by (simp add: table_ok_def table_inv_def split_inv_def new_table_def in_array_def
      next_power_of_two_capacity_def)

lemma in_array_next: "length arr + 1 < 2 ^ 63 \<Longrightarrow>
    in_array (arr @ [v]) i \<longleftrightarrow> in_array arr i \<or> KInt i = next_index arr"
proof -
  assume "length arr + 1 < 2 ^ 63"
  then have "in_i64 (int (length arr + 1))" by (rule in_i64_nat)
  then have "sint (i64_of (int (length arr + 1))) = int (length arr + 1)" by (rule sint_i64_of)
  then show ?thesis
    by (auto simp: in_array_def next_index_def simp flip: sint_eq_iff)
qed

lemma split_get_push:
  assumes "length arr + 1 < 2 ^ 63"
  shows "split_get (arr @ [v]) h key = (if key = next_index arr then Some v else split_get arr h key)"
proof -
  have s: "sint (i64_of (int (length arr + 1))) = int (length arr + 1)"
    by (rule sint_i64_of) (use assms in_i64_nat in blast)
  show ?thesis
  proof (cases key)
    case (KInt i)
    show ?thesis
    proof (cases "key = next_index arr")
      case True
      then show ?thesis using KInt s by (auto simp: split_get_def in_array_def next_index_def nth_append)
    next
      case False
      have "(arr @ [v]) ! nat (sint i - 1) = arr ! nat (sint i - 1)" if "in_array arr i"
        using that by (auto simp: in_array_def nth_append)
      then show ?thesis using KInt False in_array_next [OF assms, of v i]
        by (auto simp: split_get_def)
    qed
  qed (simp_all add: split_get_def next_index_def)
qed

lemma split_get_remove_next:
  assumes "bt_sorted h"
  shows "split_get arr (bt_remove k h) key
    = (if key = k \<and> \<not> (case key of KInt i \<Rightarrow> in_array arr i | _ \<Rightarrow> False) then None else split_get arr h key)"
  using assms by (auto simp: split_get_def bt_get_remove split: lua_key.splits)

lemma split_inv_push:
  assumes inv: "split_inv arr h" and v: "v \<noteq> VNil" and len: "length arr + 1 < 2 ^ 63"
  shows "split_inv (arr @ [v]) (bt_remove (next_index arr) h)"
proof -
  have s: "bt_sorted h" using inv by (simp add: split_inv_def)
  have "snd ` set (bt_remove (next_index arr) h) \<subseteq> snd ` set h"
    by (rule image_mono [OF bt_remove_set])
  moreover have "KInt i \<notin> fst ` set (bt_remove (next_index arr) h)" if i: "in_array (arr @ [v]) i" for i
  proof -
    have "in_array arr i \<or> KInt i = next_index arr" using i in_array_next [OF len] by simp
    then have "KInt i \<notin> fst ` set h \<or> KInt i = next_index arr" using inv by (auto simp: split_inv_def)
    then show ?thesis using bt_keys_remove [OF s] by auto
  qed
  ultimately show ?thesis
    using inv v s by (auto simp: split_inv_def bt_sorted_remove)
qed

lemma bt_remove_absent: "bt_get m k = None \<Longrightarrow> bt_remove k m = m"
  by (induction m) auto

text \<open>Consolidation changes neither the lookups nor the number of entries, and leaves no key
  directly behind the array.\<close>

lemma consolidate_correct:
  assumes "split_inv arr h" and "length arr + length h + 1 < 2 ^ 63"
  shows "split_inv (fst (consolidate arr h)) (snd (consolidate arr h))
    \<and> split_get (fst (consolidate arr h)) (snd (consolidate arr h)) = split_get arr h
    \<and> length (fst (consolidate arr h)) + length (snd (consolidate arr h)) = length arr + length h
    \<and> length (snd (consolidate arr h)) \<le> length h
    \<and> next_index (fst (consolidate arr h)) \<notin> fst ` set (snd (consolidate arr h))"
  using assms
proof (induction arr h rule: consolidate.induct)
  case (1 arr h)
  show ?case
  proof (cases "bt_get h (next_index arr)")
    case None
    then have "consolidate arr h = (arr, h)" by (subst consolidate.simps) simp
    then show ?thesis using "1.prems" None by (simp add: bt_get_None)
  next
    case (Some v)
    let ?a = "arr @ [v]" and ?h = "bt_remove (next_index arr) h"
    have v: "v \<noteq> VNil" using Some "1.prems"(1) bt_get_value by (fastforce simp: split_inv_def)
    have len: "length arr + 1 < 2 ^ 63" using "1.prems"(2) by linarith
    have hl: "length ?h = length h - 1" "length h \<noteq> 0" using Some by (auto simp: length_bt_remove)
    have inv: "split_inv ?a ?h" using "1.prems"(1) v len by (rule split_inv_push)
    have s: "bt_sorted h" using "1.prems"(1) by (simp add: split_inv_def)
    have nin: "\<not> in_array arr i" if "next_index arr = KInt i" for i
      using bt_get_key [OF Some] that "1.prems"(1) by (auto simp: split_inv_def)
    have "split_get ?a ?h key = split_get arr h key" for key
    proof (cases "key = next_index arr")
      case True
      have "split_get arr h (next_index arr) = Some v"
        using nin Some by (simp add: split_get_def next_index_def)
      then show ?thesis using True by (simp add: split_get_push [OF len])
    next
      case False
      then show ?thesis by (simp add: split_get_push [OF len] split_get_remove_next [OF s])
    qed
    then have g: "split_get ?a ?h = split_get arr h" by (rule ext)
    have "length ?a + length ?h + 1 < 2 ^ 63" using "1.prems"(2) hl by (cases h) auto
    note ih = "1.IH" [OF Some inv this]
    have step: "consolidate arr h = consolidate ?a ?h"
      using Some by (simp add: consolidate.simps [of arr h])
    show ?thesis unfolding step using ih g hl by auto
  qed
qed

lemma next_pow2_from_ge: "0 < p \<Longrightarrow> n \<le> next_pow2_from p n"
proof (induction p n rule: next_pow2_from.induct)
  case (1 p n)
  then show ?case by (cases "n \<le> p") (auto simp: next_pow2_from.simps [of p n])
qed

lemma next_pow2_from_mono: "m \<le> n \<Longrightarrow> next_pow2_from p m \<le> next_pow2_from p n"
proof (induction p n rule: next_pow2_from.induct)
  case (1 p n)
  have ge: "p \<le> next_pow2_from p n" for p
  proof (induction p n rule: next_pow2_from.induct)
    case (1 p n)
    then show ?case by (cases "n \<le> p \<or> p = 0") (auto simp: next_pow2_from.simps [of p n])
  qed
  show ?case
  proof (cases "m \<le> p \<or> p = 0")
    case True
    then show ?thesis using ge [of p] by (subst next_pow2_from.simps) auto
  next
    case False
    with 1 have "next_pow2_from (2 * p) m \<le> next_pow2_from (2 * p) n" by auto
    with False 1 show ?thesis by (simp add: next_pow2_from.simps [of p m] next_pow2_from.simps [of p n])
  qed
qed

lemma next_power_of_two_capacity_mono:
  "m \<le> n \<Longrightarrow> next_power_of_two_capacity m \<le> next_power_of_two_capacity n"
proof -
  assume mn: "m \<le> n"
  then have "(m * 4 + 2) div 3 \<le> (n * 4 + 2) div 3" by (intro div_le_mono) simp
  then have "next_power_of_two ((m * 4 + 2) div 3) \<le> next_power_of_two ((n * 4 + 2) div 3)"
    unfolding next_power_of_two_def by (rule next_pow2_from_mono)
  with mn show ?thesis by (auto simp: next_power_of_two_capacity_def)
qed


lemma capacity_after_insert:
  "fst (update_hash_capacity t) = tab_capacity (snd (update_hash_capacity t))"
  "tab_capacity t \<le> tab_capacity (snd (update_hash_capacity t))"
  "next_power_of_two_capacity (length (tab_hash t)) \<le> tab_capacity (snd (update_hash_capacity t))"
  "tab_array (snd (update_hash_capacity t)) = tab_array t"
  "tab_hash (snd (update_hash_capacity t)) = tab_hash t"
  "tab_entries (snd (update_hash_capacity t)) = tab_entries t"
  by (simp_all add: update_hash_capacity_def Let_def)

definition hash_bound_key :: "lua_value list \<Rightarrow> lua_key \<Rightarrow> bool" where
  "hash_bound_key arr key \<longleftrightarrow> key \<noteq> next_index arr \<and> (\<forall>i. key = KInt i \<longrightarrow> \<not> in_array arr i)"

lemma hash_set_fields:
  assumes "table_inv t"
  shows "tab_array (snd (hash_set key v t)) = tab_array t"
    and "tab_hash (snd (hash_set key v t)) = bt_insert key v (tab_hash t)"
    and "tab_entries (snd (hash_set key v t)) = length (tab_array t) + length (bt_insert key v (tab_hash t))"
    and "next_power_of_two_capacity (length (bt_insert key v (tab_hash t))) \<le> tab_capacity (snd (hash_set key v t))"
proof -
  have s: "bt_sorted (tab_hash t)" and e: "tab_entries t = length (tab_array t) + length (tab_hash t)"
    and c: "next_power_of_two_capacity (length (tab_hash t)) \<le> tab_capacity t"
    using assms by (simp_all add: table_inv_def split_inv_def)
  show "tab_array (snd (hash_set key v t)) = tab_array t"
    "tab_hash (snd (hash_set key v t)) = bt_insert key v (tab_hash t)"
    by (simp_all add: hash_set_def Let_def capacity_after_insert)
  show "tab_entries (snd (hash_set key v t)) = length (tab_array t) + length (bt_insert key v (tab_hash t))"
    by (simp add: hash_set_def Let_def capacity_after_insert length_bt_insert [OF s] e)
  show "next_power_of_two_capacity (length (bt_insert key v (tab_hash t))) \<le> tab_capacity (snd (hash_set key v t))"
  proof (cases "bt_get (tab_hash t) key = None")
    case True
    then show ?thesis
      using capacity_after_insert(3) [of "t\<lparr>tab_hash := bt_insert key v (tab_hash t), tab_entries := tab_entries t + 1\<rparr>"]
      by (simp add: hash_set_def Let_def)
  next
    case False
    then show ?thesis using c by (auto simp: hash_set_def Let_def length_bt_insert [OF s])
  qed
qed

lemma hash_set_inv:
  assumes "table_inv t" and "v \<noteq> VNil" and "hash_bound_key (tab_array t) key"
  shows "table_inv (snd (hash_set key v t))"
proof -
  have "VNil \<notin> snd ` set (bt_insert key v (tab_hash t))"
    using assms(1,2) bt_insert_values [of key v "tab_hash t"] by (auto simp: table_inv_def split_inv_def)
  then show ?thesis
    using assms hash_set_fields [OF assms(1), of key v]
    by (auto simp: table_inv_def split_inv_def bt_sorted_insert bt_keys_insert hash_bound_key_def)
qed

lemma hash_set_get:
  assumes "table_inv t" and "hash_bound_key (tab_array t) key"
  shows "table_get (snd (hash_set key v t)) k = (if k = key then Some v else table_get t k)"
  using assms(2) hash_set_fields [OF assms(1), of key v]
  by (auto simp: table_get_def split_get_def hash_bound_key_def split: lua_key.splits)

text \<open>The three places a value can go: an array slot, behind the array, the hash part.\<close>

lemma store_value_cases:
  assumes "length (tab_array t) + 1 < 2 ^ 63"
  obtains (slot) i where "key = KInt i" "in_array (tab_array t) i"
      "store_value key v t = (Updated, t\<lparr>tab_array := (tab_array t)[nat (sint i - 1) := v]\<rparr>)"
  | (push) "key = next_index (tab_array t)"
      "\<And>i. key = KInt i \<Longrightarrow> \<not> in_array (tab_array t) i"
      "store_value key v t = (let p = consolidate (tab_array t @ [v]) (tab_hash t);
         t1 = t\<lparr>tab_array := fst p, tab_hash := snd p, tab_entries := tab_entries t + 1\<rparr>
       in (Inserted False (tab_capacity t1), t1))"
  | (hash) "hash_bound_key (tab_array t) key" "store_value key v t = hash_set key v t"
proof (cases key)
  case (KInt i)
  have s: "sint (i64_of (int (length (tab_array t) + 1))) = int (length (tab_array t) + 1)"
    by (rule sint_i64_of) (use assms in_i64_nat in blast)
  have idx: "key = next_index (tab_array t) \<longleftrightarrow> sint i = int (length (tab_array t) + 1)"
    using KInt s by (auto simp: next_index_def simp flip: sint_eq_iff)
  consider "in_array (tab_array t) i" | "sint i = int (length (tab_array t) + 1)"
    | "\<not> in_array (tab_array t) i" "sint i \<noteq> int (length (tab_array t) + 1)" by blast
  then show ?thesis
  proof cases
    case 1
    moreover from 1 have "nat (sint i) - 1 = nat (sint i - 1)" by (auto simp: in_array_def)
    ultimately show ?thesis using KInt
      by (intro slot [of i]) (auto simp: store_value_def in_array_def Let_def)
  next
    case 2
    have eq: "store_value key v t = (let p = consolidate (tab_array t @ [v]) (tab_hash t);
         t1 = t\<lparr>tab_array := fst p, tab_hash := snd p, tab_entries := tab_entries t + 1\<rparr>
       in (Inserted False (tab_capacity t1), t1))"
      using KInt 2 by (simp add: store_value_def Let_def nat_add_distrib)
    show ?thesis
    proof (rule push [OF _ _ eq])
      show "key = next_index (tab_array t)" using idx 2 by simp
      show "\<not> in_array (tab_array t) j" if "key = KInt j" for j
        using that KInt 2 by (simp add: in_array_def)
    qed
  next
    case 3
    then have "hash_bound_key (tab_array t) key" using KInt idx by (simp add: hash_bound_key_def)
    moreover have "store_value key v t = hash_set key v t"
      using 3 KInt by (auto simp: store_value_def in_array_def Let_def)
    ultimately show ?thesis by (rule hash)
  qed
qed (use hash in \<open>auto simp: store_value_def hash_bound_key_def next_index_def\<close>)

lemma table_inv_lengths:
  assumes "table_ok t"
  shows "length (tab_array t) + length (tab_hash t) \<le> max_table_entries"
    and "length (tab_array t) + length (tab_hash t) + 2 < 2 ^ 63"
  using assms by (simp_all add: table_ok_def table_inv_def max_table_entries_def)

lemma store_value_push:
  assumes "table_ok t" and "v \<noteq> VNil"
  defines "p \<equiv> consolidate (tab_array t @ [v]) (tab_hash t)"
  shows "split_inv (fst p) (snd p)" "length (snd p) \<le> length (tab_hash t)"
    "split_get (fst p) (snd p) = split_get (tab_array t @ [v]) (tab_hash t)"
    "length (fst p) + length (snd p) = length (tab_array t) + length (tab_hash t) + 1"
    "next_index (fst p) \<notin> fst ` set (snd p)"
proof -
  have inv: "table_inv t" using assms(1) by (simp add: table_ok_def)
  have len: "length (tab_array t) + 1 < 2 ^ 63"
    using table_inv_lengths(2) [OF assms(1)] by linarith
  have "bt_remove (next_index (tab_array t)) (tab_hash t) = tab_hash t"
    using inv by (intro bt_remove_absent) (simp add: table_inv_def bt_get_None)
  then have 1: "split_inv (tab_array t @ [v]) (tab_hash t)"
    using split_inv_push [OF _ assms(2) len, of "tab_hash t"] inv by (simp add: table_inv_def)
  have 2: "length (tab_array t @ [v]) + length (tab_hash t) + 1 < 2 ^ 63"
    using table_inv_lengths(2) [OF assms(1)] by simp
  from consolidate_correct [OF 1 2]
  show "split_inv (fst p) (snd p)" "length (snd p) \<le> length (tab_hash t)"
    "split_get (fst p) (snd p) = split_get (tab_array t @ [v]) (tab_hash t)"
    "length (fst p) + length (snd p) = length (tab_array t) + length (tab_hash t) + 1"
    "next_index (fst p) \<notin> fst ` set (snd p)"
    by (simp_all add: p_def)
qed

lemma store_value_inv:
  assumes ok: "table_ok t" and v: "v \<noteq> VNil"
  shows "table_inv (snd (store_value key v t))"
proof -
  have inv: "table_inv t" using ok by (simp add: table_ok_def)
  have "length (tab_array t) + 1 < 2 ^ 63" using table_inv_lengths(2) [OF ok] by linarith
  then show ?thesis
  proof (cases rule: store_value_cases [where key = key and v = v])
    case (slot i)
    have "VNil \<notin> set ((tab_array t)[nat (sint i - 1) := v])"
      using inv v set_update_subset_insert [of "tab_array t" "nat (sint i - 1)" v]
      by (auto simp: table_inv_def split_inv_def)
    then show ?thesis using inv slot
      by (simp add: table_inv_def split_inv_def in_array_def next_index_def)
  next
    case push
    have "next_power_of_two_capacity (length (snd (consolidate (tab_array t @ [v]) (tab_hash t))))
      \<le> next_power_of_two_capacity (length (tab_hash t))"
      by (rule next_power_of_two_capacity_mono [OF store_value_push(2) [OF ok v]])
    then show ?thesis using push(3) inv store_value_push [OF ok v]
      by (simp add: table_inv_def Let_def)
  next
    case hash
    then show ?thesis using hash_set_inv [OF inv v] by simp
  qed
qed

lemma store_value_get:
  assumes ok: "table_ok t" and v: "v \<noteq> VNil"
  shows "table_get (snd (store_value key v t)) k = (if k = key then Some v else table_get t k)"
proof -
  have inv: "table_inv t" using ok by (simp add: table_ok_def)
  have len: "length (tab_array t) + 1 < 2 ^ 63" using table_inv_lengths(2) [OF ok] by linarith
  then show ?thesis
  proof (cases rule: store_value_cases [where key = key and v = v])
    case (slot i)
    have "(tab_array t)[nat (sint i - 1) := v] ! nat (sint j - 1)
        = (if j = i then v else tab_array t ! nat (sint j - 1))" if "in_array (tab_array t) j" for j
    proof -
      have "nat (sint i - 1) = nat (sint j - 1) \<longleftrightarrow> j = i"
        using that slot(2) by (auto simp: in_array_def simp flip: sint_eq_iff)
      then show ?thesis using slot(2) by (auto simp: nth_list_update in_array_def)
    qed
    then show ?thesis using slot
      by (auto simp: table_get_def split_get_def in_array_def split: lua_key.splits)
  next
    case push
    have "table_get (snd (store_value key v t)) k = split_get (tab_array t @ [v]) (tab_hash t) k"
      using push(3) store_value_push(3) [OF ok v] by (simp add: table_get_def Let_def)
    also have "\<dots> = (if k = key then Some v else table_get t k)"
      using push(1) by (simp add: split_get_push [OF len] table_get_def)
    finally show ?thesis .
  next
    case hash
    then show ?thesis using hash_set_get [OF inv] by simp
  qed
qed

lemma store_value_entries:
  assumes "table_ok t" and "v \<noteq> VNil"
  shows "tab_entries (snd (store_value key v t)) \<le> tab_entries t + 1"
proof -
  have inv: "table_inv t" using assms(1) by (simp add: table_ok_def)
  have "length (tab_array t) + 1 < 2 ^ 63" using table_inv_lengths(2) [OF assms(1)] by linarith
  then show ?thesis
  proof (cases rule: store_value_cases [where key = key and v = v])
    case hash
    then show ?thesis using inv hash_set_fields(3) [OF inv, of key v]
      by (auto simp: length_bt_insert table_inv_def split_inv_def)
  qed (simp_all add: Let_def)
qed

lemma rawset_tracked_store:
  assumes "key \<noteq> KInt i64_min" and "v \<noteq> VNil"
  shows "snd (rawset_tracked key v t) = snd (store_value key v t)"
    and "fst (rawset_tracked key v t) = (if tab_entries (snd (store_value key v t)) > max_table_entries
           then Inl LuaErrorMemory else Inr (fst (store_value key v t)))"
  using assms by (simp_all add: rawset_tracked_def Let_def)

lemma vec_remove_simps:
  "i < length xs \<Longrightarrow> length (vec_remove i xs) = length xs - 1"
  "set (vec_remove i xs) \<subseteq> set xs"
  "i < length xs \<Longrightarrow> j < length xs - 1 \<Longrightarrow> vec_remove i xs ! j = xs ! (if j < i then j else Suc j)"
  by (auto simp: vec_remove_def nth_append min_def dest: in_set_takeD in_set_dropD)

lemma next_power_of_two_capacity_remove:
  "next_power_of_two_capacity (length (bt_remove k h)) \<le> next_power_of_two_capacity (length h)"
  by (rule next_power_of_two_capacity_mono) (simp add: length_bt_remove)

text \<open>Removing from the hash part, and removing an array element.\<close>

lemma rawremove_cases:
  obtains (slot) i where "key = KInt i" "in_array (tab_array t) i"
      "rawremove key t = t\<lparr>tab_array := vec_remove (nat (sint i - 1)) (tab_array t),
          tab_entries := tab_entries t - 1\<rparr>"
  | (hash) "\<And>i. key = KInt i \<Longrightarrow> \<not> in_array (tab_array t) i"
      "rawremove key t = (if bt_get (tab_hash t) key = None then t
         else t\<lparr>tab_hash := bt_remove key (tab_hash t), tab_entries := tab_entries t - 1\<rparr>)"
  by (cases key) (auto simp: rawremove_def split: if_splits)

lemma rawremove_hash_inv:
  assumes inv: "table_inv t" and "bt_get (tab_hash t) key = Some v"
  shows "table_inv (t\<lparr>tab_hash := bt_remove key (tab_hash t), tab_entries := tab_entries t - 1\<rparr>)"
proof -
  have s: "bt_sorted (tab_hash t)" using inv by (simp add: table_inv_def split_inv_def)
  have "snd ` set (bt_remove key (tab_hash t)) \<subseteq> snd ` set (tab_hash t)"
    by (rule image_mono [OF bt_remove_set])
  moreover have "tab_hash t \<noteq> []" using assms(2) by auto
  moreover have "next_power_of_two_capacity (length (bt_remove key (tab_hash t))) \<le> tab_capacity t"
    using next_power_of_two_capacity_remove [of key "tab_hash t"] inv
    by (simp add: table_inv_def)
  ultimately show ?thesis
    using inv assms(2)
    by (auto simp: table_inv_def split_inv_def bt_keys_remove [OF s] bt_sorted_remove length_bt_remove
        Suc_le_eq)
qed

lemma rawremove_inv:
  assumes ok: "table_ok t"
  shows "table_ok (rawremove key t)"
proof -
  have inv: "table_inv t" using ok by (simp add: table_ok_def)
  show ?thesis
  proof (cases rule: rawremove_cases [of key t])
    case (slot i)
    let ?n = "length (tab_array t)"
    let ?a = "vec_remove (nat (sint i - 1)) (tab_array t)"
    have i: "nat (sint i - 1) < ?n" using slot(2) by (auto simp: in_array_def)
    have len: "length ?a = ?n - 1" "?n \<noteq> 0" using vec_remove_simps(1) [OF i] i by auto
    have "in_array ?a j \<Longrightarrow> in_array (tab_array t) j" for j using len by (auto simp: in_array_def)
    moreover have "in_array (tab_array t) (i64_of (int ?n))"
    proof -
      have "?n < 2 ^ 63" using table_inv_lengths(2) [OF ok] by linarith
      then have "sint (i64_of (int ?n)) = int ?n" by (simp add: in_i64_nat)
      then show ?thesis using len unfolding in_array_def by linarith
    qed
    then have "KInt (i64_of (int ?n)) \<notin> fst ` set (tab_hash t)"
      using inv by (simp add: table_inv_def split_inv_def)
    then have "next_index ?a \<notin> fst ` set (tab_hash t)" using len by (simp add: next_index_def)
    moreover have "tab_entries (rawremove key t) = length ?a + length (tab_hash t)"
      using slot(3) len inv by (cases "tab_array t") (simp_all add: table_inv_def)
    ultimately have "table_inv (rawremove key t)"
      using inv slot(3) vec_remove_simps(2) [of "nat (sint i - 1)" "tab_array t"]
      by (auto simp: table_inv_def split_inv_def)
    then show ?thesis using ok slot(3) by (simp add: table_ok_def le_trans [OF diff_le_self])
  next
    case hash
    then show ?thesis using rawremove_hash_inv [OF inv, of key] ok
      by (cases "bt_get (tab_hash t) key") (auto simp: table_ok_def)
  qed
qed

lemma rawremove_get_hash:
  assumes "table_ok t" and "\<And>i. key = KInt i \<Longrightarrow> \<not> in_array (tab_array t) i"
  shows "table_get (rawremove key t) = (table_get t)(key := None)"
proof (cases rule: rawremove_cases [of key t])
  case (slot i)
  then show ?thesis using assms(2) by auto
next
  case hash
  have "bt_sorted (tab_hash t)" using assms(1) by (simp add: table_ok_def table_inv_def split_inv_def)
  then show ?thesis using hash(2) assms(2)
    by (auto simp: table_get_def split_get_def bt_get_remove fun_eq_iff split: lua_key.splits)
qed

lemma rawremove_get_slot:
  assumes ok: "table_ok t" and i: "in_array (tab_array t) i"
  shows "table_get (rawremove (KInt i) t) (KInt j) =
    (if in_array (tab_array t) j
     then if sint j < sint i then table_get t (KInt j)
          else if sint j < int (length (tab_array t)) then table_get t (KInt (j + 1)) else None
     else table_get t (KInt j))"
proof -
  let ?n = "length (tab_array t)" and ?k = "nat (sint i - 1)"
  have k: "?k < ?n" using i by (auto simp: in_array_def)
  note len = vec_remove_simps(1) [OF k]
  have n: "?n < 2 ^ 63" using table_inv_lengths(2) [OF ok] by linarith
  have eq: "rawremove (KInt i) t
    = t\<lparr>tab_array := vec_remove ?k (tab_array t), tab_entries := tab_entries t - 1\<rparr>"
    using i by (simp add: rawremove_def)
  have hash: "bt_get (tab_hash t) (KInt j) = None" if "in_array (tab_array t) j"
    using ok that by (simp add: table_ok_def table_inv_def split_inv_def bt_get_None)
  have j1: "sint (j + 1) = sint j + 1" if "1 \<le> sint j" "sint j < int ?n"
  proof -
    have "in_i64 (sint j + 1)" using that n in_i64_nat [of "?n"] by (auto simp: in_i64_def)
    then have "sint (i64_of (sint j + 1)) = sint j + 1" by simp
    moreover have "i64_of (sint j + 1) = j + 1" by (simp add: i64_of_def)
    ultimately show ?thesis by simp
  qed
  show ?thesis
  proof (cases "in_array (tab_array t) j \<and> sint j < int ?n")
    case True
    then have "nat (sint j - 1) < ?n - 1" by (auto simp: in_array_def)
    note el = vec_remove_simps(3) [OF k this]
    have "nat (sint j - 1) < ?k \<longleftrightarrow> sint j < sint i" "Suc (nat (sint j - 1)) = nat (sint j)"
      using True i by (auto simp: in_array_def)
    then show ?thesis using True el len j1
      by (auto simp: eq table_get_def split_get_def in_array_def)
  next
    case False
    then show ?thesis using i len hash by (auto simp: eq table_get_def split_get_def in_array_def)
  qed
qed

text \<open>The keys of the iteration are exactly the keys that look up, each once.\<close>

lemma value_of_key_inject [simp]: "value_of_key a = value_of_key b \<longleftrightarrow> a = b"
  by (cases a; cases b) auto

lemma into_key_of_key [simp]: "into_key (value_of_key k) = Inr k"
  by (cases k) auto

definition array_keys :: "lua_value list \<Rightarrow> lua_key list" where
  "array_keys arr = map (\<lambda>i. KInt (i64_of (int i))) [1..<length arr + 1]"

lemma sorted_keys_eq: "sorted_keys t = map value_of_key (array_keys (tab_array t) @ map fst (tab_hash t))"
  by (simp add: sorted_keys_def array_keys_def)

lemma set_array_keys:
  assumes "length arr < 2 ^ 63"
  shows "KInt i \<in> set (array_keys arr) \<longleftrightarrow> in_array arr i"
proof
  assume "KInt i \<in> set (array_keys arr)"
  then obtain n where n: "1 \<le> n" "n \<le> length arr" "i = i64_of (int n)" by (auto simp: array_keys_def)
  then have "n < 2 ^ 63" using assms by linarith
  then show "in_array arr i" using n by (simp add: in_array_def in_i64_nat)
next
  assume i: "in_array arr i"
  then have "KInt i = KInt (i64_of (int (nat (sint i))))" by (simp add: in_array_def)
  moreover have "nat (sint i) \<in> set [1..<length arr + 1]" using i by (auto simp: in_array_def)
  ultimately show "KInt i \<in> set (array_keys arr)" unfolding array_keys_def set_map by (metis imageI)
qed

lemma distinct_array_keys:
  assumes "length arr < 2 ^ 63"
  shows "distinct (array_keys arr)"
proof -
  have "inj_on (\<lambda>i. KInt (i64_of (int i))) (set [1..<length arr + 1])"
  proof (rule inj_onI)
    fix x y assume a: "x \<in> set [1..<length arr + 1]" "y \<in> set [1..<length arr + 1]"
      "KInt (i64_of (int x)) = KInt (i64_of (int y))"
    then have "x < 2 ^ 63" "y < 2 ^ 63" using assms unfolding set_upt by simp_all
    then have "sint (i64_of (int x)) = int x" "sint (i64_of (int y)) = int y"
      using in_i64_nat sint_i64_of by blast+
    moreover from a(3) have "i64_of (int x) = i64_of (int y)" by (rule lua_key.inject(1) [THEN iffD1])
    ultimately show "x = y" by (metis of_nat_eq_iff)
  qed
  then show ?thesis unfolding array_keys_def by (simp add: distinct_map)
qed

lemma array_keys_ints: "k \<in> set (array_keys arr) \<Longrightarrow> \<exists>i. k = KInt i"
  by (auto simp: array_keys_def)

lemma sorted_keys_keys:
  assumes ok: "table_ok t"
  defines "ks \<equiv> array_keys (tab_array t) @ map fst (tab_hash t)"
  shows "distinct ks" and "k \<in> set ks \<longleftrightarrow> table_get t k \<noteq> None"
proof -
  have n: "length (tab_array t) < 2 ^ 63" using table_inv_lengths(2) [OF ok] by linarith
  have inv: "split_inv (tab_array t) (tab_hash t)" using ok by (simp add: table_ok_def table_inv_def)
  have "distinct (map fst (tab_hash t))"
    using inv strict_sorted_iff [of "map fst (tab_hash t)"] by (simp add: split_inv_def bt_sorted_def)
  moreover have "KInt i \<notin> fst ` set (tab_hash t)" if "KInt i \<in> set (array_keys (tab_array t))" for i
    using that inv set_array_keys [OF n] by (simp add: split_inv_def)
  then have "set (array_keys (tab_array t)) \<inter> fst ` set (tab_hash t) = {}"
    using array_keys_ints by (metis disjoint_iff)
  ultimately show "distinct ks"
    using distinct_array_keys [OF n] by (simp add: ks_def)
  have "k \<in> set (array_keys (tab_array t)) \<longleftrightarrow> (\<exists>i. k = KInt i \<and> in_array (tab_array t) i)"
    using set_array_keys [OF n] array_keys_ints by blast
  moreover have "k \<in> fst ` set (tab_hash t) \<longleftrightarrow> bt_get (tab_hash t) k \<noteq> None"
    by (simp add: bt_get_None)
  ultimately show "k \<in> set ks \<longleftrightarrow> table_get t k \<noteq> None"
    by (simp add: ks_def table_get_def split_get_def split: lua_key.split)
qed


section \<open>The interface clients rely on\<close>

text \<open>
  What the callers of \<open>rawset_tracked\<close> (table constructors, the JSON decoder, the canonical
  deserialiser, result tables) use of a table: below the entry limit a store keeps the table sound,
  answers for the stored key and no other, and takes one more entry at most.
\<close>

locale table_spec =
  fixes lookup :: "'t \<Rightarrow> 'k \<Rightarrow> 'v option"
    and store :: "'k \<Rightarrow> 'v \<Rightarrow> 't \<Rightarrow> 't"
    and sound :: "'t \<Rightarrow> bool"
    and entries :: "'t \<Rightarrow> nat"
    and limit :: nat
    and storable :: "'k \<Rightarrow> 'v \<Rightarrow> bool"
  assumes sound_store: "sound t \<Longrightarrow> storable k v \<Longrightarrow> entries t < limit \<Longrightarrow> sound (store k v t)"
    and lookup_store: "sound t \<Longrightarrow> storable k v \<Longrightarrow> lookup (store k v t) = (lookup t)(k \<mapsto> v)"
    and entries_store: "sound t \<Longrightarrow> storable k v \<Longrightarrow> entries (store k v t) \<le> entries t + 1"
begin

lemma store_all:
  assumes "sound t" and "\<forall>(k, v) \<in> set kvs. storable k v" and "entries t + length kvs \<le> limit"
  shows "sound (fold (\<lambda>(k, v). store k v) kvs t)
    \<and> lookup (fold (\<lambda>(k, v). store k v) kvs t) = lookup t ++ map_of (rev kvs)
    \<and> entries (fold (\<lambda>(k, v). store k v) kvs t) \<le> entries t + length kvs"
  using assms
proof (induction kvs arbitrary: t)
  case (Cons kv kvs)
  obtain k v where kv: "kv = (k, v)" by fastforce
  have s: "sound (store k v t)" "lookup (store k v t) = (lookup t)(k \<mapsto> v)"
    "entries (store k v t) \<le> entries t + 1"
    using Cons.prems kv sound_store lookup_store entries_store by auto
  have "entries (store k v t) + length kvs \<le> limit" using Cons.prems(3) s(3) by simp
  from Cons.IH [OF s(1) _ this] show ?case using Cons.prems(2) s kv
      by (auto simp: map_add_def fun_eq_iff split: option.splits)
qed simp

end

definition storable_entry :: "lua_key \<Rightarrow> lua_value \<Rightarrow> bool" where
  "storable_entry k v \<longleftrightarrow> k \<noteq> KInt i64_min \<and> v \<noteq> VNil"

interpretation lua_table_spec: table_spec table_get "\<lambda>k v t. snd (rawset_tracked k v t)"
  table_ok tab_entries max_table_entries storable_entry
proof
  fix t :: lua_table and k v
  assume ok: "table_ok t" and "storable_entry k v"
  then have kv: "k \<noteq> KInt i64_min" "v \<noteq> VNil" by (simp_all add: storable_entry_def)
  note eq = rawset_tracked_store(1) [OF kv]
  show "table_get (snd (rawset_tracked k v t)) = (table_get t)(k \<mapsto> v)"
    by (rule ext) (simp add: eq store_value_get [OF ok kv(2)])
  show le: "tab_entries (snd (rawset_tracked k v t)) \<le> tab_entries t + 1"
    unfolding eq by (rule store_value_entries [OF ok kv(2)])
  show "table_ok (snd (rawset_tracked k v t))" if "tab_entries t < max_table_entries"
    using le that store_value_inv [OF ok kv(2)] by (simp add: eq table_ok_def)
qed

section \<open>The table store\<close>

text \<open>
  \<open>Rc<RefCell<LuaTable>>\<close>: tables live in a store and values hold their addresses; the VM never
  frees one while a value can reach it, so the store only grows. A dangling address, which no
  operation creates, reads as an empty table.
\<close>

type_synonym table_store = "lua_table list"

definition deref :: "table_store \<Rightarrow> table_ref \<Rightarrow> lua_table" where
  "deref h r = (if r < length h then h ! r else new_table)"

definition store_ok :: "table_store \<Rightarrow> bool" where
  "store_ok h \<longleftrightarrow> (\<forall>t \<in> set h. table_ok t)"

lemma store_ok_deref: "store_ok h \<Longrightarrow> table_ok (deref h r)"
  by (simp add: store_ok_def deref_def table_inv_new)

lemma store_ok_update: "store_ok h \<Longrightarrow> table_ok t \<Longrightarrow> store_ok (h[r := t])"
  using set_update_subset_insert [of h r t] by (auto simp: store_ok_def)

lemma deref_update: "r < length h \<Longrightarrow> deref (h[r := t]) r' = (if r' = r then t else deref h r')"
  by (auto simp: deref_def)

lemma deref_alloc: "deref (h @ [t]) (length h) = t" "r < length h \<Longrightarrow> deref (h @ [t]) r = deref h r"
  by (simp_all add: deref_def nth_append)

(* value.rs:231-237 LuaValue::lua_len *)
definition lua_len :: "table_store \<Rightarrow> lua_value \<Rightarrow> lua_error + lua_value" where
  "lua_len h v = (case v of
      VStr s \<Rightarrow> Inr (VInt (i64_of (int (length s))))
    | VTable r \<Rightarrow> Inr (VInt (i64_of (int (table_length (deref h r)))))
    | _ \<Rightarrow> Inl LuaErrorType)"

section \<open>Properties\<close>

text \<open>C6: \<open>rawset_tracked\<close> keeps the table sound whatever it is given: the split into array and
  hash parts, the key order, the exact entry count and the capacity bound all survive, on the error
  branches too, and when it reports success the entry limit holds as well.\<close>

theorem rawset_tracked_sound:
  assumes "table_ok t"
  shows "table_inv (snd (rawset_tracked key v t))
    \<and> (\<forall>r. fst (rawset_tracked key v t) = Inr r \<longrightarrow> table_ok (snd (rawset_tracked key v t)))"
proof (cases "key = KInt i64_min \<or> v = VNil")
  case True
  then show ?thesis using assms rawremove_inv [OF assms, of key]
    by (auto simp: rawset_tracked_def table_ok_def)
next
  case False
  then show ?thesis using store_value_inv [OF assms, of v key] rawset_tracked_store [of key v t]
    by (auto simp: table_ok_def)
qed

theorem rawset_tracked_sound_witness:
  "table_inv (snd (rawset_tracked (KInt 1) (VBool True) new_table))"
  using rawset_tracked_sound [OF table_inv_new] by blast

text \<open>C11: Lookup after a store. Storing a non-nil value answers for that key with that value and
  for every other key as before, even though the store may have moved any number of keys from the
  hash part into the array part.\<close>

theorem get_after_rawset:
  assumes "table_ok t" and "key \<noteq> KInt i64_min" and "v \<noteq> VNil"
  shows "table_get (snd (rawset_tracked key v t)) = (table_get t)(key \<mapsto> v)"
  using lua_table_spec.lookup_store assms by (simp add: storable_entry_def)

theorem get_after_rawset_witness:
  "table_get (snd (rawset_tracked (KInt 7) (VBool True) new_table)) (KInt 7) = Some (VBool True)"
  using get_after_rawset [OF table_inv_new, of "KInt 7" "VBool True"] by simp

text \<open>C23: Storing nil is deletion, but not only deletion. For a key outside the array part the key
  alone disappears. For an array index \<open>i\<close> every later element moves down one place
  (\<open>Vec::remove\<close>): \<open>t[j]\<close> reads the old \<open>t[j+1]\<close> from \<open>i\<close> on, so \<open>t[i] = nil\<close> does not in
  general make \<open>t[i]\<close> nil.\<close>

theorem get_after_nil_store:
  assumes "table_ok t" and "key \<noteq> KInt i64_min"
  shows "table_get (snd (rawset_tracked key VNil t)) k =
    (case key of
       KInt i \<Rightarrow> if in_array (tab_array t) i then
           (case k of KInt j \<Rightarrow>
              if in_array (tab_array t) j \<and> sint i \<le> sint j
              then if sint j < int (length (tab_array t)) then table_get t (KInt (j + 1)) else None
              else table_get t k
            | _ \<Rightarrow> table_get t k)
         else if k = key then None else table_get t k
     | _ \<Rightarrow> if k = key then None else table_get t k)"
proof (cases "\<exists>i. key = KInt i \<and> in_array (tab_array t) i")
  case True
  then obtain i where i: "key = KInt i" "in_array (tab_array t) i" by blast
  show ?thesis using assms(2) i rawremove_get_slot [OF assms(1) i(2)]
    by (cases k) (auto simp: rawset_tracked_def rawremove_def table_get_def split_get_def)
next
  case False
  then have "table_get (rawremove key t) = (table_get t)(key := None)"
    by (intro rawremove_get_hash [OF assms(1)]) auto
  then show ?thesis using False assms(2)
    by (auto simp: rawset_tracked_def split: lua_key.splits)
qed

definition three_elements :: lua_table where
  "three_elements = \<lparr>tab_array = [VBool True, VBool False, VInt 3], tab_hash = [],
     tab_entries = 3, tab_capacity = 0\<rparr>"

lemma three_elements_ok: "table_ok three_elements"
  by (simp add: table_ok_def table_inv_def split_inv_def three_elements_def in_array_def
      next_power_of_two_capacity_def max_table_entries_def)

theorem get_after_nil_store_witness:
  "table_get (snd (rawset_tracked (KInt 2) VNil three_elements)) (KInt 2) = Some (VInt 3)"
  using get_after_nil_store [OF three_elements_ok, of "KInt 2" "KInt 2"]
  by (simp add: three_elements_def in_array_def table_get_def split_get_def)

text \<open>C16: Iteration visits every key of the table, and each exactly once: the key list a generic
  \<open>for\<close> walks is duplicate free and holds exactly the keys whose lookup is not nil.\<close>

theorem sorted_keys_complete:
  assumes "table_ok t"
  shows "distinct (sorted_keys t)
    \<and> (\<forall>k. value_of_key k \<in> set (sorted_keys t) \<longleftrightarrow> table_get t k \<noteq> None)"
proof -
  let ?ks = "array_keys (tab_array t) @ map fst (tab_hash t)"
  have inj: "inj value_of_key" by (simp add: inj_on_def)
  have eq: "sorted_keys t = map value_of_key ?ks" by (rule sorted_keys_eq)
  have "distinct (sorted_keys t)" unfolding eq distinct_map
    using sorted_keys_keys(1) [OF assms] inj_on_subset [OF inj] by blast
  moreover have "value_of_key k \<in> set (sorted_keys t) \<longleftrightarrow> k \<in> set ?ks" for k
    unfolding eq set_map by (rule inj_image_mem_iff [OF inj])
  ultimately show ?thesis using sorted_keys_keys(2) [OF assms] by blast
qed

theorem sorted_keys_complete_witness:
  "distinct (sorted_keys three_elements)
    \<and> (value_of_key (KInt 2) \<in> set (sorted_keys three_elements)
       \<longleftrightarrow> table_get three_elements (KInt 2) \<noteq> None)"
  using sorted_keys_complete [OF three_elements_ok] by blast



end
