(* ===== verification/Lua_Meters.thy ===== *)
theory Lua_Meters
  imports Lua_Values
begin

text \<open>
  \<open>src/vm/gas.rs\<close> and \<open>src/vm/memory.rs\<close>: the VM's errors, the gas meter and the memory meter.

  The \<open>u64\<close> counters are natural numbers; where the source saturates (\<open>MemoryMeter\<close>) the model
  does. The two meters share one contract, \<open>budget_meter\<close>: a charge that fits is booked exactly,
  one that does not is refused and leaves the meter exhausted.
\<close>

section \<open>Errors\<close>

(* gas.rs:36-55 VmError *)
datatype vm_error =
    GasExhausted
  | MemoryExhausted
  | CallDepthExceeded
  | TypeError string
  | RuntimeError lua_value
  | ToolError string
  | OutputExceeded
  | WithLine nat vm_error

(* gas.rs:57-66 VmError::is_unrecoverable *)
fun is_unrecoverable :: "vm_error \<Rightarrow> bool" where
  "is_unrecoverable GasExhausted = True"
| "is_unrecoverable MemoryExhausted = True"
| "is_unrecoverable OutputExceeded = True"
| "is_unrecoverable (WithLine _ inner) = is_unrecoverable inner"
| "is_unrecoverable _ = False"

section \<open>Gas\<close>

(* gas.rs:8-8 gas_cost::BASE_INSTRUCTION *)
definition BASE_INSTRUCTION :: nat where "BASE_INSTRUCTION = 1"
(* gas.rs:9-9 gas_cost::FUNCTION_CALL *)
definition FUNCTION_CALL :: nat where "FUNCTION_CALL = 10"
(* gas.rs:10-10 gas_cost::FUNCTION_RETURN *)
definition FUNCTION_RETURN :: nat where "FUNCTION_RETURN = 5"
(* gas.rs:11-11 gas_cost::PCALL_SETUP *)
definition PCALL_SETUP :: nat where "PCALL_SETUP = 15"
(* gas.rs:12-12 gas_cost::PCALL_UNWIND *)
definition PCALL_UNWIND :: nat where "PCALL_UNWIND = 10"
(* gas.rs:13-13 gas_cost::TABLE_ALLOC *)
definition TABLE_ALLOC :: nat where "TABLE_ALLOC = 20"
(* gas.rs:14-14 gas_cost::TABLE_GET *)
definition TABLE_GET :: nat where "TABLE_GET = 2"
(* gas.rs:15-15 gas_cost::TABLE_SET_EXISTING *)
definition TABLE_SET_EXISTING :: nat where "TABLE_SET_EXISTING = 2"
(* gas.rs:16-16 gas_cost::TABLE_SET_NEW_KEY *)
definition TABLE_SET_NEW_KEY :: nat where "TABLE_SET_NEW_KEY = 5"
(* gas.rs:17-17 gas_cost::ITER_SORTED_STEP *)
definition ITER_SORTED_STEP :: nat where "ITER_SORTED_STEP = 2"
(* gas.rs:18-18 gas_cost::ITER_ARRAY_STEP *)
definition ITER_ARRAY_STEP :: nat where "ITER_ARRAY_STEP = 1"
(* gas.rs:19-19 gas_cost::LEN *)
definition LEN_COST :: nat where "LEN_COST = 1"
(* gas.rs:20-20 gas_cost::TOOL_CALL_BASE *)
definition TOOL_CALL_BASE :: nat where "TOOL_CALL_BASE = 100"
(* gas.rs:21-21 gas_cost::LOG_BASE *)
definition LOG_BASE :: nat where "LOG_BASE = 10"
(* gas.rs:22-22 gas_cost::ERROR_RAISE *)
definition ERROR_RAISE :: nat where "ERROR_RAISE = 10"

lemmas gas_costs [simp] = BASE_INSTRUCTION_def FUNCTION_CALL_def FUNCTION_RETURN_def PCALL_SETUP_def
  PCALL_UNWIND_def TABLE_ALLOC_def TABLE_GET_def TABLE_SET_EXISTING_def
  TABLE_SET_NEW_KEY_def ITER_SORTED_STEP_def ITER_ARRAY_STEP_def LEN_COST_def
  TOOL_CALL_BASE_def LOG_BASE_def ERROR_RAISE_def

(* gas.rs:68-73 GasMeter *)
record gas_meter =
  gas_remaining :: nat
  gas_limit :: nat

(* gas.rs:76-82 GasMeter::new *)
definition new_gas_meter :: "nat \<Rightarrow> gas_meter" where
  "new_gas_meter limit = \<lparr>gas_remaining = limit, gas_limit = limit\<rparr>"

(* gas.rs:84-94 GasMeter::charge *)
definition gas_charge :: "nat \<Rightarrow> gas_meter \<Rightarrow> (vm_error + unit) \<times> gas_meter" where
  "gas_charge amount m =
     (if amount > gas_remaining m then (Inl GasExhausted, m\<lparr>gas_remaining := 0\<rparr>)
      else (Inr (), m\<lparr>gas_remaining := gas_remaining m - amount\<rparr>))"

(* gas.rs:101-104 GasMeter::used *)
definition gas_used :: "gas_meter \<Rightarrow> nat" where
  "gas_used m = gas_limit m - gas_remaining m"

section \<open>Memory\<close>

(* memory.rs:3-10 MemoryMeter *)
record memory_meter =
  mem_allocated :: nat
  mem_limit :: nat

definition u64_max :: nat where
  "u64_max = 18446744073709551615"

(* memory.rs:13-18 MemoryMeter::new *)
definition new_memory_meter :: "nat \<Rightarrow> memory_meter" where
  "new_memory_meter limit = \<lparr>mem_allocated = 0, mem_limit = limit\<rparr>"

(* memory.rs:20-29 MemoryMeter::track_alloc *)
definition track_alloc :: "nat \<Rightarrow> memory_meter \<Rightarrow> (vm_error + unit) \<times> memory_meter" where
  "track_alloc bytes m = (let m' = m\<lparr>mem_allocated := min (mem_allocated m + bytes) u64_max\<rparr> in
     if mem_allocated m' > mem_limit m' then (Inl MemoryExhausted, m') else (Inr (), m'))"

(* memory.rs:39-42 alloc_size::string *)
definition size_string :: "nat \<Rightarrow> nat" where "size_string len = 24 + len"
(* memory.rs:44-47 alloc_size::table_base *)
definition size_table_base :: nat where "size_table_base = 64"
(* memory.rs:49-52 alloc_size::table_hash_slot *)
definition size_table_hash_slot :: nat where "size_table_hash_slot = 40"
(* memory.rs:54-57 alloc_size::table_array_slot *)
definition size_table_array_slot :: nat where "size_table_array_slot = 16"
(* memory.rs:59-62 alloc_size::closure *)
definition size_closure :: "nat \<Rightarrow> nat" where "size_closure upvalue_count = 32 + upvalue_count * 8"
(* memory.rs:64-67 alloc_size::stack_frame *)
definition size_stack_frame :: "nat \<Rightarrow> nat" where "size_stack_frame local_count = 64 + local_count * 8"

section \<open>The contract of a meter\<close>

locale budget_meter =
  fixes charge :: "nat \<Rightarrow> 'm \<Rightarrow> ('e + unit) \<times> 'm"
    and spent :: "'m \<Rightarrow> nat"
    and budget :: "'m \<Rightarrow> nat"
    and sound :: "'m \<Rightarrow> bool"
  assumes charge_fits: "sound m \<Longrightarrow> spent m + n \<le> budget m \<Longrightarrow>
      \<exists>m'. charge n m = (Inr (), m') \<and> spent m' = spent m + n \<and> budget m' = budget m \<and> sound m'"
    and charge_refused: "sound m \<Longrightarrow> budget m < spent m + n \<Longrightarrow>
      \<exists>e m'. charge n m = (Inl e, m') \<and> budget m \<le> spent m' \<and> budget m' = budget m \<and> sound m'"
begin

text \<open>A run of charges, stopping at the first refusal.\<close>

primrec charge_all :: "nat list \<Rightarrow> 'm \<Rightarrow> ('e + unit) \<times> 'm" where
  "charge_all [] m = (Inr (), m)"
| "charge_all (n # ns) m = (case charge n m of (Inl e, m') \<Rightarrow> (Inl e, m')
     | (Inr _, m') \<Rightarrow> charge_all ns m')"

lemma charge_all_fits:
  "sound m \<Longrightarrow> spent m + sum_list ns \<le> budget m \<Longrightarrow>
    \<exists>m'. charge_all ns m = (Inr (), m') \<and> spent m' = spent m + sum_list ns \<and> budget m' = budget m \<and> sound m'"
proof (induction ns arbitrary: m)
  case (Cons n ns)
  have "spent m + n \<le> budget m" using Cons.prems(2) by simp
  from charge_fits [OF Cons.prems(1) this] obtain m' where m': "charge n m = (Inr (), m')"
    "spent m' = spent m + n" "budget m' = budget m" "sound m'" by blast
  have "spent m' + sum_list ns \<le> budget m'" using Cons.prems(2) m' by simp
  from Cons.IH [OF m'(4) this] show ?case using m' by (auto simp: add.assoc)
qed simp

lemma charge_all_refused:
  "sound m \<Longrightarrow> spent m \<le> budget m \<Longrightarrow> budget m < spent m + sum_list ns \<Longrightarrow>
    \<exists>e m'. charge_all ns m = (Inl e, m') \<and> budget m \<le> spent m'"
proof (induction ns arbitrary: m)
  case (Cons n ns)
  show ?case
  proof (cases "spent m + n \<le> budget m")
    case True
    from charge_fits [OF Cons.prems(1) this] obtain m' where m': "charge n m = (Inr (), m')"
      "spent m' = spent m + n" "budget m' = budget m" "sound m'" by blast
    have "spent m' \<le> budget m'" "budget m' < spent m' + sum_list ns"
      using Cons.prems(3) m' True by simp_all
    from Cons.IH [OF m'(4) this] show ?thesis using m' by auto
  next
    case False
    then obtain e m' where "charge n m = (Inl e, m')" "budget m \<le> spent m'"
      using charge_refused [OF Cons.prems(1), of n] by auto
    then show ?thesis by auto
  qed
qed simp

end

definition gas_sound :: "gas_meter \<Rightarrow> bool" where
  "gas_sound m \<longleftrightarrow> gas_remaining m \<le> gas_limit m"

text \<open>With the limit \<open>u64::MAX\<close> saturation makes the meter accept everything, so that one limit is
  outside the contract.\<close>

definition mem_sound :: "memory_meter \<Rightarrow> bool" where
  "mem_sound m \<longleftrightarrow> mem_limit m < u64_max"

interpretation gas_budget: budget_meter gas_charge gas_used gas_limit gas_sound
proof
  fix m n
  assume s: "gas_sound m"
  show "\<exists>m'. gas_charge n m = (Inr (), m') \<and> gas_used m' = gas_used m + n \<and>
      gas_limit m' = gas_limit m \<and> gas_sound m'" if "gas_used m + n \<le> gas_limit m"
    using s that by (auto simp: gas_charge_def gas_used_def gas_sound_def)
  show "\<exists>e m'. gas_charge n m = (Inl e, m') \<and> gas_limit m \<le> gas_used m' \<and>
      gas_limit m' = gas_limit m \<and> gas_sound m'" if "gas_limit m < gas_used m + n"
    using s that by (auto simp: gas_charge_def gas_used_def gas_sound_def)
qed

interpretation mem_budget: budget_meter track_alloc mem_allocated mem_limit mem_sound
proof
  fix m n
  assume s: "mem_sound m"
  show "\<exists>m'. track_alloc n m = (Inr (), m') \<and> mem_allocated m' = mem_allocated m + n \<and>
      mem_limit m' = mem_limit m \<and> mem_sound m'" if "mem_allocated m + n \<le> mem_limit m"
    using s that by (auto simp: track_alloc_def mem_sound_def Let_def)
  show "\<exists>e m'. track_alloc n m = (Inl e, m') \<and> mem_limit m \<le> mem_allocated m' \<and>
      mem_limit m' = mem_limit m \<and> mem_sound m'" if "mem_limit m < mem_allocated m + n"
    using s that by (auto simp: track_alloc_def mem_sound_def Let_def)
qed

section \<open>Properties\<close>

text \<open>C22: Memory accounting is a high-water mark: a charge never lowers the total, also when it is
  refused, and once the limit has been passed every later allocation is refused too, whatever its
  size, because the refused total stays on the meter.\<close>

theorem memory_refusal_sticks:
  assumes "fst (track_alloc bytes m) = Inl e" and "mem_allocated m \<le> u64_max"
  shows "e = MemoryExhausted \<and> mem_allocated m \<le> mem_allocated (snd (track_alloc bytes m))
    \<and> fst (track_alloc later (snd (track_alloc bytes m))) = Inl MemoryExhausted"
  using assms by (auto simp: track_alloc_def Let_def split: if_splits)

theorem memory_refusal_sticks_witness:
  "fst (track_alloc 0 (snd (track_alloc 11 (new_memory_meter 10)))) = Inl MemoryExhausted"
  using memory_refusal_sticks [of 11 "new_memory_meter 10" MemoryExhausted 0]
  by (simp add: track_alloc_def new_memory_meter_def u64_max_def)

text \<open>C21: Gas accounting is exact over any run of charges: the run goes through exactly when the
  sum of its charges fits in what is left, and then precisely that sum is booked; otherwise it ends
  in \<open>GasExhausted\<close> with nothing left.\<close>

theorem gas_run_exact:
  assumes "gas_sound m"
  shows "if gas_used m + sum_list ns \<le> gas_limit m
    then fst (gas_budget.charge_all ns m) = Inr ()
      \<and> gas_used (snd (gas_budget.charge_all ns m)) = gas_used m + sum_list ns
    else fst (gas_budget.charge_all ns m) = Inl GasExhausted
      \<and> gas_limit m \<le> gas_used (snd (gas_budget.charge_all ns m))"
proof (cases "gas_used m + sum_list ns \<le> gas_limit m")
  case True
  then show ?thesis using gas_budget.charge_all_fits [OF assms True] by auto
next
  case False
  have "gas_used m \<le> gas_limit m" by (simp add: gas_used_def)
  moreover have "fst (gas_budget.charge_all ns m) = Inl e \<Longrightarrow> e = GasExhausted" for e
    by (induction ns arbitrary: m) (auto simp: gas_charge_def split: if_splits)
  ultimately show ?thesis using gas_budget.charge_all_refused [OF assms, of ns] False by auto
qed

theorem gas_run_exact_witness:
  "fst (gas_budget.charge_all [1, 2] (new_gas_meter 3)) = Inr ()"
  using gas_run_exact [of "new_gas_meter 3" "[1, 2]"]
  by (simp add: new_gas_meter_def gas_sound_def gas_used_def)

end
