(* ===== verification/Lua_Runtime.thy ===== *)
theory Lua_Runtime
  imports Lua_Tables Lua_Meters
begin

text \<open>
  What a library function of the VM works on: the two meters and the store of tables. In the
  source these are the \<open>&mut GasMeter\<close>, \<open>&mut MemoryMeter\<close> arguments and the \<open>Rc\<close> heap; here they
  are one record, and the functions are state-passing operations over it. The shared order
  \<open>metered\<close> says what no such operation may break: gas is never given back, memory accounting never
  goes down, and no address is lost.
\<close>

record rt =
  rt_gas :: gas_meter
  rt_mem :: memory_meter
  rt_tables :: table_store

type_synonym 'a rt_op = "(rt, vm_error, 'a) op"

(* engine.rs:1462-1472 VmError::from *)
fun vm_error_of :: "lua_error \<Rightarrow> vm_error" where
  "vm_error_of LuaErrorType = TypeError ''type error''"
| "vm_error_of LuaErrorMemory = MemoryExhausted"
| "vm_error_of LuaErrorRuntime = RuntimeError (VStr ''runtime error'')"

definition lift_lua :: "lua_error + 'a \<Rightarrow> ('s, vm_error, 'a) op" where
  "lift_lua r = (case r of Inl e \<Rightarrow> fail (vm_error_of e) | Inr a \<Rightarrow> ret a)"

lemma lift_lua_simps [simp]:
  "lift_lua (Inl e) = fail (vm_error_of e)" "lift_lua (Inr a) = ret a"
  by (simp_all add: lift_lua_def)

definition charge :: "nat \<Rightarrow> unit rt_op" where
  "charge n s = (case gas_charge n (rt_gas s) of (r, g) \<Rightarrow>
     (case r of Inl e \<Rightarrow> Err e | Inr u \<Rightarrow> Ok u, s\<lparr>rt_gas := g\<rparr>))"

definition alloc :: "nat \<Rightarrow> unit rt_op" where
  "alloc n s = (case track_alloc n (rt_mem s) of (r, m) \<Rightarrow>
     (case r of Inl e \<Rightarrow> Err e | Inr u \<Rightarrow> Ok u, s\<lparr>rt_mem := m\<rparr>))"

text \<open>\<open>Rc::new(RefCell::new(t))\<close>, \<open>t.borrow()\<close> and a \<open>borrow_mut()\<close> that writes the table back.\<close>

definition rc_new :: "lua_table \<Rightarrow> table_ref rt_op" where
  "rc_new t s = (Ok (length (rt_tables s)), s\<lparr>rt_tables := rt_tables s @ [t]\<rparr>)"

definition borrow :: "table_ref \<Rightarrow> lua_table rt_op" where
  "borrow r = reads (\<lambda>s. deref (rt_tables s) r)"

definition put_table :: "table_ref \<Rightarrow> lua_table \<Rightarrow> unit rt_op" where
  "put_table r t = modifies (\<lambda>s. s\<lparr>rt_tables := (rt_tables s)[r := t]\<rparr>)"

definition get_entry :: "table_ref \<Rightarrow> lua_key \<Rightarrow> lua_value rt_op" where
  "get_entry r k = reads (\<lambda>s. case table_get (deref (rt_tables s) r) k of None \<Rightarrow> VNil | Some v \<Rightarrow> v)"

definition raw_store :: "table_ref \<Rightarrow> lua_key \<Rightarrow> lua_value \<Rightarrow> (rt, lua_error, rawset_result) op" where
  "raw_store r k v s = (case rawset_tracked k v (deref (rt_tables s) r) of (res, t) \<Rightarrow>
     (case res of Inl e \<Rightarrow> Err e | Inr x \<Rightarrow> Ok x, s\<lparr>rt_tables := (rt_tables s)[r := t]\<rparr>))"

definition map_err :: "('e \<Rightarrow> 'f) \<Rightarrow> ('s, 'e, 'a) op \<Rightarrow> ('s, 'f, 'a) op" where
  "map_err f m s = (case m s of (r, s') \<Rightarrow>
     (case r of Ok a \<Rightarrow> Ok a | Err e \<Rightarrow> Err (f e) | Panic p \<Rightarrow> Panic p | Timeout \<Rightarrow> Timeout, s'))"

text \<open>The metered store of the VM's \<open>SetTable\<close>/\<open>SetField\<close>; the same accounting, written out again,
  is in \<open>table.insert\<close> and the JSON decoder.\<close>

(* engine.rs:1068-1089 Vm::do_rawset *)
definition charge_rawset :: "nat \<Rightarrow> rawset_result \<Rightarrow> unit rt_op" where
  "charge_rawset old_cap res = (case res of
      Updated \<Rightarrow> charge TABLE_SET_EXISTING
    | Inserted grew new_hash_capacity \<Rightarrow> bnd (charge TABLE_SET_NEW_KEY) (\<lambda>_.
        if grew then bnd (charge new_hash_capacity) (\<lambda>_.
          alloc ((new_hash_capacity - old_cap) * size_table_hash_slot))
        else alloc size_table_array_slot))"

(* engine.rs:1055-1091 Vm::do_rawset *)
definition do_rawset :: "table_ref \<Rightarrow> lua_key \<Rightarrow> lua_value \<Rightarrow> unit rt_op" where
  "do_rawset r key v = bnd (borrow r) (\<lambda>t.
     bnd (map_err vm_error_of (raw_store r key v)) (charge_rawset (tab_capacity t)))"

section \<open>What every operation keeps\<close>

definition metered :: "rt \<Rightarrow> rt \<Rightarrow> bool" where
  "metered s t \<longleftrightarrow> gas_remaining (rt_gas t) \<le> gas_remaining (rt_gas s)
     \<and> gas_limit (rt_gas t) = gas_limit (rt_gas s)
     \<and> mem_limit (rt_mem t) = mem_limit (rt_mem s)
     \<and> min (mem_allocated (rt_mem s)) u64_max \<le> mem_allocated (rt_mem t)
     \<and> length (rt_tables s) \<le> length (rt_tables t)"

interpretation meter_order: step_preorder metered
  by unfold_locales (auto simp: metered_def)

lemmas [keeps_intros] = meter_order.closure

lemma keeps_charge [keeps_intros]: "keeps metered (charge n)"
  by (simp add: keeps_def charge_def gas_charge_def metered_def)

lemma keeps_alloc [keeps_intros]: "keeps metered (alloc n)"
  by (auto simp: keeps_def alloc_def track_alloc_def metered_def Let_def)

lemma keeps_rc_new [keeps_intros]: "keeps metered (rc_new t)"
  by (simp add: keeps_def rc_new_def metered_def)

lemma keeps_borrow [keeps_intros]: "keeps metered (borrow r)"
  by (simp add: borrow_def meter_order.reads)

lemma keeps_get_entry [keeps_intros]: "keeps metered (get_entry r k)"
  by (simp add: get_entry_def meter_order.reads)

lemma keeps_put_table [keeps_intros]: "keeps metered (put_table r t)"
  by (simp add: keeps_def put_table_def metered_def)

lemma keeps_raw_store [keeps_intros]: "keeps metered (raw_store r k v)"
  by (simp add: keeps_def raw_store_def metered_def split: prod.split sum.split)

lemma keeps_lift_lua [keeps_intros]: "keeps metered (lift_lua r)"
  by (cases r) (simp_all add: meter_order.ret meter_order.fail)

lemma keeps_map_err [keeps_intros]: "keeps R m \<Longrightarrow> keeps R (map_err f m)"
proof -
  assume k: "keeps R m"
  have "fst (map_err f m s) \<noteq> Timeout \<and> R s (snd (map_err f m s))" for s
  proof -
    obtain r s' where m: "m s = (r, s')" by fastforce
    show ?thesis using keepsD [OF k m] by (cases r) (simp_all add: map_err_def m)
  qed
  then show ?thesis by (simp add: keeps_def)
qed

lemma keeps_charge_rawset [keeps_intros]: "keeps metered (charge_rawset c res)"
  unfolding charge_rawset_def by (cases res) (auto intro!: keeps_intros)

lemma keeps_do_rawset [keeps_intros]: "keeps metered (do_rawset r k v)"
  unfolding do_rawset_def by (intro keeps_intros)

lemma charge_Ok: "charge n s = (Ok (), s') \<longleftrightarrow>
    n \<le> gas_remaining (rt_gas s)
    \<and> s' = s\<lparr>rt_gas := (rt_gas s)\<lparr>gas_remaining := gas_remaining (rt_gas s) - n\<rparr>\<rparr>"
  by (auto simp: charge_def gas_charge_def)

lemma charge_cases:
  obtains (paid) "n \<le> gas_remaining (rt_gas s)"
      "charge n s = (Ok (), s\<lparr>rt_gas := (rt_gas s)\<lparr>gas_remaining := gas_remaining (rt_gas s) - n\<rparr>\<rparr>)"
  | (refused) "gas_remaining (rt_gas s) < n"
      "charge n s = (Err GasExhausted, s\<lparr>rt_gas := (rt_gas s)\<lparr>gas_remaining := 0\<rparr>\<rparr>)"
  by (cases "n \<le> gas_remaining (rt_gas s)") (auto simp: charge_def gas_charge_def)

end
