(* ===== verification/Lua_Strings.thy ===== *)
theory Lua_Strings
  imports Lua_Runtime
begin

text \<open>
  \<open>src/vm/builtins.rs\<close>, first part: the argument helpers, the core functions (\<open>type\<close>,
  \<open>tostring\<close>, \<open>tonumber\<close>, \<open>select\<close>, \<open>unpack\<close>) and the \<open>string\<close> module.

  Each function is an operation on the runtime record. \<open>usize\<close> values are natural numbers.
  Where the source computes with plain \<open>+\<close>, \<open>-\<close> on \<open>i64\<close> the model panics on overflow, as the
  checked build of the source does; a release build would wrap instead.
\<close>

section \<open>Arguments and errors\<close>

(* builtins.rs:28-28 MAX_STRING_LEN *)
definition max_string_len :: nat where "max_string_len = 65536"

(* builtins.rs:171-173 runtime_err *)
definition runtime_err :: "string \<Rightarrow> vm_error" where
  "runtime_err msg = RuntimeError (VStr msg)"

definition type_err :: "string \<Rightarrow> string \<Rightarrow> lua_value \<Rightarrow> ('s, vm_error, 'a) op" where
  "type_err fname expected v = fail (TypeError (fname @ '': expected '' @ expected @ '', got '' @ type_name v))"

(* builtins.rs:120-128 require_arg *)
definition require_arg :: "lua_value list \<Rightarrow> nat \<Rightarrow> string \<Rightarrow> ('s, vm_error, lua_value) op" where
  "require_arg args idx fname = (if idx < length args then ret (args ! idx)
     else fail (RuntimeError (VStr (fname @ '': missing argument '' @ nat_to_string (idx + 1)))))"

(* builtins.rs:130-139 require_integer *)
definition require_integer :: "lua_value list \<Rightarrow> nat \<Rightarrow> string \<Rightarrow> ('s, vm_error, i64) op" where
  "require_integer args idx fname = bnd (require_arg args idx fname) (\<lambda>v. case v of
      VInt n \<Rightarrow> ret n | _ \<Rightarrow> type_err fname ''integer'' v)"

(* builtins.rs:141-154 require_string *)
definition require_string :: "lua_value list \<Rightarrow> nat \<Rightarrow> string \<Rightarrow> ('s, vm_error, lua_string) op" where
  "require_string args idx fname = bnd (require_arg args idx fname) (\<lambda>v. case v of
      VStr s \<Rightarrow> ret s | _ \<Rightarrow> type_err fname ''string'' v)"

(* builtins.rs:156-169 require_table *)
definition require_table :: "lua_value list \<Rightarrow> nat \<Rightarrow> string \<Rightarrow> ('s, vm_error, table_ref) op" where
  "require_table args idx fname = bnd (require_arg args idx fname) (\<lambda>v. case v of
      VTable t \<Rightarrow> ret t | _ \<Rightarrow> type_err fname ''table'' v)"

(* builtins.rs:175-181 check_string_len *)
definition check_string_len :: "nat \<Rightarrow> ('s, vm_error, unit) op" where
  "check_string_len len = (if len > max_string_len then fail (runtime_err ''string length overflow'')
     else ret ())"

(* builtins.rs:183-194 lua_str_idx *)
definition lua_str_idx :: "i64 \<Rightarrow> nat \<Rightarrow> ('s, vm_error, nat) op" where
  "lua_str_idx i len = (if 0 \<le> sint i then ret (min (nat (sint i) - 1) len)
     else bnd (checked_i64 (- sint i)) (\<lambda>a. ret (len - nat (sint a))))"

text \<open>An optional integer argument that has its own type error.\<close>

definition optional_integer :: "lua_value list \<Rightarrow> nat \<Rightarrow> string \<Rightarrow> string \<Rightarrow> i64 \<Rightarrow> ('s, vm_error, i64) op" where
  "optional_integer args idx fname arg d = (if idx < length args then
     (case args ! idx of VInt n \<Rightarrow> ret n
      | v \<Rightarrow> fail (TypeError (fname @ '': expected integer for '' @ arg @ '', got '' @ type_name v)))
     else ret d)"

text \<open>The argument helpers leave the state alone, so they keep any preorder.\<close>

context step_preorder
begin

lemma type_err: "keeps R (type_err f e v)"
  by (simp add: type_err_def fail)

lemma require_arg: "keeps R (require_arg args i f)"
  by (simp add: require_arg_def fail ret)

lemma require_integer: "keeps R (require_integer args i f)"
  unfolding require_integer_def
  by (rule bnd [OF require_arg]) (auto intro: type_err ret split: lua_value.split)

lemma require_string: "keeps R (require_string args i f)"
  unfolding require_string_def
  by (rule bnd [OF require_arg]) (auto intro: type_err ret split: lua_value.split)

lemma require_table: "keeps R (require_table args i f)"
  unfolding require_table_def
  by (rule bnd [OF require_arg]) (auto intro: type_err ret split: lua_value.split)

lemma optional_integer: "keeps R (optional_integer args i f a d)"
  by (auto simp: optional_integer_def intro!: ret fail split: lua_value.split)

lemma checked_i64: "keeps R (checked_i64 x)"
  by (simp add: checked_i64_def ret panic)

lemma check_string_len: "keeps R (check_string_len n)"
  by (simp add: check_string_len_def fail ret)

lemma lua_str_idx: "keeps R (lua_str_idx k n)"
  by (auto simp: lua_str_idx_def intro!: ret bnd checked_i64)

lemmas arguments = type_err require_arg require_integer require_string require_table
  optional_integer checked_i64 check_string_len lua_str_idx

end

lemmas [keeps_intros] = meter_order.arguments

section \<open>Core functions\<close>

(* builtins.rs:198-201 builtin_type *)
definition builtin_type :: "lua_value list \<Rightarrow> lua_value list rt_op" where
  "builtin_type args = bnd (require_arg args 0 ''type'') (\<lambda>v. ret [VStr (type_name v)])"

(* builtins.rs:203-206 builtin_tostring *)
definition builtin_tostring :: "lua_value list \<Rightarrow> lua_value list rt_op" where
  "builtin_tostring args = bnd (require_arg args 0 ''tostring'') (\<lambda>v. ret [VStr (to_lua_string v)])"

(* builtins.rs:208-223 builtin_tonumber *)
definition builtin_tonumber :: "lua_value list \<Rightarrow> lua_value list rt_op" where
  "builtin_tonumber args = bnd (require_arg args 0 ''tonumber'') (\<lambda>v. ret [case v of
      VInt n \<Rightarrow> v
    | VStr s \<Rightarrow> (case parse_i64 (str_trim (utf8_lossy s)) of Some n \<Rightarrow> VInt n | None \<Rightarrow> VNil)
    | _ \<Rightarrow> VNil])"

(* builtins.rs:225-249 builtin_select *)
definition builtin_select :: "lua_value list \<Rightarrow> lua_value list rt_op" where
  "builtin_select args = bnd (charge BASE_INSTRUCTION) (\<lambda>_.
     bnd (require_arg args 0 ''select'') (\<lambda>index.
     let rest = drop 1 args; len = int (length rest) in
     case index of
       VInt n \<Rightarrow> (let idx = (if sint n < 0 then len + sint n else sint n - 1) in
         if idx < 0 \<or> idx \<ge> len
         then fail (RuntimeError (VStr (''bad argument #1 to '' @ [CHR 0x27] @ ''select'' @ [CHR 0x27]
                @ '' (index out of range)'')))
         else ret [rest ! nat idx])
     | VStr s \<Rightarrow> if s = ''#'' then ret [VInt (i64_of len)]
         else type_err ''select'' (''integer or '' @ [CHR 0x27] @ ''#'' @ [CHR 0x27]) index
     | _ \<Rightarrow> type_err ''select'' (''integer or '' @ [CHR 0x27] @ ''#'' @ [CHR 0x27]) index))"

definition get_range :: "table_ref \<Rightarrow> int \<Rightarrow> int \<Rightarrow> lua_value list rt_op" where
  "get_range t i j = collect (\<lambda>k. get_entry t (KInt (i64_of k))) [i..j]"

(* builtins.rs:251-300 builtin_unpack *)
definition builtin_unpack :: "lua_value list \<Rightarrow> lua_value list rt_op" where
  "builtin_unpack args = bnd (require_table args 0 ''unpack'') (\<lambda>t.
     bnd (borrow t) (\<lambda>tab.
     bnd (optional_integer args 1 ''unpack'' ''i'' 1) (\<lambda>i.
     bnd (optional_integer args 2 ''unpack'' ''j'' (i64_of (int (table_length tab)))) (\<lambda>j.
     if sint i > sint j then ret []
     else bnd (checked_i64 (sint j - sint i)) (\<lambda>d.
       bnd (checked_i64 (sint d + 1)) (\<lambda>count.
       bnd (charge (1 + nat (sint count) * 2)) (\<lambda>_.
       get_range t (sint i) (sint j))))))))"

section \<open>The string module\<close>

(* builtins.rs:304-307 string_len *)
definition string_len :: "lua_value list \<Rightarrow> lua_value list rt_op" where
  "string_len args = bnd (require_string args 0 ''string.len'') (\<lambda>s.
     ret [VInt (i64_of (int (length s)))])"

text \<open>The exclusive end of a slice from a 1-based, possibly negative index.\<close>

(* builtins.rs:335-340 string_sub *)
definition slice_end :: "i64 \<Rightarrow> nat \<Rightarrow> ('s, vm_error, nat) op" where
  "slice_end j len = (if 0 \<le> sint j then ret (min (nat (sint j)) len)
     else bnd (checked_i64 (- sint j)) (\<lambda>a. let abs = nat (sint a) in
       ret (if abs > len then 0 else len - abs + 1)))"

(* builtins.rs:309-352 string_sub *)
definition string_sub :: "lua_value list \<Rightarrow> lua_value list rt_op" where
  "string_sub args = bnd (require_string args 0 ''string.sub'') (\<lambda>s.
     let len = length s in
     bnd (require_integer args 1 ''string.sub'') (\<lambda>i_raw.
     bnd (optional_integer args 2 ''string.sub'' ''j'' (i64_of (int len))) (\<lambda>j_raw.
     bnd (lua_str_idx i_raw len) (\<lambda>start.
     bnd (slice_end j_raw len) (\<lambda>end.
     if start \<ge> end then ret [VStr []]
     else bnd (charge (end - start)) (\<lambda>_.
       bnd (alloc (size_string (end - start))) (\<lambda>_.
       ret [VStr (take (end - start) (drop start s))])))))))"

(* builtins.rs:354-367 check_no_pattern_metachar *)
definition check_no_pattern_metachar :: "string \<Rightarrow> ('s, vm_error, unit) op" where
  "check_no_pattern_metachar pat =
     (if list_ex (\<lambda>b. b \<in> set ''^$()%.[]*+-?'') pat
      then fail (runtime_err ''string patterns not supported; use literal string.find only'')
      else ret ())"

(* builtins.rs:369-385 parse_find_init *)
definition parse_find_init :: "lua_value list \<Rightarrow> string \<Rightarrow> ('s, vm_error, nat) op" where
  "parse_find_init args fn_name = (if length args < 3 then ret 0
     else (case args ! 2 of
        VInt n \<Rightarrow> ret (if sint n < 1 then 0 else nat (sint n - 1))
      | v \<Rightarrow> fail (TypeError (fn_name @ '': expected integer for init, got '' @ type_name v))))"

(* builtins.rs:387-398 parse_find_plain *)
definition parse_find_plain :: "lua_value list \<Rightarrow> string \<Rightarrow> ('s, vm_error, bool) op" where
  "parse_find_plain args fn_name = (if length args \<le> 3 then ret False
     else (case args ! 3 of VBool b \<Rightarrow> ret b
      | v \<Rightarrow> fail (TypeError (fn_name @ '': expected boolean for plain, got '' @ type_name v))))"

text \<open>\<open>windows(n).position(|w| w == needle)\<close> for a non-empty needle.\<close>

fun window_position :: "string \<Rightarrow> string \<Rightarrow> nat option" where
  "window_position needle [] = None"
| "window_position needle (c # cs) =
     (if length needle \<le> length (c # cs) \<and> take (length needle) (c # cs) = needle then Some 0
      else map_option Suc (window_position needle cs))"

(* builtins.rs:400-436 literal_substring_search *)
definition literal_substring_search :: "string \<Rightarrow> string \<Rightarrow> nat \<Rightarrow> lua_value list rt_op" where
  "literal_substring_search haystack needle init = bnd (charge (length haystack)) (\<lambda>_.
     if needle = [] then (let pos = min init (length haystack) in
       ret [VInt (i64_of (int (pos + 1))), VInt (i64_of (int pos))])
     else if init > length haystack then ret [VNil, VNil]
     else (case window_position needle (drop init haystack) of
         Some offset \<Rightarrow> (let abs = init + offset in
           ret [VInt (i64_of (int (abs + 1))), VInt (i64_of (int (abs + length needle)))])
       | None \<Rightarrow> ret [VNil, VNil]))"

(* builtins.rs:438-450 string_find *)
definition string_find :: "lua_value list \<Rightarrow> lua_value list rt_op" where
  "string_find args = bnd (require_string args 0 ''string.find'') (\<lambda>s.
     bnd (require_string args 1 ''string.find'') (\<lambda>pat.
     bnd (parse_find_init args ''string.find'') (\<lambda>init.
     bnd (parse_find_plain args ''string.find'') (\<lambda>plain.
     bnd (if plain then ret () else check_no_pattern_metachar pat) (\<lambda>_.
     literal_substring_search s pat init)))))"

(* builtins.rs:452-461 string_find_literal *)
definition string_find_literal :: "lua_value list \<Rightarrow> lua_value list rt_op" where
  "string_find_literal args = bnd (require_string args 0 ''string.find_literal'') (\<lambda>s.
     bnd (require_string args 1 ''string.find_literal'') (\<lambda>needle.
     bnd (parse_find_init args ''string.find_literal'') (\<lambda>init.
     literal_substring_search s needle init)))"

definition ascii_upper :: "char \<Rightarrow> char" where
  "ascii_upper c = (let b = byte_of c in if 97 \<le> b \<and> b \<le> 122 then char_of (b - 32) else c)"

definition ascii_lower :: "char \<Rightarrow> char" where
  "ascii_lower c = (let b = byte_of c in if 65 \<le> b \<and> b \<le> 90 then char_of (b + 32) else c)"

(* builtins.rs:463-477 string_upper *)
definition string_upper :: "lua_value list \<Rightarrow> lua_value list rt_op" where
  "string_upper args = bnd (require_string args 0 ''string.upper'') (\<lambda>s.
     bnd (charge (length s)) (\<lambda>_. bnd (alloc (size_string (length s))) (\<lambda>_.
     ret [VStr (map ascii_upper s)])))"

(* builtins.rs:479-493 string_lower *)
definition string_lower :: "lua_value list \<Rightarrow> lua_value list rt_op" where
  "string_lower args = bnd (require_string args 0 ''string.lower'') (\<lambda>s.
     bnd (charge (length s)) (\<lambda>_. bnd (alloc (size_string (length s))) (\<lambda>_.
     ret [VStr (map ascii_lower s)])))"

(* builtins.rs:495-518 string_rep *)
definition string_rep :: "lua_value list \<Rightarrow> lua_value list rt_op" where
  "string_rep args = bnd (require_string args 0 ''string.rep'') (\<lambda>s.
     bnd (require_integer args 1 ''string.rep'') (\<lambda>n.
     if sint n \<le> 0 then ret [VStr []]
     else (let n = nat (sint n); result_len = min (length s * n) u64_max in
       bnd (check_string_len result_len) (\<lambda>_.
       bnd (charge (length s * n)) (\<lambda>_.
       bnd (alloc (size_string result_len)) (\<lambda>_.
       ret [VStr (concat (replicate n s))]))))))"

(* builtins.rs:520-558 string_byte *)
definition string_byte :: "lua_value list \<Rightarrow> lua_value list rt_op" where
  "string_byte args = bnd (require_string args 0 ''string.byte'') (\<lambda>s.
     let len = length s in
     bnd (if length args \<ge> 2 then require_integer args 1 ''string.byte'' else ret 1) (\<lambda>i_raw.
     let j_raw = (if length args \<ge> 3 then (case args ! 2 of VInt n \<Rightarrow> n | _ \<Rightarrow> i_raw) else i_raw) in
     bnd (lua_str_idx i_raw len) (\<lambda>start.
     bnd (slice_end j_raw len) (\<lambda>end.
     if start \<ge> end then ret []
     else bnd (charge (end - start)) (\<lambda>_.
       ret (map (\<lambda>b. VInt (i64_of (int (byte_of b)))) (take (end - start) (drop start s))))))))"

text \<open>The loop of \<open>string.char\<close>; the first argument is the argument's position, from 1.\<close>

(* builtins.rs:568-588 string_char *)
fun char_bytes :: "nat \<Rightarrow> lua_value list \<Rightarrow> ('s, vm_error, string) op" where
  "char_bytes i [] = ret []"
| "char_bytes i (VInt n # args) = (if sint n < 0 \<or> sint n > 255
     then fail (TypeError (''string.char: argument '' @ nat_to_string i @ '' out of range (''
       @ i64_to_string n @ '')''))
     else bnd (char_bytes (i + 1) args) (\<lambda>cs. ret (char_of (nat (sint n)) # cs)))"
| "char_bytes i (v # args) = type_err ''string.char'' ''integer'' v"

(* builtins.rs:560-590 string_char *)
definition string_char :: "lua_value list \<Rightarrow> lua_value list rt_op" where
  "string_char args = bnd (charge (length args)) (\<lambda>_.
     bnd (alloc (size_string (length args))) (\<lambda>_.
     bnd (char_bytes 1 args) (\<lambda>cs. ret [VStr cs])))"

end
