(* ===== verification/Lua_Format.thy ===== *)
theory Lua_Format
  imports Lua_Strings
begin

text \<open>
  \<open>src/vm/builtins.rs\<close>, \<open>string.format\<close>: the specifier parser and the formatting of one argument.
  The source walks the format string with an index; the model walks the remaining suffix, and keeps
  the text of the current specifier where an error message quotes it.
\<close>

(* builtins.rs:592-593 FORMAT_SUPPORTED *)
definition format_supported :: string where
  "format_supported = ''supported: %d, %x and %s, with flags '' @ [CHR 0x27] @ ''-'' @ [CHR 0x27]
     @ '' and '' @ [CHR 0x27] @ ''0'' @ [CHR 0x27] @ '' (not '' @ [CHR 0x27] @ ''0'' @ [CHR 0x27]
     @ '' on %s), a width and a precision of at most 2 digits each, and %%''"

definition quoted :: "string \<Rightarrow> string" where
  "quoted s = [CHR 0x27] @ s @ [CHR 0x27]"

definition is_ascii_digit :: "char \<Rightarrow> bool" where
  "is_ascii_digit c \<longleftrightarrow> 48 \<le> byte_of c \<and> byte_of c \<le> 57"

(* builtins.rs:595-612 format_read_number *)
definition format_read_number :: "string \<Rightarrow> vm_error + nat option \<times> string" where
  "format_read_number s = (let digits = takeWhile is_ascii_digit s in
     if length digits > 2 then
       Inl (runtime_err (''string.format: width or precision '' @ quoted (utf8_lossy digits)
         @ '' is too long; '' @ format_supported))
     else Inr (fold (\<lambda>d acc. Some ((case acc of None \<Rightarrow> 0 | Some a \<Rightarrow> a) * 10 + (byte_of d - 48))) digits None,
               dropWhile is_ascii_digit s))"

record format_spec =
  spec_left :: bool
  spec_zero :: bool
  spec_width :: "nat option"
  spec_precision :: "nat option"

definition spec_flag :: "char \<Rightarrow> bool" where
  "spec_flag c \<longleftrightarrow> c = CHR ''-'' \<or> c = CHR ''0''"

text \<open>The text behind \<open>%\<close>: flags, width and precision; what is left starts with the conversion.\<close>

(* builtins.rs:643-659 string_format *)
definition parse_spec :: "string \<Rightarrow> vm_error + format_spec \<times> string" where
  "parse_spec s = (let flags = takeWhile spec_flag s; rest = dropWhile spec_flag s in
     case format_read_number rest of Inl e \<Rightarrow> Inl e
     | Inr (width, rest) \<Rightarrow>
       (let spec = \<lparr>spec_left = CHR ''-'' \<in> set flags, spec_zero = CHR ''0'' \<in> set flags,
                    spec_width = width, spec_precision = None\<rparr> in
        if rest \<noteq> [] \<and> hd rest = CHR ''.'' then
          (case format_read_number (tl rest) of Inl e \<Rightarrow> Inl e
           | Inr (p, rest) \<Rightarrow> Inr (spec\<lparr>spec_precision := Some (case p of None \<Rightarrow> 0 | Some n \<Rightarrow> n)\<rparr>, rest))
        else Inr (spec, rest)))"

definition zeros :: "nat \<Rightarrow> string" where
  "zeros n = replicate n (CHR ''0'')"

(* builtins.rs:670-702 string_format *)
definition format_integer :: "format_spec \<Rightarrow> char \<Rightarrow> i64 \<Rightarrow> string" where
  "format_integer spec conv n = (let
      negative = (conv = CHR ''d'' \<and> sint n < 0);
      digits = (if conv = CHR ''d'' then nat_to_string (nat \<bar>sint n\<bar>) else nat_radix 16 (unat n));
      sign = (if negative then ''-'' else [])
    in case spec_precision spec of
        Some p \<Rightarrow> if p = 0 \<and> n = 0 then sign else sign @ zeros (p - length digits) @ digits
      | None \<Rightarrow>
        (let pad = (if spec_zero spec \<and> \<not> spec_left spec
              then (case spec_width spec of None \<Rightarrow> 0 | Some w \<Rightarrow> w) - (length sign + length digits) else 0)
         in sign @ zeros pad @ digits))"

text \<open>One conversion. \<open>text\<close> is the specifier as written, for the error message; the new argument
  index is returned with the bytes.\<close>

(* builtins.rs:669-733 string_format *)
definition format_directive :: "lua_value list \<Rightarrow> nat \<Rightarrow> format_spec \<Rightarrow> char \<Rightarrow> string
    \<Rightarrow> ('s, vm_error, string \<times> nat) op" where
  "format_directive args arg_idx spec conv text =
     (if conv \<in> set ''dx'' then
        bnd (require_integer args arg_idx ''string.format'') (\<lambda>n.
        ret (format_integer spec conv n, arg_idx + 1))
      else if conv = CHR ''s'' then
        (if spec_zero spec then
           fail (runtime_err (''string.format: flag '' @ quoted ''0'' @ '' is not valid with ''
             @ quoted ''%s'' @ ''; '' @ format_supported))
         else bnd (require_arg args arg_idx ''string.format'') (\<lambda>v.
           let bytes = to_lua_string v in
           ret (case spec_precision spec of None \<Rightarrow> bytes | Some p \<Rightarrow> take (min p (length bytes)) bytes,
                arg_idx + 1)))
      else if conv \<in> set ''fFeEgGaA'' then
        fail (runtime_err (''string.format: '' @ quoted (''%'' @ [conv])
          @ '' needs a float, and the VM has no floats. A non-integer number is a decimal string such as ''
          @ [CHR 0x22] @ ''2550.75'' @ [CHR 0x22] @ '': print it with %s, or scale it to an integer ''
          @ ''(cents) and print that with decimal.format(value, scale) or %d''))
      else fail (runtime_err (''string.format: unsupported format specifier ''
          @ quoted (utf8_lossy text) @ ''; '' @ format_supported)))"

(* builtins.rs:735-742 string_format *)
definition pad_field :: "format_spec \<Rightarrow> string \<Rightarrow> string" where
  "pad_field spec body = (let pad = (case spec_width spec of None \<Rightarrow> 0 | Some w \<Rightarrow> w) - length body in
     if spec_left spec then body @ replicate pad (CHR '' '') else replicate pad (CHR '' '') @ body)"

text \<open>A specifier: the padded field, the new argument index and what follows it.\<close>

(* builtins.rs:642-742 string_format *)
definition format_field :: "lua_value list \<Rightarrow> nat \<Rightarrow> string
    \<Rightarrow> ('s, vm_error, string \<times> nat \<times> string) op" where
  "format_field args arg_idx s = (case parse_spec s of Inl e \<Rightarrow> fail e
     | Inr (spec, []) \<Rightarrow>
        fail (runtime_err (''string.format: incomplete format specifier ''
          @ quoted (utf8_lossy (CHR ''%'' # s)) @ ''; '' @ format_supported))
     | Inr (spec, conv # rest) \<Rightarrow>
        bnd (format_directive args arg_idx spec conv
               (CHR ''%'' # take (length s - length rest) s)) (\<lambda>(body, arg_idx').
        ret (pad_field spec body, arg_idx', rest)))"

lemma format_read_number_shorter:
  "format_read_number s = Inr (n, rest) \<Longrightarrow> length rest \<le> length s"
  by (auto simp: format_read_number_def Let_def length_dropWhile_le split: if_splits)

lemma parse_spec_shorter: "parse_spec s = Inr (spec, rest) \<Longrightarrow> length rest \<le> length s"
  using length_dropWhile_le [of spec_flag s]
  by (auto simp: parse_spec_def Let_def split: sum.splits prod.splits if_splits
      dest!: format_read_number_shorter)

lemma format_field_shorter:
  assumes "format_field args k s st = (Ok (field, k', rest), st')"
  shows "length rest < length s" and "st' = st"
  using assms
  by (auto simp: format_field_def bnd_Ok_iff format_directive_def require_integer_def require_arg_def
      type_err_def Let_def split: sum.splits prod.splits list.splits if_splits lua_value.splits
      dest!: parse_spec_shorter)

text \<open>The main loop, over the rest of the format string, with the result so far.\<close>

(* builtins.rs:622-744 string_format *)
function format_loop :: "lua_value list \<Rightarrow> nat \<Rightarrow> string \<Rightarrow> string \<Rightarrow> (vm_error, string) outcome" where
  "format_loop args arg_idx result fmt = (case fmt of
      [] \<Rightarrow> Ok result
    | c # s \<Rightarrow>
      if c \<noteq> CHR ''%'' then format_loop args arg_idx (result @ [c]) s
      else if s = [] then Err (runtime_err ''string.format: trailing % in format string'')
      else if hd s = CHR ''%'' then format_loop args arg_idx (result @ ''%'') (tl s)
      else (case format_field args arg_idx s () of
          (Ok (field, arg_idx', rest), _) \<Rightarrow>
            (if length (result @ field) > max_string_len
             then Err (runtime_err ''string length overflow'')
             else format_loop args arg_idx' (result @ field) rest)
        | (Err e, _) \<Rightarrow> Err e
        | (Panic p, _) \<Rightarrow> Panic p
        | (Timeout, _) \<Rightarrow> Timeout))"
  by pat_completeness auto
termination
  by (relation "measure (\<lambda>(_, _, _, fmt). length fmt)")
    (auto dest!: sym [THEN format_field_shorter(1)])

declare format_loop.simps [simp del]

text \<open>A specifier needs no state; that it comes to an end is \<open>keeps\<close> for the trivial order.\<close>

interpretation any_order: step_preorder "\<lambda>_ _. True"
  by unfold_locales simp_all

lemma format_field_returns: "fst (format_field args k s (st :: 's)) \<noteq> Timeout"
proof -
  have d: "keeps (\<lambda>(_ :: 's) _. True) (format_directive args k spec conv w)" for spec conv w
    unfolding format_directive_def Let_def
    by (auto intro!: any_order.bnd any_order.arguments any_order.closure)
  have "keeps (\<lambda>(_ :: 's) _. True) (format_field args k s)"
    unfolding format_field_def
    by (auto intro!: any_order.bnd any_order.closure d split: sum.split prod.split list.split)
  then show ?thesis by (simp add: keeps_def)
qed

lemma format_loop_returns: "format_loop args k result fmt \<noteq> Timeout"
proof (induction "length fmt" arbitrary: k result fmt rule: less_induct)
  case less
  show ?case
  proof (cases fmt)
    case Nil
    then show ?thesis by (simp add: format_loop.simps)
  next
    case (Cons c s)
    obtain r u where f: "format_field args k s () = (r, u)" by (rule prod.exhaust)
    have "r \<noteq> Timeout" using format_field_returns [of args k s "()"] f by simp
    moreover have "format_loop args k' result' rest \<noteq> Timeout" if "length rest < length fmt" for k' result' rest
      using less.hyps that by blast
    ultimately show ?thesis using Cons f format_field_shorter(1) [of args k s "()"]
      by (subst format_loop.simps) (auto split: outcome.split)
  qed
qed

(* builtins.rs:614-751 string_format *)
definition string_format :: "lua_value list \<Rightarrow> lua_value list rt_op" where
  "string_format args = bnd (require_string args 0 ''string.format'') (\<lambda>fmt.
     bnd (lift_outcome (format_loop args 1 [] fmt)) (\<lambda>result.
     bnd (check_string_len (length result)) (\<lambda>_.
     bnd (charge (length result)) (\<lambda>_.
     bnd (alloc (size_string (length result))) (\<lambda>_.
     ret [VStr result])))))"

end
