(* ===== verification/Lua_Decimal.thy ===== *)
theory Lua_Decimal
  imports Lua_Format
begin

text \<open>
  \<open>src/vm/builtins.rs\<close>, the \<open>math\<close> and \<open>decimal\<close> modules. \<open>i128\<close> intermediates are integers: no
  product of two \<open>i64\<close> leaves the \<open>i128\<close> range.
\<close>

section \<open>The math module\<close>

(* builtins.rs:755-758 math_abs *)
definition math_abs :: "lua_value list \<Rightarrow> lua_value list rt_op" where
  "math_abs args = bnd (require_integer args 0 ''math.abs'') (\<lambda>n.
     ret [VInt (if sint n < 0 then - n else n)])"

text \<open>The loops of \<open>math.min\<close> and \<open>math.max\<close>: \<open>better n result\<close> says that \<open>n\<close> replaces it.\<close>

(* builtins.rs:765-779 math_min *)
fun pick_integer :: "string \<Rightarrow> (i64 \<Rightarrow> i64 \<Rightarrow> bool) \<Rightarrow> i64 \<Rightarrow> lua_value list \<Rightarrow> ('s, vm_error, i64) op" where
  "pick_integer fname better result [] = ret result"
| "pick_integer fname better result (v # vs) = (case v of
      VInt n \<Rightarrow> pick_integer fname better (if better n result then n else result) vs
    | _ \<Rightarrow> type_err fname ''integer'' v)"

(* builtins.rs:760-781 math_min *)
definition math_min :: "lua_value list \<Rightarrow> lua_value list rt_op" where
  "math_min args = (if args = [] then fail (runtime_err ''math.min: at least one argument required'')
     else bnd (require_integer args 0 ''math.min'') (\<lambda>n.
       bnd (pick_integer ''math.min'' (\<lambda>n r. sint n < sint r) n (tl args)) (\<lambda>r. ret [VInt r])))"

(* builtins.rs:783-803 math_max *)
definition math_max :: "lua_value list \<Rightarrow> lua_value list rt_op" where
  "math_max args = (if args = [] then fail (runtime_err ''math.max: at least one argument required'')
     else bnd (require_integer args 0 ''math.max'') (\<lambda>n.
       bnd (pick_integer ''math.max'' (\<lambda>n r. sint n > sint r) n (tl args)) (\<lambda>r. ret [VInt r])))"

(* builtins.rs:805-820 math_scale_div *)
definition math_scale_div :: "lua_value list \<Rightarrow> lua_value list rt_op" where
  "math_scale_div args = bnd (require_integer args 0 ''math.scale_div'') (\<lambda>a.
     bnd (require_integer args 1 ''math.scale_div'') (\<lambda>b.
     bnd (require_integer args 2 ''math.scale_div'') (\<lambda>scale.
     if b = 0 then fail (runtime_err ''math.scale_div: division by zero'')
     else (let result = (sint a * sint scale) sdiv sint b in
       if result > 2 ^ 63 - 1 \<or> result < - (2 ^ 63)
       then fail (runtime_err ''math.scale_div: overflow'')
       else ret [VInt (i64_of result)]))))"

section \<open>The decimal module\<close>

(* builtins.rs:829-829 DECIMAL_MAX_SCALE *)
definition decimal_max_scale :: int where "decimal_max_scale = 18"

(* builtins.rs:831-839 require_scale *)
definition require_scale :: "lua_value list \<Rightarrow> nat \<Rightarrow> string \<Rightarrow> ('s, vm_error, nat) op" where
  "require_scale args idx fname = bnd (require_integer args idx fname) (\<lambda>scale.
     if 0 \<le> sint scale \<and> sint scale \<le> decimal_max_scale then ret (nat (sint scale))
     else fail (runtime_err (fname @ '': scale must be between 0 and 18, got '' @ i64_to_string scale)))"

(* builtins.rs:841-850 quote_excerpt *)
definition quote_excerpt :: "string \<Rightarrow> string" where
  "quote_excerpt bytes = [CHR 0x22] @ (if length bytes \<le> 32 then utf8_lossy bytes @ [CHR 0x22]
     else utf8_lossy (take 32 bytes) @ ''...'' @ [CHR 0x22])"

definition hex_byte :: "nat \<Rightarrow> string" where
  "hex_byte b = [digit_char (b div 16), digit_char (b mod 16)]"

text \<open>The scan that finds the point and rejects any other byte; \<open>i\<close> is the position, \<open>prev\<close> the
  byte before it.\<close>

(* builtins.rs:860-886 parse_decimal *)
fun decimal_scan :: "string \<Rightarrow> nat \<Rightarrow> char option \<Rightarrow> nat option \<Rightarrow> string \<Rightarrow> string + nat option" where
  "decimal_scan quote i prev dot [] = Inr dot"
| "decimal_scan quote i prev dot (b # bs) =
     (if is_ascii_digit b then decimal_scan quote (i + 1) (Some b) dot bs
      else if b = CHR ''-'' \<and> i = 0 then decimal_scan quote (i + 1) (Some b) dot bs
      else if b = CHR ''.'' \<and> dot = None then decimal_scan quote (i + 1) (Some b) (Some i) bs
      else if (b = CHR ''e'' \<or> b = CHR ''E'') \<and> (case prev of Some p \<Rightarrow> is_ascii_digit p | None \<Rightarrow> False)
        then Inl (quote @ '' uses exponent notation, which is not supported'')
      else if b = CHR ''.'' then Inl (quote @ '' has more than one '' @ quoted ''.'')
      else if 33 \<le> byte_of b \<and> byte_of b \<le> 126
        then Inl (quote @ '' is not a decimal number: unexpected '' @ quoted [b]
               @ '' at position '' @ nat_to_string (i + 1))
      else Inl (quote @ '' is not a decimal number: unexpected byte 0x'' @ hex_byte (byte_of b)
               @ '' at position '' @ nat_to_string (i + 1)))"

definition accumulate_digit :: "bool \<Rightarrow> i64 \<Rightarrow> char \<Rightarrow> i64 option" where
  "accumulate_digit negative n b = (case option_i64 (sint n * 10) of None \<Rightarrow> None
     | Some m \<Rightarrow> option_i64 (if negative then sint m - int (byte_of b - 48) else sint m + int (byte_of b - 48)))"

(* builtins.rs:921-931 parse_decimal *)
fun accumulate_digits :: "bool \<Rightarrow> i64 \<Rightarrow> string \<Rightarrow> i64 option" where
  "accumulate_digits negative n [] = Some n"
| "accumulate_digits negative n (b # bs) = (case accumulate_digit negative n b of None \<Rightarrow> None
     | Some n' \<Rightarrow> accumulate_digits negative n' bs)"

(* builtins.rs:932-934 parse_decimal *)
fun scale_up :: "nat \<Rightarrow> i64 \<Rightarrow> i64 option" where
  "scale_up 0 n = Some n"
| "scale_up (Suc k) n = (case option_i64 (sint n * 10) of None \<Rightarrow> None | Some m \<Rightarrow> scale_up k m)"

(* builtins.rs:852-936 parse_decimal *)
definition parse_decimal :: "string \<Rightarrow> nat \<Rightarrow> string + i64" where
  "parse_decimal txt scale = (let quote = quote_excerpt txt in
     if txt = [] then Inl ''empty string is not a decimal number''
     else (case decimal_scan quote 0 None None txt of Inl e \<Rightarrow> Inl e
     | Inr dot \<Rightarrow> (let
         negative = (hd txt = CHR ''-'');
         body = (if negative then tl txt else txt);
         i = (case dot of None \<Rightarrow> length body | Some i \<Rightarrow> if negative then i - 1 else i);
         int_digits = take i body;
         frac_digits = drop (i + 1) body
       in if int_digits = [] \<and> dot = None then Inl (quote @ '' has no digits'')
          else if int_digits = [] then Inl (quote @ '' needs a digit before '' @ quoted ''.'')
          else if dot \<noteq> None \<and> frac_digits = [] then Inl (quote @ '' needs a digit after '' @ quoted ''.'')
          else if length frac_digits > scale then
            Inl (quote @ '' has '' @ nat_to_string (length frac_digits)
              @ '' fractional digits, more than scale '' @ nat_to_string scale
              @ ''; digits are never dropped silently. Parse at scale '' @ nat_to_string (length frac_digits)
              @ '' and narrow with decimal.rescale, which fails if a dropped digit is non-zero'')
          else (case Option.bind (accumulate_digits negative 0 (int_digits @ frac_digits))
                       (scale_up (scale - length frac_digits)) of
              Some n \<Rightarrow> Inr n
            | None \<Rightarrow> Inl (quote @ '' at scale '' @ nat_to_string scale
                @ '' does not fit in a 64-bit integer'')))))"

(* builtins.rs:938-962 format_decimal *)
definition format_decimal :: "i64 \<Rightarrow> nat \<Rightarrow> string" where
  "format_decimal value scale = (let digits = nat_to_string (nat \<bar>sint value\<bar>) in
     (if sint value < 0 then ''-'' else []) @
     (if scale = 0 then digits
      else if length digits > scale
      then take (length digits - scale) digits @ ''.'' @ drop (length digits - scale) digits
      else ''0.'' @ zeros (scale - length digits) @ digits))"

(* builtins.rs:964-971 decimal_parse *)
definition decimal_parse :: "lua_value list \<Rightarrow> lua_value list rt_op" where
  "decimal_parse args = bnd (require_string args 0 ''decimal.parse'') (\<lambda>txt.
     bnd (require_scale args 1 ''decimal.parse'') (\<lambda>scale.
     bnd (charge (length txt)) (\<lambda>_.
     case parse_decimal txt scale of
       Inr n \<Rightarrow> ret [VInt n]
     | Inl reason \<Rightarrow> fail (runtime_err (''decimal.parse: '' @ reason)))))"

(* builtins.rs:973-984 decimal_format *)
definition decimal_format :: "lua_value list \<Rightarrow> lua_value list rt_op" where
  "decimal_format args = bnd (require_integer args 0 ''decimal.format'') (\<lambda>val.
     bnd (require_scale args 1 ''decimal.format'') (\<lambda>scale.
     let out = format_decimal val scale in
     bnd (charge (length out)) (\<lambda>_. bnd (alloc (size_string (length out))) (\<lambda>_.
     ret [VStr out]))))"

(* builtins.rs:986-1009 decimal_rescale *)
definition decimal_rescale :: "lua_value list \<Rightarrow> lua_value list rt_op" where
  "decimal_rescale args = bnd (require_integer args 0 ''decimal.rescale'') (\<lambda>val.
     bnd (require_scale args 1 ''decimal.rescale'') (\<lambda>from.
     bnd (require_scale args 2 ''decimal.rescale'') (\<lambda>to.
     if to \<ge> from then
       (case option_i64 (sint val * 10 ^ (to - from)) of
          Some n \<Rightarrow> ret [VInt n]
        | None \<Rightarrow> fail (runtime_err (''decimal.rescale: '' @ i64_to_string val @ '' from scale ''
            @ nat_to_string from @ '' to scale '' @ nat_to_string to
            @ '' does not fit in a 64-bit integer'')))
     else if sint val smod 10 ^ (from - to) \<noteq> 0 then
       fail (runtime_err (''decimal.rescale: '' @ format_decimal val from @ '' ('' @ i64_to_string val
         @ '' at scale '' @ nat_to_string from @ '') has a non-zero digit beyond scale ''
         @ nat_to_string to @ ''; digits are never dropped silently. To divide with truncation, use math.scale_div''))
     else ret [VInt (i64_of (sint val sdiv 10 ^ (from - to)))])))"

end
