(* ===== verification/Lua_Tablelib.thy ===== *)
theory Lua_Tablelib
  imports Lua_Decimal
begin

text \<open>
  \<open>src/vm/builtins.rs\<close>, the \<open>table\<close> module without \<open>table.sort\<close> (which calls back into the VM and
  is in \<open>Lua_Engine\<close>), the memory accounting of a table store and \<open>ceil_log2\<close>.
\<close>

section \<open>Helpers\<close>

(* builtins.rs:1759-1782 charge_rawset_result *)
definition charge_rawset_result :: "rawset_result \<Rightarrow> nat \<Rightarrow> unit rt_op" where
  "charge_rawset_result res old_cap = (case res of
      Updated \<Rightarrow> ret ()
    | Inserted grew new_hash_capacity \<Rightarrow>
        if grew then alloc ((new_hash_capacity - old_cap) * size_table_hash_slot)
        else alloc size_table_array_slot)"

fun bit_length :: "nat \<Rightarrow> nat" where
  "bit_length n = (if n = 0 then 0 else Suc (bit_length (n div 2)))"

declare bit_length.simps [simp del]

(* builtins.rs:1784-1790 ceil_log2 *)
definition ceil_log2 :: "nat \<Rightarrow> nat" where
  "ceil_log2 n = (if n \<le> 1 then 0 else bit_length (n - 1))"

text \<open>A store that is charged for memory only, and one that is not charged.\<close>

(* builtins.rs:1047-1052 table_insert *)
definition store_charged :: "table_ref \<Rightarrow> lua_key \<Rightarrow> lua_value \<Rightarrow> unit rt_op" where
  "store_charged t k v = bnd (borrow t) (\<lambda>tab.
     bnd (map_err vm_error_of (raw_store t k v)) (\<lambda>res.
     charge_rawset_result res (tab_capacity tab)))"

definition store_free :: "table_ref \<Rightarrow> lua_key \<Rightarrow> lua_value \<Rightarrow> unit rt_op" where
  "store_free t k v = bnd (map_err vm_error_of (raw_store t k v)) (\<lambda>_. ret ())"

section \<open>The functions\<close>

text \<open>Elements \<open>len\<close> down to \<open>pos\<close> move up by one.\<close>

(* builtins.rs:1040-1053 table_insert *)
definition shift_up :: "table_ref \<Rightarrow> int \<Rightarrow> int \<Rightarrow> unit rt_op" where
  "shift_up t pos len = for_each (\<lambda>k. bnd (get_entry t (KInt (i64_of k))) (\<lambda>v.
     store_charged t (KInt (i64_of (k + 1))) v)) (rev [pos..len])"

(* builtins.rs:1013-1064 table_insert *)
definition table_insert :: "lua_value list \<Rightarrow> lua_value list rt_op" where
  "table_insert args = bnd (require_table args 0 ''table.insert'') (\<lambda>t.
     bnd (borrow t) (\<lambda>tab. let len = int (table_length tab) in
     bnd (if length args \<ge> 3 then
            bnd (require_integer args 1 ''table.insert'') (\<lambda>p. ret (sint p, args ! 2))
          else if length args = 2 then ret (len + 1, args ! 1)
          else fail (runtime_err ''table.insert: missing value argument'')) (\<lambda>(pos, v).
     if pos < 1 \<or> pos > len + 1 then fail (runtime_err ''table.insert: position out of range'')
     else bnd (charge (5 + nat (max (len - pos + 1) 0))) (\<lambda>_.
       bnd (shift_up t pos len) (\<lambda>_.
       bnd (store_charged t (KInt (i64_of pos)) v) (\<lambda>_. ret []))))))"

text \<open>Elements behind \<open>pos\<close> move down by one.\<close>

(* builtins.rs:1094-1103 table_remove *)
definition shift_down :: "table_ref \<Rightarrow> int \<Rightarrow> int \<Rightarrow> unit rt_op" where
  "shift_down t pos len = for_each (\<lambda>k. bnd (get_entry t (KInt (i64_of (k + 1)))) (\<lambda>v.
     store_free t (KInt (i64_of k)) v)) [pos..len - 1]"

(* builtins.rs:1066-1109 table_remove *)
definition table_remove :: "lua_value list \<Rightarrow> lua_value list rt_op" where
  "table_remove args = bnd (require_table args 0 ''table.remove'') (\<lambda>t.
     bnd (borrow t) (\<lambda>tab. let len = int (table_length tab) in
     if len = 0 then ret [VNil]
     else bnd (if length args \<ge> 2 then require_integer args 1 ''table.remove'' else ret (i64_of len)) (\<lambda>p.
       let pos = sint p in
       if pos < 1 \<or> pos > len then fail (runtime_err ''table.remove: position out of range'')
       else bnd (get_entry t (KInt (i64_of pos))) (\<lambda>removed.
         bnd (charge (5 + nat (len - pos))) (\<lambda>_.
         bnd (shift_down t pos len) (\<lambda>_.
         bnd (borrow t) (\<lambda>tab'.
         bnd (put_table t (rawremove (KInt (i64_of len)) tab')) (\<lambda>_.
         ret [removed]))))))))"

(* builtins.rs:1150-1167 table_concat *)
definition concat_parts :: "table_ref \<Rightarrow> int \<Rightarrow> int \<Rightarrow> string list rt_op" where
  "concat_parts t i j = collect (\<lambda>k. bnd (get_entry t (KInt (i64_of k))) (\<lambda>v. case v of
       VStr s \<Rightarrow> ret s
     | VInt n \<Rightarrow> ret (i64_to_string n)
     | _ \<Rightarrow> fail (runtime_err (''table.concat: element at index '' @ i64_to_string (i64_of k)
              @ '' is not a string or number'')))) [i..j]"

fun join :: "string \<Rightarrow> string list \<Rightarrow> string" where
  "join sep [] = []"
| "join sep [p] = p"
| "join sep (p # ps) = p @ sep @ join sep ps"

(* builtins.rs:1111-1184 table_concat *)
definition table_concat :: "lua_value list \<Rightarrow> lua_value list rt_op" where
  "table_concat args = bnd (require_table args 0 ''table.concat'') (\<lambda>t.
     bnd (borrow t) (\<lambda>tab. let len = table_length tab in
     bnd (if length args \<ge> 2 then (case args ! 1 of VStr s \<Rightarrow> ret s | VNil \<Rightarrow> ret []
            | v \<Rightarrow> fail (TypeError (''table.concat: expected string sep, got '' @ type_name v)))
          else ret []) (\<lambda>sep.
     bnd (if length args \<ge> 3 then require_integer args 2 ''table.concat'' else ret 1) (\<lambda>i.
     bnd (if length args \<ge> 4 then require_integer args 3 ''table.concat'' else ret (i64_of (int len))) (\<lambda>j.
     if sint i > sint j then ret [VStr []]
     else bnd (concat_parts t (sint i) (sint j)) (\<lambda>parts.
       let result_len = sum_list (map length parts) + length sep * (length parts - 1) in
       bnd (check_string_len result_len) (\<lambda>_.
       bnd (charge result_len) (\<lambda>_.
       bnd (alloc (size_string result_len)) (\<lambda>_.
       ret [VStr (join sep parts)])))))))))"

text \<open>The write loop of \<open>table.move\<close>; the destination index is computed with plain addition.\<close>

(* builtins.rs:1218-1223 table_move *)
definition write_moved :: "table_ref \<Rightarrow> i64 \<Rightarrow> lua_value list \<Rightarrow> unit rt_op" where
  "write_moved a2 t_pos values = for_each (\<lambda>(idx, v).
     bnd (checked_i64 (sint t_pos + int idx)) (\<lambda>dest_k. store_free a2 (KInt dest_k) v))
     (enumerate 0 values)"

(* builtins.rs:1186-1230 table_move *)
definition table_move :: "lua_value list \<Rightarrow> lua_value list rt_op" where
  "table_move args = bnd (require_table args 0 ''table.move'') (\<lambda>a.
     bnd (require_integer args 1 ''table.move'') (\<lambda>f.
     bnd (require_integer args 2 ''table.move'') (\<lambda>e.
     bnd (require_integer args 3 ''table.move'') (\<lambda>t_pos.
     bnd (if length args \<ge> 5 then require_table args 4 ''table.move'' else ret a) (\<lambda>a2.
     let result = (if length args \<ge> 5 then [VTable a2] else []) in
     if sint f > sint e then ret result
     else bnd (checked_i64 (sint e - sint f)) (\<lambda>d.
       bnd (checked_i64 (sint d + 1)) (\<lambda>count.
       bnd (charge (nat (sint count))) (\<lambda>_.
       bnd (get_range a (sint f) (sint e)) (\<lambda>values.
       bnd (write_moved a2 t_pos values) (\<lambda>_.
       ret result))))))))))"

end
