(* ===== verification/Lua_Canonical.thy ===== *)
theory Lua_Canonical
  imports Lua_Tablelib
begin

text \<open>
  \<open>src/host/canonicalize.rs\<close>: the canonical JSON text of a value, and the decoder of that text.

  The serialiser follows table addresses, so it works over the table store; the depth limit of the
  source is what bounds its recursion. The decoder walks the remaining bytes and allocates its
  tables in the store. Its recursion carries fuel; \<open>2 * length + 2\<close> is enough for any input
  (\<open>Lua_Canonical_Fuel\<close>), so \<open>Timeout\<close> is never the result of \<open>canonical_deserialize\<close>.
\<close>

(* canonicalize.rs:19-19 MAX_TABLE_DEPTH *)
definition canon_max_depth :: nat where "canon_max_depth = 32"
(* canonicalize.rs:20-20 MAX_STRING_LEN *)
definition canon_max_len :: nat where "canon_max_len = 1048576"

(* canonicalize.rs:22-29 CanonError *)
datatype canon_error = FunctionNotSerializable | TableDepthExceeded | StringTooLong | InvalidInput

(* canonicalize.rs:31-42 VmError::from *)
definition vm_error_of_canon :: "canon_error \<Rightarrow> vm_error" where
  "vm_error_of_canon e = RuntimeError (VStr (case e of
      FunctionNotSerializable \<Rightarrow> ''json.encode: functions not serializable''
    | TableDepthExceeded \<Rightarrow> ''json.encode: table depth exceeded''
    | StringTooLong \<Rightarrow> ''string length overflow''
    | InvalidInput \<Rightarrow> ''canonical_deserialize: invalid input''))"

section \<open>Serialisation\<close>

text \<open>The bytes one source byte becomes.\<close>

(* canonicalize.rs:311-322 serialize_string *)
definition escape_byte :: "char \<Rightarrow> string" where
  "escape_byte b = (
     if b = CHR 0x22 then [CHR 0x5C, CHR 0x22]
     else if b = CHR 0x5C then [CHR 0x5C, CHR 0x5C]
     else if b = CHR 0x0A then [CHR 0x5C, CHR ''n'']
     else if b = CHR 0x0D then [CHR 0x5C, CHR ''r'']
     else if b = CHR 0x09 then [CHR 0x5C, CHR ''t'']
     else if 32 \<le> byte_of b \<and> byte_of b \<le> 126 then [b]
     else [CHR 0x5C, CHR ''u'', CHR ''0'', CHR ''0''] @ hex_byte (byte_of b))"

(* canonicalize.rs:308-326 serialize_string *)
definition serialize_string :: "string \<Rightarrow> string" where
  "serialize_string bytes = [CHR 0x22] @ concat (map escape_byte bytes) @ [CHR 0x22]"

text \<open>Stopping at the first error.\<close>

fun traverse :: "('a \<Rightarrow> 'e + 'b) \<Rightarrow> 'a list \<Rightarrow> 'e + 'b list" where
  "traverse f [] = Inr []"
| "traverse f (x # xs) = (case f x of Inl e \<Rightarrow> Inl e
     | Inr y \<Rightarrow> (case traverse f xs of Inl e \<Rightarrow> Inl e | Inr ys \<Rightarrow> Inr (y # ys)))"

lemma traverse_cong [fundef_cong]:
  "xs = ys \<Longrightarrow> (\<And>x. x \<in> set ys \<Longrightarrow> f x = g x) \<Longrightarrow> traverse f xs = traverse g ys"
proof (induction ys arbitrary: xs)
  case (Cons y ys)
  then show ?case by (auto split: sum.splits)
qed simp

(* canonicalize.rs:335-353 serialize_table *)
definition serializable_keys :: "lua_table \<Rightarrow> lua_key list" where
  "serializable_keys t = filter (\<lambda>k. case table_get t k of None \<Rightarrow> False | Some v \<Rightarrow> v \<noteq> VNil)
     (List.map_filter (\<lambda>v. case v of VInt i \<Rightarrow> Some (KInt i) | VStr s \<Rightarrow> Some (KStr s)
        | VBool b \<Rightarrow> Some (KBool b) | _ \<Rightarrow> None) (sorted_keys t))"

(* canonicalize.rs:389-400 serialize_table *)
fun serialize_key :: "lua_key \<Rightarrow> string" where
  "serialize_key (KInt n) = serialize_string (i64_to_string n)"
| "serialize_key (KStr s) = serialize_string s"
| "serialize_key (KBool b) = [CHR 0x22] @ (if b then ''true'' else ''false'') @ [CHR 0x22]"

definition value_at :: "lua_table \<Rightarrow> lua_key \<Rightarrow> lua_value" where
  "value_at t k = (case table_get t k of None \<Rightarrow> VNil | Some v \<Rightarrow> v)"

text \<open>\<open>len > 0 && entry_count == len\<close>: the table is written as an array.\<close>

definition is_array :: "lua_table \<Rightarrow> bool" where
  "is_array t \<longleftrightarrow> 0 < table_length t \<and> length (serializable_keys t) = table_length t"

(* canonicalize.rs:290-306 serialize_value => serialize_value *)
(* canonicalize.rs:328-408 serialize_table => serialize_table *)
function (sequential) serialize_value :: "table_store \<Rightarrow> lua_value \<Rightarrow> nat \<Rightarrow> canon_error + string"
  and serialize_table :: "table_store \<Rightarrow> lua_table \<Rightarrow> nat \<Rightarrow> canon_error + string" where
  "serialize_value h v depth =
     (if depth > canon_max_depth then Inl TableDepthExceeded
      else (case v of
          VNil \<Rightarrow> Inr ''null''
        | VBool b \<Rightarrow> Inr (if b then ''true'' else ''false'')
        | VInt n \<Rightarrow> Inr (i64_to_string n)
        | VStr s \<Rightarrow> Inr (serialize_string s)
        | VTable r \<Rightarrow> serialize_table h (deref h r) depth
        | _ \<Rightarrow> Inl FunctionNotSerializable))"
| "serialize_table h t depth =
     (if depth > canon_max_depth then Inl TableDepthExceeded
      else if is_array t then
        (case traverse (\<lambda>i. serialize_value h (value_at t (KInt (i64_of (int i)))) (depth + 1))
               [1..<table_length t + 1] of
           Inl e \<Rightarrow> Inl e
         | Inr parts \<Rightarrow> Inr (''['' @ join '','' parts @ '']''))
      else
        (case traverse (\<lambda>k. case serialize_value h (value_at t k) (depth + 1) of
                 Inl e \<Rightarrow> Inl e | Inr encoded \<Rightarrow> Inr (serialize_key k @ '':'' @ encoded))
               (serializable_keys t) of
           Inl e \<Rightarrow> Inl e
         | Inr parts \<Rightarrow> Inr (''{'' @ join '','' parts @ ''}'')))"
  by pat_completeness auto
termination
  by (relation "measure (\<lambda>x. case x of Inl (h, v, d) \<Rightarrow> 2 * (33 - d) + 1 | Inr (h, t, d) \<Rightarrow> 2 * (33 - d))")
    (auto simp: canon_max_depth_def)

declare serialize_value.simps [simp del] serialize_table.simps [simp del]

(* canonicalize.rs:44-51 canonical_serialize *)
definition canonical_serialize :: "table_store \<Rightarrow> lua_value \<Rightarrow> canon_error + string" where
  "canonical_serialize h v = (case serialize_value h v 0 of Inl e \<Rightarrow> Inl e
     | Inr s \<Rightarrow> if length s > canon_max_len then Inl StringTooLong else Inr s)"

(* canonicalize.rs:53-60 canonical_serialize_table *)
definition canonical_serialize_table :: "table_store \<Rightarrow> lua_table \<Rightarrow> canon_error + string" where
  "canonical_serialize_table h t = (case serialize_table h t 0 of Inl e \<Rightarrow> Inl e
     | Inr s \<Rightarrow> if length s > canon_max_len then Inl StringTooLong else Inr s)"

(* canonicalize.rs:62-66 canonical_byte_len *)
definition canonical_byte_len :: "table_store \<Rightarrow> lua_value \<Rightarrow> canon_error + nat" where
  "canonical_byte_len h v = (case canonical_serialize h v of Inl e \<Rightarrow> Inl e | Inr s \<Rightarrow> Inr (length s))"

section \<open>Deserialisation\<close>

definition json_space :: "char \<Rightarrow> bool" where
  "json_space c \<longleftrightarrow> c \<in> {CHR '' '', CHR 0x09, CHR 0x0A, CHR 0x0D}"

(* canonicalize.rs:84-90 trim_leading_whitespace *)
definition trim_leading_whitespace :: "string \<Rightarrow> string" where
  "trim_leading_whitespace s = dropWhile json_space s"

definition simple_escape :: "char \<Rightarrow> char option" where
  "simple_escape c = (
     if c = CHR 0x22 \<or> c = CHR 0x5C \<or> c = CHR ''/'' then Some c
     else if c = CHR ''n'' then Some (CHR 0x0A)
     else if c = CHR ''r'' then Some (CHR 0x0D)
     else if c = CHR ''t'' then Some (CHR 0x09)
     else None)"

text \<open>The string loop: \<open>out\<close> is what has been read.\<close>

(* canonicalize.rs:134-193 deser_string *)
function deser_string :: "string \<Rightarrow> string \<Rightarrow> (string \<times> string) option" where
  "deser_string out s = (case s of
      [] \<Rightarrow> None
    | c # r \<Rightarrow>
      if c = CHR 0x22 then Some (out, r)
      else if c = CHR 0x5C then
        (case r of [] \<Rightarrow> None
         | e # r' \<Rightarrow>
           (case simple_escape e of
              Some b \<Rightarrow> deser_string (out @ [b]) r'
            | None \<Rightarrow>
              if e = CHR ''u'' then
                (if length r' < 4 \<or> \<not> utf8_valid (take 4 r') then None
                 else (case parse_unsigned 65535 16 (take 4 r') of
                     None \<Rightarrow> None
                   | Some cp \<Rightarrow> deser_string (out @ [char_of (cp mod 256)]) (drop 4 r')))
              else None))
      else deser_string (out @ [c]) r)"
  by pat_completeness auto
termination by (relation "measure (\<lambda>(out, s). length s)") auto

declare deser_string.simps [simp del]

(* canonicalize.rs:279-288 deser_integer *)
definition deser_integer :: "string \<Rightarrow> (lua_value \<times> string) option" where
  "deser_integer s = (let p = (\<lambda>c. c = CHR ''-'' \<or> is_ascii_digit c) in
     case parse_i64 (takeWhile p s) of None \<Rightarrow> None | Some n \<Rightarrow> Some (VInt n, dropWhile p s))"

definition starts_with :: "string \<Rightarrow> string \<Rightarrow> bool" where
  "starts_with p s \<longleftrightarrow> take (length p) s = p"

(* canonicalize.rs:250-262 deser_object *)
definition object_key :: "string \<Rightarrow> lua_key" where
  "object_key key = (case (if utf8_valid key then parse_i64 key else None) of
      Some n \<Rightarrow> KInt n
    | None \<Rightarrow> if key = ''true'' then KBool True else if key = ''false'' then KBool False else KStr key)"

type_synonym 'a deser = "(table_store, canon_error, 'a \<times> string) op"

definition invalid_input :: "'a deser" where
  "invalid_input = fail InvalidInput"

definition of_option :: "('a \<times> string) option \<Rightarrow> 'a deser" where
  "of_option x = (case x of None \<Rightarrow> invalid_input | Some y \<Rightarrow> ret y)"

text \<open>A finished table becomes a value; \<open>rawset\<close> with its error mapped to \<open>InvalidInput\<close>.\<close>

definition box_table :: "lua_table \<Rightarrow> string \<Rightarrow> lua_value deser" where
  "box_table t rest h = (Ok (VTable (length h), rest), h @ [t])"

definition set_or_invalid :: "lua_key \<Rightarrow> lua_value \<Rightarrow> lua_table \<Rightarrow> ('s, canon_error, lua_table) op" where
  "set_or_invalid k v t = (case rawset k v t of (Inl _, _) \<Rightarrow> fail InvalidInput | (Inr _, t') \<Rightarrow> ret t')"

(* canonicalize.rs:92-132 deser_value => deser_value *)
(* canonicalize.rs:195-223 deser_array => deser_items *)
(* canonicalize.rs:225-277 deser_object => deser_members *)
fun deser_value :: "nat \<Rightarrow> string \<Rightarrow> lua_value deser"
  and deser_items :: "nat \<Rightarrow> lua_table \<Rightarrow> i64 \<Rightarrow> string \<Rightarrow> lua_value deser"
  and deser_members :: "nat \<Rightarrow> lua_table \<Rightarrow> string \<Rightarrow> lua_value deser" where
  "deser_value 0 bytes = timeout_op"
| "deser_value (Suc n) bytes = (let s = trim_leading_whitespace bytes in
     case s of [] \<Rightarrow> invalid_input
     | c # r \<Rightarrow>
       if c = CHR ''n'' then (if starts_with ''null'' s then ret (VNil, drop 4 s) else invalid_input)
       else if c = CHR ''t'' then (if starts_with ''true'' s then ret (VBool True, drop 4 s) else invalid_input)
       else if c = CHR ''f'' then (if starts_with ''false'' s then ret (VBool False, drop 5 s) else invalid_input)
       else if c = CHR 0x22 then
         (case deser_string [] r of None \<Rightarrow> invalid_input | Some (b, rest) \<Rightarrow> ret (VStr b, rest))
       else if c = CHR ''['' then
         (let r' = trim_leading_whitespace r in
          if r' \<noteq> [] \<and> hd r' = CHR '']'' then box_table new_table (tl r')
          else deser_items n new_table 1 r')
       else if c = CHR ''{'' then
         (let r' = trim_leading_whitespace r in
          if r' \<noteq> [] \<and> hd r' = CHR ''}'' then box_table new_table (tl r')
          else deser_members n new_table r')
       else if c = CHR ''-'' \<or> is_ascii_digit c then of_option (deser_integer s)
       else invalid_input)"
| "deser_items 0 t idx s = timeout_op"
| "deser_items (Suc n) t idx s = bnd (deser_value n s) (\<lambda>(v, after).
     bnd (set_or_invalid (KInt idx) v t) (\<lambda>t'.
     let a = trim_leading_whitespace after in
     if a \<noteq> [] \<and> hd a = CHR '']'' then box_table t' (tl a)
     else if a \<noteq> [] \<and> hd a = CHR '','' then deser_items n t' (idx + 1) (tl a)
     else invalid_input))"
| "deser_members 0 t s = timeout_op"
| "deser_members (Suc n) t s = (let r = trim_leading_whitespace s in
     if r = [] \<or> hd r \<noteq> CHR 0x22 then invalid_input
     else (case deser_string [] (tl r) of None \<Rightarrow> invalid_input
     | Some (key, after_key) \<Rightarrow>
       (let k = trim_leading_whitespace after_key in
        if k = [] \<or> hd k \<noteq> CHR '':'' then invalid_input
        else bnd (deser_value n (tl k)) (\<lambda>(v, after).
          bnd (set_or_invalid (object_key key) v t) (\<lambda>t'.
          let a = trim_leading_whitespace after in
          if a \<noteq> [] \<and> hd a = CHR ''}'' then box_table t' (tl a)
          else if a \<noteq> [] \<and> hd a = CHR '','' then deser_members n t' (tl a)
          else invalid_input)))))"

declare deser_value.simps [simp del] deser_items.simps [simp del] deser_members.simps [simp del]

(* canonicalize.rs:70-82 canonical_deserialize *)
definition canonical_deserialize :: "string \<Rightarrow> (table_store, canon_error, lua_value) op" where
  "canonical_deserialize bytes = bnd (deser_value (2 * length bytes + 2) bytes) (\<lambda>(v, rest).
     if trim_leading_whitespace rest \<noteq> [] then fail InvalidInput else ret v)"

end
