(* ===== verification/Lua_Json.thy ===== *)
theory Lua_Json
  imports Lua_Canonical
begin

text \<open>
  \<open>src/vm/builtins.rs\<close>, the \<open>json\<close> module: \<open>json.encode\<close>, \<open>json.decode\<close>, \<open>json.decode_strings\<close>.

  \<open>JsonParser\<close> holds the input and an index; here the parser passes on the remaining suffix, and the
  index, which only error messages show, is the difference of the lengths. The parser's \<open>depth\<close>
  counter is an argument: the source restores it on every successful return. The recursion carries
  fuel; \<open>2 * length + 2\<close> is enough (shown in \<open>Lua_Json_Fuel\<close>).
\<close>

(* builtins.rs:29-29 MAX_TABLE_DEPTH *)
definition json_max_depth :: nat where "json_max_depth = 32"

(* builtins.rs:1373-1383 NumberMode *)
datatype number_mode = Integer_mode | Verbatim_mode

section \<open>Lexical parts\<close>

definition pos_of :: "string \<Rightarrow> string \<Rightarrow> nat" where
  "pos_of input s = length input - length s"

(* builtins.rs:1412-1420 JsonParser::skip_ws *)
definition skip_ws :: "string \<Rightarrow> string" where
  "skip_ws s = dropWhile json_space s"

(* builtins.rs:1422-1432 JsonParser::expect *)
definition json_expect :: "string \<Rightarrow> char \<Rightarrow> string \<Rightarrow> ('s, vm_error, string) op" where
  "json_expect input b s = (if s \<noteq> [] \<and> hd s = b then ret (tl s)
     else fail (runtime_err (''json.decode: expected '' @ quoted [b] @ '' at position ''
            @ nat_to_string (pos_of input s))))"

(* builtins.rs:1464-1475 JsonParser::expect_lit *)
definition json_expect_lit :: "string \<Rightarrow> string \<Rightarrow> string \<Rightarrow> ('s, vm_error, string) op" where
  "json_expect_lit input lit s = (if starts_with lit s then ret (drop (length lit) s)
     else fail (runtime_err (''json.decode: expected '' @ quoted lit @ '' at position ''
            @ nat_to_string (pos_of input s))))"

text \<open>\<open>char::from_u32\<close> with U+FFFD for a surrogate, and \<open>encode_utf8\<close>, for four hexadecimal digits.\<close>

definition utf8_encode :: "nat \<Rightarrow> string" where
  "utf8_encode code = (
     if 0xD800 \<le> code \<and> code \<le> 0xDFFF then replacement_character
     else if code < 0x80 then [char_of code]
     else if code < 0x800 then [char_of (0xC0 + code div 64), char_of (0x80 + code mod 64)]
     else [char_of (0xE0 + code div 4096), char_of (0x80 + code div 64 mod 64),
           char_of (0x80 + code mod 64)])"

definition json_escape :: "char \<Rightarrow> char option" where
  "json_escape c = (if c = CHR ''b'' then Some (CHR 0x08) else if c = CHR ''f'' then Some (CHR 0x0C)
     else simple_escape c)"

(* builtins.rs:1480-1547 JsonParser::parse_string *)
function json_string_body :: "string \<Rightarrow> string \<Rightarrow> vm_error + string \<times> string" where
  "json_string_body buf s = (case s of
      [] \<Rightarrow> Inl (runtime_err ''json.decode: unterminated string'')
    | c # r \<Rightarrow>
      if c = CHR 0x22 then Inr (buf, r)
      else if c = CHR 0x5C then
        (case r of
           [] \<Rightarrow> Inl (runtime_err ''json.decode: invalid escape sequence'')
         | e # r' \<Rightarrow>
           (case json_escape e of
              Some b \<Rightarrow> json_string_body (buf @ [b]) r'
            | None \<Rightarrow>
              if e = CHR ''u'' then
                (let bad = runtime_err (''json.decode: invalid '' @ [CHR 0x5C] @ ''u escape'') in
                 if length r' < 4 \<or> \<not> utf8_valid (take 4 r') then Inl bad
                 else (case parse_unsigned 4294967295 16 (take 4 r') of
                     None \<Rightarrow> Inl bad
                   | Some code \<Rightarrow> json_string_body (buf @ utf8_encode code) (drop 4 r')))
              else Inl (runtime_err ''json.decode: invalid escape sequence'')))
      else json_string_body (buf @ [c]) r)"
  by pat_completeness auto
termination by (relation "measure (\<lambda>(buf, s). length s)") auto

declare json_string_body.simps [simp del]

(* builtins.rs:1477-1550 JsonParser::parse_string *)
definition json_parse_string :: "string \<Rightarrow> string \<Rightarrow> (string \<times> string) rt_op" where
  "json_parse_string input s = bnd (json_expect input (CHR 0x22) s) (\<lambda>r.
     bnd (lift_result (json_string_body [] r)) (\<lambda>(buf, rest).
     bnd (alloc (size_string (length buf))) (\<lambda>_. ret (buf, rest))))"

definition at_any :: "char list \<Rightarrow> string \<Rightarrow> bool" where
  "at_any cs s \<longleftrightarrow> s \<noteq> [] \<and> hd s \<in> set cs"

definition skip_char :: "char list \<Rightarrow> string \<Rightarrow> string" where
  "skip_char cs s = (if at_any cs s then tl s else s)"

definition skip_digits :: "string \<Rightarrow> string" where
  "skip_digits s = dropWhile is_ascii_digit s"

definition consumed :: "string \<Rightarrow> string \<Rightarrow> string" where
  "consumed s rest = take (length s - length rest) s"

(* builtins.rs:1559-1579 JsonParser::parse_number_as_integer *)
definition json_number_integer :: "string \<Rightarrow> (lua_value \<times> string) rt_op" where
  "json_number_integer s = (let rest = skip_digits (skip_char ''-'' s) in
     if at_any ''.eE'' rest
     then fail (runtime_err ''json.decode: fractional numbers not supported; only integers'')
     else (case parse_i64 (consumed s rest) of
         Some n \<Rightarrow> ret (VInt n, rest)
       | None \<Rightarrow> fail (runtime_err ''json.decode: number out of i64 range'')))"

text \<open>One run of digits of which at least one is required.\<close>

definition digits_required :: "string \<Rightarrow> string \<Rightarrow> ('s, vm_error, string) op" where
  "digits_required part s = (if skip_digits s = s
     then fail (runtime_err (''json.decode_strings: invalid number (missing '' @ part @ '')''))
     else ret (skip_digits s))"

(* builtins.rs:1581-1632 JsonParser::parse_number_as_string *)
definition json_number_verbatim :: "string \<Rightarrow> (lua_value \<times> string) rt_op" where
  "json_number_verbatim s = bnd (digits_required ''integer part'' (skip_char ''-'' s)) (\<lambda>s1.
     bnd (if at_any ''.'' s1 then digits_required ''fractional digits'' (tl s1) else ret s1) (\<lambda>s2.
     bnd (if at_any ''eE'' s2 then digits_required ''exponent digits'' (skip_char ''+-'' (tl s2))
          else ret s2) (\<lambda>s3.
     bnd (alloc (size_string (length (consumed s s3)))) (\<lambda>_.
     ret (VStr (consumed s s3), s3)))))"

(* builtins.rs:1552-1557 JsonParser::parse_number *)
definition json_number :: "number_mode \<Rightarrow> string \<Rightarrow> (lua_value \<times> string) rt_op" where
  "json_number mode s = (case mode of Integer_mode \<Rightarrow> json_number_integer s
     | Verbatim_mode \<Rightarrow> json_number_verbatim s)"

section \<open>Values\<close>

(* builtins.rs:1434-1462 JsonParser::parse_value => json_value *)
(* builtins.rs:1634-1673 JsonParser::parse_array => json_items *)
(* builtins.rs:1675-1720 JsonParser::parse_object => json_members *)
fun json_value :: "string \<Rightarrow> number_mode \<Rightarrow> nat \<Rightarrow> nat \<Rightarrow> string \<Rightarrow> (lua_value \<times> string) rt_op"
  and json_items :: "string \<Rightarrow> number_mode \<Rightarrow> nat \<Rightarrow> nat \<Rightarrow> table_ref \<Rightarrow> i64 \<Rightarrow> string \<Rightarrow> (lua_value \<times> string) rt_op"
  and json_members :: "string \<Rightarrow> number_mode \<Rightarrow> nat \<Rightarrow> nat \<Rightarrow> table_ref \<Rightarrow> string \<Rightarrow> (lua_value \<times> string) rt_op" where
  "json_value input mode 0 depth s = timeout_op"
| "json_value input mode (Suc n) depth s0 =
     (if depth > json_max_depth then fail (runtime_err ''json.decode: nesting depth exceeded'')
      else (let s = skip_ws s0 in case s of
        [] \<Rightarrow> fail (runtime_err ''json.decode: unexpected end of input'')
      | c # r \<Rightarrow>
        if c = CHR 0x22 then bnd (json_parse_string input s) (\<lambda>(b, rest). ret (VStr b, rest))
        else if c = CHR ''{'' then
          bnd (rc_new new_table) (\<lambda>t. bnd (alloc size_table_base) (\<lambda>_.
          let r' = skip_ws r in
          if at_any ''}'' r' then ret (VTable t, tl r')
          else json_members input mode n (depth + 1) t r'))
        else if c = CHR ''['' then
          bnd (rc_new new_table) (\<lambda>t. bnd (alloc size_table_base) (\<lambda>_.
          let r' = skip_ws r in
          if at_any '']'' r' then ret (VTable t, tl r')
          else json_items input mode n (depth + 1) t 1 r'))
        else if c = CHR ''t'' then bnd (json_expect_lit input ''true'' s) (\<lambda>rest. ret (VBool True, rest))
        else if c = CHR ''f'' then bnd (json_expect_lit input ''false'' s) (\<lambda>rest. ret (VBool False, rest))
        else if c = CHR ''n'' then bnd (json_expect_lit input ''null'' s) (\<lambda>rest. ret (VNil, rest))
        else if c = CHR ''-'' \<or> is_ascii_digit c then json_number mode s
        else fail (runtime_err (''json.decode: unexpected character '' @ quoted (utf8_encode (byte_of c))
               @ '' at position '' @ nat_to_string (pos_of input s)))))"
| "json_items input mode 0 depth t idx s = timeout_op"
| "json_items input mode (Suc n) depth t idx s = bnd (json_value input mode n depth s) (\<lambda>(v, after).
     bnd (store_charged t (KInt idx) v) (\<lambda>_.
     let a = skip_ws after in
     if at_any '','' a then json_items input mode n depth t (idx + 1) (tl a)
     else if at_any '']'' a then ret (VTable t, tl a)
     else fail (runtime_err (''json.decode: expected '' @ quoted '','' @ '' or '' @ quoted '']''
            @ '' in array''))))"
| "json_members input mode 0 depth t s = timeout_op"
| "json_members input mode (Suc n) depth t s = bnd (json_parse_string input (skip_ws s)) (\<lambda>(key, after_key).
     bnd (json_expect input (CHR '':'') (skip_ws after_key)) (\<lambda>k.
     bnd (json_value input mode n depth k) (\<lambda>(v, after).
     bnd (store_charged t (KStr key) v) (\<lambda>_.
     let a = skip_ws after in
     if at_any '','' a then json_members input mode n depth t (tl a)
     else if at_any ''}'' a then ret (VTable t, tl a)
     else fail (runtime_err (''json.decode: expected '' @ quoted '','' @ '' or '' @ quoted ''}''
            @ '' in object''))))))"

declare json_value.simps [simp del] json_items.simps [simp del] json_members.simps [simp del]

(* builtins.rs:1734-1743 json_parse_with_mode *)
definition json_parse_with_mode :: "string \<Rightarrow> number_mode \<Rightarrow> (lua_value \<times> nat) rt_op" where
  "json_parse_with_mode input mode = bnd (json_value input mode (2 * length input + 2) 0 input) (\<lambda>(v, rest).
     ret (v, pos_of input (skip_ws rest)))"

(* builtins.rs:1723-1732 json_parse *)
definition json_parse :: "string \<Rightarrow> (lua_value \<times> nat) rt_op" where
  "json_parse input = json_parse_with_mode input Integer_mode"

section \<open>The functions\<close>

(* builtins.rs:1321-1332 json_encode *)
definition json_encode :: "lua_value list \<Rightarrow> lua_value list rt_op" where
  "json_encode args = bnd (require_arg args 0 ''json.encode'') (\<lambda>v.
     bnd (reads rt_tables) (\<lambda>h.
     case canonical_serialize h v of Inl e \<Rightarrow> fail (vm_error_of_canon e)
     | Inr result \<Rightarrow>
        bnd (check_string_len (length result)) (\<lambda>_.
        bnd (charge (length result)) (\<lambda>_.
        bnd (alloc (size_string (length result))) (\<lambda>_.
        ret [VStr result])))))"

definition json_decode_mode :: "string \<Rightarrow> number_mode \<Rightarrow> lua_value list \<Rightarrow> lua_value list rt_op" where
  "json_decode_mode fname mode args = bnd (require_string args 0 fname) (\<lambda>input.
     bnd (charge (length input)) (\<lambda>_.
     bnd (json_parse_with_mode input mode) (\<lambda>(v, end).
     if end \<noteq> length input
     then fail (runtime_err (fname @ '': trailing characters at position '' @ nat_to_string end))
     else ret [v])))"

(* builtins.rs:1334-1349 json_decode *)
definition json_decode :: "lua_value list \<Rightarrow> lua_value list rt_op" where
  "json_decode args = json_decode_mode ''json.decode'' Integer_mode args"

(* builtins.rs:1351-1371 json_decode_strings *)
definition json_decode_strings :: "lua_value list \<Rightarrow> lua_value list rt_op" where
  "json_decode_strings args = json_decode_mode ''json.decode_strings'' Verbatim_mode args"


section \<open>The fuel is enough\<close>

lemma skip_ws_shorter: "length (skip_ws s) \<le> length s"
  by (simp add: skip_ws_def length_dropWhile_le)

lemma skip_digits_shorter: "length (skip_digits s) \<le> length s"
  by (simp add: skip_digits_def length_dropWhile_le)

lemma at_any_shorter: "at_any cs s \<Longrightarrow> length (tl s) < length s"
  by (auto simp: at_any_def)

lemma skip_char_shorter: "length (skip_char cs s) \<le> length s"
  by (auto simp: skip_char_def)

lemma json_string_body_shorter:
  "json_string_body buf s = Inr (b, rest) \<Longrightarrow> length rest < length s"
proof (induction "length s" arbitrary: buf s rule: less_induct)
  case less
  have IH: "length rest < length s" if "json_string_body b' s' = Inr (b, rest)" "length s' < length s" for b' s'
    using less.hyps [OF that(2,1)] that(2) by simp
  show ?case
  proof (cases s)
    case Nil
    then show ?thesis using less.prems by (simp add: json_string_body.simps)
  next
    case (Cons c r)
    note prem = less.prems [unfolded json_string_body.simps [of buf s]]
    consider "c = CHR 0x22" | "c = CHR 0x5C" | "c \<noteq> CHR 0x22" "c \<noteq> CHR 0x5C" by blast
    then show ?thesis
    proof cases
      case 1
      then show ?thesis using prem Cons by simp
    next
      case 2
      obtain e r' where r: "r = e # r'" using prem Cons 2 by (cases r) simp_all
      show ?thesis
      proof (cases "json_escape e")
        case (Some x)
        then have "json_string_body (buf @ [x]) r' = Inr (b, rest)"
          using prem Cons 2 r by simp
        then show ?thesis by (rule IH) (simp add: Cons r)
      next
        case None
        then obtain code where "json_string_body (buf @ utf8_encode code) (drop 4 r') = Inr (b, rest)"
          using prem Cons 2 r by (simp add: Let_def split: if_splits option.splits)
        then show ?thesis by (rule IH) (simp add: Cons r)
      qed
    next
      case 3
      then have "json_string_body (buf @ [c]) r = Inr (b, rest)"
        using prem Cons by simp
      then show ?thesis by (rule IH) (simp add: Cons)
    qed
  qed
qed

lemma json_parse_string_shorter:
  "json_parse_string input s st = (Ok (b, rest), st') \<Longrightarrow> length rest < length s"
proof -
  assume "json_parse_string input s st = (Ok (b, rest), st')"
  then obtain r st1 where r: "json_expect input (CHR 0x22) s st = (Ok r, st1)"
    "lift_result (json_string_body [] r) st1 = (Ok (b, rest), st1)"
    by (cases "json_string_body [] (tl s)")
      (auto simp: json_parse_string_def json_expect_def bnd_Ok_iff split: if_splits)
  then have "length r < length s" by (auto simp: json_expect_def split: if_splits)
  moreover have "json_string_body [] r = Inr (b, rest)"
    using r(2) by (cases "json_string_body [] r") auto
  ultimately show ?thesis using json_string_body_shorter by fastforce
qed

lemma digits_required_shorter:
  "digits_required p s st = (Ok rest, st') \<Longrightarrow> length rest < length s"
proof -
  assume "digits_required p s st = (Ok rest, st')"
  then have r: "rest = skip_digits s" "skip_digits s \<noteq> s"
    by (auto simp: digits_required_def split: if_splits)
  then have "length (skip_digits s) \<noteq> length s"
    unfolding skip_digits_def by (metis append_self_conv2 length_0_conv length_append
        add_cancel_left_left takeWhile_dropWhile_id)
  then show ?thesis using r skip_digits_shorter [of s] by simp
qed

end
