(* ===== verification/Lua_Sort.thy ===== *)
theory Lua_Sort
  imports Lua_Json "HOL-Library.Multiset"
begin

text \<open>
  The merge sort behind \<open>table.sort\<close>. The source has it three times with the same body
  (\<open>merge_sort_slice\<close> in \<open>src/vm/builtins.rs\<close>, \<open>merge_sort_default\<close> and \<open>merge_sort_with_comp\<close>
  in \<open>src/vm/engine.rs\<close>); here it is one operation over any state, with the comparison, which may
  run Lua code and fail, as a parameter. The contract \<open>sort_order\<close> says what a comparison must be
  for the result to be sorted; it is interpreted on the default comparison of integers and strings.
\<close>

section \<open>The algorithm\<close>

(* builtins.rs:1292-1315 merge_sort_slice *)
fun merge_runs :: "('a \<Rightarrow> 'a \<Rightarrow> ('s, 'e, bool) op) \<Rightarrow> 'a list \<Rightarrow> 'a list \<Rightarrow> ('s, 'e, 'a list) op" where
  "merge_runs cmp [] ys = ret ys"
| "merge_runs cmp (x # xs) [] = ret (x # xs)"
| "merge_runs cmp (x # xs) (y # ys) = bnd (cmp x y) (\<lambda>less.
     if less then bnd (merge_runs cmp xs (y # ys)) (\<lambda>r. ret (x # r))
     else bnd (merge_runs cmp (x # xs) ys) (\<lambda>r. ret (y # r)))"

(* builtins.rs:1276-1317 merge_sort_slice *)
function merge_sort_slice :: "('a \<Rightarrow> 'a \<Rightarrow> ('s, 'e, bool) op) \<Rightarrow> 'a list \<Rightarrow> ('s, 'e, 'a list) op" where
  "merge_sort_slice cmp arr = (if length arr \<le> 1 then ret arr
     else (let mid = length arr div 2 in
       bnd (merge_sort_slice cmp (take mid arr)) (\<lambda>left.
       bnd (merge_sort_slice cmp (drop mid arr)) (\<lambda>right.
       merge_runs cmp left right))))"
  by pat_completeness auto
termination by (relation "measure (\<lambda>(cmp, arr). length arr)") auto

declare merge_sort_slice.simps [simp del]

text \<open>The default comparison, and the write-back of the sorted elements.\<close>

(* engine.rs:1334-1341 Vm::merge_sort_default *)
definition default_less :: "lua_value \<Rightarrow> lua_value \<Rightarrow> ('s, vm_error, bool) op" where
  "default_less a b = (case lua_cmp a b of
      Inr ord \<Rightarrow> ret (ord = Less)
    | Inl _ \<Rightarrow> fail (TypeError ''table.sort: cannot compare mixed types''))"

(* engine.rs:1320-1362 Vm::merge_sort_default *)
definition merge_sort_default :: "lua_value list \<Rightarrow> ('s, vm_error, lua_value list) op" where
  "merge_sort_default arr = merge_sort_slice default_less arr"

(* builtins.rs:1266-1271 merge_sort_table *)
definition write_back :: "table_ref \<Rightarrow> lua_value list \<Rightarrow> unit rt_op" where
  "write_back t arr = for_each (\<lambda>(i, v). store_free t (KInt (i64_of (int (i + 1)))) v) (enumerate 0 arr)"

(* builtins.rs:1232-1274 merge_sort_table *)
definition merge_sort_table :: "table_ref \<Rightarrow> nat \<Rightarrow> (lua_value \<Rightarrow> lua_value \<Rightarrow> bool rt_op) \<Rightarrow> unit rt_op" where
  "merge_sort_table t n compare = (if n \<le> 1 then ret ()
     else bnd (charge (n * ceil_log2 (n + 1))) (\<lambda>_.
       bnd (get_range t 1 (int n)) (\<lambda>arr.
       bnd (merge_sort_slice compare arr) (\<lambda>arr'. write_back t arr'))))"

section \<open>What sorting keeps\<close>

lemma merge_runs_induct [case_names left_empty right_empty both]:
  fixes P :: "'a list \<Rightarrow> 'a list \<Rightarrow> bool"
  assumes "\<And>ys. P [] ys" and "\<And>x xs. P (x # xs) []"
    and "\<And>x xs y ys. P xs (y # ys) \<Longrightarrow> P (x # xs) ys \<Longrightarrow> P (x # xs) (y # ys)"
  shows "P xs ys"
proof (rule merge_runs.induct [of "\<lambda>_. P"])
  show "P (x # xs) (y # ys)" if "\<And>b. b \<Longrightarrow> P xs (y # ys)" and "\<And>b. \<not> b \<Longrightarrow> P (x # xs) ys" for x xs y ys
    using assms(3) that(1) [of True] that(2) [of False] by simp
qed (use assms(1,2) in auto)

lemma merge_runs_perm:
  "merge_runs cmp xs ys s = (Ok zs, s') \<Longrightarrow> mset zs = mset xs + mset ys"
proof (induction xs ys arbitrary: s zs s' rule: merge_runs_induct)
  case (both x xs y ys)
  obtain less s1 where c: "cmp x y s = (Ok less, s1)" using both.prems by (auto simp: bnd_Ok_iff)
  show ?case
  proof (cases less)
    case True
    then obtain r where r: "merge_runs cmp xs (y # ys) s1 = (Ok r, s')" "zs = x # r"
      using both.prems c by (auto simp: bnd_Ok_iff)
    show ?thesis using both.IH(1) [OF r(1)] r(2) by simp
  next
    case False
    then obtain r where r: "merge_runs cmp (x # xs) ys s1 = (Ok r, s')" "zs = y # r"
      using both.prems c by (auto simp: bnd_Ok_iff)
    show ?thesis using both.IH(2) [OF r(1)] r(2) by simp
  qed
qed auto

lemma merge_sort_slice_perm:
  "merge_sort_slice cmp arr s = (Ok out, s') \<Longrightarrow> mset out = mset arr"
proof (induction cmp arr arbitrary: s out s' rule: merge_sort_slice.induct)
  case (1 cmp arr)
  show ?case
  proof (cases "length arr \<le> 1")
    case True
    then show ?thesis using "1.prems" by (simp add: merge_sort_slice.simps [of cmp arr])
  next
    case False
    let ?m = "length arr div 2"
    obtain l s1 r s2 where l: "merge_sort_slice cmp (take ?m arr) s = (Ok l, s1)"
      and r: "merge_sort_slice cmp (drop ?m arr) s1 = (Ok r, s2)"
      and m: "merge_runs cmp l r s2 = (Ok out, s')"
      using "1.prems" False by (auto simp: merge_sort_slice.simps [of cmp arr] bnd_Ok_iff Let_def)
    have "mset l = mset (take ?m arr)" "mset r = mset (drop ?m arr)"
      using "1.IH"(1) [OF False refl l] "1.IH"(2) [OF False refl r] .
    then show ?thesis using merge_runs_perm [OF m] by (simp flip: mset_append)
  qed
qed

lemma keeps_merge_runs: "step_preorder R \<Longrightarrow> (\<And>x y. keeps R (cmp x y)) \<Longrightarrow> keeps R (merge_runs cmp xs ys)"
  by (induction xs ys rule: merge_runs_induct)
    (auto intro!: step_preorder.outcome step_preorder.ret step_preorder.bnd)

lemma keeps_merge_sort:
  "step_preorder R \<Longrightarrow> (\<And>x y. keeps R (cmp x y)) \<Longrightarrow> keeps R (merge_sort_slice cmp arr)"
proof (induction cmp arr rule: merge_sort_slice.induct)
  case (1 cmp arr)
  then show ?case
    by (cases "length arr \<le> 1")
      (auto simp: merge_sort_slice.simps [of cmp arr] Let_def
        intro!: step_preorder.outcome step_preorder.ret step_preorder.bnd keeps_merge_runs)
qed

section \<open>When the result is sorted\<close>

text \<open>The comparison answers on \<open>carrier\<close> without touching the state, by a strict weak order.\<close>

locale sort_order =
  fixes cmp :: "'a \<Rightarrow> 'a \<Rightarrow> ('s, 'e, bool) op"
    and carrier :: "'a set"
    and less :: "'a \<Rightarrow> 'a \<Rightarrow> bool"
  assumes cmp_less: "x \<in> carrier \<Longrightarrow> y \<in> carrier \<Longrightarrow> cmp x y s = (Ok (less x y), s)"
    and less_asym: "x \<in> carrier \<Longrightarrow> y \<in> carrier \<Longrightarrow> less x y \<Longrightarrow> \<not> less y x"
    and not_less_trans: "x \<in> carrier \<Longrightarrow> y \<in> carrier \<Longrightarrow> z \<in> carrier \<Longrightarrow>
      \<not> less y x \<Longrightarrow> \<not> less z y \<Longrightarrow> \<not> less z x"
begin

definition ordered :: "'a list \<Rightarrow> bool" where
  "ordered xs \<longleftrightarrow> sorted_wrt (\<lambda>x y. \<not> less y x) xs"

lemma merge_ordered:
  "set xs \<subseteq> carrier \<Longrightarrow> set ys \<subseteq> carrier \<Longrightarrow> ordered xs \<Longrightarrow> ordered ys \<Longrightarrow>
    \<exists>zs. merge_runs cmp xs ys s = (Ok zs, s) \<and> ordered zs \<and> set zs = set xs \<union> set ys"
proof (induction xs ys arbitrary: s rule: merge_runs_induct)
  case (both x xs y ys)
  have c: "x \<in> carrier" "y \<in> carrier" "set xs \<subseteq> carrier" "set ys \<subseteq> carrier" using both.prems by auto
  have o: "ordered xs" "ordered ys" using both.prems by (simp_all add: ordered_def)
  show ?case
  proof (cases "less x y")
    case True
    obtain zs where zs: "merge_runs cmp xs (y # ys) s = (Ok zs, s)" "ordered zs"
      "set zs = set xs \<union> set (y # ys)"
      using both.IH(1) [OF c(3) both.prems(2) o(1) both.prems(4)] by blast
    have "\<not> less z x" if "z \<in> set zs" for z
    proof -
      have "\<not> less y x" using less_asym True c by blast
      moreover have "\<not> less z y" if "z \<in> set ys" using both.prems(4) that by (simp add: ordered_def)
      ultimately have "\<not> less z x" if "z \<in> set ys" using not_less_trans c that by blast
      then show ?thesis using that zs(3) \<open>\<not> less y x\<close> both.prems(3) by (auto simp: ordered_def)
    qed
    then show ?thesis using True zs cmp_less [OF c(1,2)] by (auto simp: bnd_def ordered_def)
  next
    case False
    obtain zs where zs: "merge_runs cmp (x # xs) ys s = (Ok zs, s)" "ordered zs"
      "set zs = set (x # xs) \<union> set ys"
      using both.IH(2) [OF both.prems(1) c(4) both.prems(3) o(2)] by blast
    have "\<not> less z y" if "z \<in> set zs" for z
    proof -
      have "\<not> less z x" if "z \<in> set xs" using both.prems(3) that by (simp add: ordered_def)
      then have "\<not> less z y" if "z \<in> set xs" using not_less_trans False c that by blast
      then show ?thesis using that zs(3) False both.prems(4) by (auto simp: ordered_def)
    qed
    then show ?thesis using False zs cmp_less [OF c(1,2)] by (auto simp: bnd_def ordered_def)
  qed
qed auto

lemma sort_ordered:
  "set arr \<subseteq> carrier \<Longrightarrow> \<exists>out. merge_sort_slice cmp arr s = (Ok out, s) \<and> ordered out \<and> set out = set arr"
proof (induction arr arbitrary: s rule: length_induct)
  case (1 arr)
  show ?case
  proof (cases "length arr \<le> 1")
    case True
    then have "ordered arr" by (cases arr) (auto simp: ordered_def)
    then show ?thesis using True by (simp add: merge_sort_slice.simps [of cmp arr])
  next
    case False
    let ?l = "take (length arr div 2) arr" and ?r = "drop (length arr div 2) arr"
    have sub: "set ?l \<subseteq> carrier" "set ?r \<subseteq> carrier"
      using "1.prems" set_take_subset set_drop_subset by fast+
    have len: "length ?l < length arr" "length ?r < length arr" using False by auto
    obtain l where l: "merge_sort_slice cmp ?l s = (Ok l, s)" "ordered l" "set l = set ?l"
      using "1.IH" [rule_format, OF len(1) sub(1), of s] by blast
    obtain r where r: "merge_sort_slice cmp ?r s = (Ok r, s)" "ordered r" "set r = set ?r"
      using "1.IH" [rule_format, OF len(2) sub(2), of s] by blast
    have "set l \<subseteq> carrier" "set r \<subseteq> carrier" using sub l(3) r(3) by simp_all
    from merge_ordered [OF this l(2) r(2), of s]
    obtain zs where zs: "merge_runs cmp l r s = (Ok zs, s)" "ordered zs" "set zs = set l \<union> set r" by blast
    have "set ?l \<union> set ?r = set arr" by (metis append_take_drop_id set_append)
    then show ?thesis using False l r zs
      by (auto simp: merge_sort_slice.simps [of cmp arr] bnd_def Let_def)
  qed
qed

end

definition integers :: "lua_value set" where "integers = range VInt"
definition strings :: "lua_value set" where "strings = range VStr"

definition value_less :: "lua_value \<Rightarrow> lua_value \<Rightarrow> bool" where
  "value_less v w = (lua_cmp v w = Inr Less)"

lemma value_less_simps [simp]:
  "value_less (VInt a) (VInt b) \<longleftrightarrow> sint a < sint b"
  "value_less (VStr s) (VStr t) \<longleftrightarrow> s < t"
  by (simp_all add: value_less_def cmp_i64_def cmp_bytes_def)

lemma default_less_simps:
  "default_less (VInt a) (VInt b) = ret (sint a < sint b)"
  "default_less (VStr s) (VStr t) = ret (s < t)"
  by (simp_all add: default_less_def cmp_i64_def cmp_bytes_def)

interpretation int_sort: sort_order default_less integers value_less
  by unfold_locales (auto simp: default_less_simps integers_def)

interpretation string_sort: sort_order default_less strings value_less
proof unfold_locales
  fix x y z assume "x \<in> strings" "y \<in> strings" "z \<in> strings"
  then obtain a b c where abc: "x = VStr a" "y = VStr b" "z = VStr c" by (auto simp: strings_def)
  show "value_less x y \<Longrightarrow> \<not> value_less y x"
    unfolding abc value_less_simps by (rule less_not_sym)
  show "\<not> value_less y x \<Longrightarrow> \<not> value_less z y \<Longrightarrow> \<not> value_less z x"
    unfolding abc value_less_simps not_less by (rule order_trans)
qed (auto simp: strings_def default_less_simps)

end
