(* ===== verification/Lua_Json_Fuel.thy ===== *)
theory Lua_Json_Fuel
  imports Lua_Json
begin

text \<open>
  The fuel of the two JSON parsers is enough: every successful call consumes input, and a nested
  call is made on a strictly shorter rest, so \<open>2 * length + 2\<close> steps never run out.
\<close>

section \<open>\<open>json.decode\<close>\<close>

fun the_string :: "lua_value \<Rightarrow> string" where
  "the_string (VStr s) = s"
| "the_string _ = []"

lemma json_number_shorter:
  "json_number mode s st = (Ok (v, rest), st') \<Longrightarrow> length rest < length s"
proof (cases mode)
  case Integer_mode
  assume n: "json_number mode s st = (Ok (v, rest), st')"
  then have r: "rest = skip_digits (skip_char ''-'' s)" "parse_i64 (consumed s rest) \<noteq> None"
    using Integer_mode
    by (auto simp: json_number_def json_number_integer_def Let_def split: if_splits option.splits)
  then have "consumed s rest \<noteq> []" by (auto simp: parse_i64_def Let_def)
  then show ?thesis by (auto simp: consumed_def)
next
  case Verbatim_mode
  assume n: "json_number mode s st = (Ok (v, rest), st')"
  obtain s1 s2 where
    1: "digits_required ''integer part'' (skip_char ''-'' s) st = (Ok s1, st)" and
    2: "(if at_any ''.'' s1 then digits_required ''fractional digits'' (tl s1) else ret s1) st = (Ok s2, st)" and
    3: "(if at_any ''eE'' s2 then digits_required ''exponent digits'' (skip_char ''+-'' (tl s2))
          else ret s2) st = (Ok rest, st)"
    using n Verbatim_mode
    by (auto simp: json_number_def json_number_verbatim_def bnd_Ok_iff digits_required_def split: if_splits)
  have "length s1 < length s"
    using digits_required_shorter [OF 1] skip_char_shorter [of "''-''" s] by simp
  moreover have "length s2 \<le> length s1"
    using 2 digits_required_shorter [of "''fractional digits''" "tl s1" st s2 st]
    by (simp split: if_splits)
  moreover have "length rest \<le> length s2"
    using 3 digits_required_shorter [of "''exponent digits''" "skip_char ''+-'' (tl s2)" st rest st]
      skip_char_shorter [of "''+-''" "tl s2"] by (simp split: if_splits)
  ultimately show ?thesis by simp
qed

lemma json_expect_lit_shorter:
  "json_expect_lit input lit s st = (Ok rest, st') \<Longrightarrow> lit \<noteq> [] \<Longrightarrow> length rest < length s"
  by (cases s) (auto simp: json_expect_lit_def starts_with_def split: if_splits)

lemma json_expect_shorter:
  "json_expect input b s st = (Ok rest, st') \<Longrightarrow> length rest < length s"
  by (cases s) (auto simp: json_expect_def split: if_splits)

lemma skip_ws_at_any: "at_any cs (skip_ws s) \<Longrightarrow> length (tl (skip_ws s)) < length s"
  using skip_ws_shorter [of s] at_any_shorter [of cs "skip_ws s"] by simp

lemma json_shorter:
  "(json_value input mode n depth s st = (Ok (v, rest), st') \<longrightarrow> length rest < length s)
   \<and> (json_items input mode n depth t idx s st = (Ok (v, rest), st') \<longrightarrow> length rest < length s)
   \<and> (json_members input mode n depth t s st = (Ok (v, rest), st') \<longrightarrow> length rest < length s)"
proof (induction n arbitrary: depth s st v rest st' t idx)
  case 0
  show ?case by (simp add: json_value.simps json_items.simps json_members.simps)
next
  case (Suc n)
  note IHv = Suc.IH [THEN conjunct1, rule_format]
    and IHi = Suc.IH [THEN conjunct2, THEN conjunct1, rule_format]
    and IHm = Suc.IH [THEN conjunct2, THEN conjunct2, rule_format]
  have "length rest < length s" if v: "json_value input mode (Suc n) depth s st = (Ok (v, rest), st')"
  proof -
    obtain c r where s: "skip_ws s = c # r"
      using v by (cases "skip_ws s") (auto simp: json_value.simps split: if_splits)
    have rs: "length (skip_ws r) < length s"
      using skip_ws_shorter [of r] skip_ws_shorter [of s] s by simp
    have tl: "length (tl (skip_ws r)) < length s" using rs by simp
    have cr: "length (c # r) \<le> length s" using skip_ws_shorter [of s] s by simp
    note v' = v [unfolded json_value.simps Let_def s list.case]
    have depth: "\<not> json_max_depth < depth" using v' by (auto split: if_splits)
    consider (str) "c = CHR 0x22" | (obj) "c = CHR ''{''" | (arr) "c = CHR ''[''"
      | (t) "c = CHR ''t''" | (f) "c = CHR ''f''" | (n) "c = CHR ''n''"
      | (num) "c \<notin> {CHR 0x22, CHR ''{'', CHR ''['', CHR ''t'', CHR ''f'', CHR ''n''}" by blast
    then show ?thesis
    proof cases
      case str
      then obtain st1 where "json_parse_string input (c # r) st = (Ok (the_string v, rest), st1)"
        using v' depth by (auto simp: bnd_Ok_iff)
      then show ?thesis using json_parse_string_shorter cr by fastforce
    next
      case obj
      have "rest = tl (skip_ws r) \<or>
          (\<exists>t st1. json_members input mode n (depth + 1) t (skip_ws r) st1 = (Ok (v, rest), st'))"
        using v' depth by (simp add: obj bnd_Ok_iff split: if_splits) blast+
      then show ?thesis using IHm rs tl by fastforce
    next
      case arr
      have "rest = tl (skip_ws r) \<or>
          (\<exists>t st1. json_items input mode n (depth + 1) t 1 (skip_ws r) st1 = (Ok (v, rest), st'))"
        using v' depth by (simp add: arr bnd_Ok_iff split: if_splits) blast+
      then show ?thesis using IHi rs tl by fastforce
    next
      case t
      then have "json_expect_lit input ''true'' (c # r) st = (Ok rest, st')"
        using v' depth by (auto simp: bnd_Ok_iff)
      then show ?thesis using json_expect_lit_shorter cr by fastforce
    next
      case f
      then have "json_expect_lit input ''false'' (c # r) st = (Ok rest, st')"
        using v' depth by (auto simp: bnd_Ok_iff)
      then show ?thesis using json_expect_lit_shorter cr by fastforce
    next
      case n
      then have "json_expect_lit input ''null'' (c # r) st = (Ok rest, st')"
        using v' depth by (auto simp: bnd_Ok_iff)
      then show ?thesis using json_expect_lit_shorter cr by fastforce
    next
      case num
      then have "json_number mode (c # r) st = (Ok (v, rest), st')"
        using v' depth by (simp split: if_splits)
      then show ?thesis using json_number_shorter cr by fastforce
    qed
  qed
  moreover have "length rest < length s"
    if i: "json_items input mode (Suc n) depth t idx s st = (Ok (v, rest), st')"
  proof -
    obtain v1 after st1 where a: "json_value input mode n depth s st = (Ok (v1, after), st1)"
      and "length rest \<le> length (tl (skip_ws after))"
      using i unfolding json_items.simps Let_def
      by (auto simp: bnd_Ok_iff split: if_splits dest!: IHi)
    then show ?thesis using IHv [OF a] skip_ws_shorter [of after] by simp
  qed
  moreover have "length rest < length s"
    if m: "json_members input mode (Suc n) depth t s st = (Ok (v, rest), st')"
  proof -
    obtain key ak st1 k st2 v1 after st3 where
      1: "json_parse_string input (skip_ws s) st = (Ok (key, ak), st1)" and
      2: "json_expect input (CHR '':'') (skip_ws ak) st1 = (Ok k, st2)" and
      3: "json_value input mode n depth k st2 = (Ok (v1, after), st3)" and
      4: "length rest \<le> length (tl (skip_ws after))"
      using m unfolding json_members.simps Let_def
      by (auto simp: bnd_Ok_iff split: if_splits dest!: IHm)
    then show ?thesis
      using json_parse_string_shorter [OF 1] json_expect_shorter [OF 2] IHv [OF 3]
        skip_ws_shorter [of s] skip_ws_shorter [of ak] skip_ws_shorter [of after] by simp
  qed
  ultimately show ?case by blast
qed

end
