(* ===== verification/Lua_Builtins.thy ===== *)
theory Lua_Builtins
  imports Lua_Sort Lua_Json_Fuel
begin

text \<open>
  \<open>src/vm/builtins.rs\<close>, the entry point \<open>call_builtin\<close>, \<open>call_log\<close> and the globals table; and what
  all library functions have in common: none gives gas back, lowers the memory account or forgets a
  table (\<open>keeps metered\<close>).
\<close>

section \<open>Dispatch\<close>

(* builtins.rs:33-101 call_builtin *)
fun call_builtin :: "builtin_id \<Rightarrow> lua_value list \<Rightarrow> lua_value list rt_op" where
  "call_builtin B_Type args = builtin_type args"
| "call_builtin B_Tostring args = builtin_tostring args"
| "call_builtin B_Tonumber args = builtin_tonumber args"
| "call_builtin B_Select args = builtin_select args"
| "call_builtin B_Unpack args = builtin_unpack args"
| "call_builtin B_StringLen args = string_len args"
| "call_builtin B_StringSub args = string_sub args"
| "call_builtin B_StringFind args = string_find args"
| "call_builtin B_StringFindLiteral args = string_find_literal args"
| "call_builtin B_StringUpper args = string_upper args"
| "call_builtin B_StringLower args = string_lower args"
| "call_builtin B_StringRep args = string_rep args"
| "call_builtin B_StringByte args = string_byte args"
| "call_builtin B_StringChar args = string_char args"
| "call_builtin B_StringFormat args = string_format args"
| "call_builtin B_StringUnsupported args =
     fail (RuntimeError (VStr ''string.match/gmatch/gsub not supported''))"
| "call_builtin B_MathAbs args = math_abs args"
| "call_builtin B_MathMin args = math_min args"
| "call_builtin B_MathMax args = math_max args"
| "call_builtin B_MathScaleDiv args = math_scale_div args"
| "call_builtin B_TableInsert args = table_insert args"
| "call_builtin B_TableRemove args = table_remove args"
| "call_builtin B_TableConcat args = table_concat args"
| "call_builtin B_TableMove args = table_move args"
| "call_builtin B_TableSort args =
     fail (RuntimeError (VStr ''table.sort must be dispatched by engine''))"
| "call_builtin B_JsonEncode args = json_encode args"
| "call_builtin B_JsonDecode args = json_decode args"
| "call_builtin B_JsonDecodeStrings args = json_decode_strings args"
| "call_builtin B_DecimalParse args = decimal_parse args"
| "call_builtin B_DecimalFormat args = decimal_format args"
| "call_builtin B_DecimalRescale args = decimal_rescale args"

text \<open>The log list is returned extended.\<close>

(* builtins.rs:103-116 call_log *)
definition call_log :: "lua_value list \<Rightarrow> string list \<Rightarrow> (lua_value list \<times> string list) rt_op" where
  "call_log args logs = bnd (require_string args 0 ''log'') (\<lambda>msg. let s = utf8_lossy msg in
     bnd (charge (LOG_BASE + length s)) (\<lambda>_. bnd (alloc (size_string (length s))) (\<lambda>_.
     ret ([], logs @ [s]))))"

section \<open>The globals table\<close>

definition build_table :: "(string \<times> lua_value) list \<Rightarrow> lua_table" where
  "build_table kvs = fold (\<lambda>(k, v) t. snd (rawset_tracked k v t)) (map (\<lambda>(k, v). (KStr k, v)) kvs) new_table"

(* builtins.rs:1851-1876 build_string_module *)
definition string_module :: "(string \<times> lua_value) list" where
  "string_module = map (\<lambda>(k, id). (k, VBuiltin id))
    [(''len'', B_StringLen), (''sub'', B_StringSub), (''find'', B_StringFind),
     (''find_literal'', B_StringFindLiteral), (''upper'', B_StringUpper), (''lower'', B_StringLower),
     (''rep'', B_StringRep), (''byte'', B_StringByte), (''char'', B_StringChar),
     (''format'', B_StringFormat), (''match'', B_StringUnsupported), (''gmatch'', B_StringUnsupported),
     (''gsub'', B_StringUnsupported)]"

(* builtins.rs:1878-1904 build_math_module *)
definition math_module :: "(string \<times> lua_value) list" where
  "math_module = [(''abs'', VBuiltin B_MathAbs), (''min'', VBuiltin B_MathMin),
     (''max'', VBuiltin B_MathMax), (''scale_div'', VBuiltin B_MathScaleDiv),
     (''maxinteger'', VInt i64_max), (''mininteger'', VInt i64_min)]"

(* builtins.rs:1906-1923 build_table_module *)
definition table_module :: "(string \<times> lua_value) list" where
  "table_module = map (\<lambda>(k, id). (k, VBuiltin id))
    [(''insert'', B_TableInsert), (''remove'', B_TableRemove), (''concat'', B_TableConcat),
     (''sort'', B_TableSort), (''move'', B_TableMove)]"

(* builtins.rs:1925-1943 build_json_module *)
definition json_module :: "(string \<times> lua_value) list" where
  "json_module = map (\<lambda>(k, id). (k, VBuiltin id))
    [(''encode'', B_JsonEncode), (''decode'', B_JsonDecode), (''decode_strings'', B_JsonDecodeStrings)]"

(* builtins.rs:1945-1960 build_decimal_module *)
definition decimal_module :: "(string \<times> lua_value) list" where
  "decimal_module = map (\<lambda>(k, id). (k, VBuiltin id))
    [(''parse'', B_DecimalParse), (''format'', B_DecimalFormat), (''rescale'', B_DecimalRescale)]"

text \<open>The five module tables take the first addresses of the store; the globals table itself is
  owned by the VM and not in the store.\<close>

(* builtins.rs:1822-1846 build_globals *)
definition global_entries :: "(string \<times> lua_value) list" where
  "global_entries = [(''__type'', VBuiltin B_Type), (''__tostring'', VBuiltin B_Tostring),
     (''__tonumber'', VBuiltin B_Tonumber), (''__select'', VBuiltin B_Select),
     (''__unpack'', VBuiltin B_Unpack), (''__string'', VTable 0), (''__math'', VTable 1),
     (''__table'', VTable 2), (''__json'', VTable 3), (''__decimal'', VTable 4)]"

(* builtins.rs:1794-1849 build_globals *)
definition build_globals :: "table_store \<times> lua_table" where
  "build_globals = (map build_table [string_module, math_module, table_module, json_module, decimal_module],
     build_table global_entries)"

lemma map_of_string_keys: "map_of (map (\<lambda>(k, v). (KStr k, v)) kvs) (KStr k) = map_of kvs k"
  by (induction kvs) auto

lemma build_table_lookup:
  assumes "\<forall>(k, v) \<in> set kvs. v \<noteq> VNil" and "length kvs \<le> max_table_entries"
  shows "table_ok (build_table kvs)"
    and "table_get (build_table kvs) (KStr k) = map_of (rev kvs) k"
proof -
  let ?kvs = "map (\<lambda>(k, v). (KStr k, v)) kvs"
  have "\<forall>(k, v) \<in> set ?kvs. storable_entry k v" using assms(1) by (auto simp: storable_entry_def)
  moreover have "tab_entries new_table + length ?kvs \<le> max_table_entries"
    using assms(2) by (simp add: new_table_def)
  moreover have empty: "table_get new_table = (\<lambda>_. None)"
    by (simp add: table_get_def split_get_def new_table_def in_array_def fun_eq_iff split: lua_key.split)
  ultimately have "table_ok (build_table kvs)
    \<and> table_get (build_table kvs) = Map.empty ++ map_of (rev ?kvs)"
    using lua_table_spec.store_all [OF table_inv_new, of ?kvs]
    unfolding build_table_def by (auto simp: empty)
  moreover have "map_of (rev ?kvs) (KStr k) = map_of (rev kvs) k"
    unfolding rev_map by (rule map_of_string_keys)
  ultimately show "table_ok (build_table kvs)"
    "table_get (build_table kvs) (KStr k) = map_of (rev kvs) k" by simp_all
qed

section \<open>Metering of the library\<close>

lemma keeps_helpers [keeps_intros]:
  "keeps metered (slice_end q n)" "keeps metered (require_scale args i f)"
  "keeps metered (get_range t lo hi)" "keeps metered (store_charged t k v)"
  "keeps metered (store_free t k v)" "keeps metered (charge_rawset_result res c)"
proof -
  show "keeps metered (slice_end q n)"
    by (auto simp: slice_end_def Let_def intro!: keeps_intros)
  show "keeps metered (require_scale args i f)" unfolding require_scale_def
    by (rule meter_order.bnd [OF meter_order.require_integer]) (simp add: meter_order.fail meter_order.ret)
  show "keeps metered (get_range t lo hi)" unfolding get_range_def by (intro keeps_intros)
  show cr: "keeps metered (charge_rawset_result res c)" for res c
    by (auto simp: charge_rawset_result_def intro!: keeps_intros split: rawset_result.split)
  show "keeps metered (store_charged t k v)" "keeps metered (store_free t k v)"
    unfolding store_charged_def store_free_def by (intro keeps_intros cr)+
qed

lemma keeps_format_loop [keeps_intros]: "keeps metered (lift_outcome (format_loop args k result fmt))"
  by (rule meter_order.lift_outcome [OF format_loop_returns])

lemma keeps_case_prod [keeps_intros]: "(\<And>a b. keeps R (f a b)) \<Longrightarrow> keeps R (case p of (a, b) \<Rightarrow> f a b)"
  by (cases p) simp

lemma keeps_if [keeps_intros]: "keeps R m \<Longrightarrow> keeps R n \<Longrightarrow> keeps R (if b then m else n)"
  by simp

lemma keeps_core:
  "keeps metered (builtin_type args)" "keeps metered (builtin_tostring args)"
  "keeps metered (builtin_tonumber args)" "keeps metered (builtin_select args)"
  "keeps metered (builtin_unpack args)"
  unfolding builtin_type_def builtin_tostring_def builtin_tonumber_def builtin_select_def
    builtin_unpack_def Let_def
  by (auto intro!: keeps_intros split: lua_value.split)

lemma keeps_char_bytes [keeps_intros]: "keeps metered (char_bytes i args)"
  by (induction args arbitrary: i rule: char_bytes.induct) (auto intro!: keeps_intros)

lemma keeps_find:
  "keeps metered (string_find args)" "keeps metered (string_find_literal args)"
proof -
  have s: "keeps metered (literal_substring_search h n i)" for h n i
    unfolding literal_substring_search_def Let_def by (auto intro!: keeps_intros split: option.split)
  have p: "keeps metered (parse_find_init args f)" "keeps metered (parse_find_plain args f)"
    "keeps metered (check_no_pattern_metachar q)" for f q
    unfolding parse_find_init_def parse_find_plain_def check_no_pattern_metachar_def
    by (auto intro!: keeps_intros split: lua_value.split)
  show "keeps metered (string_find args)" "keeps metered (string_find_literal args)"
    unfolding string_find_def string_find_literal_def by (intro keeps_intros s p)+
qed

lemma keeps_string:
  "keeps metered (string_len args)" "keeps metered (string_sub args)"
  "keeps metered (string_upper args)" "keeps metered (string_lower args)"
  "keeps metered (string_rep args)" "keeps metered (string_byte args)"
  "keeps metered (string_char args)" "keeps metered (string_format args)"
  unfolding string_len_def string_sub_def string_upper_def string_lower_def string_rep_def
    string_byte_def string_char_def string_format_def Let_def
  by (intro keeps_intros)+

lemma keeps_pick [keeps_intros]: "keeps metered (pick_integer f better r vs)"
  by (induction vs arbitrary: r) (auto intro!: keeps_intros split: lua_value.split)

lemma keeps_math:
  "keeps metered (math_abs args)" "keeps metered (math_min args)" "keeps metered (math_max args)"
  "keeps metered (math_scale_div args)"
  unfolding math_abs_def math_min_def math_max_def math_scale_div_def Let_def
  by (intro keeps_intros)+

lemma keeps_decimal:
  "keeps metered (decimal_parse args)" "keeps metered (decimal_format args)"
  "keeps metered (decimal_rescale args)"
  unfolding decimal_parse_def decimal_format_def decimal_rescale_def Let_def
  by (auto intro!: keeps_intros split: sum.split option.split)

lemma keeps_table:
  "keeps metered (table_insert args)" "keeps metered (table_remove args)"
  "keeps metered (table_concat args)" "keeps metered (table_move args)"
proof -
  have sh: "keeps metered (shift_up t p n)" "keeps metered (shift_down t p n)"
    "keeps metered (write_moved t q vs)" for t p n q vs
    unfolding shift_up_def shift_down_def write_moved_def by (intro keeps_intros)+
  have cp: "keeps metered (concat_parts t p n)" for t p n
    unfolding concat_parts_def by (auto intro!: keeps_intros split: lua_value.split)
  show "keeps metered (table_insert args)" "keeps metered (table_remove args)"
    "keeps metered (table_move args)"
    unfolding table_insert_def table_remove_def table_move_def Let_def by (intro keeps_intros sh)+
  show "keeps metered (table_concat args)"
    unfolding table_concat_def Let_def by (auto intro!: keeps_intros cp split: lua_value.split)
qed

lemma keeps_json_lexical [keeps_intros]:
  "keeps metered (json_expect input b s)" "keeps metered (json_expect_lit input l s)"
  "keeps metered (json_parse_string input s)" "keeps metered (json_number mode s)"
proof -
  show e: "keeps metered (json_expect input b s)" "keeps metered (json_expect_lit input l s)" for b l s
    unfolding json_expect_def json_expect_lit_def by (intro keeps_intros)+
  show "keeps metered (json_parse_string input s)"
    unfolding json_parse_string_def by (intro keeps_intros e)
  have d: "keeps metered (digits_required p s)" for p s
    unfolding digits_required_def by (intro keeps_intros)
  show "keeps metered (json_number mode s)"
    unfolding json_number_def json_number_integer_def json_number_verbatim_def Let_def
    by (auto intro!: keeps_intros d split: number_mode.split option.split)
qed

text \<open>With enough fuel for the length of the rest, the JSON parser comes to an end.\<close>

lemma keeps_json_value_ind:
  "(2 * length s + 2 \<le> n \<longrightarrow> keeps metered (json_value input mode n depth s))
   \<and> (2 * length s + 3 \<le> n \<longrightarrow> keeps metered (json_items input mode n depth t idx s))
   \<and> (2 * length s + 3 \<le> n \<longrightarrow> keeps metered (json_members input mode n depth t s))"
proof (induction n arbitrary: depth t idx s)
  case 0
  show ?case by simp
next
  case (Suc n)
  note IHv = Suc.IH [THEN conjunct1, rule_format]
    and IHi = Suc.IH [THEN conjunct2, THEN conjunct1, rule_format]
    and IHm = Suc.IH [THEN conjunct2, THEN conjunct2, rule_format]
  note short = json_shorter [THEN conjunct1, rule_format]
  have "keeps metered (json_value input mode (Suc n) depth s)" if le: "2 * length s + 2 \<le> Suc n"
  proof (cases "skip_ws s")
    case Nil
    then show ?thesis by (simp add: json_value.simps keeps_intros)
  next
    case (Cons c r)
    have "2 * length (skip_ws r) + 3 \<le> n"
      using le skip_ws_shorter [of s] skip_ws_shorter [of r] Cons by simp
    then show ?thesis unfolding json_value.simps Let_def Cons list.case
      by (intro keeps_intros IHi IHm)
  qed
  moreover have "keeps metered (json_items input mode (Suc n) depth t idx s)"
    if le: "2 * length s + 3 \<le> Suc n"
    unfolding json_items.simps Let_def
  proof (rule meter_order.bnd_after)
    show "keeps metered (json_value input mode n depth s)" using le by (intro IHv) simp
  next
    fix p st st' assume ok: "json_value input mode n depth s st = (Ok p, st')"
    obtain v after where p: "p = (v, after)" by fastforce
    have "2 * length (tl (skip_ws after)) + 3 \<le> n"
      using short [OF ok [unfolded p]] skip_ws_shorter [of after] le by simp
    then show "keeps metered (case p of (v, after) \<Rightarrow> bnd (store_charged t (KInt idx) v) (\<lambda>_.
        if at_any '','' (skip_ws after) then json_items input mode n depth t (idx + 1) (tl (skip_ws after))
        else if at_any '']'' (skip_ws after) then ret (VTable t, tl (skip_ws after))
        else fail (runtime_err (''json.decode: expected '' @ quoted '','' @ '' or '' @ quoted '']''
            @ '' in array''))))"
      unfolding p prod.case by (intro keeps_intros IHi)
  qed
  moreover have "keeps metered (json_members input mode (Suc n) depth t s)"
    if le: "2 * length s + 3 \<le> Suc n"
    unfolding json_members.simps Let_def
  proof (rule meter_order.bnd_after)
    show "keeps metered (json_parse_string input (skip_ws s))" by (rule keeps_intros)
  next
    fix p st st' assume "json_parse_string input (skip_ws s) st = (Ok p, st')"
    then obtain key ak where p: "p = (key, ak)" and ak: "length ak < length (skip_ws s)"
      using json_parse_string_shorter by (cases p) blast
    have step: "keeps metered (bnd (json_value input mode n depth k) (\<lambda>(v, after).
        bnd (store_charged t (KStr key) v) (\<lambda>_.
        if at_any '','' (skip_ws after) then json_members input mode n depth t (tl (skip_ws after))
        else if at_any ''}'' (skip_ws after) then ret (VTable t, tl (skip_ws after))
        else fail (runtime_err (''json.decode: expected '' @ quoted '','' @ '' or '' @ quoted ''}''
            @ '' in object'')))))" if k: "length k < length (skip_ws ak)" for k
    proof (rule meter_order.bnd_after)
      show "keeps metered (json_value input mode n depth k)"
        using le k ak skip_ws_shorter [of s] skip_ws_shorter [of ak] by (intro IHv) simp
    next
      fix p st st' assume ok: "json_value input mode n depth k st = (Ok p, st')"
      obtain v after where p: "p = (v, after)" by fastforce
      have "2 * length (tl (skip_ws after)) + 3 \<le> n"
        using short [OF ok [unfolded p]] skip_ws_shorter [of after] le k ak
          skip_ws_shorter [of s] skip_ws_shorter [of ak] by simp
      then show "keeps metered (case p of (v, after) \<Rightarrow> bnd (store_charged t (KStr key) v) (\<lambda>_.
          if at_any '','' (skip_ws after) then json_members input mode n depth t (tl (skip_ws after))
          else if at_any ''}'' (skip_ws after) then ret (VTable t, tl (skip_ws after))
          else fail (runtime_err (''json.decode: expected '' @ quoted '','' @ '' or '' @ quoted ''}''
              @ '' in object''))))"
        unfolding p prod.case by (intro keeps_intros IHm)
    qed
    show "keeps metered (case p of (key, after_key) \<Rightarrow>
        bnd (json_expect input (CHR '':'') (skip_ws after_key)) (\<lambda>k.
        bnd (json_value input mode n depth k) (\<lambda>(v, after).
        bnd (store_charged t (KStr key) v) (\<lambda>_.
        if at_any '','' (skip_ws after) then json_members input mode n depth t (tl (skip_ws after))
        else if at_any ''}'' (skip_ws after) then ret (VTable t, tl (skip_ws after))
        else fail (runtime_err (''json.decode: expected '' @ quoted '','' @ '' or '' @ quoted ''}''
            @ '' in object''))))))"
      unfolding p prod.case
      by (rule meter_order.bnd_after [OF keeps_json_lexical(1) step]) (rule json_expect_shorter)
  qed
  ultimately show ?case by blast
qed

lemma keeps_json_value [keeps_intros]:
  "keeps metered (json_value input mode (2 * length s + 2) depth s)"
  using keeps_json_value_ind [of s "2 * length s + 2"] by simp

lemma keeps_json_parse [keeps_intros]: "keeps metered (json_parse_with_mode input mode)"
  unfolding json_parse_with_mode_def by (intro keeps_intros)

lemma keeps_json:
  "keeps metered (json_encode args)" "keeps metered (json_decode args)"
  "keeps metered (json_decode_strings args)"
  unfolding json_encode_def json_decode_def json_decode_strings_def json_decode_mode_def
  by (auto intro!: keeps_intros split: sum.split)

lemma keeps_call_builtin [keeps_intros]: "keeps metered (call_builtin b args)"
  by (cases b) (simp_all add: keeps_core keeps_string keeps_find keeps_math keeps_decimal
      keeps_table keeps_json meter_order.fail)

end
