(* ===== verification/Lua_Host.thy ===== *)
theory Lua_Host
  imports Lua_Builtins
begin

text \<open>
  \<open>src/host/transcript.rs\<close> and \<open>src/host/tool_registry.rs\<close>, with \<open>VmConfig\<close> and the
  \<open>HostInterface\<close> trait of \<open>src/vm/engine.rs\<close>.

  The host is code outside the repository's control, so it is a parameter: a state of any type and
  the trait's two methods as functions on it. \<open>call_tool\<close> is also given the table store: the
  arguments share their tables with the program, and the response brings new ones. SHA-256 is a
  parameter too (the \<open>sha2\<close> crate), here only as the function from bytes to a hexadecimal string.
\<close>

section \<open>Configuration and host\<close>

(* engine.rs:27-38 VmConfig *)
record vm_config =
  cfg_gas_limit :: nat
  cfg_memory_limit_bytes :: nat
  cfg_max_call_depth :: nat
  cfg_max_tool_calls :: nat
  cfg_max_tool_bytes_in :: nat
  cfg_max_tool_bytes_out :: nat
  cfg_max_output_bytes :: nat
  cfg_record_trace :: bool

(* engine.rs:40-53 VmConfig::default *)
definition default_config :: vm_config where
  "default_config = \<lparr>cfg_gas_limit = 200000, cfg_memory_limit_bytes = 16 * 1024 * 1024,
     cfg_max_call_depth = 64, cfg_max_tool_calls = 16, cfg_max_tool_bytes_in = 64 * 1024,
     cfg_max_tool_bytes_out = 1024 * 1024, cfg_max_output_bytes = 256 * 1024,
     cfg_record_trace = False\<rparr>"

(* engine.rs:138-157 HostInterface *)
record 'h host_interface =
  call_tool :: "string \<Rightarrow> lua_table \<Rightarrow> 'h \<times> table_store \<Rightarrow> (string + lua_table) \<times> 'h \<times> table_store"
  take_attestation :: "'h \<Rightarrow> string option \<times> 'h"
  sha256_hex :: "string \<Rightarrow> string"

(* engine.rs:159-165 NoopHost *)
definition noop_host :: "(string \<Rightarrow> string) \<Rightarrow> unit host_interface" where
  "noop_host sha = \<lparr>call_tool = (\<lambda>name args s. (Inl (''tool '' @ quoted name @ '' not registered''), s)),
     take_attestation = (\<lambda>h. (None, h)), sha256_hex = sha\<rparr>"

section \<open>The transcript\<close>

(* transcript.rs:7-13 ToolCallStatus *)
datatype tool_call_status = StatusOk | StatusError

(* transcript.rs:15-51 ToolCallRecord *)
record tool_call_record =
  tc_seq :: nat
  tc_tool_name :: string
  tc_args_canonical :: string
  tc_args_bytes :: nat
  tc_response_hash :: string
  tc_response_bytes :: nat
  tc_response_canonical :: string
  tc_error_message :: string
  tc_attestation :: string
  tc_gas_charged :: nat
  tc_status :: tool_call_status

type_synonym transcript = "tool_call_record list"

(* transcript.rs:167-195 Transcript::record_ok_attested *)
definition record_ok_attested :: "(string \<Rightarrow> string) \<Rightarrow> string \<Rightarrow> string \<Rightarrow> string \<Rightarrow> string \<Rightarrow> nat
    \<Rightarrow> transcript \<Rightarrow> transcript" where
  "record_ok_attested sha tool_name args_canonical response_canonical attestation gas_charged records =
     records @ [\<lparr>tc_seq = length records, tc_tool_name = tool_name, tc_args_canonical = args_canonical,
       tc_args_bytes = length args_canonical, tc_response_hash = sha response_canonical,
       tc_response_bytes = length response_canonical, tc_response_canonical = response_canonical,
       tc_error_message = [], tc_attestation = attestation, tc_gas_charged = gas_charged,
       tc_status = StatusOk\<rparr>]"

(* transcript.rs:150-165 Transcript::record_ok *)
definition record_ok :: "(string \<Rightarrow> string) \<Rightarrow> string \<Rightarrow> string \<Rightarrow> string \<Rightarrow> nat \<Rightarrow> transcript \<Rightarrow> transcript" where
  "record_ok sha tool_name args_canonical response_canonical gas_charged =
     record_ok_attested sha tool_name args_canonical response_canonical [] gas_charged"

(* transcript.rs:197-221 Transcript::record_error *)
definition record_error :: "string \<Rightarrow> string \<Rightarrow> nat \<Rightarrow> string \<Rightarrow> transcript \<Rightarrow> transcript" where
  "record_error tool_name args_canonical gas_charged error_message records =
     records @ [\<lparr>tc_seq = length records, tc_tool_name = tool_name, tc_args_canonical = args_canonical,
       tc_args_bytes = length args_canonical, tc_response_hash = [], tc_response_bytes = 0,
       tc_response_canonical = [], tc_error_message = error_message, tc_attestation = [],
       tc_gas_charged = gas_charged, tc_status = StatusError\<rparr>]"

text \<open>The serde form of attestation bytes: lower-case hexadecimal.\<close>

(* transcript.rs:96-103 lower_hex::serialize *)
definition lower_hex :: "string \<Rightarrow> string" where
  "lower_hex bytes = concat (map (\<lambda>b. hex_byte (byte_of b)) bytes)"

(* transcript.rs:105-111 lower_hex::nibble *)
definition nibble :: "char \<Rightarrow> nat option" where
  "nibble c = (let b = byte_of c in if 48 \<le> b \<and> b \<le> 57 then Some (b - 48)
     else if 97 \<le> b \<and> b \<le> 102 then Some (b - 97 + 10) else None)"

(* transcript.rs:113-134 lower_hex::deserialize *)
fun unhex :: "string \<Rightarrow> string option" where
  "unhex [] = Some []"
| "unhex [c] = None"
| "unhex (c # d # s) = (case (nibble c, nibble d) of
      (Some hi, Some lo) \<Rightarrow> map_option ((#) (char_of (16 * hi + lo))) (unhex s)
    | _ \<Rightarrow> None)"

section \<open>The registry\<close>

text \<open>The registry's counters, the host's state, the table store, the gas meter and the transcript:
  what \<open>ToolRegistry::call\<close> has mutable access to.\<close>

(* tool_registry.rs:22-28 ToolRegistry *)
record 'h registry =
  reg_host :: 'h
  reg_calls_made :: nat
  reg_total_bytes_in :: nat
  reg_total_bytes_out :: nat

record 'h tool_state =
  ts_registry :: "'h registry"
  ts_rt :: rt
  ts_transcript :: transcript

(* tool_registry.rs:31-38 ToolRegistry::new *)
definition new_registry :: "'h \<Rightarrow> 'h registry" where
  "new_registry host = \<lparr>reg_host = host, reg_calls_made = 0, reg_total_bytes_in = 0, reg_total_bytes_out = 0\<rparr>"

(* tool_registry.rs:45-50 ToolRegistry::reset *)
definition reset_registry :: "'h registry \<Rightarrow> 'h registry" where
  "reset_registry r = r\<lparr>reg_calls_made := 0, reg_total_bytes_in := 0, reg_total_bytes_out := 0\<rparr>"

text \<open>Steps 1 and 6a: canonical bytes, with the registry's own message for excessive depth.\<close>

(* tool_registry.rs:64-70 ToolRegistry::call *)
definition canonical_or :: "string \<Rightarrow> canon_error + string \<Rightarrow> ('s, vm_error, string) op" where
  "canonical_or what r = (case r of
      Inl TableDepthExceeded \<Rightarrow> fail (RuntimeError (VStr (what @ '': table depth exceeded'')))
    | Inl other \<Rightarrow> fail (vm_error_of_canon other)
    | Inr s \<Rightarrow> ret s)"

definition on_rt_of_tools :: "'a rt_op \<Rightarrow> ('h tool_state, vm_error, 'a) op" where
  "on_rt_of_tools m s = (case m (ts_rt s) of (r, t) \<Rightarrow> (r, s\<lparr>ts_rt := t\<rparr>))"

(* tool_registry.rs:72-84 ToolRegistry::call *)
definition check_quotas :: "vm_config \<Rightarrow> nat \<Rightarrow> ('h tool_state, vm_error, unit) op" where
  "check_quotas config args_len = bnd (reads ts_registry) (\<lambda>r.
     if reg_calls_made r \<ge> cfg_max_tool_calls config
     then fail (RuntimeError (VStr ''tool call limit exceeded''))
     else if reg_total_bytes_in r + args_len > cfg_max_tool_bytes_in config
     then fail (RuntimeError (VStr ''tool input bytes limit exceeded''))
     else ret ())"

(* tool_registry.rs:86-88 ToolRegistry::call *)
definition count_call :: "nat \<Rightarrow> ('h tool_state, vm_error, unit) op" where
  "count_call args_len = modifies (\<lambda>s. let r = ts_registry s in
     s\<lparr>ts_registry := r\<lparr>reg_calls_made := reg_calls_made r + 1,
                        reg_total_bytes_in := reg_total_bytes_in r + args_len\<rparr>\<rparr>)"

(* tool_registry.rs:90-91 ToolRegistry::call *)
definition call_host :: "'h host_interface \<Rightarrow> string \<Rightarrow> lua_table
    \<Rightarrow> ('h tool_state, vm_error, string + lua_table) op" where
  "call_host hi name args s =
     (case call_tool hi name args (reg_host (ts_registry s), rt_tables (ts_rt s)) of
        (r, h, tabs) \<Rightarrow> (Ok r, s\<lparr>ts_registry := (ts_registry s)\<lparr>reg_host := h\<rparr>,
                                ts_rt := (ts_rt s)\<lparr>rt_tables := tabs\<rparr>\<rparr>))"

(* tool_registry.rs:123-123 ToolRegistry::call *)
definition ask_attestation :: "'h host_interface \<Rightarrow> ('h tool_state, vm_error, string) op" where
  "ask_attestation hi s = (case take_attestation hi (reg_host (ts_registry s)) of (a, h) \<Rightarrow>
     (Ok (case a of None \<Rightarrow> [] | Some b \<Rightarrow> b), s\<lparr>ts_registry := (ts_registry s)\<lparr>reg_host := h\<rparr>\<rparr>))"

definition add_record :: "(transcript \<Rightarrow> transcript) \<Rightarrow> ('h tool_state, vm_error, unit) op" where
  "add_record f = modifies (\<lambda>s. s\<lparr>ts_transcript := f (ts_transcript s)\<rparr>)"

(* tool_registry.rs:132-138 ToolRegistry::call *)
definition count_response :: "vm_config \<Rightarrow> nat \<Rightarrow> ('h tool_state, vm_error, unit) op" where
  "count_response config resp_len = bnd (reads ts_registry) (\<lambda>r.
     if reg_total_bytes_out r + resp_len > cfg_max_tool_bytes_out config
     then fail (RuntimeError (VStr ''tool output bytes limit exceeded''))
     else modifies (\<lambda>s. s\<lparr>ts_registry := r\<lparr>reg_total_bytes_out := reg_total_bytes_out r + resp_len\<rparr>\<rparr>))"

(* tool_registry.rs:52-152 ToolRegistry::call *)
definition registry_call :: "'h host_interface \<Rightarrow> vm_config \<Rightarrow> string \<Rightarrow> lua_table
    \<Rightarrow> ('h tool_state, vm_error, lua_table) op" where
  "registry_call hi config name args_table =
     bnd (reads (\<lambda>s. rt_tables (ts_rt s))) (\<lambda>h.
     bnd (canonical_or ''tool args'' (canonical_serialize_table h args_table)) (\<lambda>args_canonical.
     bnd (check_quotas config (length args_canonical)) (\<lambda>_.
     bnd (count_call (length args_canonical)) (\<lambda>_.
     bnd (call_host hi name args_table) (\<lambda>result.
     case result of
       Inr resp_table \<Rightarrow>
         bnd (reads (\<lambda>s. rt_tables (ts_rt s))) (\<lambda>h'.
         bnd (canonical_or ''tool response'' (canonical_serialize_table h' resp_table)) (\<lambda>resp_canonical.
         let cost = TOOL_CALL_BASE + length args_canonical + length resp_canonical in
         bnd (ask_attestation hi) (\<lambda>attestation.
         bnd (add_record (record_ok_attested (sha256_hex hi) name args_canonical resp_canonical
                attestation cost)) (\<lambda>_.
         bnd (count_response config (length resp_canonical)) (\<lambda>_.
         bnd (on_rt_of_tools (charge cost)) (\<lambda>_.
         ret resp_table))))))
     | Inl msg \<Rightarrow>
         bnd (add_record (record_error name args_canonical 0 msg)) (\<lambda>_. fail (ToolError msg)))))))"

end
