(* ===== verification/Lua_Bytecode.thy ===== *)
theory Lua_Bytecode
  imports Lua_Meters
begin

text \<open>
  \<open>src/compiler/proto.rs\<close>, \<open>src/isa/opcodes.rs\<close> and \<open>src/isa/trace.rs\<close>: the instruction set, the
  function prototypes and programs the compiler emits, and the numeric form (opcode, operand) the
  program hash and the trace are computed from. Operands keep their machine width; a jump offset is
  an \<open>i16\<close> read through \<open>sint\<close>.
\<close>

type_synonym u8 = "8 word"
type_synonym u16 = "16 word"
type_synonym i16 = "16 word"

(* proto.rs:4-57 Instruction *)
datatype instruction =
    I_Nop
  | I_PushK u16
  | I_PushNil
  | I_PushTrue
  | I_PushFalse
  | I_Pop
  | I_Dup
  | I_LoadLocal u8
  | I_StoreLocal u8
  | I_LoadUp u8
  | I_StoreUp u8
  | I_NewTable
  | I_GetTable
  | I_SetTable
  | I_GetField u16
  | I_SetField u16
  | I_Add
  | I_Sub
  | I_Mul
  | I_IDiv
  | I_Mod
  | I_Neg
  | I_Eq
  | I_Ne
  | I_Lt
  | I_Le
  | I_Gt
  | I_Ge
  | I_Not
  | I_And i16
  | I_Or i16
  | I_Concat u8
  | I_Len
  | I_Jmp i16
  | I_JmpIf i16
  | I_JmpIfNot i16
  | I_Call u8
  | I_Ret u8
  | I_Closure u16
  | I_ToolCall
  | I_PCall u8
  | I_Log
  | I_Error
  | I_IterInitSorted i16
  | I_IterInitArray i16
  | I_IterNext i16

(* proto.rs:59-68 Constant *)
datatype constant_entry = K_Nil | K_Boolean bool | K_Integer i64 | K_String string | K_Proto u16

(* proto.rs:107-115 UpvalueDesc *)
datatype upvalue_desc = FromLocal u8 | FromUpvalue u8

(* proto.rs:70-90 FunctionProto *)
record function_proto =
  fp_code :: "instruction list"
  fp_constants :: "constant_entry list"
  fp_local_count :: u8
  fp_upvalue_count :: u8
  fp_param_count :: u8
  fp_lines :: "nat list"
  fp_max_stack :: u16
  fp_upvalues :: "upvalue_desc list"

(* proto.rs:92-105 FunctionProto::new *)
definition new_function_proto :: "u8 \<Rightarrow> function_proto" where
  "new_function_proto param_count = \<lparr>fp_code = [], fp_constants = [], fp_local_count = 0,
     fp_upvalue_count = 0, fp_param_count = param_count, fp_lines = [], fp_max_stack = 0,
     fp_upvalues = []\<rparr>"

(* proto.rs:117-141 CompiledProgram *)
record compiled_program =
  prototypes :: "function_proto list"
  program_hash :: string

section \<open>Opcode numbers and operands\<close>

(* opcodes.rs:3-99 instruction_to_opcode_id *)
fun instruction_to_opcode_id :: "instruction \<Rightarrow> u8" where
  "instruction_to_opcode_id I_Nop = 0"
| "instruction_to_opcode_id (I_PushK _) = 1"
| "instruction_to_opcode_id I_PushNil = 2"
| "instruction_to_opcode_id I_PushTrue = 3"
| "instruction_to_opcode_id I_PushFalse = 4"
| "instruction_to_opcode_id I_Pop = 5"
| "instruction_to_opcode_id I_Dup = 6"
| "instruction_to_opcode_id (I_LoadLocal _) = 7"
| "instruction_to_opcode_id (I_StoreLocal _) = 8"
| "instruction_to_opcode_id (I_LoadUp _) = 9"
| "instruction_to_opcode_id (I_StoreUp _) = 10"
| "instruction_to_opcode_id I_NewTable = 11"
| "instruction_to_opcode_id I_GetTable = 12"
| "instruction_to_opcode_id I_SetTable = 13"
| "instruction_to_opcode_id (I_GetField _) = 14"
| "instruction_to_opcode_id (I_SetField _) = 15"
| "instruction_to_opcode_id I_Add = 16"
| "instruction_to_opcode_id I_Sub = 17"
| "instruction_to_opcode_id I_Mul = 18"
| "instruction_to_opcode_id I_IDiv = 19"
| "instruction_to_opcode_id I_Mod = 20"
| "instruction_to_opcode_id I_Neg = 21"
| "instruction_to_opcode_id I_Eq = 22"
| "instruction_to_opcode_id I_Ne = 23"
| "instruction_to_opcode_id I_Lt = 24"
| "instruction_to_opcode_id I_Le = 25"
| "instruction_to_opcode_id I_Gt = 26"
| "instruction_to_opcode_id I_Ge = 27"
| "instruction_to_opcode_id I_Not = 28"
| "instruction_to_opcode_id (I_And _) = 29"
| "instruction_to_opcode_id (I_Or _) = 30"
| "instruction_to_opcode_id (I_Concat _) = 31"
| "instruction_to_opcode_id I_Len = 32"
| "instruction_to_opcode_id (I_Jmp _) = 33"
| "instruction_to_opcode_id (I_JmpIf _) = 34"
| "instruction_to_opcode_id (I_JmpIfNot _) = 35"
| "instruction_to_opcode_id (I_Call _) = 36"
| "instruction_to_opcode_id (I_Ret _) = 37"
| "instruction_to_opcode_id (I_Closure _) = 38"
| "instruction_to_opcode_id I_ToolCall = 39"
| "instruction_to_opcode_id (I_PCall _) = 40"
| "instruction_to_opcode_id I_Log = 41"
| "instruction_to_opcode_id I_Error = 42"
| "instruction_to_opcode_id (I_IterInitSorted _) = 43"
| "instruction_to_opcode_id (I_IterInitArray _) = 44"
| "instruction_to_opcode_id (I_IterNext _) = 45"

(* opcodes.rs:101-150 instruction_to_operand *)
fun instruction_to_operand :: "instruction \<Rightarrow> i64" where
  "instruction_to_operand I_Nop = 0"
| "instruction_to_operand (I_PushK n) = ucast n"
| "instruction_to_operand I_PushNil = 0"
| "instruction_to_operand I_PushTrue = 0"
| "instruction_to_operand I_PushFalse = 0"
| "instruction_to_operand I_Pop = 0"
| "instruction_to_operand I_Dup = 0"
| "instruction_to_operand (I_LoadLocal n) = ucast n"
| "instruction_to_operand (I_StoreLocal n) = ucast n"
| "instruction_to_operand (I_LoadUp n) = ucast n"
| "instruction_to_operand (I_StoreUp n) = ucast n"
| "instruction_to_operand I_NewTable = 0"
| "instruction_to_operand I_GetTable = 0"
| "instruction_to_operand I_SetTable = 0"
| "instruction_to_operand (I_GetField n) = ucast n"
| "instruction_to_operand (I_SetField n) = ucast n"
| "instruction_to_operand I_Add = 0"
| "instruction_to_operand I_Sub = 0"
| "instruction_to_operand I_Mul = 0"
| "instruction_to_operand I_IDiv = 0"
| "instruction_to_operand I_Mod = 0"
| "instruction_to_operand I_Neg = 0"
| "instruction_to_operand I_Eq = 0"
| "instruction_to_operand I_Ne = 0"
| "instruction_to_operand I_Lt = 0"
| "instruction_to_operand I_Le = 0"
| "instruction_to_operand I_Gt = 0"
| "instruction_to_operand I_Ge = 0"
| "instruction_to_operand I_Not = 0"
| "instruction_to_operand (I_And n) = scast n"
| "instruction_to_operand (I_Or n) = scast n"
| "instruction_to_operand (I_Concat n) = ucast n"
| "instruction_to_operand I_Len = 0"
| "instruction_to_operand (I_Jmp n) = scast n"
| "instruction_to_operand (I_JmpIf n) = scast n"
| "instruction_to_operand (I_JmpIfNot n) = scast n"
| "instruction_to_operand (I_Call n) = ucast n"
| "instruction_to_operand (I_Ret n) = ucast n"
| "instruction_to_operand (I_Closure n) = ucast n"
| "instruction_to_operand I_ToolCall = 0"
| "instruction_to_operand (I_PCall n) = ucast n"
| "instruction_to_operand I_Log = 0"
| "instruction_to_operand I_Error = 0"
| "instruction_to_operand (I_IterInitSorted n) = scast n"
| "instruction_to_operand (I_IterInitArray n) = scast n"
| "instruction_to_operand (I_IterNext n) = scast n"

(* trace.rs:1-9 TraceStep *)
record trace_step =
  ts_pc :: nat
  ts_opcode :: u8
  ts_operand :: i64
  ts_stack_top :: i64
  ts_next_pc :: nat

section \<open>Properties\<close>

lemma operand_widening:
  "(ucast (a :: u8) :: i64) = ucast b \<longleftrightarrow> a = b"
  "(ucast (c :: u16) :: i64) = ucast d \<longleftrightarrow> c = d"
  "(scast (e :: i16) :: i64) = scast f \<longleftrightarrow> e = f"
proof -
  have "uint (ucast a :: i64) = uint a" "uint (ucast b :: i64) = uint b"
    "uint (ucast c :: i64) = uint c" "uint (ucast d :: i64) = uint d"
    by (simp_all add: uint_up_ucast is_up)
  then show "(ucast a :: i64) = ucast b \<longleftrightarrow> a = b" "(ucast c :: i64) = ucast d \<longleftrightarrow> c = d"
    by (metis word_uint_eqI)+
  have "sint (scast e :: i64) = sint e" "sint (scast f :: i64) = sint f"
    by (simp_all add: sint_up_scast is_up)
  then show "(scast e :: i64) = scast f \<longleftrightarrow> e = f" by (metis word_eq_iff_signed)
qed

lemma opcode_operand_inject:
  "instruction_to_opcode_id i = instruction_to_opcode_id j \<Longrightarrow>
   instruction_to_operand i = instruction_to_operand j \<Longrightarrow> i = j"
  by (cases i; cases j; simp add: operand_widening)

end
