(* ===== verification/Lua_Engine.thy ===== *)
theory Lua_Engine
  imports Lua_Host Lua_Bytecode
begin

text \<open>
  \<open>src/vm/engine.rs\<close>: the virtual machine. One definition per instruction, composed by \<open>dispatch\<close>;
  \<open>run_loop\<close> is \<open>run_inner\<close> (the loop inside \<open>pcall\<close> and a sort comparator), \<open>exec_loop\<close> the main
  loop of \<open>execute\<close>.

  The operand stack and the frames are lists in \<open>Vec\<close> order, the top at the end. A captured local
  (\<open>StackSlot::Shared\<close>) is an address into the store of upvalue cells. Indexing and \<open>unwrap\<close>
  panic where the source's do. The two loops carry fuel, since a \<open>while\<close> in Lua may run as long as
  the gas lasts; an instruction that calls back into the machine (\<open>PCall\<close>, a sort with a Lua
  comparator) is given the inner loop with one unit less. \<open>Lua_Metering\<close> shows what fuel is enough.
\<close>

section \<open>The machine state\<close>

(* engine.rs:89-100 IterHandle *)
datatype iter_handle =
    ISorted "lua_value list" nat table_ref
  | IArray table_ref i64

(* engine.rs:57-65 StackSlot *)
datatype stack_slot = SValue lua_value | SShared cell_ref | SIter iter_handle

(* engine.rs:104-115 CallFrame *)
record call_frame =
  fr_proto :: nat
  fr_pc :: nat
  fr_base :: nat
  fr_upvalues :: "cell_ref list"
  fr_expected_returns :: nat

(* engine.rs:119-123 PCallCheckpoint *)
record checkpoint =
  cp_stack_len :: nat
  cp_frame_len :: nat

(* engine.rs:169-179 Vm *)
record 'h vm =
  vm_rt :: rt
  vm_cells :: "lua_value list"
  vm_stack :: "stack_slot list"
  vm_frames :: "call_frame list"
  vm_logs :: "string list"
  vm_transcript :: transcript
  vm_registry :: "'h registry"
  vm_globals :: lua_table

(* engine.rs:127-136 VmOutput *)
record vm_output =
  out_return_value :: lua_value
  out_logs :: "string list"
  out_gas_used :: nat
  out_memory_used :: nat
  out_transcript :: transcript
  out_trace :: "trace_step list"

text \<open>What an execution takes as given: the configuration, the host's methods and the program.\<close>

record 'h vm_env =
  env_config :: vm_config
  env_host :: "'h host_interface"
  env_program :: compiled_program

type_synonym ('h, 'a) vm_op = "('h vm, vm_error, 'a) op"

(* engine.rs:182-196 Vm::new *)
definition new_vm :: "vm_config \<Rightarrow> 'h \<Rightarrow> 'h vm" where
  "new_vm config host = \<lparr>
     vm_rt = \<lparr>rt_gas = new_gas_meter (cfg_gas_limit config),
              rt_mem = new_memory_meter (cfg_memory_limit_bytes config),
              rt_tables = fst build_globals\<rparr>,
     vm_cells = [], vm_stack = [], vm_frames = [], vm_logs = [], vm_transcript = [],
     vm_registry = new_registry host, vm_globals = snd build_globals\<rparr>"

section \<open>Stack, frames and cells\<close>

(* engine.rs:1424-1426 stack_underflow *)
definition stack_underflow :: vm_error where
  "stack_underflow = RuntimeError (VStr ''stack underflow'')"

definition on_rt :: "'a rt_op \<Rightarrow> ('h, 'a) vm_op" where
  "on_rt m s = (case m (vm_rt s) of (r, t) \<Rightarrow> (r, s\<lparr>vm_rt := t\<rparr>))"

definition read_cell :: "lua_value list \<Rightarrow> cell_ref \<Rightarrow> lua_value" where
  "read_cell cells c = (if c < length cells then cells ! c else VNil)"

(* engine.rs:68-76 StackSlot::as_value *)
definition slot_value :: "stack_slot \<Rightarrow> ('h, lua_value) vm_op" where
  "slot_value slot = (case slot of
      SValue v \<Rightarrow> ret v
    | SShared c \<Rightarrow> reads (\<lambda>s. read_cell (vm_cells s) c)
    | SIter _ \<Rightarrow> fail (RuntimeError (VStr ''attempt to use iterator handle as value'')))"

definition push_slot :: "stack_slot \<Rightarrow> ('h, unit) vm_op" where
  "push_slot x = modifies (\<lambda>s. s\<lparr>vm_stack := vm_stack s @ [x]\<rparr>)"

definition push_value :: "lua_value \<Rightarrow> ('h, unit) vm_op" where
  "push_value v = push_slot (SValue v)"

(* engine.rs:1207-1209 Vm::pop_value *)
definition pop_value :: "('h, lua_value) vm_op" where
  "pop_value = bnd (reads vm_stack) (\<lambda>st.
     if st = [] then fail stack_underflow
     else bnd (modifies (\<lambda>s. s\<lparr>vm_stack := butlast st\<rparr>)) (\<lambda>_. slot_value (last st)))"

text \<open>\<open>n\<close> pops, the last popped value first (the source reverses its vector).\<close>

(* engine.rs:693-697 Vm::dispatch *)
primrec pop_values :: "nat \<Rightarrow> ('h, lua_value list) vm_op" where
  "pop_values 0 = ret []"
| "pop_values (Suc n) = bnd pop_value (\<lambda>v. bnd (pop_values n) (\<lambda>vs. ret (vs @ [v])))"

text \<open>\<open>self.stack.last().ok_or_else(stack_underflow)?\<close> and \<open>self.stack[idx]\<close>.\<close>

definition stack_top :: "('h, stack_slot) vm_op" where
  "stack_top = bnd (reads vm_stack) (\<lambda>st. if st = [] then fail stack_underflow else ret (last st))"

definition stack_at :: "nat \<Rightarrow> ('h, stack_slot) vm_op" where
  "stack_at i = bnd (reads vm_stack) (\<lambda>st. index_or_panic st i)"

definition set_stack :: "nat \<Rightarrow> stack_slot \<Rightarrow> ('h, unit) vm_op" where
  "set_stack i x = bnd (stack_at i) (\<lambda>_. modifies (\<lambda>s. s\<lparr>vm_stack := (vm_stack s)[i := x]\<rparr>))"

definition set_cell :: "cell_ref \<Rightarrow> lua_value \<Rightarrow> ('h, unit) vm_op" where
  "set_cell c v = modifies (\<lambda>s. s\<lparr>vm_cells := (vm_cells s)[c := v]\<rparr>)"

definition new_cell :: "lua_value \<Rightarrow> ('h, cell_ref) vm_op" where
  "new_cell v s = (Ok (length (vm_cells s)), s\<lparr>vm_cells := vm_cells s @ [v]\<rparr>)"

text \<open>\<open>self.frames.last().unwrap()\<close>.\<close>

definition top_frame :: "('h, call_frame) vm_op" where
  "top_frame = bnd (reads vm_frames) (\<lambda>fs. if fs = [] then panic_with Unwrap_on_none else ret (last fs))"

definition set_pc :: "nat \<Rightarrow> ('h, unit) vm_op" where
  "set_pc pc = bnd top_frame (\<lambda>f.
     modifies (\<lambda>s. s\<lparr>vm_frames := butlast (vm_frames s) @ [f\<lparr>fr_pc := pc\<rparr>]\<rparr>))"

(* engine.rs:1211-1214 Vm::jump_by *)
definition jump_by :: "i16 \<Rightarrow> ('h, unit) vm_op" where
  "jump_by offset = bnd top_frame (\<lambda>f. set_pc (nat ((int (fr_pc f) + sint offset) mod 2 ^ 64)))"

definition proto_at :: "'h vm_env \<Rightarrow> nat \<Rightarrow> ('h, function_proto) vm_op" where
  "proto_at env i = index_or_panic (prototypes (env_program env)) i"

text \<open>The constant an operand of the current function refers to.\<close>

definition constant_at :: "'h vm_env \<Rightarrow> u16 \<Rightarrow> ('h, constant_entry) vm_op" where
  "constant_at env idx = bnd top_frame (\<lambda>f. bnd (proto_at env (fr_proto f)) (\<lambda>p.
     index_or_panic (fp_constants p) (unat idx)))"

(* engine.rs:1428-1436 constant_to_value *)
fun constant_to_value :: "constant_entry \<Rightarrow> lua_value" where
  "constant_to_value K_Nil = VNil"
| "constant_to_value (K_Boolean b) = VBool b"
| "constant_to_value (K_Integer n) = VInt n"
| "constant_to_value (K_String bytes) = VStr bytes"
| "constant_to_value (K_Proto _) = VNil"

(* engine.rs:1438-1445 constant_to_string_key *)
fun constant_to_string_key :: "constant_entry \<Rightarrow> ('s, vm_error, lua_key) op" where
  "constant_to_string_key (K_String bytes) = ret (KStr bytes)"
| "constant_to_string_key _ = fail (TypeError ''GetField/SetField key must be a string constant'')"

(* engine.rs:1447-1458 error_to_lua_value *)
fun error_to_lua_value :: "vm_error \<Rightarrow> lua_value" where
  "error_to_lua_value (RuntimeError v) = v"
| "error_to_lua_value (TypeError s) = VStr s"
| "error_to_lua_value (ToolError s) = VStr s"
| "error_to_lua_value CallDepthExceeded = VStr ''call depth exceeded''"
| "error_to_lua_value GasExhausted = VStr ''gas exhausted''"
| "error_to_lua_value MemoryExhausted = VStr ''memory exhausted''"
| "error_to_lua_value OutputExceeded = VStr ''output exceeded''"
| "error_to_lua_value (WithLine _ inner) = error_to_lua_value inner"

(* engine.rs:1216-1228 Vm::resolve_sentinel *)
definition resolve_sentinel :: "lua_value \<Rightarrow> ('h, lua_value) vm_op" where
  "resolve_sentinel v = reads (\<lambda>s. case v of
      VStr str \<Rightarrow> if starts_with ''__'' str
        then (case table_get (vm_globals s) (KStr str) of Some r \<Rightarrow> r | None \<Rightarrow> v) else v
    | _ \<Rightarrow> v)"

(* engine.rs:1230-1252 Vm::string_method *)
definition string_method :: "lua_key \<Rightarrow> ('h, lua_value) vm_op" where
  "string_method key = bnd (reads (\<lambda>s.
       case table_get (vm_globals s) (KStr ''__string'') of
         Some (VTable r) \<Rightarrow> table_get (deref (rt_tables (vm_rt s)) r) key
       | _ \<Rightarrow> None)) (\<lambda>found.
     case found of Some f \<Rightarrow> ret f
     | None \<Rightarrow> (let name = (case key of KStr s \<Rightarrow> utf8_lossy s | _ \<Rightarrow> []) in
         fail (RuntimeError (VStr (''string has no method '' @ quoted name @ '' (string.'' @ name
           @ '' does not exist)'')))))"

section \<open>Simple instructions\<close>

(* engine.rs:396-401 Vm::dispatch *)
definition do_push_k :: "'h vm_env \<Rightarrow> u16 \<Rightarrow> ('h, unit) vm_op" where
  "do_push_k env idx = bnd (constant_at env idx) (\<lambda>c. push_value (constant_to_value c))"

(* engine.rs:415-417 Vm::dispatch *)
definition do_pop :: "('h, unit) vm_op" where
  "do_pop = modifies (\<lambda>s. s\<lparr>vm_stack := butlast (vm_stack s)\<rparr>)"

(* engine.rs:419-422 Vm::dispatch *)
definition do_dup :: "('h, unit) vm_op" where
  "do_dup = bnd stack_top push_slot"

(* engine.rs:424-429 Vm::dispatch *)
definition do_load_local :: "u8 \<Rightarrow> ('h, unit) vm_op" where
  "do_load_local slot = bnd top_frame (\<lambda>f. bnd (stack_at (fr_base f + unat slot)) (\<lambda>x.
     bnd (slot_value x) push_value))"

(* engine.rs:431-443 Vm::dispatch *)
definition do_store_local :: "u8 \<Rightarrow> ('h, unit) vm_op" where
  "do_store_local slot = bnd pop_value (\<lambda>v. bnd top_frame (\<lambda>f.
     let idx = fr_base f + unat slot in
     bnd (stack_at idx) (\<lambda>x. case x of
         SShared c \<Rightarrow> set_cell c v
       | _ \<Rightarrow> set_stack idx (SValue v))))"

(* engine.rs:445-451 Vm::dispatch *)
definition do_load_up :: "u8 \<Rightarrow> ('h, unit) vm_op" where
  "do_load_up idx = bnd top_frame (\<lambda>f. bnd (index_or_panic (fr_upvalues f) (unat idx)) (\<lambda>c.
     bnd (reads (\<lambda>s. read_cell (vm_cells s) c)) push_value))"

(* engine.rs:453-458 Vm::dispatch *)
definition do_store_up :: "u8 \<Rightarrow> ('h, unit) vm_op" where
  "do_store_up idx = bnd pop_value (\<lambda>v. bnd top_frame (\<lambda>f.
     bnd (index_or_panic (fr_upvalues f) (unat idx)) (\<lambda>c. set_cell c v)))"

(* engine.rs:460-465 Vm::dispatch *)
definition do_new_table :: "('h, unit) vm_op" where
  "do_new_table = bnd (on_rt (charge TABLE_ALLOC)) (\<lambda>_. bnd (on_rt (alloc size_table_base)) (\<lambda>_.
     bnd (on_rt (rc_new new_table)) (\<lambda>t. push_value (VTable t))))"

(* engine.rs:467-475 Vm::dispatch *)
definition do_get_table :: "('h, unit) vm_op" where
  "do_get_table = bnd (on_rt (charge TABLE_GET)) (\<lambda>_. bnd pop_value (\<lambda>k.
     bnd (lift_lua (into_key k)) (\<lambda>key. bnd pop_value (\<lambda>raw. bnd (resolve_sentinel raw) (\<lambda>tv.
     bnd (lift_lua (as_table tv)) (\<lambda>t. bnd (on_rt (get_entry t key)) push_value))))))"

(* engine.rs:477-483 Vm::dispatch *)
definition do_set_table :: "('h, unit) vm_op" where
  "do_set_table = bnd pop_value (\<lambda>v. bnd pop_value (\<lambda>k. bnd (lift_lua (into_key k)) (\<lambda>key.
     bnd pop_value (\<lambda>tv. bnd (lift_lua (as_table tv)) (\<lambda>t. on_rt (do_rawset t key v))))))"

(* engine.rs:485-500 Vm::dispatch *)
definition do_get_field :: "'h vm_env \<Rightarrow> u16 \<Rightarrow> ('h, unit) vm_op" where
  "do_get_field env idx = bnd (on_rt (charge TABLE_GET)) (\<lambda>_. bnd (constant_at env idx) (\<lambda>c.
     bnd (constant_to_string_key c) (\<lambda>key. bnd pop_value (\<lambda>raw. bnd (resolve_sentinel raw) (\<lambda>tv.
     bnd (case tv of VStr _ \<Rightarrow> string_method key
          | _ \<Rightarrow> bnd (lift_lua (as_table tv)) (\<lambda>t. on_rt (get_entry t key))) push_value)))))"

(* engine.rs:502-510 Vm::dispatch *)
definition do_set_field :: "'h vm_env \<Rightarrow> u16 \<Rightarrow> ('h, unit) vm_op" where
  "do_set_field env idx = bnd pop_value (\<lambda>v. bnd (constant_at env idx) (\<lambda>c.
     bnd (constant_to_string_key c) (\<lambda>key. bnd pop_value (\<lambda>tv.
     bnd (lift_lua (as_table tv)) (\<lambda>t. on_rt (do_rawset t key v))))))"

text \<open>The binary operators: two pops, the operation of \<open>value.rs\<close>, one push.\<close>

(* engine.rs:512-545 Vm::dispatch *)
definition do_binary :: "(lua_value \<Rightarrow> lua_value \<Rightarrow> lua_error + lua_value) \<Rightarrow> ('h, unit) vm_op" where
  "do_binary f = bnd pop_value (\<lambda>b. bnd pop_value (\<lambda>a. bnd (lift_lua (f a b)) push_value))"

(* engine.rs:547-551 Vm::dispatch *)
definition do_neg :: "('h, unit) vm_op" where
  "do_neg = bnd pop_value (\<lambda>a. bnd (lift_lua (lua_unm a)) push_value)"

(* engine.rs:553-563 Vm::dispatch *)
definition do_equal :: "bool \<Rightarrow> ('h, unit) vm_op" where
  "do_equal expected = bnd pop_value (\<lambda>b. bnd pop_value (\<lambda>a. push_value (VBool (lua_eq a b = expected))))"

(* engine.rs:565-595 Vm::dispatch *)
definition do_compare :: "(cmp_ordering \<Rightarrow> bool) \<Rightarrow> ('h, unit) vm_op" where
  "do_compare p = bnd pop_value (\<lambda>b. bnd pop_value (\<lambda>a. bnd (lift_lua (lua_cmp a b)) (\<lambda>ord.
     push_value (VBool (p ord)))))"

(* engine.rs:597-601 Vm::dispatch *)
definition do_not :: "('h, unit) vm_op" where
  "do_not = bnd pop_value (\<lambda>a. push_value (VBool (\<not> is_truthy a)))"

(* engine.rs:603-633 Vm::dispatch *)
definition do_short_circuit :: "bool \<Rightarrow> i16 \<Rightarrow> ('h, unit) vm_op" where
  "do_short_circuit on offset = bnd stack_top (\<lambda>x. bnd (slot_value x) (\<lambda>v.
     if is_truthy v = on then jump_by offset else ret ()))"

fun concat_all :: "lua_value \<Rightarrow> lua_value list \<Rightarrow> lua_error + lua_value" where
  "concat_all acc [] = Inr acc"
| "concat_all acc (p # ps) = (case lua_concat acc p of Inl e \<Rightarrow> Inl e | Inr a \<Rightarrow> concat_all a ps)"

(* engine.rs:635-656 Vm::dispatch *)
definition do_concat :: "u8 \<Rightarrow> ('h, unit) vm_op" where
  "do_concat n = bnd (pop_values (unat n)) (\<lambda>parts. bnd (index_or_panic parts 0) (\<lambda>first.
     bnd (lift_lua (concat_all first (tl parts))) (\<lambda>acc.
     let result_len = (case acc of VStr s \<Rightarrow> length s | _ \<Rightarrow> 0) in
     bnd (on_rt (charge result_len)) (\<lambda>_. bnd (on_rt (alloc (size_string result_len))) (\<lambda>_.
     push_value acc)))))"

(* engine.rs:658-663 Vm::dispatch *)
definition do_len :: "('h, unit) vm_op" where
  "do_len = bnd (on_rt (charge LEN_COST)) (\<lambda>_. bnd pop_value (\<lambda>a.
     bnd (reads (\<lambda>s. lua_len (rt_tables (vm_rt s)) a)) (\<lambda>r. bnd (lift_lua r) push_value)))"

(* engine.rs:669-681 Vm::dispatch *)
definition do_jump_if :: "bool \<Rightarrow> i16 \<Rightarrow> ('h, unit) vm_op" where
  "do_jump_if on offset = bnd pop_value (\<lambda>v. if is_truthy v = on then jump_by offset else ret ())"

section \<open>Calls and returns\<close>

text \<open>Binding the arguments that have a parameter and a local slot.\<close>

(* engine.rs:1124-1129 Vm::push_call_frame *)
definition bind_args :: "function_proto \<Rightarrow> nat \<Rightarrow> lua_value list \<Rightarrow> ('h, unit) vm_op" where
  "bind_args p base args = for_each (\<lambda>(i, arg).
     if i < unat (fp_param_count p) \<and> i < unat (fp_local_count p)
     then set_stack (base + i) (SValue arg) else ret ()) (enumerate 0 args)"

(* engine.rs:1093-1132 Vm::push_call_frame *)
definition push_call_frame :: "'h vm_env \<Rightarrow> lua_closure \<Rightarrow> lua_value list \<Rightarrow> nat \<Rightarrow> ('h, unit) vm_op" where
  "push_call_frame env closure args expected_returns = bnd (proto_at env (clo_proto closure)) (\<lambda>p.
     bnd (on_rt (alloc (size_stack_frame (unat (fp_local_count p))))) (\<lambda>_.
     bnd (reads (\<lambda>s. length (vm_stack s))) (\<lambda>base.
     bnd (modifies (\<lambda>s. s\<lparr>
        vm_frames := vm_frames s @ [\<lparr>fr_proto = clo_proto closure, fr_pc = 0, fr_base = base,
          fr_upvalues = clo_upvalues closure, fr_expected_returns = expected_returns\<rparr>],
        vm_stack := vm_stack s @ replicate (unat (fp_local_count p)) (SValue VNil)\<rparr>)) (\<lambda>_.
     bind_args p base args))))"

(* engine.rs:1134-1162 Vm::do_return *)
definition do_return :: "nat \<Rightarrow> ('h, lua_value option) vm_op" where
  "do_return n = bnd (pop_values n) (\<lambda>ret_vals.
     let ret_val = (case ret_vals of [] \<Rightarrow> VNil | v # _ \<Rightarrow> v) in
     bnd top_frame (\<lambda>frame.
     bnd (modifies (\<lambda>s. s\<lparr>vm_frames := butlast (vm_frames s),
                          vm_stack := take (fr_base frame) (vm_stack s)\<rparr>)) (\<lambda>_.
     bnd (reads vm_frames) (\<lambda>fs.
     if fs = [] then ret (Some ret_val)
     else bnd (if fr_expected_returns frame \<ge> 1 then push_value ret_val else ret ()) (\<lambda>_. ret None)))))"

text \<open>One captured variable of a new closure: a local becomes a shared cell, once.\<close>

(* engine.rs:750-780 Vm::dispatch *)
definition capture :: "upvalue_desc \<Rightarrow> ('h, cell_ref) vm_op" where
  "capture desc = bnd top_frame (\<lambda>f. case desc of
      FromLocal slot \<Rightarrow> (let idx = fr_base f + unat slot in
        bnd (stack_at idx) (\<lambda>x. case x of
            SShared existing \<Rightarrow> ret existing
          | SValue v \<Rightarrow> bnd (new_cell v) (\<lambda>c. bnd (set_stack idx (SShared c)) (\<lambda>_. ret c))
          | SIter _ \<Rightarrow> fail (RuntimeError (VStr ''cannot capture iterator handle as upvalue''))))
    | FromUpvalue idx \<Rightarrow> index_or_panic (fr_upvalues f) (unat idx))"

(* engine.rs:743-794 Vm::dispatch *)
definition do_closure :: "'h vm_env \<Rightarrow> u16 \<Rightarrow> ('h, unit) vm_op" where
  "do_closure env proto_idx = bnd (proto_at env (unat proto_idx)) (\<lambda>p.
     bnd (on_rt (alloc (size_closure (unat (fp_upvalue_count p))))) (\<lambda>_.
     bnd (collect capture (fp_upvalues p)) (\<lambda>upvalues.
     push_value (VFun \<lparr>clo_proto = unat proto_idx, clo_upvalues = upvalues\<rparr>))))"

section \<open>Sorting with a Lua comparator\<close>

text \<open>\<open>runner\<close> is \<open>run_inner\<close>.\<close>

(* engine.rs:1406-1419 Vm::call_comparator *)
definition call_comparator :: "('h, lua_value) vm_op \<Rightarrow> 'h vm_env \<Rightarrow> lua_value \<Rightarrow> lua_value \<Rightarrow> lua_value
    \<Rightarrow> ('h, bool) vm_op" where
  "call_comparator runner env cmp_val a b = bnd (lift_lua (as_function cmp_val)) (\<lambda>closure.
     bnd (push_call_frame env closure [a, b] 1) (\<lambda>_.
     bnd runner (\<lambda>result. ret (is_truthy result))))"

(* engine.rs:1364-1404 Vm::merge_sort_with_comp *)
definition merge_sort_with_comp :: "('h, lua_value) vm_op \<Rightarrow> 'h vm_env \<Rightarrow> lua_value list \<Rightarrow> lua_value
    \<Rightarrow> ('h, lua_value list) vm_op" where
  "merge_sort_with_comp runner env arr cmp_val = merge_sort_slice (call_comparator runner env cmp_val) arr"

(* engine.rs:1254-1318 Vm::do_table_sort *)
definition do_table_sort :: "('h, lua_value) vm_op \<Rightarrow> 'h vm_env \<Rightarrow> lua_value list \<Rightarrow> ('h, unit) vm_op" where
  "do_table_sort runner env args =
     bnd (if args = [] then fail (RuntimeError (VStr ''table.sort: missing table argument''))
          else (case hd args of VTable t \<Rightarrow> ret t
            | other \<Rightarrow> fail (TypeError (''table.sort: expected table, got '' @ type_name other)))) (\<lambda>t.
     bnd (on_rt (borrow t)) (\<lambda>tab. let n = table_length tab in
     if n \<le> 1 then ret ()
     else bnd (on_rt (charge (n * ceil_log2 (n + 1)))) (\<lambda>_.
       bnd (on_rt (get_range t 1 (int n))) (\<lambda>arr.
       bnd (if length args \<le> 1 \<or> args ! 1 = VNil then merge_sort_default arr
            else merge_sort_with_comp runner env arr (args ! 1)) (\<lambda>sorted_arr.
       on_rt (write_back t sorted_arr))))))"

section \<open>Calls to the library, to functions and to the host\<close>

(* engine.rs:710-721 Vm::dispatch *)
definition first_result :: "lua_value list \<Rightarrow> lua_value" where
  "first_result vs = (case vs of [] \<Rightarrow> VNil | v # _ \<Rightarrow> v)"

(* engine.rs:683-732 Vm::dispatch *)
definition do_call :: "('h, lua_value) vm_op \<Rightarrow> 'h vm_env \<Rightarrow> u8 \<Rightarrow> ('h, unit) vm_op" where
  "do_call runner env argc = bnd (on_rt (charge FUNCTION_CALL)) (\<lambda>_.
     bnd (reads (\<lambda>s. length (vm_frames s))) (\<lambda>depth.
     if depth \<ge> cfg_max_call_depth (env_config env) then fail CallDepthExceeded
     else bnd (pop_values (unat argc)) (\<lambda>args. bnd pop_value (\<lambda>raw. bnd (resolve_sentinel raw) (\<lambda>func.
       case func of
         VBuiltin b \<Rightarrow>
           if b = B_TableSort then bnd (do_table_sort runner env args) (\<lambda>_. push_value VNil)
           else bnd (on_rt (call_builtin b args)) (\<lambda>results. push_value (first_result results))
       | VFun closure \<Rightarrow> push_call_frame env closure args 1
       | other \<Rightarrow> fail (TypeError (''attempt to call a '' @ type_name other @ '' value'')))))))"

text \<open>The \<open>match result\<close> of \<open>PCall\<close>: \<open>attempt\<close> turns an \<open>Err\<close> into a value; a panic is not caught.\<close>

definition attempt :: "('s, 'e, 'a) op \<Rightarrow> ('s, 'e, 'e + 'a) op" where
  "attempt m s = (case m s of (r, s') \<Rightarrow>
     (case r of Ok a \<Rightarrow> Ok (Inr a) | Err e \<Rightarrow> Ok (Inl e) | Panic p \<Rightarrow> Panic p | Timeout \<Rightarrow> Timeout, s'))"

definition push_status :: "bool \<Rightarrow> lua_value \<Rightarrow> ('h, unit) vm_op" where
  "push_status ok v = bnd (push_value (VBool ok)) (\<lambda>_. push_value v)"

(* engine.rs:824-831 Vm::dispatch *)
definition unwind :: "checkpoint \<Rightarrow> vm_error \<Rightarrow> ('h, unit) vm_op" where
  "unwind cp e = bnd (on_rt (charge PCALL_UNWIND)) (\<lambda>_.
     bnd (modifies (\<lambda>s. s\<lparr>vm_stack := take (cp_stack_len cp) (vm_stack s),
                          vm_frames := take (cp_frame_len cp) (vm_frames s)\<rparr>)) (\<lambda>_.
     push_status False (error_to_lua_value e)))"

(* engine.rs:888-906 Vm::dispatch *)
definition protected :: "checkpoint \<Rightarrow> ('h, lua_value) vm_op \<Rightarrow> ('h, unit) vm_op" where
  "protected cp m = bnd (attempt m) (\<lambda>r. case r of
      Inr v \<Rightarrow> push_status True v
    | Inl e \<Rightarrow> if is_unrecoverable e then fail e else unwind cp e)"

(* engine.rs:796-907 Vm::dispatch *)
definition do_pcall :: "('h, lua_value) vm_op \<Rightarrow> 'h vm_env \<Rightarrow> u8 \<Rightarrow> ('h, unit) vm_op" where
  "do_pcall runner env argc = bnd (on_rt (charge PCALL_SETUP)) (\<lambda>_.
     bnd (pop_values (unat argc)) (\<lambda>args. bnd pop_value (\<lambda>raw. bnd (resolve_sentinel raw) (\<lambda>func.
     bnd (reads (\<lambda>s. \<lparr>cp_stack_len = length (vm_stack s), cp_frame_len = length (vm_frames s)\<rparr>)) (\<lambda>cp.
     case func of
       VBuiltin b \<Rightarrow>
         if b = B_TableSort
         then protected cp (bnd (do_table_sort runner env args) (\<lambda>_. ret VNil))
         else protected cp (bnd (on_rt (call_builtin b args)) (\<lambda>vals. ret (first_result vals)))
     | VFun closure \<Rightarrow>
         bnd (reads (\<lambda>s. length (vm_frames s))) (\<lambda>depth.
         if depth \<ge> cfg_max_call_depth (env_config env)
         then push_status False (VStr ''call depth exceeded'')
         else bnd (push_call_frame env closure args 1) (\<lambda>_. protected cp runner))
     | _ \<Rightarrow> push_status False (error_to_lua_value (TypeError ''type error'')))))))"

definition on_tools :: "('h tool_state, vm_error, 'a) op \<Rightarrow> ('h, 'a) vm_op" where
  "on_tools m s = (case m \<lparr>ts_registry = vm_registry s, ts_rt = vm_rt s, ts_transcript = vm_transcript s\<rparr> of
     (r, t) \<Rightarrow> (r, s\<lparr>vm_registry := ts_registry t, vm_rt := ts_rt t, vm_transcript := ts_transcript t\<rparr>))"

(* engine.rs:909-932 Vm::dispatch *)
definition do_tool_call :: "'h vm_env \<Rightarrow> ('h, unit) vm_op" where
  "do_tool_call env = bnd pop_value (\<lambda>args_val. bnd pop_value (\<lambda>name_val.
     bnd (case name_val of VStr s \<Rightarrow> ret (utf8_lossy s)
          | _ \<Rightarrow> fail (TypeError ''tool name must be a string'')) (\<lambda>name.
     bnd (case args_val of VTable t \<Rightarrow> ret t
          | _ \<Rightarrow> fail (TypeError ''tool args must be a table'')) (\<lambda>args_ref.
     bnd (on_rt (borrow args_ref)) (\<lambda>args_table.
     bnd (on_tools (registry_call (env_host env) (env_config env) name args_table)) (\<lambda>resp_table.
     bnd (on_rt (rc_new resp_table)) (\<lambda>t. push_value (VTable t))))))))"

(* engine.rs:934-940 Vm::dispatch *)
definition do_log :: "('h, unit) vm_op" where
  "do_log = bnd pop_value (\<lambda>v. let msg = utf8_lossy (to_lua_string v) in
     bnd (on_rt (charge (LOG_BASE + length msg))) (\<lambda>_.
     modifies (\<lambda>s. s\<lparr>vm_logs := vm_logs s @ [msg]\<rparr>)))"

(* engine.rs:942-946 Vm::dispatch *)
definition do_error :: "('h, unit) vm_op" where
  "do_error = bnd pop_value (\<lambda>v. bnd (on_rt (charge ERROR_RAISE)) (\<lambda>_. fail (RuntimeError v)))"

section \<open>Iteration\<close>

(* engine.rs:948-966 Vm::dispatch *)
definition do_iter_init_sorted :: "i16 \<Rightarrow> ('h, unit) vm_op" where
  "do_iter_init_sorted offset = bnd pop_value (\<lambda>tv. bnd (lift_lua (as_table tv)) (\<lambda>t.
     bnd (on_rt (borrow t)) (\<lambda>tab. let keys = sorted_keys tab; n = length keys in
     bnd (on_rt (charge (n * ceil_log2 (n + 1)))) (\<lambda>_.
     if n = 0 then jump_by offset else push_slot (SIter (ISorted keys 0 t))))))"

(* engine.rs:968-982 Vm::dispatch *)
definition do_iter_init_array :: "i16 \<Rightarrow> ('h, unit) vm_op" where
  "do_iter_init_array offset = bnd pop_value (\<lambda>tv. bnd (lift_lua (as_table tv)) (\<lambda>t.
     bnd (on_rt (charge BASE_INSTRUCTION)) (\<lambda>_. bnd (on_rt (borrow t)) (\<lambda>tab.
     if table_get tab (KInt 1) = None then jump_by offset else push_slot (SIter (IArray t 1))))))"

(* engine.rs:1000-1028 Vm::dispatch *)
definition iter_next_sorted :: "i16 \<Rightarrow> lua_value list \<Rightarrow> nat \<Rightarrow> table_ref \<Rightarrow> ('h, unit) vm_op" where
  "iter_next_sorted offset keys index t = (if index \<ge> length keys then jump_by offset
     else bnd (lift_lua (into_key (keys ! index))) (\<lambda>key. bnd (on_rt (get_entry t key)) (\<lambda>v.
       bnd (on_rt (charge ITER_SORTED_STEP)) (\<lambda>_.
       bnd (push_slot (SIter (ISorted keys (index + 1) t))) (\<lambda>_.
       bnd (push_value (keys ! index)) (\<lambda>_. push_value v))))))"

(* engine.rs:1029-1047 Vm::dispatch *)
definition iter_next_array :: "i16 \<Rightarrow> table_ref \<Rightarrow> i64 \<Rightarrow> ('h, unit) vm_op" where
  "iter_next_array offset t index = bnd (on_rt (get_entry t (KInt index))) (\<lambda>v.
     if v = VNil then jump_by offset
     else bnd (on_rt (charge ITER_ARRAY_STEP)) (\<lambda>_. bnd (checked_i64 (sint index + 1)) (\<lambda>next.
       bnd (push_slot (SIter (IArray t next))) (\<lambda>_.
       bnd (push_value (VInt index)) (\<lambda>_. push_value v)))))"

(* engine.rs:984-1049 Vm::dispatch *)
definition do_iter_next :: "i16 \<Rightarrow> ('h, unit) vm_op" where
  "do_iter_next offset = bnd (reads vm_stack) (\<lambda>st.
     if st = [] then fail (RuntimeError (VStr ''IterNext: expected iterator handle on stack''))
     else (case last st of
         SIter h \<Rightarrow> bnd (modifies (\<lambda>s. s\<lparr>vm_stack := butlast st\<rparr>)) (\<lambda>_.
           case h of ISorted keys index t \<Rightarrow> iter_next_sorted offset keys index t
           | IArray t index \<Rightarrow> iter_next_array offset t index)
       | _ \<Rightarrow> fail (RuntimeError (VStr ''IterNext: expected iterator handle on stack''))))"

section \<open>Dispatch\<close>

(* engine.rs:393-413 Vm::dispatch *)
fun run_instruction :: "('h, lua_value) vm_op \<Rightarrow> 'h vm_env \<Rightarrow> instruction \<Rightarrow> ('h, unit) vm_op" where
  "run_instruction runner env I_Nop = ret ()"
| "run_instruction runner env (I_PushK idx) = do_push_k env idx"
| "run_instruction runner env I_PushNil = push_value VNil"
| "run_instruction runner env I_PushTrue = push_value (VBool True)"
| "run_instruction runner env I_PushFalse = push_value (VBool False)"
| "run_instruction runner env I_Pop = do_pop"
| "run_instruction runner env I_Dup = do_dup"
| "run_instruction runner env (I_LoadLocal slot) = do_load_local slot"
| "run_instruction runner env (I_StoreLocal slot) = do_store_local slot"
| "run_instruction runner env (I_LoadUp idx) = do_load_up idx"
| "run_instruction runner env (I_StoreUp idx) = do_store_up idx"
| "run_instruction runner env I_NewTable = do_new_table"
| "run_instruction runner env I_GetTable = do_get_table"
| "run_instruction runner env I_SetTable = do_set_table"
| "run_instruction runner env (I_GetField idx) = do_get_field env idx"
| "run_instruction runner env (I_SetField idx) = do_set_field env idx"
| "run_instruction runner env I_Add = do_binary lua_add"
| "run_instruction runner env I_Sub = do_binary lua_sub"
| "run_instruction runner env I_Mul = do_binary lua_mul"
| "run_instruction runner env I_IDiv = do_binary lua_idiv"
| "run_instruction runner env I_Mod = do_binary lua_mod"
| "run_instruction runner env I_Neg = do_neg"
| "run_instruction runner env I_Eq = do_equal True"
| "run_instruction runner env I_Ne = do_equal False"
| "run_instruction runner env I_Lt = do_compare (\<lambda>ord. ord = Less)"
| "run_instruction runner env I_Le = do_compare (\<lambda>ord. ord \<noteq> Greater)"
| "run_instruction runner env I_Gt = do_compare (\<lambda>ord. ord = Greater)"
| "run_instruction runner env I_Ge = do_compare (\<lambda>ord. ord \<noteq> Less)"
| "run_instruction runner env I_Not = do_not"
| "run_instruction runner env (I_And offset) = do_short_circuit False offset"
| "run_instruction runner env (I_Or offset) = do_short_circuit True offset"
| "run_instruction runner env (I_Concat n) = do_concat n"
| "run_instruction runner env I_Len = do_len"
| "run_instruction runner env (I_Jmp offset) = jump_by offset"
| "run_instruction runner env (I_JmpIf offset) = do_jump_if True offset"
| "run_instruction runner env (I_JmpIfNot offset) = do_jump_if False offset"
| "run_instruction runner env (I_Call argc) = do_call runner env argc"
| "run_instruction runner env (I_Ret n) = ret ()"
| "run_instruction runner env (I_Closure idx) = do_closure env idx"
| "run_instruction runner env I_ToolCall = do_tool_call env"
| "run_instruction runner env (I_PCall argc) = do_pcall runner env argc"
| "run_instruction runner env I_Log = do_log"
| "run_instruction runner env I_Error = do_error"
| "run_instruction runner env (I_IterInitSorted offset) = do_iter_init_sorted offset"
| "run_instruction runner env (I_IterInitArray offset) = do_iter_init_array offset"
| "run_instruction runner env (I_IterNext offset) = do_iter_next offset"

text \<open>\<open>Ret\<close> is the one instruction that can end the run; every other continues.\<close>

(* engine.rs:384-391 Vm::dispatch *)
definition dispatch :: "('h, lua_value) vm_op \<Rightarrow> 'h vm_env \<Rightarrow> instruction \<Rightarrow> ('h, lua_value option) vm_op" where
  "dispatch runner env instr = bnd (on_rt (charge BASE_INSTRUCTION)) (\<lambda>_. case instr of
      I_Ret n \<Rightarrow> bnd (on_rt (charge FUNCTION_RETURN)) (\<lambda>_. do_return (unat n))
    | _ \<Rightarrow> bnd (run_instruction runner env instr) (\<lambda>_. ret None))"

section \<open>The loops\<close>

text \<open>Fetching: the current function's instruction, or \<open>None\<close> behind its end, and the step of the pc.\<close>

(* engine.rs:1177-1192 Vm::run_inner *)
definition fetch :: "'h vm_env \<Rightarrow> ('h, instruction option) vm_op" where
  "fetch env = bnd top_frame (\<lambda>f. bnd (proto_at env (fr_proto f)) (\<lambda>p.
     if fr_pc f \<ge> length (fp_code p) then ret None
     else bnd (set_pc (fr_pc f + 1)) (\<lambda>_. ret (Some (fp_code p ! fr_pc f)))))"

(* engine.rs:1164-1205 Vm::run_inner *)
primrec run_loop :: "'h vm_env \<Rightarrow> nat \<Rightarrow> nat \<Rightarrow> ('h, lua_value) vm_op" where
  "run_loop env 0 target = timeout_op"
| "run_loop env (Suc fuel) target = bnd (reads (\<lambda>s. length (vm_frames s))) (\<lambda>depth.
     if depth \<le> target then pop_value
     else bnd (fetch env) (\<lambda>i.
       bnd (case i of
           None \<Rightarrow> do_return 0
         | Some instr \<Rightarrow> dispatch (\<lambda>s. run_loop env fuel (length (vm_frames s) - 1) s) env instr) (\<lambda>r.
       case r of Some v \<Rightarrow> ret v
       | None \<Rightarrow> bnd (reads (\<lambda>s. length (vm_frames s))) (\<lambda>depth'.
           if depth' \<le> target then pop_value else run_loop env fuel target))))"

definition run_inner :: "'h vm_env \<Rightarrow> nat \<Rightarrow> ('h, lua_value) vm_op" where
  "run_inner env fuel = (\<lambda>s. run_loop env fuel (length (vm_frames s) - 1) s)"

text \<open>The trace entry of one dispatched instruction.\<close>

(* engine.rs:257-270 Vm::execute *)
definition prototype_offset :: "'h vm_env \<Rightarrow> nat \<Rightarrow> nat" where
  "prototype_offset env i = sum_list (map (\<lambda>p. length (fp_code p)) (take i (prototypes (env_program env))))"

(* engine.rs:302-317 Vm::execute *)
definition trace_stack_top :: "'h vm \<Rightarrow> i64" where
  "trace_stack_top s = (if vm_stack s = [] then 0 else (case last (vm_stack s) of
      SIter _ \<Rightarrow> 0
    | x \<Rightarrow> (case (case x of SShared c \<Rightarrow> read_cell (vm_cells s) c | SValue v \<Rightarrow> v | _ \<Rightarrow> VNil) of
        VInt n \<Rightarrow> n | VBool b \<Rightarrow> (if b then 1 else 0) | _ \<Rightarrow> 0)))"

(* engine.rs:323-330 Vm::execute *)
definition next_global_pc :: "'h vm_env \<Rightarrow> 'h vm \<Rightarrow> nat" where
  "next_global_pc env s = (if vm_frames s = [] then 0
     else (let f = last (vm_frames s) in (prototype_offset env (fr_proto f) + fr_pc f) mod 2 ^ 32))"

(* engine.rs:296-321 Vm::execute *)
definition trace_entry :: "'h vm_env \<Rightarrow> 'h vm \<Rightarrow> call_frame \<Rightarrow> instruction \<Rightarrow> 'h vm \<Rightarrow> trace_step list" where
  "trace_entry env before f instr after =
     (if cfg_record_trace (env_config env)
      then [\<lparr>ts_pc = (prototype_offset env (fr_proto f) + fr_pc f) mod 2 ^ 32,
             ts_opcode = instruction_to_opcode_id instr, ts_operand = instruction_to_operand instr,
             ts_stack_top = trace_stack_top before, ts_next_pc = next_global_pc env after\<rparr>]
      else [])"

(* engine.rs:359-366 Vm::execute *)
definition with_line :: "function_proto \<Rightarrow> nat \<Rightarrow> ('s, vm_error, 'a) op \<Rightarrow> ('s, vm_error, 'a) op" where
  "with_line p pc = map_err (WithLine (if pc < length (fp_lines p) then fp_lines p ! pc else 0))"

(* engine.rs:272-372 Vm::execute *)
primrec exec_loop :: "'h vm_env \<Rightarrow> nat \<Rightarrow> trace_step list \<Rightarrow> ('h, lua_value \<times> trace_step list) vm_op" where
  "exec_loop env 0 trace = timeout_op"
| "exec_loop env (Suc fuel) trace = bnd top_frame (\<lambda>f. bnd (proto_at env (fr_proto f)) (\<lambda>p.
     bnd (fetch env) (\<lambda>i. case i of
         None \<Rightarrow> bnd (do_return 0) (\<lambda>r. case r of
             Some v \<Rightarrow> ret (v, trace)
           | None \<Rightarrow> bnd (reads vm_frames) (\<lambda>fs.
               if fs = [] then ret (VNil, trace) else exec_loop env fuel trace))
       | Some instr \<Rightarrow> bnd (reads (\<lambda>s. s)) (\<lambda>before.
           bnd (with_line p (fr_pc f) (dispatch (run_inner env fuel) env instr)) (\<lambda>r.
           bnd (reads (\<lambda>s. trace @ trace_entry env before f instr s)) (\<lambda>trace'.
           case r of Some v \<Rightarrow> ret (v, trace')
           | None \<Rightarrow> bnd (reads vm_frames) (\<lambda>fs.
               if fs = [] then ret (VNil, trace') else exec_loop env fuel trace')))))))"

text \<open>The reset, the frame of the top-level chunk and its locals.\<close>

(* engine.rs:224-255 Vm::execute *)
definition start_program :: "'h vm_env \<Rightarrow> lua_value \<Rightarrow> ('h, unit) vm_op" where
  "start_program env input =
     bnd (modifies (\<lambda>s. s\<lparr>vm_stack := [], vm_frames := [], vm_logs := [], vm_transcript := [],
            vm_registry := reset_registry (vm_registry s)\<rparr>)) (\<lambda>_.
     bnd (proto_at env 0) (\<lambda>p.
     bnd (on_rt (alloc (size_stack_frame (unat (fp_local_count p))))) (\<lambda>_.
     bnd (modifies (\<lambda>s. s\<lparr>vm_frames := [\<lparr>fr_proto = 0, fr_pc = 0, fr_base = 0, fr_upvalues = [],
              fr_expected_returns = 1\<rparr>],
            vm_stack := replicate (unat (fp_local_count p)) (SValue VNil)\<rparr>)) (\<lambda>_.
     if unat (fp_param_count p) \<ge> 1 \<and> unat (fp_local_count p) \<ge> 1
     then set_stack 0 (SValue input) else ret ()))))"

(* engine.rs:219-382 Vm::execute *)
definition execute :: "'h vm_env \<Rightarrow> nat \<Rightarrow> lua_value \<Rightarrow> ('h, vm_output) vm_op" where
  "execute env fuel input = bnd (start_program env input) (\<lambda>_.
     bnd (exec_loop env fuel []) (\<lambda>(v, trace). reads (\<lambda>s. \<lparr>out_return_value = v, out_logs = vm_logs s,
        out_gas_used = gas_used (rt_gas (vm_rt s)), out_memory_used = mem_allocated (rt_mem (vm_rt s)),
        out_transcript = vm_transcript s, out_trace = trace\<rparr>)))"

end
