(* ===== verification/Lua_Metering.thy ===== *)
theory Lua_Metering
  imports Lua_Engine
begin

text \<open>
  What metering gives the machine of \<open>Lua_Engine\<close>: no operation gives gas back, every dispatched
  instruction costs at least one unit, and therefore every run comes to an end, in an outcome that is
  not \<open>Timeout\<close>, within \<open>2 * gas + frames\<close> iterations of the loop. The nested loops of \<open>pcall\<close> and
  of a sort comparator are covered by the same bound: their callers have paid for them.
\<close>

section \<open>Orders\<close>

definition budget_le :: "rt \<Rightarrow> rt \<Rightarrow> bool" where
  "budget_le s t \<longleftrightarrow> gas_remaining (rt_gas t) \<le> gas_remaining (rt_gas s)
     \<and> gas_limit (rt_gas t) = gas_limit (rt_gas s)
     \<and> mem_limit (rt_mem t) = mem_limit (rt_mem s)
     \<and> min (mem_allocated (rt_mem s)) u64_max \<le> mem_allocated (rt_mem t)"

lemma metered_budget: "metered s t \<Longrightarrow> budget_le s t"
  by (simp add: metered_def budget_le_def)

lemma budget_le_refl: "budget_le s s"
  by (simp add: budget_le_def)

lemma budget_le_trans: "budget_le s t \<Longrightarrow> budget_le t u \<Longrightarrow> budget_le s u"
  by (auto simp: budget_le_def)

text \<open>\<open>paid\<close>: the budget only shrinks. \<open>quiet\<close>: in addition no frame is added.\<close>

definition paid :: "'h vm \<Rightarrow> 'h vm \<Rightarrow> bool" where
  "paid s t \<longleftrightarrow> budget_le (vm_rt s) (vm_rt t)"

definition quiet :: "'h vm \<Rightarrow> 'h vm \<Rightarrow> bool" where
  "quiet s t \<longleftrightarrow> paid s t \<and> length (vm_frames t) \<le> length (vm_frames s)"

definition tools_paid :: "'h tool_state \<Rightarrow> 'h tool_state \<Rightarrow> bool" where
  "tools_paid s t \<longleftrightarrow> budget_le (ts_rt s) (ts_rt t)"

interpretation paid_order: step_preorder paid
  by unfold_locales (auto simp: paid_def budget_le_refl intro: budget_le_trans)

interpretation quiet_order: step_preorder quiet
  by unfold_locales (auto simp: quiet_def paid_def budget_le_refl intro: budget_le_trans)

interpretation tools_order: step_preorder tools_paid
  by unfold_locales (auto simp: tools_paid_def budget_le_refl intro: budget_le_trans)

named_theorems quiet_intros \<open>operations that are quiet\<close>

lemmas [quiet_intros] = quiet_order.closure quiet_order.arguments keeps_case_prod keeps_if

section \<open>Quiet operations\<close>

lemma quiet_on_rt [quiet_intros]:
  "keeps metered m \<Longrightarrow> keeps quiet (on_rt m :: ('h, 'a) vm_op)"
proof -
  assume k: "keeps metered m"
  have "fst (on_rt m s) \<noteq> Timeout \<and> quiet s (snd (on_rt m s))" for s :: "'h vm"
  proof -
    obtain r t where m: "m (vm_rt s) = (r, t)" by fastforce
    show ?thesis using keepsD [OF k m] metered_budget [of "vm_rt s" t]
      by (simp add: on_rt_def m quiet_def paid_def)
  qed
  then show ?thesis by (simp add: keeps_def)
qed

lemma quiet_modifies: "(\<And>s. vm_rt (g s) = vm_rt s) \<Longrightarrow>
    (\<And>s. length (vm_frames (g s)) \<le> length (vm_frames s)) \<Longrightarrow> keeps quiet (modifies g)"
  by (simp add: keeps_def quiet_def paid_def budget_le_refl)

lemma quiet_lift_lua [quiet_intros]: "keeps quiet (lift_lua r)"
  by (cases r) (simp_all add: quiet_order.ret quiet_order.fail)

lemma quiet_slots [quiet_intros]:
  "keeps quiet (slot_value x)" "keeps quiet (push_slot x)" "keeps quiet (push_value v)"
  "keeps quiet stack_top" "keeps quiet (stack_at i)" "keeps quiet (set_stack i x)"
  "keeps quiet (set_cell c v)" "keeps quiet (new_cell v)"
proof -
  show "keeps quiet (slot_value x)"
    by (auto simp: slot_value_def intro!: quiet_intros split: stack_slot.split)
  show p: "keeps quiet (push_slot x)" for x unfolding push_slot_def by (rule quiet_modifies) simp_all
  show "keeps quiet (push_value v)" unfolding push_value_def by (rule p)
  show "keeps quiet stack_top" unfolding stack_top_def by (intro quiet_intros)
  show st: "keeps quiet (stack_at i)" for i unfolding stack_at_def by (intro quiet_intros)
  show "keeps quiet (set_stack i x)" unfolding set_stack_def
    by (rule quiet_order.bnd [OF st]) (rule quiet_modifies; simp)
  show "keeps quiet (set_cell c v)" unfolding set_cell_def by (rule quiet_modifies) simp_all
  show "keeps quiet (new_cell v)"
    by (simp add: keeps_def new_cell_def quiet_def paid_def budget_le_refl)
qed

lemma quiet_pops [quiet_intros]:
  "keeps quiet pop_value" "keeps quiet (pop_values n)" "keeps quiet do_pop"
proof -
  have m: "keeps quiet (modifies (\<lambda>s. s\<lparr>vm_stack := f s\<rparr>))" for f :: "'h vm \<Rightarrow> stack_slot list"
    by (rule quiet_modifies) simp_all
  show pv: "keeps quiet pop_value" unfolding pop_value_def by (intro quiet_intros m)
  show "keeps quiet (pop_values n)" by (induction n) (auto intro!: quiet_intros pv)
  show "keeps quiet do_pop" unfolding do_pop_def by (rule m)
qed

lemma quiet_frames [quiet_intros]:
  "keeps quiet top_frame" "keeps quiet (set_pc pc)" "keeps quiet (jump_by offset)"
  "keeps quiet (proto_at env i)" "keeps quiet (constant_at env idx)"
  "keeps quiet (resolve_sentinel v)" "keeps quiet (string_method key)"
  "keeps quiet (constant_to_string_key c)"
proof -
  show t: "keeps quiet top_frame" unfolding top_frame_def by (intro quiet_intros)
  show pc: "keeps quiet (set_pc pc)" for pc
  proof -
    have "quiet s (s\<lparr>vm_frames := butlast (vm_frames s) @ [last (vm_frames s)\<lparr>fr_pc := pc\<rparr>]\<rparr>)"
      if "vm_frames s \<noteq> []" for s :: "'h vm"
      using that by (simp add: quiet_def paid_def budget_le_refl)
    then show ?thesis
      by (simp add: keeps_def set_pc_def top_frame_def bnd_def quiet_order.step_refl)
  qed
  show "keeps quiet (jump_by offset)" unfolding jump_by_def by (intro quiet_intros t pc)
  show p: "keeps quiet (proto_at env i)" for i unfolding proto_at_def by (rule quiet_order.index)
  show "keeps quiet (constant_at env idx)" unfolding constant_at_def by (intro quiet_intros t p)
  show "keeps quiet (resolve_sentinel v)" unfolding resolve_sentinel_def by (rule quiet_order.reads)
  show "keeps quiet (string_method key)" unfolding string_method_def Let_def
    by (auto intro!: quiet_intros split: option.split)
  show "keeps quiet (constant_to_string_key c)" by (cases c) (simp_all add: quiet_intros)
qed

section \<open>Quiet instructions\<close>

lemma quiet_simple [quiet_intros]:
  "keeps quiet (do_push_k env idx)" "keeps quiet do_dup" "keeps quiet (do_load_local slot)"
  "keeps quiet (do_store_local slot)" "keeps quiet (do_load_up slot)" "keeps quiet (do_store_up slot)"
  "keeps quiet do_new_table" "keeps quiet do_get_table" "keeps quiet do_set_table"
  "keeps quiet (do_get_field env idx)" "keeps quiet (do_set_field env idx)"
  unfolding do_push_k_def do_dup_def do_load_local_def do_store_local_def do_load_up_def
    do_store_up_def do_new_table_def do_get_table_def do_set_table_def do_get_field_def
    do_set_field_def Let_def
  by (auto intro!: quiet_intros keeps_intros split: stack_slot.split lua_value.split)

lemma quiet_operators [quiet_intros]:
  "keeps quiet (do_binary f)" "keeps quiet do_neg" "keeps quiet (do_equal b)"
  "keeps quiet (do_compare p)" "keeps quiet do_not" "keeps quiet (do_short_circuit b offset)"
  "keeps quiet (do_concat n)" "keeps quiet do_len" "keeps quiet (do_jump_if b offset)"
  unfolding do_binary_def do_neg_def do_equal_def do_compare_def do_not_def do_short_circuit_def
    do_concat_def do_len_def do_jump_if_def Let_def
  by (intro quiet_intros keeps_intros)+

lemma quiet_capture [quiet_intros]: "keeps quiet (capture d)"
  unfolding capture_def Let_def
  by (auto intro!: quiet_intros split: upvalue_desc.split stack_slot.split)

lemma quiet_closure [quiet_intros]: "keeps quiet (do_closure env idx)"
  unfolding do_closure_def by (intro quiet_intros keeps_intros)

lemma quiet_iteration [quiet_intros]:
  "keeps quiet (do_iter_init_sorted offset)" "keeps quiet (do_iter_init_array offset)"
  "keeps quiet (do_iter_next offset)" "keeps quiet do_log" "keeps quiet do_error"
proof -
  have m: "keeps quiet (modifies (\<lambda>s. s\<lparr>vm_stack := f s\<rparr>))" for f :: "'h vm \<Rightarrow> stack_slot list"
    by (rule quiet_modifies) simp_all
  show "keeps quiet (do_iter_init_sorted offset)" "keeps quiet (do_iter_init_array offset)"
    unfolding do_iter_init_sorted_def do_iter_init_array_def Let_def
    by (intro quiet_intros keeps_intros)+
  have "keeps quiet (iter_next_sorted offset ks i t)" "keeps quiet (iter_next_array offset t k)" for ks i t k
    unfolding iter_next_sorted_def iter_next_array_def by (intro quiet_intros keeps_intros)+
  then show "keeps quiet (do_iter_next offset)"
    unfolding do_iter_next_def
    by (auto intro!: quiet_intros m split: stack_slot.split iter_handle.split)
  show "keeps quiet do_log" unfolding do_log_def Let_def
    by (intro quiet_intros keeps_intros) (rule quiet_modifies; simp)
  show "keeps quiet do_error" unfolding do_error_def by (intro quiet_intros keeps_intros)
qed

section \<open>Tool calls\<close>

lemma tools_modifies: "(\<And>s. ts_rt (g s) = ts_rt s) \<Longrightarrow> keeps tools_paid (modifies g)"
  by (simp add: keeps_def tools_paid_def budget_le_refl)

lemma tools_steps:
  "keeps tools_paid (canonical_or w r)" "keeps tools_paid (check_quotas config n)"
  "keeps tools_paid (count_call n)" "keeps tools_paid (call_host hi name args)"
  "keeps tools_paid (ask_attestation hi)" "keeps tools_paid (add_record f)"
  "keeps tools_paid (count_response config n)" "keeps tools_paid (on_rt_of_tools (charge n))"
proof -
  show "keeps tools_paid (canonical_or w r)"
    by (auto simp: canonical_or_def intro: tools_order.closure split: sum.split canon_error.split)
  show "keeps tools_paid (check_quotas config n)"
    unfolding check_quotas_def by (auto intro!: tools_order.closure)
  show "keeps tools_paid (count_call n)"
    unfolding count_call_def by (rule tools_modifies) (simp add: Let_def)
  show "keeps tools_paid (call_host hi name args)"
    by (simp add: keeps_def call_host_def tools_paid_def budget_le_def split: prod.split)
  show "keeps tools_paid (ask_attestation hi)"
    by (simp add: keeps_def ask_attestation_def tools_paid_def budget_le_def split: prod.split)
  show "keeps tools_paid (add_record f)"
    unfolding add_record_def by (rule tools_modifies) simp
  show "keeps tools_paid (count_response config n)"
    unfolding count_response_def by (auto intro!: tools_order.closure tools_modifies)
  show "keeps tools_paid (on_rt_of_tools (charge n))"
    by (auto simp: keeps_def on_rt_of_tools_def tools_paid_def budget_le_def charge_def gas_charge_def)
qed

lemma tools_registry_call: "keeps tools_paid (registry_call hi config name args)"
  unfolding registry_call_def Let_def
  by (auto intro!: tools_order.bnd tools_order.closure tools_steps split: sum.split)

lemma quiet_tool_call [quiet_intros]: "keeps quiet (do_tool_call (env :: 'h vm_env))"
proof -
  have on: "keeps quiet (on_tools m :: ('h, 'a) vm_op)" if k: "keeps tools_paid m"
    for m :: "('h tool_state, vm_error, 'a) op"
  proof -
    have "fst (on_tools m s) \<noteq> Timeout \<and> quiet s (snd (on_tools m s))" for s
    proof -
      let ?s = "\<lparr>ts_registry = vm_registry s, ts_rt = vm_rt s, ts_transcript = vm_transcript s\<rparr>"
      obtain r t where m: "m ?s = (r, t)" by fastforce
      show ?thesis using keepsD [OF k m]
        by (simp add: on_tools_def m quiet_def paid_def tools_paid_def)
    qed
    then show ?thesis by (simp add: keeps_def)
  qed
  show ?thesis unfolding do_tool_call_def
    by (auto intro!: quiet_intros keeps_intros on tools_registry_call split: lua_value.split)
qed

section \<open>Calls and the bound on the loops\<close>

text \<open>
  \<open>runs G F m F'\<close>: from a state with at most \<open>G\<close> gas and \<open>F\<close> frames, \<open>m\<close> comes to an end, the
  budget only shrinks, and if it succeeds there are at most \<open>F'\<close> frames.
\<close>

definition gas_of :: "'h vm \<Rightarrow> nat" where
  "gas_of s = gas_remaining (rt_gas (vm_rt s))"

definition runs :: "nat \<Rightarrow> nat \<Rightarrow> ('h, 'a) vm_op \<Rightarrow> nat \<Rightarrow> bool" where
  "runs G F m F' \<longleftrightarrow> (\<forall>s. gas_of s \<le> G \<and> length (vm_frames s) \<le> F \<longrightarrow>
     fst (m s) \<noteq> Timeout \<and> paid s (snd (m s))
     \<and> (\<forall>a. fst (m s) = Ok a \<longrightarrow> length (vm_frames (snd (m s))) \<le> F'))"

lemma paid_gas: "paid s t \<Longrightarrow> gas_of t \<le> gas_of s"
  by (simp add: paid_def budget_le_def gas_of_def)

lemma runsD:
  assumes "runs G F m F'" and "gas_of s \<le> G" and "length (vm_frames s) \<le> F" and "m s = (r, t)"
  shows "r \<noteq> Timeout" and "paid s t" and "r = Ok a \<Longrightarrow> length (vm_frames t) \<le> F'"
  using assms unfolding runs_def by (metis fst_conv snd_conv)+

lemma runs_quiet: "keeps quiet m \<Longrightarrow> runs G F m F"
  unfolding runs_def keeps_def quiet_def by (meson le_trans)

lemma runs_weaken: "runs G F m F' \<Longrightarrow> F' \<le> F'' \<Longrightarrow> runs G F m F''"
  unfolding runs_def by (meson le_trans)

lemma runs_bnd:
  assumes m: "runs G F m F1" and f: "\<And>a. runs G F1 (f a) F2"
  shows "runs G F (bnd m f) F2"
  unfolding runs_def
proof (intro allI impI)
  fix s :: "'a vm" assume s: "gas_of s \<le> G \<and> length (vm_frames s) \<le> F"
  obtain r t where r: "m s = (r, t)" by fastforce
  note rt = runsD [OF m _ _ r] 
  have p: "paid s t" and nt: "r \<noteq> Timeout" using rt s by auto
  show "fst (bnd m f s) \<noteq> Timeout \<and> paid s (snd (bnd m f s))
      \<and> (\<forall>a. fst (bnd m f s) = Ok a \<longrightarrow> length (vm_frames (snd (bnd m f s))) \<le> F2)"
  proof (cases r)
    case (Ok a)
    have "length (vm_frames t) \<le> F1" using rt(3) s Ok by blast
    moreover have "gas_of t \<le> G" using paid_gas [OF p] s by simp
    moreover obtain r' u where u: "f a t = (r', u)" by fastforce
    ultimately have "r' \<noteq> Timeout" "paid t u" "\<And>b. r' = Ok b \<Longrightarrow> length (vm_frames u) \<le> F2"
      using runsD [OF f [of a] _ _ u] by blast+
    then show ?thesis using r u Ok paid_order.step_trans [OF p] by (simp add: bnd_eq(1))
  qed (use r nt p in \<open>simp_all add: bnd_def\<close>)
qed

text \<open>Gas that has been charged is not available to what follows.\<close>

lemma runs_charge:
  assumes "n \<le> G \<Longrightarrow> runs (G - n) F m F'"
  shows "runs G F (bnd (on_rt (charge n)) (\<lambda>_. m)) F'"
  unfolding runs_def
proof (intro allI impI)
  fix s :: "'a vm" assume s: "gas_of s \<le> G \<and> length (vm_frames s) \<le> F"
  show "fst (bnd (on_rt (charge n)) (\<lambda>_. m) s) \<noteq> Timeout \<and> paid s (snd (bnd (on_rt (charge n)) (\<lambda>_. m) s))
      \<and> (\<forall>a. fst (bnd (on_rt (charge n)) (\<lambda>_. m) s) = Ok a
          \<longrightarrow> length (vm_frames (snd (bnd (on_rt (charge n)) (\<lambda>_. m) s))) \<le> F')"
  proof (cases rule: charge_cases [of n "vm_rt s"])
    case paid
    let ?t = "s\<lparr>vm_rt := (vm_rt s)\<lparr>rt_gas := (rt_gas (vm_rt s))\<lparr>gas_remaining := gas_of s - n\<rparr>\<rparr>\<rparr>"
    have c: "on_rt (charge n) s = (Ok (), ?t)" using paid(2) by (simp add: on_rt_def gas_of_def)
    have p: "paid s ?t" by (simp add: paid_def budget_le_def gas_of_def)
    have "n \<le> G" "gas_of ?t \<le> G - n" using paid(1) s by (simp_all add: gas_of_def diff_le_mono)
    moreover obtain r u where u: "m ?t = (r, u)" by fastforce
    moreover have "length (vm_frames ?t) \<le> F" using s by simp
    ultimately have "r \<noteq> Timeout" "paid ?t u" "\<And>b. r = Ok b \<Longrightarrow> length (vm_frames u) \<le> F'"
      using runsD [OF assms _ _ u] by blast+
    then show ?thesis using c u paid_order.step_trans [OF p] by (simp add: bnd_eq(1))
  next
    case refused
    then have "on_rt (charge n) s = (Err GasExhausted,
        s\<lparr>vm_rt := (vm_rt s)\<lparr>rt_gas := (rt_gas (vm_rt s))\<lparr>gas_remaining := 0\<rparr>\<rparr>\<rparr>)"
      by (simp add: on_rt_def)
    then show ?thesis by (simp add: bnd_eq(2) paid_def budget_le_def)
  qed
qed

lemma runs_ret: "runs G F (ret a) F"
  by (rule runs_quiet [OF quiet_order.ret])

lemma runs_if: "runs G F m F' \<Longrightarrow> runs G F n F' \<Longrightarrow> runs G F (if b then m else n) F'"
  by simp

text \<open>Pushing a call frame adds one frame.\<close>

lemma quiet_bind_args: "keeps quiet (bind_args p base args)"
  unfolding bind_args_def by (intro quiet_intros)

lemma runs_push_call_frame: "runs G F (push_call_frame env c args n) (Suc F)"
proof -
  have add: "runs G F (modifies (\<lambda>s. s\<lparr>vm_frames := vm_frames s @ [x s], vm_stack := y s\<rparr>)) (Suc F)"
    for x :: "'h vm \<Rightarrow> call_frame" and y
    by (simp add: runs_def paid_def budget_le_refl)
  show ?thesis unfolding push_call_frame_def
    by (intro runs_bnd [OF runs_quiet] runs_bnd [OF add] runs_quiet quiet_intros keeps_intros
        quiet_bind_args)
qed

lemma runs_reads:
  assumes "\<And>s. length (vm_frames s) \<le> F \<Longrightarrow> runs G F (f (g s)) F'"
  shows "runs G F (bnd (reads g) f) F'"
  using assms by (simp add: runs_def bnd_def)

lemma runs_gas: "runs G F m F' \<Longrightarrow> G' \<le> G \<Longrightarrow> runs G' F m F'"
  unfolding runs_def by (meson le_trans)

lemma runs_collect_sort:
  assumes "\<And>x y. runs G F (cmp x y) F"
  shows "runs G F (merge_runs cmp xs ys) F"
proof (induction xs ys rule: merge_runs_induct)
  case (both x xs y ys)
  then show ?case
    by (auto intro!: runs_bnd [OF assms] runs_if runs_bnd [OF both.IH(1)] runs_bnd [OF both.IH(2)] runs_ret)
qed (auto intro: runs_quiet quiet_intros)

lemma runs_merge_sort:
  assumes "\<And>x y. runs G F (cmp x y) F"
  shows "runs G F (merge_sort_slice cmp arr) F"
proof (induction "length arr" arbitrary: arr rule: less_induct)
  case less
  show ?case
  proof (cases "length arr \<le> 1")
    case True
    then show ?thesis by (simp add: merge_sort_slice.simps [of cmp arr] runs_ret)
  next
    case False
    have "runs G F (merge_sort_slice cmp (take (length arr div 2) arr)) F"
      "runs G F (merge_sort_slice cmp (drop (length arr div 2) arr)) F"
      using False by (auto intro!: less.hyps)
    then show ?thesis using False
      by (auto simp: merge_sort_slice.simps [of cmp arr] Let_def
          intro!: runs_bnd runs_collect_sort [OF assms])
  qed
qed

text \<open>The runner handed to the instructions that call back: from one frame more it returns to where
  it was called.\<close>

definition returns_home :: "nat \<Rightarrow> nat \<Rightarrow> ('h, lua_value) vm_op \<Rightarrow> bool" where
  "returns_home G F runner \<longleftrightarrow> (\<forall>K \<le> F. runs G (Suc K) runner K)"

lemma returns_homeD: "returns_home G F runner \<Longrightarrow> runs G (Suc F) runner F"
  by (simp add: returns_home_def)

lemma runs_table_sort:
  assumes "returns_home G F runner"
  shows "runs G F (do_table_sort runner env args) F"
proof -
  have c: "runs G F (call_comparator runner env cv a b) F" for cv a b
    unfolding call_comparator_def
    by (intro runs_bnd [OF runs_quiet [OF quiet_lift_lua]] runs_bnd [OF runs_push_call_frame]
        runs_bnd [OF returns_homeD [OF assms]] runs_ret)
  have d: "keeps quiet (default_less a b)" for a b
    by (auto simp: default_less_def intro!: quiet_order.closure split: sum.split)
  have "runs G F (merge_sort_default arr) F" for arr
    unfolding merge_sort_default_def by (rule runs_merge_sort [OF runs_quiet [OF d]])
  moreover have "runs G F (merge_sort_with_comp runner env arr cv) F" for arr cv
    unfolding merge_sort_with_comp_def by (rule runs_merge_sort [OF c])
  moreover have "keeps metered (write_back t vs)" for t vs
    unfolding write_back_def by (intro keeps_intros)
  ultimately have sort: "runs G F (bnd (if b then merge_sort_default arr
      else merge_sort_with_comp runner env arr cv) (\<lambda>vs. on_rt (write_back t vs))) F" for b arr cv t
    by (intro runs_bnd [where ?F1.0 = F] runs_if) (simp_all add: runs_quiet quiet_on_rt)
  have arg: "keeps quiet (if args = [] then fail e
      else (case hd args of VTable t \<Rightarrow> ret t | v \<Rightarrow> fail (e' v)))" for e e'
    by (auto intro!: quiet_intros split: lua_value.split)
  show ?thesis unfolding do_table_sort_def Let_def
    by (rule runs_bnd [OF runs_quiet [OF arg]], rule runs_bnd [OF runs_quiet], intro quiet_intros keeps_intros,
        rule runs_if [OF runs_ret], rule runs_bnd [OF runs_quiet], intro quiet_intros keeps_intros,
        rule runs_bnd [OF runs_quiet], intro quiet_intros keeps_intros, rule sort)
qed

lemma runs_call:
  assumes "10 \<le> G \<Longrightarrow> returns_home (G - 10) F runner"
  shows "runs G F (do_call runner env argc) (Suc F)"
  unfolding do_call_def gas_costs
proof (rule runs_charge)
  assume "10 \<le> G"
  then have h: "returns_home (G - 10) F runner" by (rule assms)
  let ?G = "G - 10"
  have tail: "runs ?G F (case func of
         VBuiltin b \<Rightarrow>
           if b = B_TableSort then bnd (do_table_sort runner env args) (\<lambda>_. push_value VNil)
           else bnd (on_rt (call_builtin b args)) (\<lambda>results. push_value (first_result results))
       | VFun closure \<Rightarrow> push_call_frame env closure args 1
       | other \<Rightarrow> fail (TypeError (''attempt to call a '' @ type_name other @ '' value''))) (Suc F)" for func args
  proof -
    have q: "runs ?G F m (Suc F)" if "keeps quiet m" for m :: "('a, unit) vm_op"
      by (rule runs_weaken [OF runs_quiet [OF that]]) simp
    have "runs ?G F (bnd (do_table_sort runner env args) (\<lambda>_. push_value VNil)) (Suc F)"
      by (rule runs_bnd [OF runs_table_sort [OF h] q]) (intro quiet_intros)
    moreover have "keeps quiet (bnd (on_rt (call_builtin b args)) (\<lambda>rs. push_value (first_result rs)))" for b
      by (intro quiet_intros keeps_intros)
    ultimately show ?thesis
      by (auto intro: q quiet_order.fail runs_push_call_frame split: lua_value.split)
  qed
  have q: "keeps quiet (reads g)" "keeps quiet (pop_values n)" "keeps quiet pop_value"
    "keeps quiet (resolve_sentinel v)" for g :: "'a vm \<Rightarrow> nat" and n v
    by (intro quiet_intros)+
  show "runs ?G F (bnd (reads (\<lambda>s. length (vm_frames s))) (\<lambda>depth.
     if depth \<ge> cfg_max_call_depth (env_config env) then fail CallDepthExceeded
     else bnd (pop_values (unat argc)) (\<lambda>args. bnd pop_value (\<lambda>raw. bnd (resolve_sentinel raw) (\<lambda>func.
       case func of
         VBuiltin b \<Rightarrow>
           if b = B_TableSort then bnd (do_table_sort runner env args) (\<lambda>_. push_value VNil)
           else bnd (on_rt (call_builtin b args)) (\<lambda>results. push_value (first_result results))
       | VFun closure \<Rightarrow> push_call_frame env closure args 1
       | other \<Rightarrow> fail (TypeError (''attempt to call a '' @ type_name other @ '' value''))))))) (Suc F)"
    by (intro runs_bnd [OF runs_quiet [OF q(1)]] runs_if runs_bnd [OF runs_quiet [OF q(2)]]
        runs_bnd [OF runs_quiet [OF q(3)]] runs_bnd [OF runs_quiet [OF q(4)]] tail
        runs_weaken [OF runs_quiet [OF quiet_order.fail]]) simp
qed

text \<open>A protected call ends with at most the frames of its checkpoint, also when the callee failed
  with any number of frames left.\<close>

lemma runs_protected:
  assumes m: "runs G F m F'" and cp: "cp_frame_len cp \<le> F'"
  shows "runs G F (protected cp m) F'"
  unfolding runs_def
proof (intro allI impI)
  fix s :: "'a vm" assume s: "gas_of s \<le> G \<and> length (vm_frames s) \<le> F"
  obtain r t where r: "m s = (r, t)" by fastforce
  have t: "r \<noteq> Timeout" "paid s t" "\<And>a. r = Ok a \<Longrightarrow> length (vm_frames t) \<le> F'"
    using runsD [OF m _ _ r] s by blast+
  have push: "keeps quiet (push_status b v :: ('a, unit) vm_op)" for b v
    unfolding push_status_def by (intro quiet_intros)
  show "fst (protected cp m s) \<noteq> Timeout \<and> paid s (snd (protected cp m s))
     \<and> (\<forall>a. fst (protected cp m s) = Ok a \<longrightarrow> length (vm_frames (snd (protected cp m s))) \<le> F')"
  proof (cases r)
    case (Ok v)
    obtain r' u where u: "push_status True v t = (r', u)" by fastforce
    have "r' \<noteq> Timeout" "quiet t u" using keepsD [OF push u] by auto
    then show ?thesis using r u Ok t paid_order.step_trans [OF t(2)]
      by (fastforce simp: protected_def attempt_def bnd_def quiet_def)
  next
    case (Err e)
    show ?thesis
    proof (cases "is_unrecoverable e")
      case True
      then show ?thesis using r Err t by (simp add: protected_def attempt_def bnd_def)
    next
      case False
      have cut: "runs (gas_of t) (length (vm_frames t)) (modifies (\<lambda>s :: 'a vm.
          s\<lparr>vm_stack := take (cp_stack_len cp) (vm_stack s), vm_frames := take (cp_frame_len cp) (vm_frames s)\<rparr>)) F'"
        using cp by (simp add: runs_def paid_def budget_le_refl min_def)
      have q: "keeps quiet (on_rt (charge PCALL_UNWIND) :: ('a, unit) vm_op)"
        by (intro quiet_intros keeps_intros)
      have uw: "runs (gas_of t) (length (vm_frames t)) (unwind cp e :: ('a, unit) vm_op) F'"
        unfolding unwind_def
        by (rule runs_bnd [OF runs_quiet [OF q]], rule runs_bnd [OF cut], rule runs_quiet [OF push])
      obtain r' u where u: "unwind cp e t = (r', u)" by fastforce
      have "r' \<noteq> Timeout" "paid t u" "\<And>a. r' = Ok a \<Longrightarrow> length (vm_frames u) \<le> F'"
        using runsD [OF uw le_refl le_refl u] by blast+
      then show ?thesis using r u Err t False paid_order.step_trans [OF t(2)]
        by (simp add: protected_def attempt_def bnd_def)
    qed
  qed (use r t in \<open>simp_all add: protected_def attempt_def bnd_def\<close>)
qed

lemma runs_pcall:
  assumes "15 \<le> G \<Longrightarrow> returns_home (G - 15) F runner"
  shows "runs G F (do_pcall runner env argc) (Suc F)"
  unfolding do_pcall_def gas_costs
proof (rule runs_charge)
  assume "15 \<le> G"
  then have h: "returns_home (G - 15) F runner" by (rule assms)
  let ?G = "G - 15"
  let ?cp = "\<lambda>s :: 'a vm. \<lparr>cp_stack_len = length (vm_stack s), cp_frame_len = length (vm_frames s)\<rparr>"
  have q: "keeps quiet (push_status b v :: ('a, unit) vm_op)" for b v
    unfolding push_status_def by (intro quiet_intros)
  have protected: "runs ?G F (protected cp m) F" if "runs ?G F m F" "cp_frame_len cp \<le> F" for cp m
    using that by (rule runs_protected)
  have builtin: "keeps quiet (bnd (on_rt (call_builtin b args)) (\<lambda>vals. ret (first_result vals)) :: ('a, lua_value) vm_op)" for b args
    by (intro quiet_intros keeps_intros)
  have sort: "runs ?G F (bnd (do_table_sort runner env args) (\<lambda>_. ret VNil)) F" for args
    by (rule runs_bnd [OF runs_table_sort [OF h] runs_ret])
  have callee: "runs ?G F (bnd (push_call_frame env closure args 1) (\<lambda>_. protected cp runner)) F"
    if "cp_frame_len cp \<le> F" for closure args cp
    by (rule runs_bnd [OF runs_push_call_frame runs_protected [OF returns_homeD [OF h] that]])
  have tail: "runs ?G F (bnd (reads ?cp) (\<lambda>cp. case func of
       VBuiltin b \<Rightarrow>
         if b = B_TableSort
         then protected cp (bnd (do_table_sort runner env args) (\<lambda>_. ret VNil))
         else protected cp (bnd (on_rt (call_builtin b args)) (\<lambda>vals. ret (first_result vals)))
     | VFun closure \<Rightarrow>
         bnd (reads (\<lambda>s. length (vm_frames s))) (\<lambda>depth.
         if depth \<ge> cfg_max_call_depth (env_config env)
         then push_status False (VStr ''call depth exceeded'')
         else bnd (push_call_frame env closure args 1) (\<lambda>_. protected cp runner))
     | _ \<Rightarrow> push_status False (error_to_lua_value (TypeError ''type error'')))) F" for func args
  proof (rule runs_reads)
    fix s :: "'a vm" assume "length (vm_frames s) \<le> F"
    then have cp: "cp_frame_len (?cp s) \<le> F" by simp
    show "runs ?G F (case func of
       VBuiltin b \<Rightarrow>
         if b = B_TableSort
         then protected (?cp s) (bnd (do_table_sort runner env args) (\<lambda>_. ret VNil))
         else protected (?cp s) (bnd (on_rt (call_builtin b args)) (\<lambda>vals. ret (first_result vals)))
     | VFun closure \<Rightarrow>
         bnd (reads (\<lambda>s. length (vm_frames s))) (\<lambda>depth.
         if depth \<ge> cfg_max_call_depth (env_config env)
         then push_status False (VStr ''call depth exceeded'')
         else bnd (push_call_frame env closure args 1) (\<lambda>_. protected (?cp s) runner))
     | _ \<Rightarrow> push_status False (error_to_lua_value (TypeError ''type error''))) F"
      using protected [OF sort cp] protected [OF runs_quiet [OF builtin] cp] callee [OF cp]
      by (auto intro!: runs_reads runs_quiet [OF q] split: lua_value.split)
  qed
  have q': "keeps quiet (pop_values n)" "keeps quiet pop_value" "keeps quiet (resolve_sentinel v)" for n v
    by (intro quiet_intros)+
  show "runs ?G F (bnd (pop_values (unat argc)) (\<lambda>args. bnd pop_value (\<lambda>raw. bnd (resolve_sentinel raw) (\<lambda>func.
     bnd (reads ?cp) (\<lambda>cp. case func of
       VBuiltin b \<Rightarrow>
         if b = B_TableSort
         then protected cp (bnd (do_table_sort runner env args) (\<lambda>_. ret VNil))
         else protected cp (bnd (on_rt (call_builtin b args)) (\<lambda>vals. ret (first_result vals)))
     | VFun closure \<Rightarrow>
         bnd (reads (\<lambda>s. length (vm_frames s))) (\<lambda>depth.
         if depth \<ge> cfg_max_call_depth (env_config env)
         then push_status False (VStr ''call depth exceeded'')
         else bnd (push_call_frame env closure args 1) (\<lambda>_. protected cp runner))
     | _ \<Rightarrow> push_status False (error_to_lua_value (TypeError ''type error''))))))) (Suc F)"
    by (intro runs_bnd [OF runs_quiet [OF q'(1)]] runs_bnd [OF runs_quiet [OF q'(2)]]
        runs_bnd [OF runs_quiet [OF q'(3)]] runs_weaken [OF tail]) simp
qed

section \<open>Dispatch and the loops\<close>

lemma quiet_do_return: "keeps quiet (do_return n)"
proof -
  have "keeps quiet (modifies (\<lambda>s. s\<lparr>vm_frames := butlast (vm_frames s), vm_stack := g s\<rparr>))" for g
    by (rule quiet_modifies) simp_all
  then show ?thesis unfolding do_return_def Let_def by (intro quiet_intros)
qed

lemma runs_instruction:
  assumes "10 \<le> G \<Longrightarrow> returns_home (G - 10) F runner"
  shows "runs G F (run_instruction runner env i) (Suc F)"
proof -
  have pc: "15 \<le> G \<Longrightarrow> returns_home (G - 15) F runner"
    using assms by (auto simp: returns_home_def intro: runs_gas [where G = "G - 10"])
  have q: "runs G F m (Suc F)" if "keeps quiet m" for m :: "('a, unit) vm_op"
    by (rule runs_weaken [OF runs_quiet [OF that]]) simp
  show ?thesis
    by (cases i) (simp_all add: q quiet_intros runs_call [OF assms] runs_pcall [OF pc])
qed

text \<open>Every dispatched instruction that succeeds has cost gas.\<close>

lemma dispatch_runs:
  assumes "11 \<le> G \<Longrightarrow> returns_home (G - 11) F runner"
  shows "runs G F (dispatch runner env i) (Suc F)"
    and "dispatch runner env i s = (Ok r, t) \<Longrightarrow> gas_of s = G \<Longrightarrow> length (vm_frames s) \<le> F \<Longrightarrow> gas_of t < G"
proof -
  let ?rest = "case i of
      I_Ret n \<Rightarrow> bnd (on_rt (charge FUNCTION_RETURN)) (\<lambda>_. do_return (unat n))
    | _ \<Rightarrow> bnd (run_instruction runner env i) (\<lambda>_. ret None)"
  have rest: "runs (G - 1) F ?rest (Suc F)" if "1 \<le> G"
  proof -
    have "returns_home (G - 1 - 10) F runner" if "10 \<le> G - 1" using assms that by simp
    then have "runs (G - 1) F (bnd (run_instruction runner env i) (\<lambda>_. ret None)) (Suc F)"
      by (intro runs_bnd [OF runs_instruction runs_ret])
    moreover have "runs (G - 1) F (bnd (on_rt (charge FUNCTION_RETURN)) (\<lambda>_. do_return (unat n))) (Suc F)" for n
      by (rule runs_weaken [OF runs_quiet]) (intro quiet_intros keeps_intros quiet_do_return, simp)
    ultimately show ?thesis by (auto split: instruction.split)
  qed
  show "runs G F (dispatch runner env i) (Suc F)"
    using runs_charge [of 1 G F ?rest "Suc F", OF rest] by (simp add: dispatch_def)
  show "gas_of t < G" if ok: "dispatch runner env i s = (Ok r, t)" and G: "gas_of s = G"
    and F: "length (vm_frames s) \<le> F"
  proof (cases rule: charge_cases [of 1 "vm_rt s"])
    case paid
    let ?s = "s\<lparr>vm_rt := (vm_rt s)\<lparr>rt_gas := (rt_gas (vm_rt s))\<lparr>gas_remaining := gas_of s - 1\<rparr>\<rparr>\<rparr>"
    have "on_rt (charge 1) s = (Ok (), ?s)" using paid(2) by (simp add: on_rt_def gas_of_def)
    then have "?rest ?s = (Ok r, t)" using ok by (simp add: dispatch_def bnd_eq(1))
    moreover have "gas_of ?s \<le> G - 1" "length (vm_frames ?s) \<le> F" using G F by (simp_all add: gas_of_def)
    moreover have "1 \<le> G" using paid(1) G by (simp add: gas_of_def)
    ultimately have "paid ?s t" using runsD(2) [OF rest] by blast
    then have "gas_of t \<le> gas_of s - 1" using paid_gas by (fastforce simp: gas_of_def)
    then show ?thesis using \<open>1 \<le> G\<close> G by simp
  next
    case refused
    then show ?thesis using ok by (simp add: dispatch_def bnd_def on_rt_def)
  qed
qed

text \<open>Fetching neither adds a frame nor costs gas; the implicit return removes one.\<close>

lemma quiet_fetch: "keeps quiet (fetch env)"
  unfolding fetch_def by (intro quiet_intros)

lemma do_return_frames:
  assumes "do_return n s = (Ok r, t)"
  shows "vm_frames t = butlast (vm_frames s) \<and> vm_frames s \<noteq> [] \<and> (r \<noteq> None \<longrightarrow> vm_frames t = [])"
proof -
  have pop: "vm_frames u = vm_frames s" if "pop_value s = (x, u)" for x u and s :: "'a vm"
    using that by (auto simp: pop_value_def bnd_def slot_value_def split: if_splits stack_slot.splits)
  have pops: "vm_frames u = vm_frames s" if "pop_values n s = (Ok vs, u)" for vs u n and s :: "'a vm"
    using that by (induction n arbitrary: s vs) (auto simp: bnd_Ok_iff dest!: pop)
  obtain vs u where "pop_values n s = (Ok vs, u)"
    using assms by (auto simp: do_return_def bnd_Ok_iff)
  with assms pops show ?thesis
    by (auto simp: do_return_def bnd_Ok_iff top_frame_def push_value_def push_slot_def Let_def
        split: if_splits)
qed

lemma pop_value_frames: "pop_value s = (r, t) \<Longrightarrow> vm_frames t = vm_frames s"
  by (auto simp: pop_value_def bnd_def slot_value_def split: if_splits stack_slot.splits)

lemma dispatch_done:
  assumes "dispatch runner env i s = (Ok z, t)"
  shows "z \<noteq> None \<longrightarrow> vm_frames t = []"
  using assms by (cases i) (auto simp: dispatch_def bnd_Ok_iff dest!: do_return_frames)

text \<open>The inner loop: with more fuel than twice the gas plus the frames it never times out, and when
  it returns, all frames above \<open>target\<close> are gone.\<close>

lemma run_loop_bound:
  assumes "2 * gas_of s + length (vm_frames s) < fuel" and "run_loop env fuel target s = (r, t)"
  shows "r \<noteq> Timeout \<and> paid s t \<and> (\<forall>v. r = Ok v \<longrightarrow> length (vm_frames t) \<le> target)"
  using assms
proof (induction fuel arbitrary: target s r t)
  case (Suc fuel)
  let ?G = "gas_of s" and ?F = "length (vm_frames s)"
  have pop: "r' \<noteq> Timeout \<and> paid u u' \<and> vm_frames u' = vm_frames u" if "pop_value u = (r', u')" for u u' r'
    using keepsD [OF quiet_pops(1) that] pop_value_frames [OF that] by (simp add: quiet_def)
  show ?case
  proof (cases "length (vm_frames s) \<le> target")
    case True
    then have "pop_value s = (r, t)" using Suc.prems(2) by (simp add: bnd_def)
    then show ?thesis using pop True by auto
  next
    case False
    obtain x s1 where x: "fetch env s = (x, s1)" by fastforce
    have s1: "x \<noteq> Timeout" "paid s s1" "length (vm_frames s1) \<le> ?F"
      using keepsD [OF quiet_fetch x] by (auto simp: quiet_def)
    show ?thesis
    proof (cases x)
      case (Ok i)
      let ?step = "case i of None \<Rightarrow> do_return 0 | Some instr \<Rightarrow> dispatch (run_inner env fuel) env instr"
      let ?G1 = "gas_of s1"
      have g1: "?G1 \<le> ?G" by (rule paid_gas [OF s1(2)])
      have home: "returns_home (?G1 - 11) ?F (run_inner env fuel)" if "11 \<le> ?G1"
        unfolding returns_home_def runs_def
      proof (intro allI impI)
        fix K and u :: "'a vm"
        assume K: "K \<le> ?F" and u: "gas_of u \<le> ?G1 - 11 \<and> length (vm_frames u) \<le> Suc K"
        obtain r' u' where r': "run_loop env fuel (length (vm_frames u) - 1) u = (r', u')" by fastforce
        have "2 * gas_of u + length (vm_frames u) < fuel" using u K that g1 Suc.prems(1) by linarith
        from Suc.IH [OF this r'] show "fst (run_inner env fuel u) \<noteq> Timeout
            \<and> paid u (snd (run_inner env fuel u))
            \<and> (\<forall>a. fst (run_inner env fuel u) = Ok a \<longrightarrow> length (vm_frames (snd (run_inner env fuel u))) \<le> K)"
          using u r' by (auto simp: run_inner_def)
      qed
      obtain y s2 where y: "?step s1 = (y, s2)" by fastforce
      have runs: "runs ?G1 ?F ?step (Suc ?F)"
      proof (cases i)
        case None
        then show ?thesis by (simp add: runs_weaken [OF runs_quiet [OF quiet_do_return]])
      next
        case (Some instr)
        then show ?thesis using dispatch_runs(1) [OF home] by simp
      qed
      have s2: "y \<noteq> Timeout" "paid s1 s2" using runsD [OF runs le_refl s1(3) y] by blast+
      have p2: "paid s s2" using paid_order.step_trans [OF s1(2) s2(2)] .
      have decrease: "2 * gas_of s2 + length (vm_frames s2) < fuel \<and> (z \<noteq> None \<longrightarrow> length (vm_frames s2) \<le> target)"
        if "y = Ok z" for z
      proof (cases i)
        case None
        then have "vm_frames s2 = butlast (vm_frames s1)" "vm_frames s1 \<noteq> []" "z \<noteq> None \<longrightarrow> vm_frames s2 = []"
          using do_return_frames [of 0 s1 z s2] y that by auto
        moreover have "gas_of s2 \<le> ?G1" by (rule paid_gas [OF s2(2)])
        ultimately show ?thesis using Suc.prems(1) s1(3) g1
          by (cases "vm_frames s1" rule: rev_cases) auto
      next
        case (Some instr)
        then have d: "dispatch (run_inner env fuel) env instr s1 = (Ok z, s2)" using y that by simp
        have "gas_of s2 < ?G1" by (rule dispatch_runs(2) [OF home d refl s1(3)])
        moreover have "length (vm_frames s2) \<le> Suc ?F" using runsD(3) [OF runs le_refl s1(3) y that] .
        moreover have "z \<noteq> None \<longrightarrow> vm_frames s2 = []"
          by (rule dispatch_done [OF d])
        ultimately show ?thesis using Suc.prems(1) g1 by auto
      qed
      have step: "run_loop env (Suc fuel) target s = bnd ?step (\<lambda>r. case r of Some v \<Rightarrow> ret v
         | None \<Rightarrow> bnd (reads (\<lambda>s. length (vm_frames s))) (\<lambda>depth'.
           if depth' \<le> target then pop_value else run_loop env fuel target)) s1"
        using False x Ok unfolding run_inner_def by (simp add: bnd_def)
      show ?thesis
      proof (cases y)
        case (Ok z)
        note d = decrease [OF Ok]
        show ?thesis
        proof (cases z)
          case (Some v)
          then show ?thesis using Suc.prems(2) step y Ok p2 d by (simp add: bnd_def)
        next
          case None
          show ?thesis
          proof (cases "length (vm_frames s2) \<le> target")
            case True
            then have "pop_value s2 = (r, t)" using Suc.prems(2) step y Ok None by (simp add: bnd_def)
            then show ?thesis using pop True paid_order.step_trans [OF p2] by fastforce
          next
            case False
            then have "run_loop env fuel target s2 = (r, t)"
              using Suc.prems(2) step y Ok None by (simp add: bnd_def)
            from Suc.IH [OF _ this] d show ?thesis using paid_order.step_trans [OF p2] by blast
          qed
        qed
      qed (use Suc.prems(2) step y s2 p2 in \<open>auto simp: bnd_def\<close>)
    qed (use Suc.prems(2) False x s1 in \<open>auto simp: bnd_def\<close>)
  qed
qed simp

lemma run_inner_home:
  assumes "2 * G + Suc F < fuel"
  shows "returns_home G F (run_inner env fuel)"
  unfolding returns_home_def runs_def
proof (intro allI impI)
  fix K and u :: "'a vm"
  assume K: "K \<le> F" and u: "gas_of u \<le> G \<and> length (vm_frames u) \<le> Suc K"
  obtain r t where r: "run_loop env fuel (length (vm_frames u) - 1) u = (r, t)" by fastforce
  have "2 * gas_of u + length (vm_frames u) < fuel" using u K assms by linarith
  from run_loop_bound [OF this r] show "fst (run_inner env fuel u) \<noteq> Timeout
      \<and> paid u (snd (run_inner env fuel u))
      \<and> (\<forall>a. fst (run_inner env fuel u) = Ok a \<longrightarrow> length (vm_frames (snd (run_inner env fuel u))) \<le> K)"
    using u r by (auto simp: run_inner_def)
qed

lemma map_err_outcome:
  "map_err f m s = (case m s of (Ok a, t) \<Rightarrow> (Ok a, t) | (Err e, t) \<Rightarrow> (Err (f e), t)
     | (Panic p, t) \<Rightarrow> (Panic p, t) | (Timeout, t) \<Rightarrow> (Timeout, t))"
  by (simp add: map_err_def split: prod.split outcome.split)

lemma top_frame_eq:
  "vm_frames s \<noteq> [] \<Longrightarrow> top_frame s = (Ok (last (vm_frames s)), s)"
  "vm_frames s = [] \<Longrightarrow> top_frame s = (Panic Unwrap_on_none, s)"
  by (simp_all add: top_frame_def bnd_def)

lemma proto_at_eq:
  "i < length (prototypes (env_program env)) \<Longrightarrow> proto_at env i = ret (prototypes (env_program env) ! i)"
  "\<not> i < length (prototypes (env_program env)) \<Longrightarrow> proto_at env i = panic_with Index_out_of_bounds"
  by (simp_all add: proto_at_def index_or_panic_def)

lemma exec_loop_bound:
  assumes "2 * gas_of s + length (vm_frames s) < fuel" and "exec_loop env fuel trace s = (r, t)"
  shows "r \<noteq> Timeout \<and> paid s t"
  using assms
proof (induction fuel arbitrary: trace s r t)
  case (Suc fuel)
  let ?F = "length (vm_frames s)"
  show ?case
  proof (cases "vm_frames s = [] \<or> fr_proto (last (vm_frames s)) \<ge> length (prototypes (env_program env))")
    case True
    then show ?thesis using Suc.prems(2) paid_order.step_refl
      by (cases "vm_frames s = []") (auto simp: top_frame_eq proto_at_eq bnd_def)
  next
    case False
    let ?f = "last (vm_frames s)"
    define p where "p = prototypes (env_program env) ! fr_proto ?f"
    obtain x s1 where x: "fetch env s = (x, s1)" by fastforce
    have s1: "x \<noteq> Timeout" "paid s s1" "length (vm_frames s1) \<le> ?F"
      using keepsD [OF quiet_fetch x] by (auto simp: quiet_def)
    have g1: "gas_of s1 \<le> gas_of s" by (rule paid_gas [OF s1(2)])
    show ?thesis
    proof (cases x)
      case (Ok i)
      let ?step = "case i of None \<Rightarrow> do_return 0
        | Some instr \<Rightarrow> with_line p (fr_pc ?f) (dispatch (run_inner env fuel) env instr)"
      obtain y s2 where y: "?step s1 = (y, s2)" by fastforce
      have home: "11 \<le> gas_of s1 \<Longrightarrow> returns_home (gas_of s1 - 11) ?F (run_inner env fuel)"
        using Suc.prems(1) g1 by (intro run_inner_home) simp
      have s2: "y \<noteq> Timeout \<and> paid s1 s2
          \<and> (y = Ok None \<longrightarrow> 2 * gas_of s2 + length (vm_frames s2) < fuel)"
      proof (cases i)
        case None
        then have d: "do_return 0 s1 = (y, s2)" using y by simp
        have q: "y \<noteq> Timeout" "paid s1 s2" using keepsD [OF quiet_do_return d] by (auto simp: quiet_def)
        moreover have "2 * gas_of s2 + length (vm_frames s2) < fuel" if "y = Ok None"
          using do_return_frames [OF d [unfolded that]] paid_gas [OF q(2)] Suc.prems(1) s1(3) g1
          by (cases "vm_frames s1" rule: rev_cases) auto
        ultimately show ?thesis by blast
      next
        case (Some instr)
        obtain y' where d: "dispatch (run_inner env fuel) env instr s1 = (y', s2)"
          and y': "\<And>z. y = Ok z \<Longrightarrow> y' = Ok z" "y = Timeout \<Longrightarrow> y' = Timeout"
          using y Some by (cases "dispatch (run_inner env fuel) env instr s1"; cases "fst (dispatch (run_inner env fuel) env instr s1)")
            (auto simp: with_line_def map_err_outcome)
        have dr: "runs (gas_of s1) ?F (dispatch (run_inner env fuel) env instr) (Suc ?F)"
          by (rule dispatch_runs(1)) (rule home)
        note runs = runsD [OF dr le_refl s1(3) d]
        have "2 * gas_of s2 + length (vm_frames s2) < fuel" if "y = Ok None"
        proof -
          have ok: "dispatch (run_inner env fuel) env instr s1 = (Ok None, s2)"
            using d y'(1) [OF that] by simp
          have "gas_of s2 < gas_of s1" by (rule dispatch_runs(2) [OF _ ok refl s1(3)]) (rule home)
          then show ?thesis using runs(3) [OF y'(1) [OF that]] Suc.prems(1) g1 by simp
        qed
        then show ?thesis using runs(1,2) y'(2) by blast
      qed
      have p2: "paid s s2" using paid_order.step_trans [OF s1(2)] s2 by blast
      have "(\<exists>trace'. exec_loop env fuel trace' s2 = (r, t)) \<and> y = Ok None
          \<or> (t = s2 \<and> r \<noteq> Timeout)"
        using Suc.prems(2) False x Ok y s2
        by (cases i; cases y)
          (auto simp: top_frame_eq proto_at_eq not_le bnd_def p_def [symmetric]
            split: option.splits if_splits)
      then show ?thesis using Suc.IH s2 p2 paid_order.step_trans [OF p2] by blast
    qed (use Suc.prems(2) False x s1 in \<open>auto simp: top_frame_eq proto_at_eq not_le bnd_def\<close>)
  qed
qed simp

lemma quiet_start: "keeps paid (start_program env input)"
proof -
  have q: "keeps paid m" if "keeps quiet m" for m :: "('a, 'b) vm_op"
    using that by (rule keeps_weaken) (simp add: quiet_def)
  have m: "keeps paid (modifies g :: ('a, unit) vm_op)" if "\<And>s. vm_rt (g s) = vm_rt s" for g
    using that by (simp add: keeps_def paid_def budget_le_refl)
  have "keeps paid (on_rt (alloc n) :: ('a, unit) vm_op)" for n
    by (rule q) (intro quiet_intros keeps_intros)
  moreover have "keeps paid (proto_at env i :: ('a, function_proto) vm_op)" for env i
    unfolding proto_at_def by (rule paid_order.index)
  moreover have "keeps paid (set_stack i x :: ('a, unit) vm_op)" for i x
    by (rule q) (rule quiet_slots)
  ultimately show ?thesis unfolding start_program_def
    by (auto intro!: paid_order.bnd paid_order.ret m)
qed

section \<open>Properties\<close>

text \<open>A small machine for the witnesses: \<open>n\<close> units of gas, a host that refuses every tool.\<close>

definition demo_vm :: "nat \<Rightarrow> unit vm" where
  "demo_vm n = new_vm (default_config\<lparr>cfg_gas_limit := n\<rparr>) ()"

definition demo_env :: "instruction list \<Rightarrow> unit vm_env" where
  "demo_env code = \<lparr>env_config = default_config, env_host = noop_host (\<lambda>_. []),
     env_program = \<lparr>prototypes = [(new_function_proto 0)\<lparr>fp_code := code\<rparr>], program_hash = []\<rparr>\<rparr>"

lemma demo_gas [simp]: "gas_of (demo_vm n) = n"
  by (simp add: demo_vm_def new_vm_def new_gas_meter_def gas_of_def)

text \<open>C1: Every run ends. Whatever the program (also one the verifier would refuse), the input and
  the host, \<open>execute\<close> comes to an outcome within \<open>2 * gas + 2\<close> iterations of its loop, and what it
  leaves on the meters is no more gas than it started with, under the same limits.\<close>

theorem execute_ends:
  assumes "2 * gas_of s + 1 < fuel" and "execute env fuel input s = (r, t)"
  shows "r \<noteq> Timeout \<and> gas_of t \<le> gas_of s \<and> gas_limit (rt_gas (vm_rt t)) = gas_limit (rt_gas (vm_rt s))
    \<and> mem_limit (rt_mem (vm_rt t)) = mem_limit (rt_mem (vm_rt s))"
proof -
  obtain x s1 where x: "start_program env input s = (x, s1)" by fastforce
  have s1: "x \<noteq> Timeout" "paid s s1" using keepsD [OF quiet_start x] by auto
  have frames: "length (vm_frames s1) \<le> 1" if "x = Ok u" for u
    using x that
    by (cases "0 < length (prototypes (env_program env))")
      (auto simp: start_program_def proto_at_eq bnd_Ok_iff on_rt_def set_stack_def stack_at_def
        index_or_panic_def split: prod.splits if_splits)
  have "r \<noteq> Timeout \<and> paid s t"
  proof (cases x)
    case (Ok u)
    obtain y s2 where y: "exec_loop env fuel [] s1 = (y, s2)" by fastforce
    have "2 * gas_of s1 + length (vm_frames s1) < fuel"
      using frames [OF Ok] paid_gas [OF s1(2)] assms(1) by linarith
    from exec_loop_bound [OF this y] have "y \<noteq> Timeout" "paid s1 s2" by auto
    then show ?thesis using assms(2) x y Ok paid_order.step_trans [OF s1(2)]
      by (cases y) (auto simp: execute_def bnd_def)
  qed (use assms(2) x s1 in \<open>auto simp: execute_def bnd_def\<close>)
  then show ?thesis using paid_gas by (auto simp: paid_def budget_le_def)
qed

theorem execute_ends_witness:
  "fst (execute (demo_env [I_Jmp (- 1)]) 100 VNil (demo_vm 20)) \<noteq> Timeout"
  using execute_ends [of "demo_vm 20" 100 "demo_env [I_Jmp (- 1)]" VNil] by (simp add: prod_eq_iff)

text \<open>C9: No instruction is free: an instruction that succeeds leaves strictly less gas than it found,
  calls back into the machine included.\<close>

theorem instruction_costs_gas:
  assumes "2 * gas_of s + length (vm_frames s) < fuel"
    and "dispatch (run_inner env fuel) env i s = (Ok r, t)"
  shows "gas_of t < gas_of s"
  by (rule dispatch_runs(2) [OF run_inner_home assms(2) refl le_refl]) (use assms(1) in simp)

theorem instruction_costs_gas_witness:
  "gas_of (snd (dispatch (run_inner (demo_env []) 100) (demo_env []) I_PushTrue (demo_vm 20))) < 20"
  using instruction_costs_gas [of "demo_vm 20" 100 "demo_env []" I_PushTrue None
      "snd (dispatch (run_inner (demo_env []) 100) (demo_env []) I_PushTrue (demo_vm 20))"]
  by (simp add: demo_vm_def new_vm_def new_gas_meter_def gas_of_def dispatch_def bnd_def on_rt_def
      charge_def gas_charge_def push_value_def push_slot_def)

end
