(* ===== verification/Lua_Verifier.thy ===== *)
theory Lua_Verifier
  imports Lua_Bytecode
begin

text \<open>
  \<open>src/bytecode/verifier.rs\<close>: the bytecode verifier.

  The prototype graph check is the source's iterative three-colour search, the stack analysis its
  work-list algorithm over a vector of known depths. Both loops are recursive functions with a
  termination proof. \<open>depths[pc]\<close> and \<open>jump_target(..).unwrap()\<close> panic as in the source.

  The abstract specification is \<open>stack_step\<close>: how each instruction moves the program counter and
  the operand stack depth. \<open>verified_certificate\<close> says that the vector the analysis ends with is
  closed under it, and the property \<open>verified_stack_safe\<close> that no execution of the abstract machine
  underflows, exceeds the limit or returns at the wrong depth.
\<close>

(* verifier.rs:4-4 MAX_STACK_DEPTH *)
definition max_stack_depth :: nat where "max_stack_depth = 256"

(* verifier.rs:6-49 VerifyError *)
datatype verify_error =
    ConstantIndexOob u16 nat u16
  | ProtoIndexOob u16 nat u16
  | UpvalueIndexOob u16 nat u8
  | JumpOutOfRange u16 nat nat
  | StackUnderflow u16 nat
  | StackOverflow u16 nat nat
  | StackDepthMismatch u16 nat nat nat
  | RetStackMismatch u16 nat nat nat
  | PrototypeCycle u16

section \<open>The prototype graph\<close>

(* verifier.rs:66-74 check_proto_dag *)
definition proto_edges :: "compiled_program \<Rightarrow> nat list list" where
  "proto_edges program = map (\<lambda>p. List.map_filter (\<lambda>c. case c of K_Proto i \<Rightarrow> Some (unat i) | _ \<Rightarrow> None)
     (fp_constants p)) (prototypes program)"

definition white :: "nat list \<Rightarrow> nat" where
  "white color = length (filter (\<lambda>c. c = 0) color)"

lemma white_paint: "child < length color \<Longrightarrow> color ! child = 0 \<Longrightarrow> c \<noteq> 0 \<Longrightarrow> white (color[child := c]) < white color"
proof (induction color arbitrary: child)
  case (Cons x xs)
  then show ?case by (cases child) (auto simp: white_def)
qed simp

lemma white_le: "c \<noteq> 0 \<Longrightarrow> white (color[i := c]) \<le> white color"
proof (induction color arbitrary: i)
  case (Cons x xs)
  then show ?case by (cases i) (auto simp: white_def le_SucI)
qed simp

text \<open>One search: the explicit stack holds nodes with the index of their next edge, the top first.
  The result is the colour vector, or the node a back edge leads to.\<close>

(* verifier.rs:83-113 check_proto_dag *)
function dfs :: "nat list list \<Rightarrow> nat list \<Rightarrow> (nat \<times> nat) list \<Rightarrow> nat + nat list" where
  "dfs adj color [] = Inr color"
| "dfs adj color ((node, edge) # stack) =
     (if edge < length (adj ! node) then
        (let child = adj ! node ! edge in
         if child \<ge> length color then dfs adj color ((node, edge + 1) # stack)
         else if color ! child = 1 then Inl child
         else if color ! child = 0 then dfs adj (color[child := 1]) ((child, 0) # (node, edge + 1) # stack)
         else dfs adj color ((node, edge + 1) # stack))
      else dfs adj (color[node := 2]) stack)"
  by pat_completeness auto
termination
proof (relation "measures [\<lambda>(adj, color, stack). white color,
    \<lambda>(adj, color, stack). sum_list (map (\<lambda>(n, e). Suc (length (adj ! n) - e)) stack)]")
  fix adj :: "nat list list" and color node edge and stack :: "(nat \<times> nat) list"
  assume "\<not> edge < length (adj ! node)"
  show "((adj, color[node := 2], stack), adj, color, (node, edge) # stack)
      \<in> measures [\<lambda>(adj, color, stack). white color,
        \<lambda>(adj, color, stack). sum_list (map (\<lambda>(n, e). Suc (length (adj ! n) - e)) stack)]"
    using white_le [of 2 color node] by auto
qed (auto simp: white_paint)

(* verifier.rs:77-115 check_proto_dag *)
fun dfs_all :: "nat list list \<Rightarrow> nat list \<Rightarrow> nat list \<Rightarrow> nat + nat list" where
  "dfs_all adj color [] = Inr color"
| "dfs_all adj color (start # starts) =
     (if color ! start \<noteq> 0 then dfs_all adj color starts
      else (case dfs adj (color[start := 1]) [(start, 0)] of
          Inl child \<Rightarrow> Inl child | Inr color' \<Rightarrow> dfs_all adj color' starts))"

(* verifier.rs:64-116 check_proto_dag *)
definition check_proto_dag :: "compiled_program \<Rightarrow> verify_error + unit" where
  "check_proto_dag program = (let n = length (prototypes program) in
     case dfs_all (proto_edges program) (replicate n 0) [0..<n] of
       Inl child \<Rightarrow> Inl (PrototypeCycle (of_nat child)) | Inr _ \<Rightarrow> Inr ())"

section \<open>Structural checks\<close>

(* verifier.rs:231-241 jump_target *)
definition jump_target :: "nat \<Rightarrow> i16 \<Rightarrow> nat \<Rightarrow> nat option" where
  "jump_target pc offset code_len = (let target = int pc + 1 + sint offset in
     if target < 0 \<or> target > int code_len then None else Some (nat target))"

(* verifier.rs:210-229 check_jump_target *)
definition check_jump_target :: "u16 \<Rightarrow> nat \<Rightarrow> i16 \<Rightarrow> nat \<Rightarrow> verify_error + unit" where
  "check_jump_target proto_idx pc offset code_len = (case jump_target pc offset code_len of
      Some _ \<Rightarrow> Inr ()
    | None \<Rightarrow> Inl (JumpOutOfRange proto_idx pc (nat ((int pc + 1 + sint offset) mod 2 ^ 64))))"

text \<open>The offset of an instruction that jumps.\<close>

(* verifier.rs:189-201 structural_checks *)
fun jump_offset :: "instruction \<Rightarrow> i16 option" where
  "jump_offset (I_Jmp off) = Some off"
| "jump_offset (I_JmpIf off) = Some off"
| "jump_offset (I_JmpIfNot off) = Some off"
| "jump_offset (I_And off) = Some off"
| "jump_offset (I_Or off) = Some off"
| "jump_offset (I_IterInitSorted off) = Some off"
| "jump_offset (I_IterInitArray off) = Some off"
| "jump_offset (I_IterNext off) = Some off"
| "jump_offset _ = None"

(* verifier.rs:146-205 structural_checks *)
definition check_instruction :: "compiled_program \<Rightarrow> u16 \<Rightarrow> function_proto \<Rightarrow> nat \<Rightarrow> instruction
    \<Rightarrow> verify_error + unit" where
  "check_instruction program proto_idx p pc instr = (case instr of
      I_PushK idx \<Rightarrow> if unat idx \<ge> length (fp_constants p) then Inl (ConstantIndexOob proto_idx pc idx) else Inr ()
    | I_GetField idx \<Rightarrow> if unat idx \<ge> length (fp_constants p) then Inl (ConstantIndexOob proto_idx pc idx) else Inr ()
    | I_SetField idx \<Rightarrow> if unat idx \<ge> length (fp_constants p) then Inl (ConstantIndexOob proto_idx pc idx) else Inr ()
    | I_Closure idx \<Rightarrow> if unat idx \<ge> length (prototypes program) then Inl (ProtoIndexOob proto_idx pc idx) else Inr ()
    | I_LoadUp idx \<Rightarrow> if idx \<ge> fp_upvalue_count p then Inl (UpvalueIndexOob proto_idx pc idx) else Inr ()
    | I_StoreUp idx \<Rightarrow> if idx \<ge> fp_upvalue_count p then Inl (UpvalueIndexOob proto_idx pc idx) else Inr ()
    | _ \<Rightarrow> (case jump_offset instr of
         Some off \<Rightarrow> check_jump_target proto_idx pc off (length (fp_code p)) | None \<Rightarrow> Inr ()))"

text \<open>A \<open>for\<close> loop that stops at the first error.\<close>

fun check_each :: "('a \<Rightarrow> 'e + unit) \<Rightarrow> 'a list \<Rightarrow> 'e + unit" where
  "check_each f [] = Inr ()"
| "check_each f (x # xs) = (case f x of Inl e \<Rightarrow> Inl e | Inr _ \<Rightarrow> check_each f xs)"

(* verifier.rs:136-208 structural_checks *)
definition structural_checks :: "compiled_program \<Rightarrow> u16 \<Rightarrow> function_proto \<Rightarrow> verify_error + unit" where
  "structural_checks program proto_idx p =
     check_each (\<lambda>(pc, instr). check_instruction program proto_idx p pc instr) (enumerate 0 (fp_code p))"

section \<open>The stack analysis\<close>

record analysis =
  an_depths :: "nat option list"
  an_worklist :: "(nat \<times> nat) list"

type_synonym an_op = "(analysis, verify_error, unit) op"

(* verifier.rs:401-427 schedule *)
definition schedule :: "u16 \<Rightarrow> nat \<Rightarrow> nat \<Rightarrow> an_op" where
  "schedule proto_idx pc depth = bnd (reads an_depths) (\<lambda>ds. bnd (index_or_panic ds pc) (\<lambda>d. case d of
      None \<Rightarrow> modifies (\<lambda>s. s\<lparr>an_depths := (an_depths s)[pc := Some depth],
                             an_worklist := an_worklist s @ [(pc, depth)]\<rparr>)
    | Some existing \<Rightarrow> if existing \<noteq> depth then fail (StackDepthMismatch proto_idx pc existing depth)
                       else ret ()))"

(* verifier.rs:429-447 apply_delta *)
definition apply_delta :: "u16 \<Rightarrow> nat \<Rightarrow> nat \<Rightarrow> int \<Rightarrow> verify_error + nat" where
  "apply_delta proto_idx pc d delta = (let new_d = int d + delta in
     if new_d < 0 then Inl (StackUnderflow proto_idx pc)
     else if nat new_d > max_stack_depth then Inl (StackOverflow proto_idx pc (nat new_d))
     else Inr (nat new_d))"

(* verifier.rs:449-515 stack_effect *)
fun stack_effect :: "instruction \<Rightarrow> nat \<times> int" where
  "stack_effect I_Nop = (0, 0)"
| "stack_effect (I_PushK _) = (0, 1)"
| "stack_effect I_PushNil = (0, 1)"
| "stack_effect I_PushTrue = (0, 1)"
| "stack_effect I_PushFalse = (0, 1)"
| "stack_effect I_Pop = (1, -1)"
| "stack_effect I_Dup = (1, 1)"
| "stack_effect (I_LoadLocal _) = (0, 1)"
| "stack_effect (I_StoreLocal _) = (1, -1)"
| "stack_effect (I_LoadUp _) = (0, 1)"
| "stack_effect (I_StoreUp _) = (1, -1)"
| "stack_effect I_NewTable = (0, 1)"
| "stack_effect I_GetTable = (2, -1)"
| "stack_effect I_SetTable = (3, -3)"
| "stack_effect (I_GetField _) = (1, 0)"
| "stack_effect (I_SetField _) = (2, -2)"
| "stack_effect I_Add = (2, -1)"
| "stack_effect I_Sub = (2, -1)"
| "stack_effect I_Mul = (2, -1)"
| "stack_effect I_IDiv = (2, -1)"
| "stack_effect I_Mod = (2, -1)"
| "stack_effect I_Eq = (2, -1)"
| "stack_effect I_Ne = (2, -1)"
| "stack_effect I_Lt = (2, -1)"
| "stack_effect I_Le = (2, -1)"
| "stack_effect I_Gt = (2, -1)"
| "stack_effect I_Ge = (2, -1)"
| "stack_effect I_Neg = (1, 0)"
| "stack_effect I_Not = (1, 0)"
| "stack_effect I_Len = (1, 0)"
| "stack_effect (I_Concat n) = (unat n, - (int (unat n) - 1))"
| "stack_effect (I_Call argc) = (unat argc + 1, - int (unat argc))"
| "stack_effect (I_PCall argc) = (unat argc + 1, 1 - int (unat argc))"
| "stack_effect (I_Closure _) = (0, 1)"
| "stack_effect I_ToolCall = (2, -1)"
| "stack_effect I_Log = (1, -1)"
| "stack_effect _ = (0, 0)"

definition need :: "u16 \<Rightarrow> nat \<Rightarrow> nat \<Rightarrow> nat \<Rightarrow> an_op \<Rightarrow> an_op" where
  "need proto_idx pc d n m = (if d < n then fail (StackUnderflow proto_idx pc) else m)"

definition target_or_panic :: "nat \<Rightarrow> i16 \<Rightarrow> nat \<Rightarrow> (nat \<Rightarrow> an_op) \<Rightarrow> an_op" where
  "target_or_panic pc off code_len k =
     (case jump_target pc off code_len of None \<Rightarrow> panic_with Unwrap_on_none | Some t \<Rightarrow> k t)"

text \<open>Both branches, target first.\<close>

definition branch :: "u16 \<Rightarrow> nat \<Rightarrow> i16 \<Rightarrow> nat \<Rightarrow> nat \<Rightarrow> nat \<Rightarrow> an_op" where
  "branch proto_idx pc off code_len d_jump d_next = target_or_panic pc off code_len (\<lambda>target.
     bnd (schedule proto_idx target d_jump) (\<lambda>_. schedule proto_idx (pc + 1) d_next))"

(* verifier.rs:273-395 stack_analysis *)
definition analyse_instruction :: "u16 \<Rightarrow> nat \<Rightarrow> nat \<Rightarrow> nat \<Rightarrow> instruction \<Rightarrow> an_op" where
  "analyse_instruction proto_idx code_len pc d instr = (case instr of
      I_Ret n \<Rightarrow> if d \<noteq> unat n then fail (RetStackMismatch proto_idx pc (unat n) d) else ret ()
    | I_Error \<Rightarrow> need proto_idx pc d 1 (ret ())
    | I_Jmp off \<Rightarrow> target_or_panic pc off code_len (\<lambda>target. schedule proto_idx target d)
    | I_JmpIf off \<Rightarrow> need proto_idx pc d 1 (branch proto_idx pc off code_len (d - 1) (d - 1))
    | I_JmpIfNot off \<Rightarrow> need proto_idx pc d 1 (branch proto_idx pc off code_len (d - 1) (d - 1))
    | I_And off \<Rightarrow> need proto_idx pc d 1 (branch proto_idx pc off code_len d d)
    | I_Or off \<Rightarrow> need proto_idx pc d 1 (branch proto_idx pc off code_len d d)
    | I_IterInitSorted off \<Rightarrow> need proto_idx pc d 1 (branch proto_idx pc off code_len (d - 1) d)
    | I_IterInitArray off \<Rightarrow> need proto_idx pc d 1 (branch proto_idx pc off code_len (d - 1) d)
    | I_IterNext off \<Rightarrow> need proto_idx pc d 1 (target_or_panic pc off code_len (\<lambda>target.
        bnd (schedule proto_idx target (d - 1)) (\<lambda>_.
        if d + 2 > max_stack_depth then fail (StackOverflow proto_idx pc (d + 2))
        else schedule proto_idx (pc + 1) (d + 2))))
    | _ \<Rightarrow> need proto_idx pc d (fst (stack_effect instr))
        (bnd (lift_result (apply_delta proto_idx pc d (snd (stack_effect instr)))) (\<lambda>d_out.
        if pc + 1 < code_len then schedule proto_idx (pc + 1) d_out else ret ())))"

text \<open>Each pc is put on the work list at most once, which is why the loop ends.\<close>

definition pending :: "analysis \<Rightarrow> nat" where
  "pending s = 2 * length (filter (\<lambda>d. d = None) (an_depths s)) + length (an_worklist s)"

definition less_pending :: "analysis \<Rightarrow> analysis \<Rightarrow> bool" where
  "less_pending s t \<longleftrightarrow> pending t \<le> pending s"

interpretation pending_order: step_preorder less_pending
  by unfold_locales (auto simp: less_pending_def)

lemma filter_update_None:
  "i < length ds \<Longrightarrow> ds ! i = None \<Longrightarrow>
    Suc (length (filter (\<lambda>d. d = None) (ds[i := Some x]))) = length (filter (\<lambda>d. d = None) ds)"
proof (induction ds arbitrary: i)
  case (Cons d ds)
  then show ?case by (cases i) auto
qed simp

lemma keeps_schedule: "keeps less_pending (schedule proto_idx pc depth)"
proof -
  have "less_pending s (s\<lparr>an_depths := (an_depths s)[pc := Some depth],
      an_worklist := an_worklist s @ [(pc, depth)]\<rparr>)"
    if "pc < length (an_depths s)" "an_depths s ! pc = None" for s
    using filter_update_None [OF that, of depth] by (simp add: less_pending_def pending_def)
  then show ?thesis
    by (auto simp: keeps_def schedule_def bnd_def index_or_panic_def pending_order.step_refl
        split: option.split)
qed

lemma keeps_branch: "keeps less_pending (branch proto_idx pc off code_len d e)"
  unfolding branch_def target_or_panic_def
  by (auto intro!: pending_order.closure keeps_schedule split: option.split)

lemma keeps_analyse: "keeps less_pending (analyse_instruction proto_idx code_len pc d instr)"
proof -
  have n: "keeps less_pending (need proto_idx pc d k m)" if "keeps less_pending m" for k m
    using that by (simp add: need_def pending_order.fail)
  have r: "keeps less_pending (bnd (lift_result (apply_delta proto_idx pc d k)) (\<lambda>e.
      if pc + 1 < code_len then schedule proto_idx (pc + 1) e else ret ()))" for k
    by (auto intro!: pending_order.bnd pending_order.lift_result keeps_schedule pending_order.ret)
  show ?thesis unfolding analyse_instruction_def target_or_panic_def
    by (cases instr) (auto intro!: n r pending_order.closure keeps_schedule keeps_branch split: option.split)
qed

lemma analyse_pending:
  assumes "analyse_instruction proto_idx code_len pc d instr s = (r, t)"
  shows "pending t \<le> pending s"
  using keepsD [OF keeps_analyse assms] by (simp add: less_pending_def)

(* verifier.rs:264-396 stack_analysis *)
function analysis_loop :: "u16 \<Rightarrow> function_proto \<Rightarrow> analysis \<Rightarrow> (verify_error, unit) outcome \<times> analysis" where
  "analysis_loop proto_idx p s = (case an_worklist s of
      [] \<Rightarrow> (Ok (), s)
    | (pc, d) # w \<Rightarrow>
        if pc \<ge> length (an_depths s) then (Panic Index_out_of_bounds, s\<lparr>an_worklist := w\<rparr>)
        else if an_depths s ! pc \<noteq> Some d then analysis_loop proto_idx p (s\<lparr>an_worklist := w\<rparr>)
        else (case analyse_instruction proto_idx (length (fp_code p)) pc d (fp_code p ! pc) (s\<lparr>an_worklist := w\<rparr>) of
            (Ok _, s2) \<Rightarrow> analysis_loop proto_idx p s2
          | (Err e, s2) \<Rightarrow> (Err e, s2)
          | (Panic x, s2) \<Rightarrow> (Panic x, s2)
          | (Timeout, s2) \<Rightarrow> (Timeout, s2)))"
  by pat_completeness auto
termination
proof (relation "measure (\<lambda>(_, _, s). pending s)")
  fix proto_idx p s x w pc d r s2 z
  assume a: "an_worklist s = x # w"
    and e: "(r, s2) = analyse_instruction proto_idx (length (fp_code p)) pc d (fp_code p ! pc) (s\<lparr>an_worklist := w\<rparr>)"
  have "pending s2 \<le> pending (s\<lparr>an_worklist := w\<rparr>)" by (rule analyse_pending [OF e [symmetric]])
  moreover have "pending (s\<lparr>an_worklist := w\<rparr>) < pending s" using a by (simp add: pending_def)
  ultimately show "((proto_idx, p, s2), proto_idx, p, s) \<in> measure (\<lambda>(_, _, s). pending s)" by simp
qed (auto simp: pending_def)

declare analysis_loop.simps [simp del]

(* verifier.rs:247-399 stack_analysis *)
definition stack_analysis :: "u16 \<Rightarrow> function_proto \<Rightarrow> (verify_error, unit) outcome" where
  "stack_analysis proto_idx p = (if fp_code p = [] then Ok ()
     else fst (bnd (schedule proto_idx 0 0) (\<lambda>_. analysis_loop proto_idx p)
       \<lparr>an_depths = replicate (length (fp_code p)) None, an_worklist = []\<rparr>))"

section \<open>The verifier\<close>

(* verifier.rs:122-130 verify_proto *)
definition verify_proto :: "compiled_program \<Rightarrow> u16 \<Rightarrow> function_proto \<Rightarrow> (verify_error, unit) outcome" where
  "verify_proto program proto_idx p = (case structural_checks program proto_idx p of
      Inl e \<Rightarrow> Err e | Inr _ \<Rightarrow> stack_analysis proto_idx p)"

fun verify_protos :: "compiled_program \<Rightarrow> (nat \<times> function_proto) list \<Rightarrow> (verify_error, unit) outcome" where
  "verify_protos program [] = Ok ()"
| "verify_protos program ((idx, p) # ps) = (case verify_proto program (of_nat idx) p of
      Ok _ \<Rightarrow> verify_protos program ps | Err e \<Rightarrow> Err e | Panic x \<Rightarrow> Panic x | Timeout \<Rightarrow> Timeout)"

(* verifier.rs:51-58 verify *)
definition verify :: "compiled_program \<Rightarrow> (verify_error, unit) outcome" where
  "verify program = (case check_proto_dag program of Inl e \<Rightarrow> Err e
     | Inr _ \<Rightarrow> verify_protos program (enumerate 0 (prototypes program)))"

section \<open>The abstract stack machine\<close>

text \<open>How many operands an instruction takes from the stack, and the ways control leaves it: the
  distance from the next instruction and how many operands are there then. These are read off the
  interpreter (\<open>src/vm/engine.rs\<close>), not off the verifier's table.\<close>

fun takes :: "instruction \<Rightarrow> nat" where
  "takes I_Pop = 1"
| "takes I_Dup = 1"
| "takes (I_StoreLocal _) = 1"
| "takes (I_StoreUp _) = 1"
| "takes I_GetTable = 2"
| "takes I_SetTable = 3"
| "takes (I_GetField _) = 1"
| "takes (I_SetField _) = 2"
| "takes I_Add = 2"
| "takes I_Sub = 2"
| "takes I_Mul = 2"
| "takes I_IDiv = 2"
| "takes I_Mod = 2"
| "takes I_Neg = 1"
| "takes I_Eq = 2"
| "takes I_Ne = 2"
| "takes I_Lt = 2"
| "takes I_Le = 2"
| "takes I_Gt = 2"
| "takes I_Ge = 2"
| "takes I_Not = 1"
| "takes (I_And _) = 1"
| "takes (I_Or _) = 1"
| "takes (I_Concat n) = unat n"
| "takes I_Len = 1"
| "takes (I_JmpIf _) = 1"
| "takes (I_JmpIfNot _) = 1"
| "takes (I_Call argc) = unat argc + 1"
| "takes (I_Ret n) = unat n"
| "takes I_ToolCall = 2"
| "takes (I_PCall argc) = unat argc + 1"
| "takes I_Log = 1"
| "takes I_Error = 1"
| "takes (I_IterInitSorted _) = 1"
| "takes (I_IterInitArray _) = 1"
| "takes (I_IterNext _) = 1"
| "takes _ = 0"

fun exits :: "instruction \<Rightarrow> (int \<times> nat) list" where
  "exits (I_Ret _) = []"
| "exits I_Error = []"
| "exits (I_Jmp off) = [(sint off, 0)]"
| "exits (I_JmpIf off) = [(sint off, 0), (0, 0)]"
| "exits (I_JmpIfNot off) = [(sint off, 0), (0, 0)]"
| "exits (I_And off) = [(sint off, 1), (0, 1)]"
| "exits (I_Or off) = [(sint off, 1), (0, 1)]"
| "exits (I_IterInitSorted off) = [(sint off, 0), (0, 1)]"
| "exits (I_IterInitArray off) = [(sint off, 0), (0, 1)]"
| "exits (I_IterNext off) = [(sint off, 0), (0, 3)]"
| "exits (I_PCall _) = [(0, 2)]"
| "exits I_Dup = [(0, 2)]"
| "exits I_Nop = [(0, 0)]"
| "exits I_Pop = [(0, 0)]"
| "exits (I_StoreLocal _) = [(0, 0)]"
| "exits (I_StoreUp _) = [(0, 0)]"
| "exits I_SetTable = [(0, 0)]"
| "exits (I_SetField _) = [(0, 0)]"
| "exits I_Log = [(0, 0)]"
| "exits _ = [(0, 1)]"

text \<open>One step inside a function, from (program counter, operands) to the next.\<close>

inductive stack_step :: "function_proto \<Rightarrow> nat \<times> nat \<Rightarrow> nat \<times> nat \<Rightarrow> bool" for p where
  step: "pc < length (fp_code p) \<Longrightarrow> takes (fp_code p ! pc) \<le> d \<Longrightarrow> (off, gives) \<in> set (exits (fp_code p ! pc))
    \<Longrightarrow> int pc' = int pc + 1 + off \<Longrightarrow> stack_step p (pc, d) (pc', d - takes (fp_code p ! pc) + gives)"

inductive_cases stack_stepE: "stack_step p (pc, d) (pc', d')"

section \<open>The certificate\<close>

text \<open>What the analysis has established about the instruction at \<open>pc\<close> once it has processed it.\<close>

definition certified :: "nat \<Rightarrow> nat option list \<Rightarrow> nat \<Rightarrow> nat \<Rightarrow> instruction \<Rightarrow> bool" where
  "certified code_len ds pc d instr \<longleftrightarrow> takes instr \<le> d \<and> (\<forall>n. instr = I_Ret n \<longrightarrow> d = unat n) \<and>
     (\<forall>(off, gives) \<in> set (exits instr). 0 \<le> int pc + 1 + off \<and> int pc + 1 + off \<le> int code_len \<and>
        (int pc + 1 + off < int code_len \<longrightarrow> ds ! nat (int pc + 1 + off) = Some (d - takes instr + gives)))"

definition grows :: "analysis \<Rightarrow> analysis \<Rightarrow> bool" where
  "grows s t \<longleftrightarrow> length (an_depths t) = length (an_depths s) \<and>
     set (an_worklist s) \<subseteq> set (an_worklist t) \<and>
     (\<forall>pc d. pc < length (an_depths s) \<longrightarrow> an_depths s ! pc = Some d \<longrightarrow> an_depths t ! pc = Some d) \<and>
     (\<forall>pc d. pc < length (an_depths s) \<longrightarrow> an_depths t ! pc = Some d \<longrightarrow>
        an_depths s ! pc = Some d \<or> d \<le> max_stack_depth \<and> (pc, d) \<in> set (an_worklist t))"

lemma grows_refl: "grows s s"
  by (simp add: grows_def)

lemma grows_trans: "grows s t \<Longrightarrow> grows t u \<Longrightarrow> grows s u"
  unfolding grows_def by (simp; blast)

lemma grows_keeps: "grows s t \<Longrightarrow> pc < length (an_depths s) \<Longrightarrow> an_depths s ! pc = Some d \<Longrightarrow> an_depths t ! pc = Some d"
  by (simp add: grows_def)

lemma schedule_Ok:
  assumes "schedule proto_idx pc depth s = (Ok u, t)" "depth \<le> max_stack_depth"
  shows "grows s t" "pc < length (an_depths s)" "an_depths t ! pc = Some depth"
  using assms
  by (auto simp: schedule_def bnd_def index_or_panic_def grows_def nth_list_update
      split: if_splits option.splits)

lemma branch_Ok:
  assumes "branch proto_idx pc off code_len d e s = (Ok u, t)" "d \<le> max_stack_depth" "e \<le> max_stack_depth"
    "length (an_depths s) = code_len"
  shows "grows s t \<and> 0 \<le> int pc + 1 + sint off \<and> int pc + 1 + sint off < int code_len \<and> pc + 1 < code_len
    \<and> an_depths t ! nat (int pc + 1 + sint off) = Some d \<and> an_depths t ! (pc + 1) = Some e"
proof -
  obtain target where target: "jump_target pc off code_len = Some target"
    using assms(1) by (cases "jump_target pc off code_len") (auto simp: branch_def target_or_panic_def)
  obtain s1 where 1: "schedule proto_idx target d s = (Ok (), s1)"
    and 2: "schedule proto_idx (pc + 1) e s1 = (Ok u, t)"
    using assms(1) target
    by (auto simp: branch_def target_or_panic_def bnd_def split: prod.splits outcome.splits)
  note a = schedule_Ok [OF 1 assms(2)] and b = schedule_Ok [OF 2 assms(3)]
  have len: "length (an_depths s1) = code_len" using a(1) assms(4) by (simp add: grows_def)
  have "an_depths t ! target = Some d" using grows_keeps [OF b(1)] a len assms(4) by simp
  then show ?thesis using target a b len assms(4) grows_trans [OF a(1) b(1)]
    by (auto simp: jump_target_def Let_def split: if_splits)
qed

lemma plain_Ok:
  assumes "need proto_idx pc d n (bnd (lift_result (apply_delta proto_idx pc d k)) (\<lambda>e.
      if pc + 1 < code_len then schedule proto_idx (pc + 1) e else ret ())) s = (Ok u, t)"
  shows "grows s t \<and> n \<le> d \<and> 0 \<le> int d + k
    \<and> (pc + 1 < code_len \<longrightarrow> an_depths t ! (pc + 1) = Some (nat (int d + k)))"
proof -
  have n: "n \<le> d" using assms by (auto simp: need_def split: if_splits)
  then obtain e where e: "apply_delta proto_idx pc d k = Inr e"
    and s: "(if pc + 1 < code_len then schedule proto_idx (pc + 1) e else ret ()) s = (Ok u, t)"
    using assms by (cases "apply_delta proto_idx pc d k") (auto simp: need_def bnd_def)
  have "e = nat (int d + k)" "0 \<le> int d + k" "e \<le> max_stack_depth"
    using e by (auto simp: apply_delta_def Let_def split: if_splits)
  then show ?thesis using n s schedule_Ok [of proto_idx "pc + 1" e s u t]
    by (auto simp: grows_refl split: if_splits)
qed

lemma iter_next_Ok:
  assumes "analyse_instruction proto_idx code_len pc d (I_IterNext off) s = (Ok u, t)" "d \<le> max_stack_depth"
    "length (an_depths s) = code_len"
  shows "branch proto_idx pc off code_len (d - 1) (d + 2) s = (Ok u, t) \<and> 1 \<le> d \<and> d + 2 \<le> max_stack_depth"
  using assms
  by (auto simp: analyse_instruction_def need_def branch_def target_or_panic_def bnd_def
      split: if_splits option.splits prod.splits outcome.splits)

lemma jmp_Ok:
  assumes "analyse_instruction proto_idx code_len pc d (I_Jmp off) s = (Ok u, t)" "d \<le> max_stack_depth"
    "length (an_depths s) = code_len"
  shows "grows s t \<and> certified code_len (an_depths t) pc d (I_Jmp off)"
proof -
  obtain target where target: "jump_target pc off code_len = Some target"
    and "schedule proto_idx target d s = (Ok u, t)"
    using assms(1) by (auto simp: analyse_instruction_def target_or_panic_def split: option.splits)
  from schedule_Ok [OF this(2) assms(2)] target show ?thesis
    by (auto simp: certified_def jump_target_def Let_def split: if_splits)
qed

lemma nat_next: "nat (int pc + 1) = Suc pc"
  by simp

text \<open>An instruction that succeeds leaves itself certified.\<close>

lemma analyse_Ok:
  assumes ok: "analyse_instruction proto_idx code_len pc d instr s = (Ok u, t)"
    and d: "d \<le> max_stack_depth" and len: "length (an_depths s) = code_len" and pc: "pc < code_len"
  shows "grows s t \<and> certified code_len (an_depths t) pc d instr"
proof -
  have cond: "grows s t \<and> certified code_len (an_depths t) pc d instr"
    if "need proto_idx pc d 1 (branch proto_idx pc off code_len a b) s = (Ok u, t)"
      "a \<le> max_stack_depth" "b \<le> max_stack_depth" "takes instr = 1"
      "exits instr = [(sint off, g), (0, h)]" "\<forall>n. instr \<noteq> I_Ret n"
      "1 \<le> d \<Longrightarrow> a = d - 1 + g" "1 \<le> d \<Longrightarrow> b = d - 1 + h" for off a b g h
  proof -
    have 1: "1 \<le> d" and b: "branch proto_idx pc off code_len a b s = (Ok u, t)"
      using that(1) by (auto simp: need_def split: if_splits)
    show ?thesis using branch_Ok [OF b that(2,3) len] 1 that(4-8) by (auto simp: certified_def nat_next)
  qed
  have plain: "grows s t \<and> certified code_len (an_depths t) pc d instr"
    if "need proto_idx pc d (fst (stack_effect instr))
        (bnd (lift_result (apply_delta proto_idx pc d (snd (stack_effect instr)))) (\<lambda>e.
          if pc + 1 < code_len then schedule proto_idx (pc + 1) e else ret ())) s = (Ok u, t)"
      "takes instr = fst (stack_effect instr)" "exits instr = [(0, g)]" "\<forall>n. instr \<noteq> I_Ret n"
      "snd (stack_effect instr) = int g - int (takes instr)" for g
    using plain_Ok [OF that(1)] that(2-5) pc by (auto simp: certified_def nat_next nat_add_distrib)
  show ?thesis
  proof (cases instr)
    case (I_Jmp off)
    then show ?thesis using jmp_Ok [OF _ d len] ok by blast
  next
    case (I_IterNext off)
    then have "branch proto_idx pc off code_len (d - 1) (d + 2) s = (Ok u, t)" "1 \<le> d" "d + 2 \<le> max_stack_depth"
      using iter_next_Ok [OF _ d len] ok by blast+
    then show ?thesis using I_IterNext by (intro cond [of off _ _ 0 3]) (auto simp: need_def)
  next
    case (I_Ret n)
    then show ?thesis using ok
      by (auto simp: analyse_instruction_def certified_def grows_refl split: if_splits)
  next
    case I_Error
    then show ?thesis using ok
      by (auto simp: analyse_instruction_def need_def certified_def grows_refl split: if_splits)
  next
    case (I_JmpIf off)
    show ?thesis by (rule cond [of off "d - 1" "d - 1" 0 0]) (use ok d I_JmpIf in \<open>auto simp: analyse_instruction_def\<close>)
  next
    case (I_JmpIfNot off)
    show ?thesis by (rule cond [of off "d - 1" "d - 1" 0 0]) (use ok d I_JmpIfNot in \<open>auto simp: analyse_instruction_def\<close>)
  next
    case (I_And off)
    show ?thesis by (rule cond [of off d d 1 1]) (use ok d I_And in \<open>auto simp: analyse_instruction_def\<close>)
  next
    case (I_Or off)
    show ?thesis by (rule cond [of off d d 1 1]) (use ok d I_Or in \<open>auto simp: analyse_instruction_def\<close>)
  next
    case (I_IterInitSorted off)
    show ?thesis by (rule cond [of off "d - 1" d 0 1]) (use ok d I_IterInitSorted in \<open>auto simp: analyse_instruction_def\<close>)
  next
    case (I_IterInitArray off)
    show ?thesis by (rule cond [of off "d - 1" d 0 1]) (use ok d I_IterInitArray in \<open>auto simp: analyse_instruction_def\<close>)
  qed (rule plain; use ok in \<open>simp add: analyse_instruction_def\<close>)+
qed

section \<open>The loop\<close>

definition analysed :: "function_proto \<Rightarrow> analysis \<Rightarrow> bool" where
  "analysed p s \<longleftrightarrow> length (an_depths s) = length (fp_code p) \<and> an_depths s ! 0 = Some 0 \<and>
     (\<forall>pc d. pc < length (fp_code p) \<longrightarrow> an_depths s ! pc = Some d \<longrightarrow> d \<le> max_stack_depth \<and>
        ((pc, d) \<in> set (an_worklist s) \<or> certified (length (fp_code p)) (an_depths s) pc d (fp_code p ! pc)))"

lemma certified_mono:
  assumes "certified (length (an_depths s)) (an_depths s) pc d instr" "grows s t"
  shows "certified (length (an_depths s)) (an_depths t) pc d instr"
  using assms unfolding certified_def grows_def
  by (auto simp: nat_less_iff)

lemma analysed_step:
  assumes inv: "analysed p s" and w: "an_worklist s = (pc, d) # w" and pc: "pc < length (fp_code p)"
    and s1: "s1 = s\<lparr>an_worklist := w\<rparr>" and ds: "an_depths s ! pc = Some d"
    and ok: "analyse_instruction proto_idx (length (fp_code p)) pc d (fp_code p ! pc) s1 = (Ok u, t)"
  shows "analysed p t"
proof -
  let ?n = "length (fp_code p)"
  have len: "length (an_depths s) = ?n" using inv by (simp add: analysed_def)
  have "d \<le> max_stack_depth" using inv pc ds by (simp add: analysed_def)
  from analyse_Ok [OF ok this _ pc] have g: "grows s1 t" and c: "certified ?n (an_depths t) pc d (fp_code p ! pc)"
    using len s1 by auto
  have len_t: "length (an_depths t) = ?n" and sub: "set w \<subseteq> set (an_worklist t)"
    using g s1 len by (simp_all add: grows_def)
  have keep: "an_depths t ! q = Some e" if "q < ?n" "an_depths s ! q = Some e" for q e
    using grows_keeps [OF g] that s1 len by simp
  have mono: "certified ?n (an_depths t) q e i" if "certified ?n (an_depths s) q e i" for q e i
    using certified_mono [OF _ g] that s1 len by simp
  have "e \<le> max_stack_depth \<and> ((q, e) \<in> set (an_worklist t) \<or> certified ?n (an_depths t) q e (fp_code p ! q))"
    if q: "q < ?n" "an_depths t ! q = Some e" for q e
  proof (cases "an_depths s ! q = Some e")
    case True
    then have e: "e \<le> max_stack_depth"
      and "(q, e) \<in> insert (pc, d) (set w) \<or> certified ?n (an_depths s) q e (fp_code p ! q)"
      using inv q(1) w by (auto simp: analysed_def)
    then show ?thesis using c sub mono by blast
  next
    case False
    then show ?thesis using g q s1 len by (auto simp: grows_def)
  qed
  moreover have "an_depths t ! 0 = Some 0"
    by (rule keep) (use inv pc in \<open>auto simp: analysed_def\<close>)
  ultimately show ?thesis using len_t by (simp add: analysed_def)
qed

lemma loop_unfold:
  assumes "an_worklist s = (pc, d) # w"
  shows "pc \<ge> length (an_depths s) \<Longrightarrow> analysis_loop proto_idx p s = (Panic Index_out_of_bounds, s\<lparr>an_worklist := w\<rparr>)"
    and "pc < length (an_depths s) \<Longrightarrow> an_depths s ! pc \<noteq> Some d
      \<Longrightarrow> analysis_loop proto_idx p s = analysis_loop proto_idx p (s\<lparr>an_worklist := w\<rparr>)"
    and "pc < length (an_depths s) \<Longrightarrow> an_depths s ! pc = Some d
      \<Longrightarrow> analyse_instruction proto_idx (length (fp_code p)) pc d (fp_code p ! pc) (s\<lparr>an_worklist := w\<rparr>) = (Ok v, s2)
      \<Longrightarrow> analysis_loop proto_idx p s = analysis_loop proto_idx p s2"
    and "pc < length (an_depths s) \<Longrightarrow> an_depths s ! pc = Some d
      \<Longrightarrow> analyse_instruction proto_idx (length (fp_code p)) pc d (fp_code p ! pc) (s\<lparr>an_worklist := w\<rparr>) = (r, s2)
      \<Longrightarrow> \<forall>v. r \<noteq> Ok v \<Longrightarrow> analysis_loop proto_idx p s = (r, s2)"
  by (subst analysis_loop.simps; simp add: assms split: outcome.split)+

lemma analysis_loop_Ok:
  "analysis_loop proto_idx p s = (Ok u, t) \<Longrightarrow> analysed p s \<Longrightarrow> analysed p t \<and> an_worklist t = []"
proof (induction proto_idx p s arbitrary: t rule: analysis_loop.induct)
  case (1 proto_idx p s)
  show ?case
  proof (cases "an_worklist s")
    case Nil
    have "analysis_loop proto_idx p s = (Ok (), s)" by (subst analysis_loop.simps) (simp add: Nil)
    then show ?thesis using 1(3,4) Nil by simp
  next
    case (Cons x w)
    obtain pc d where x: "x = (pc, d)" by fastforce
    note w = Cons [unfolded x]
    let ?s1 = "s\<lparr>an_worklist := w\<rparr>"
    have len: "length (an_depths s) = length (fp_code p)" using 1(4) by (simp add: analysed_def)
    have pc: "pc < length (fp_code p)" using 1(3) loop_unfold(1) [OF w, of proto_idx p] len by fastforce
    show ?thesis
    proof (cases "an_depths s ! pc = Some d")
      case False
      have "analysed p ?s1" using 1(4) w False by (auto simp: analysed_def)
      moreover have "analysis_loop proto_idx p ?s1 = (Ok u, t)"
        using 1(3) loop_unfold(2) [OF w _ False, of proto_idx p] len pc by simp
      ultimately show ?thesis using 1(1) [OF Cons x [symmetric]] False len pc by simp
    next
      case True
      obtain r s2 where a: "analyse_instruction proto_idx (length (fp_code p)) pc d (fp_code p ! pc) ?s1 = (r, s2)"
        by fastforce
      have "\<exists>v. r = Ok v" using 1(3) loop_unfold(4) [OF w _ True a] len pc by (cases r) auto
      then obtain v where r: "r = Ok v" ..
      have loop: "analysis_loop proto_idx p s2 = (Ok u, t)"
        using 1(3) loop_unfold(3) [OF w _ True a [unfolded r]] len pc by simp
      have "analysed p s2" by (rule analysed_step [OF 1(4) w pc refl True a [unfolded r]])
      then show ?thesis using 1(2) [OF Cons x [symmetric] _ _ a [symmetric] r loop] True len pc by simp
    qed
  qed
qed

text \<open>The certificate: a vector of depths, zero at the entry, closed under every step.\<close>

definition depth_certificate :: "function_proto \<Rightarrow> nat option list \<Rightarrow> bool" where
  "depth_certificate p ds \<longleftrightarrow> length ds = length (fp_code p) \<and> ds ! 0 = Some 0 \<and>
     (\<forall>pc d. pc < length (fp_code p) \<longrightarrow> ds ! pc = Some d \<longrightarrow> d \<le> max_stack_depth \<and>
        certified (length (fp_code p)) ds pc d (fp_code p ! pc))"

lemma stack_analysis_certificate:
  assumes "stack_analysis proto_idx p = Ok u" "fp_code p \<noteq> []"
  shows "\<exists>ds. depth_certificate p ds"
proof -
  let ?s = "\<lparr>an_depths = replicate (length (fp_code p)) None, an_worklist = []\<rparr>"
  obtain s1 t where s1: "schedule proto_idx 0 0 ?s = (Ok (), s1)" and t: "analysis_loop proto_idx p s1 = (Ok u, t)"
    using assms by (auto simp: stack_analysis_def bnd_def split: prod.splits outcome.splits)
      (metis prod.collapse)
  have "analysed p s1" using s1 assms(2)
    by (auto simp: schedule_def bnd_def index_or_panic_def analysed_def nth_list_update max_stack_depth_def
        split: if_splits)
  from analysis_loop_Ok [OF t this] have "depth_certificate p (an_depths t)"
    unfolding analysed_def depth_certificate_def by auto
  then show ?thesis ..
qed

section \<open>What a verified program guarantees\<close>

lemma verify_protos_Ok:
  "verify_protos program (enumerate k ps) = Ok u \<Longrightarrow> i < length ps \<Longrightarrow> \<exists>v. verify_proto program (of_nat (k + i)) (ps ! i) = Ok v"
proof (induction ps arbitrary: k i)
  case (Cons q ps)
  have "\<exists>v. verify_proto program (of_nat k) q = Ok v" and "verify_protos program (enumerate (Suc k) ps) = Ok u"
    using Cons.prems(1) by (auto split: outcome.splits)
  then show ?case using Cons.IH [of "Suc k" "i - 1"] Cons.prems(2) by (cases i) auto
qed simp

lemma verify_Ok:
  assumes "verify program = Ok u" "i < length (prototypes program)"
  shows "structural_checks program (of_nat i) (prototypes program ! i) = Inr ()"
    and "\<exists>v. stack_analysis (of_nat i) (prototypes program ! i) = Ok v"
  using verify_protos_Ok [of program 0 "prototypes program" u i] assms
  by (auto simp: verify_def verify_proto_def split: sum.splits)

lemma certificate_reachable:
  assumes cert: "depth_certificate p ds" and code: "fp_code p \<noteq> []"
  shows "(stack_step p)\<^sup>*\<^sup>* (0, 0) (pc, d) \<Longrightarrow> pc \<le> length (fp_code p) \<and> (pc < length (fp_code p) \<longrightarrow> ds ! pc = Some d)"
proof (induction "(pc, d)" arbitrary: pc d rule: rtranclp_induct)
  case base
  then show ?case using cert code by (simp add: depth_certificate_def)
next
  case (step c)
  obtain q e where c: "c = (q, e)" by fastforce
  then have "stack_step p (q, e) (pc, d)" using step(2) by simp
  then obtain off gives where q: "q < length (fp_code p)" and off: "(off, gives) \<in> set (exits (fp_code p ! q))"
    and pc: "int pc = int q + 1 + off" and d: "d = e - takes (fp_code p ! q) + gives"
    by (auto elim!: stack_stepE)
  have "ds ! q = Some e" using step(3) [OF c] q by simp
  then have "certified (length (fp_code p)) ds q e (fp_code p ! q)"
    using cert q by (simp add: depth_certificate_def)
  then have "\<forall>(off, gives) \<in> set (exits (fp_code p ! q)). int q + 1 + off \<le> int (length (fp_code p)) \<and>
      (int q + 1 + off < int (length (fp_code p)) \<longrightarrow>
        ds ! nat (int q + 1 + off) = Some (e - takes (fp_code p ! q) + gives))"
    by (auto simp: certified_def)
  from bspec [OF this off] show ?case using d by (simp add: pc [symmetric])
qed

text \<open>C2: The verifier is sound for the operand stack. In a program it accepts, at every point any
  path through a function can reach, with branches taken in any direction: the instruction finds the
  operands it takes, the stack never holds more than 256 of them, a return finds exactly the
  values it returns, every way on stays within the code, and the depth depends on the program point
  only, not on the path.\<close>

theorem verified_stack_safe:
  assumes "verify program = Ok u" and "i < length (prototypes program)"
    and "(stack_step (prototypes program ! i))\<^sup>*\<^sup>* (0, 0) (pc, d)" and "pc < length (fp_code (prototypes program ! i))"
  shows "takes (fp_code (prototypes program ! i) ! pc) \<le> d \<and> d \<le> max_stack_depth
    \<and> (\<forall>n. fp_code (prototypes program ! i) ! pc = I_Ret n \<longrightarrow> d = unat n)
    \<and> (\<forall>(off, gives) \<in> set (exits (fp_code (prototypes program ! i) ! pc)).
        0 \<le> int pc + 1 + off \<and> int pc + 1 + off \<le> int (length (fp_code (prototypes program ! i))))
    \<and> (\<forall>e. (stack_step (prototypes program ! i))\<^sup>*\<^sup>* (0, 0) (pc, e) \<longrightarrow> e = d)"
proof -
  let ?p = "prototypes program ! i"
  have code: "fp_code ?p \<noteq> []" using assms(4) by auto
  obtain ds where ds: "depth_certificate ?p ds"
    using verify_Ok(2) [OF assms(1,2)] stack_analysis_certificate [OF _ code] by blast
  have at: "ds ! pc = Some e" if "(stack_step ?p)\<^sup>*\<^sup>* (0, 0) (pc, e)" for e
    using certificate_reachable [OF ds code that] assms(4) by simp
  have "d \<le> max_stack_depth" "certified (length (fp_code ?p)) ds pc d (fp_code ?p ! pc)"
    using ds at [OF assms(3)] assms(4) by (simp_all add: depth_certificate_def)
  moreover have "e = d" if "(stack_step ?p)\<^sup>*\<^sup>* (0, 0) (pc, e)" for e
    using at [OF that] at [OF assms(3)] by simp
  ultimately show ?thesis by (auto simp: certified_def)
qed

definition one_function :: "instruction list \<Rightarrow> compiled_program" where
  "one_function code = \<lparr>prototypes = [(new_function_proto 0)\<lparr>fp_code := code\<rparr>], program_hash = []\<rparr>"

theorem verified_stack_safe_witness:
  "takes I_Not \<le> 1"
proof -
  let ?c = "[I_PushTrue, I_Not, I_Ret 1]"
  let ?p = "prototypes (one_function ?c) ! 0"
  have v: "verify (one_function ?c) = Ok ()" by code_simp
  have p: "fp_code ?p = ?c" by (simp add: one_function_def new_function_proto_def)
  have "stack_step ?p (0, 0) (Suc 0, Suc 0)"
    using stack_step.step [of 0 ?p 0 0 1 "Suc 0"] unfolding p by simp
  then have r: "(stack_step ?p)\<^sup>*\<^sup>* (0, 0) (Suc 0, Suc 0)" by blast
  have "0 < length (prototypes (one_function ?c))" "Suc 0 < length (fp_code ?p)"
    unfolding p by (simp_all add: one_function_def)
  from conjunct1 [OF verified_stack_safe [OF v this(1) r this(2)]] show ?thesis by (simp add: p)
qed

text \<open>The operands the structural checks look at.\<close>

definition operands_ok :: "compiled_program \<Rightarrow> function_proto \<Rightarrow> nat \<Rightarrow> instruction \<Rightarrow> bool" where
  "operands_ok program p pc instr \<longleftrightarrow>
     (\<forall>k. instr = I_PushK k \<or> instr = I_GetField k \<or> instr = I_SetField k \<longrightarrow> unat k < length (fp_constants p)) \<and>
     (\<forall>k. instr = I_Closure k \<longrightarrow> unat k < length (prototypes program)) \<and>
     (\<forall>k. instr = I_LoadUp k \<or> instr = I_StoreUp k \<longrightarrow> k < fp_upvalue_count p) \<and>
     (\<forall>off. jump_offset instr = Some off \<longrightarrow>
        0 \<le> int pc + 1 + sint off \<and> int pc + 1 + sint off \<le> int (length (fp_code p)))"

lemma check_instruction_ok:
  "check_instruction program proto_idx p pc instr = Inr () \<longleftrightarrow> operands_ok program p pc instr"
  by (cases instr)
    (auto simp: check_instruction_def operands_ok_def check_jump_target_def jump_target_def Let_def
      split: if_splits option.splits)

lemma check_each_ok: "check_each f xs = Inr () \<longleftrightarrow> (\<forall>x \<in> set xs. f x = Inr ())"
  by (induction xs) (auto split: sum.splits)

lemma structural_checks_ok:
  "(\<And>pc. pc < length (fp_code p) \<Longrightarrow> operands_ok program p pc (fp_code p ! pc)) \<Longrightarrow>
   structural_checks program proto_idx p = Inr ()"
  by (auto simp: structural_checks_def check_each_ok check_instruction_ok in_set_enumerate_eq)



text \<open>C24: The two phases of the verifier disagree about the end of the code. A jump to one past the
  last instruction passes the structural check, but the stack analysis indexes its vector with that
  target and panics instead of returning an error.\<close>

theorem jump_to_end_panics:
  assumes "jump_target pc off code_len = Some code_len" and "length (an_depths s) = code_len"
  shows "check_jump_target proto_idx pc off code_len = Inr ()
    \<and> fst (analyse_instruction proto_idx code_len pc d (I_Jmp off) s) = Panic Index_out_of_bounds"
  using assms
  by (simp add: check_jump_target_def analyse_instruction_def target_or_panic_def schedule_def bnd_def
      index_or_panic_def)

theorem jump_to_end_panics_witness:
  "verify (one_function [I_Jmp 0]) = Panic Index_out_of_bounds"
proof -
  have "fst (analyse_instruction 0 1 0 0 (I_Jmp 0) \<lparr>an_depths = [Some 0], an_worklist = []\<rparr>) = Panic Index_out_of_bounds"
    using jump_to_end_panics [of 0 0 1 "\<lparr>an_depths = [Some 0], an_worklist = []\<rparr>"] by (simp add: jump_target_def)
  then show ?thesis
    by (auto simp: verify_def check_proto_dag_def proto_edges_def one_function_def new_function_proto_def
        List.map_filter_def Let_def verify_proto_def structural_checks_def check_instruction_def
        stack_analysis_def schedule_def bnd_def index_or_panic_def analysis_loop.simps
        check_jump_target_def jump_target_def split: prod.splits outcome.splits)
qed

end
