(* ===== verification/Lua_Proto_Graph.thy ===== *)
theory Lua_Proto_Graph
imports Lua_Verifier
begin

declare dfs.simps(2) [simp del]

text \<open>
  The prototype check of \<open>src/bytecode/verifier.rs\<close> is sound: if the three-colour search over the
  explicit stack ends without an error, the graph it searched has no cycle.
\<close>

section \<open>The graph search finds every cycle\<close>

definition edges_in :: "nat list list \<Rightarrow> nat \<Rightarrow> (nat \<times> nat) set" where
  "edges_in adj n = {(i, j). i < n \<and> j < n \<and> j \<in> set (adj ! i)}"

text \<open>The finished nodes are closed under edges and carry no cycle; the open ones are the stack, and
  the edges followed so far lead to finished nodes or to the next node of the stack.\<close>

definition finished :: "nat list \<Rightarrow> nat set" where
  "finished color = {i. i < length color \<and> color ! i = 2}"

definition black_ok :: "nat list list \<Rightarrow> nat list \<Rightarrow> bool" where
  "black_ok adj color \<longleftrightarrow> (\<forall>i j. (i, j) \<in> edges_in adj (length color) \<longrightarrow> i \<in> finished color \<longrightarrow> j \<in> finished color)
     \<and> acyclic (edges_in adj (length color) \<inter> finished color \<times> finished color)"

fun open_ok :: "nat list list \<Rightarrow> nat list \<Rightarrow> nat option \<Rightarrow> (nat \<times> nat) list \<Rightarrow> bool" where
  "open_ok adj color nxt [] = True"
| "open_ok adj color nxt ((node, edge) # stack) = (node < length color \<and>
     (\<forall>i < edge. i < length (adj ! node) \<longrightarrow> adj ! node ! i < length color \<longrightarrow>
        adj ! node ! i \<in> finished color \<or> nxt = Some (adj ! node ! i)) \<and>
     open_ok adj color (Some node) stack)"

definition search_inv :: "nat list list \<Rightarrow> nat list \<Rightarrow> (nat \<times> nat) list \<Rightarrow> bool" where
  "search_inv adj color stack \<longleftrightarrow> black_ok adj color \<and> set color \<subseteq> {0, 1, 2} \<and> distinct (map fst stack) \<and>
     (\<forall>i < length color. color ! i = 1 \<longleftrightarrow> i \<in> fst ` set stack) \<and> open_ok adj color None stack"

lemma acyclic_source:
  assumes "acyclic S" "v \<notin> Range S" "v \<notin> A"
  shows "acyclic (S \<union> {v} \<times> A)"
proof -
  have "y \<noteq> v \<and> (x \<noteq> v \<longrightarrow> (x, y) \<in> S\<^sup>+)" if "(x, y) \<in> (S \<union> {v} \<times> A)\<^sup>+" for x y
    using that
  proof induction
    case (step y z)
    then show ?case using assms(2,3) by (auto intro: trancl_into_trancl)
  qed (use assms in auto)
  then show ?thesis using assms(1) unfolding acyclic_def by blast
qed

lemma black_paint_gray: "color ! i = 0 \<Longrightarrow> finished (color[i := 1]) = finished color"
  by (cases "i < length color") (auto simp: finished_def nth_list_update)

lemma finished_paint: "i < length color \<Longrightarrow> finished (color[i := 2]) = insert i (finished color)"
  by (auto simp: finished_def nth_list_update)

lemma black_ok_finish:
  assumes ok: "black_ok adj color" and v: "v < length color" "color ! v \<noteq> 2"
    and succs: "\<And>j. (v, j) \<in> edges_in adj (length color) \<Longrightarrow> j \<in> finished color"
  shows "black_ok adj (color[v := 2])"
proof -
  let ?E = "edges_in adj (length color)" and ?B = "finished color"
  have vB: "v \<notin> ?B" using v by (simp add: finished_def)
  have B: "j \<in> ?B" if "(i, j) \<in> ?E" "i \<in> ?B" for i j using ok that by (auto simp: black_ok_def)
  have eq: "?E \<inter> insert v ?B \<times> insert v ?B = (?E \<inter> ?B \<times> ?B) \<union> {v} \<times> {j. (v, j) \<in> ?E}"
    using succs B vB by blast
  have "acyclic (?E \<inter> insert v ?B \<times> insert v ?B)" unfolding eq
    by (rule acyclic_source) (use ok succs vB in \<open>auto simp: black_ok_def\<close>)
  then show ?thesis using B succs by (auto simp: black_ok_def finished_paint [OF v(1)])
qed

lemma open_ok_mono:
  assumes "open_ok adj color nxt stack" "finished color \<subseteq> finished color'" "length color' = length color"
    and "\<And>c. nxt = Some c \<Longrightarrow> nxt' = Some c \<or> c \<in> finished color'"
  shows "open_ok adj color' nxt' stack"
  using assms
proof (induction adj color nxt stack arbitrary: nxt' rule: open_ok.induct)
  case (2 adj color nxt node edge stack)
  then have "open_ok adj color' (Some node) stack" by auto
  then show ?case using 2(2-) by auto
qed simp

lemma search_push:
  assumes inv: "search_inv adj color ((node, edge) # stack)" and edge: "edge < length (adj ! node)"
    and child: "adj ! node ! edge = child" "child < length color" "color ! child = 0"
  shows "search_inv adj (color[child := 1]) ((child, 0) # (node, Suc edge) # stack)"
proof -
  note f = black_paint_gray [OF child(3)]
  have "color ! node = 1" "node < length color" using inv by (auto simp: search_inv_def)
  then have ne: "child \<noteq> node" using child(3) by auto
  have fresh: "child \<notin> fst ` set stack" using inv child by (auto simp: search_inv_def)
  have "open_ok adj (color[child := 1]) (Some node) stack"
    by (rule open_ok_mono [of _ color "Some node"]) (use inv f in \<open>auto simp: search_inv_def\<close>)
  then have "open_ok adj (color[child := 1]) None ((child, 0) # (node, Suc edge) # stack)"
    using inv child f by (auto simp: search_inv_def less_Suc_eq)
  then show ?thesis using inv child f ne fresh set_update_subset_insert [of color child 1]
    by (auto simp: search_inv_def black_ok_def nth_list_update)
qed

lemma search_skip:
  assumes "search_inv adj color ((node, edge) # stack)"
    and "adj ! node ! edge < length color \<Longrightarrow> adj ! node ! edge \<in> finished color"
  shows "search_inv adj color ((node, Suc edge) # stack)"
  using assms by (auto simp: search_inv_def less_Suc_eq)

lemma search_pop:
  assumes inv: "search_inv adj color ((node, edge) # stack)" and edge: "\<not> edge < length (adj ! node)"
  shows "search_inv adj (color[node := 2]) stack"
proof -
  have node: "node < length color" "color ! node = 1" using inv by (auto simp: search_inv_def)
  have "j \<in> finished color" if "(node, j) \<in> edges_in adj (length color)" for j
  proof -
    obtain i where "i < length (adj ! node)" "adj ! node ! i = j" "j < length color"
      using \<open>(node, j) \<in> _\<close> by (auto simp: edges_in_def in_set_conv_nth)
    then show ?thesis using inv edge by (auto simp: search_inv_def)
  qed
  then have b: "black_ok adj (color[node := 2])" using black_ok_finish inv node by (auto simp: search_inv_def)
  have "open_ok adj (color[node := 2]) None stack"
    by (rule open_ok_mono [of _ color "Some node"])
      (use inv node in \<open>auto simp: search_inv_def finished_paint\<close>)
  then show ?thesis using inv node b set_update_subset_insert [of color node 2]
    by (auto simp: search_inv_def nth_list_update)
qed

lemma dfs_unfold:
  "\<not> edge < length (adj ! node) \<Longrightarrow> dfs adj color ((node, edge) # stack) = dfs adj (color[node := 2]) stack"
  "edge < length (adj ! node) \<Longrightarrow> adj ! node ! edge < length color \<Longrightarrow> color ! (adj ! node ! edge) = 1 \<Longrightarrow>
    dfs adj color ((node, edge) # stack) = Inl (adj ! node ! edge)"
  "edge < length (adj ! node) \<Longrightarrow> adj ! node ! edge < length color \<Longrightarrow> color ! (adj ! node ! edge) = 0 \<Longrightarrow>
    dfs adj color ((node, edge) # stack) =
      dfs adj (color[adj ! node ! edge := 1]) ((adj ! node ! edge, 0) # (node, edge + 1) # stack)"
  "edge < length (adj ! node) \<Longrightarrow> length color \<le> adj ! node ! edge \<Longrightarrow>
    dfs adj color ((node, edge) # stack) = dfs adj color ((node, edge + 1) # stack)"
  "edge < length (adj ! node) \<Longrightarrow> color ! (adj ! node ! edge) = 2 \<Longrightarrow>
    dfs adj color ((node, edge) # stack) = dfs adj color ((node, edge + 1) # stack)"
  by (subst dfs.simps; simp add: Let_def)+

lemma dfs_Inr:
  "dfs adj color stack = Inr color' \<Longrightarrow> search_inv adj color stack \<Longrightarrow>
    search_inv adj color' [] \<and> length color' = length color \<and> (\<forall>i < length color. color ! i \<noteq> 0 \<longrightarrow> color' ! i \<noteq> 0)"
proof (induction adj color stack rule: dfs.induct)
  case (2 adj color node edge stack)
  note IH = 2(1-4) and res = 2(5) and inv = 2(6)
  let ?child = "adj ! node ! edge"
  show ?case
  proof (cases "edge < length (adj ! node)")
    case False
    have "node < length color" using inv by (auto simp: search_inv_def)
    then show ?thesis using IH(4) [OF False] res dfs_unfold(1) [OF False] search_pop [OF inv False]
      by (auto simp: nth_list_update split: if_splits)
  next
    case True
    have colors: "?child < length color \<Longrightarrow> color ! ?child \<in> {0, 1, 2}"
      using inv nth_mem [of ?child color] unfolding search_inv_def by blast
    have skip: "search_inv adj color ((node, edge + 1) # stack)" if "?child < length color \<Longrightarrow> color ! ?child = 2"
      using search_skip [OF inv] that by (auto simp: finished_def)
    consider "length color \<le> ?child" | "?child < length color" "color ! ?child = 2"
      | "?child < length color" "color ! ?child = 0" | "?child < length color" "color ! ?child = 1"
      using colors by fastforce
    then show ?thesis
    proof cases
      case 1
      show ?thesis by (rule IH(1) [OF True refl 1])
        (use res skip 1 dfs_unfold(4) [OF True 1] in simp_all)
    next
      case 2
      show ?thesis by (rule IH(3) [OF True refl])
        (use res skip 2 dfs_unfold(5) [OF True 2(2)] in simp_all)
    next
      case 3
      have s: "search_inv adj (color[?child := 1]) ((?child, 0) # (node, edge + 1) # stack)"
        using search_push [OF inv True refl 3] by simp
      have "dfs adj (color[?child := 1]) ((?child, 0) # (node, edge + 1) # stack) = Inr color'"
        using res dfs_unfold(3) [OF True 3] by simp
      from IH(2) [OF True refl _ _ _ this s] 3 show ?thesis by (auto simp: nth_list_update split: if_splits)
    next
      case 4
      then show ?thesis using res dfs_unfold(2) [OF True 4] by simp
    qed
  qed
qed simp

lemma search_start:
  assumes "search_inv adj color []" "start < length color" "color ! start = 0"
  shows "search_inv adj (color[start := 1]) [(start, 0)]"
  using assms black_paint_gray [of color start] set_update_subset_insert [of color start 1]
  by (auto simp: search_inv_def black_ok_def nth_list_update)

lemma dfs_all_Inr:
  "dfs_all adj color starts = Inr color' \<Longrightarrow> search_inv adj color [] \<Longrightarrow> set starts \<subseteq> {..< length color} \<Longrightarrow>
    search_inv adj color' [] \<and> length color' = length color
    \<and> (\<forall>i < length color. color ! i \<noteq> 0 \<or> i \<in> set starts \<longrightarrow> color' ! i \<noteq> 0)"
proof (induction adj color starts rule: dfs_all.induct)
  case (2 adj color start starts)
  show ?case
  proof (cases "color ! start = 0")
    case False
    then show ?thesis using 2(1) 2(3-) by auto
  next
    case True
    obtain color1 where d: "dfs adj (color[start := 1]) [(start, 0)] = Inr color1"
      and rest: "dfs_all adj color1 starts = Inr color'"
      using 2(3) True by (auto split: sum.splits)
    have "search_inv adj (color[start := 1]) [(start, 0)]" using search_start True 2(4,5) by simp
    note 1 = dfs_Inr [OF d this]
    have "search_inv adj color' [] \<and> length color' = length color1
      \<and> (\<forall>i < length color1. color1 ! i \<noteq> 0 \<or> i \<in> set starts \<longrightarrow> color' ! i \<noteq> 0)"
      by (rule 2(2)) (use True d rest 1 2(5) in auto)
    moreover have "start < length color" using 2(5) by simp
    ultimately show ?thesis using 1 by (auto simp: nth_list_update split: if_splits)
  qed
qed simp

definition proto_graph :: "compiled_program \<Rightarrow> (nat \<times> nat) set" where
  "proto_graph program = {(i, j). i < length (prototypes program) \<and> j < length (prototypes program) \<and>
     (\<exists>k. K_Proto k \<in> set (fp_constants (prototypes program ! i)) \<and> j = unat k)}"

lemma in_map_filter: "y \<in> set (List.map_filter f xs) \<longleftrightarrow> (\<exists>x \<in> set xs. f x = Some y)"
  by (force simp: List.map_filter_def image_iff)

lemma proto_graph_edges: "proto_graph program = edges_in (proto_edges program) (length (prototypes program))"
proof -
  have "(j \<in> set (proto_edges program ! i)) \<longleftrightarrow> (\<exists>k. K_Proto k \<in> set (fp_constants (prototypes program ! i)) \<and> j = unat k)"
    if "i < length (prototypes program)" for i j
    using that by (force simp: proto_edges_def in_map_filter split: constant_entry.split_asm)
  then show ?thesis by (auto simp: proto_graph_def edges_in_def)
qed

text \<open>C19: A program that passes the prototype check has no cyclic prototype references, the search
  being over the references stored as constants that lie within the prototype table.\<close>

theorem check_proto_dag_acyclic:
  assumes "check_proto_dag program = Inr u"
  shows "acyclic (proto_graph program)"
proof -
  let ?n = "length (prototypes program)" and ?adj = "proto_edges program"
  obtain color where d: "dfs_all ?adj (replicate ?n 0) [0..<?n] = Inr color"
    using assms by (auto simp: check_proto_dag_def Let_def split: sum.splits)
  have "search_inv ?adj (replicate ?n 0) []"
  proof -
    have none: "finished (replicate ?n 0) = {}" by (auto simp: finished_def)
    show ?thesis by (auto simp: search_inv_def black_ok_def none acyclic_def)
  qed
  then have inv: "search_inv ?adj color []" and len: "length color = ?n" and all: "\<forall>i < ?n. color ! i \<noteq> 0"
    using dfs_all_Inr [OF d] by (auto simp: atLeast0LessThan)
  have "color ! i = 2" if i: "i < ?n" for i
  proof -
    have "color ! i \<in> {0, 1, 2}" using inv len i nth_mem [of i color] unfolding search_inv_def by (metis subsetD)
    then show ?thesis using inv all len i by (auto simp: search_inv_def)
  qed
  then have "edges_in ?adj ?n \<inter> finished color \<times> finished color = edges_in ?adj ?n"
    using len by (auto simp: finished_def edges_in_def)
  then show ?thesis using inv len by (simp add: search_inv_def black_ok_def proto_graph_edges)
qed

theorem check_proto_dag_acyclic_witness:
  "acyclic (proto_graph (one_function [I_Ret 0]))"
proof -
  have "check_proto_dag (one_function [I_Ret 0]) = Inr ()" by code_simp
  then show ?thesis by (rule check_proto_dag_acyclic)
qed

end
