(* ===== verification/Lua_Hash.thy ===== *)
theory Lua_Hash
  imports Lua_Bytecode
begin

text \<open>
  \<open>src/compiler/program_hash.rs\<close> and \<open>src/host/poseidon2.rs\<close>: the two program hashes and the
  Poseidon2 sponge.

  The primitives are external crates and therefore parameters: SHA-256 (\<open>sha2\<close>) is a function from
  bytes to bytes; the field and the Poseidon2 permutation (\<open>acir\<close>, \<open>bn254_blackbox_solver\<close>) are a
  record of operations. What is proved is what the source itself is responsible for: the sponge
  absorbs as its reference description says, and no two programs share a SHA-256 preimage, so that
  equal hashes of different programs exhibit a collision of the primitive.
\<close>

section \<open>Big-endian integers\<close>

text \<open>\<open>to_be_bytes\<close> of a \<open>k\<close>-byte integer.\<close>

fun be_bytes :: "nat \<Rightarrow> nat \<Rightarrow> string" where
  "be_bytes 0 n = []"
| "be_bytes (Suc k) n = be_bytes k (n div 256) @ [char_of (n mod 256)]"

lemma length_be_bytes [simp]: "length (be_bytes k n) = k"
  by (induction k arbitrary: n) auto

lemma be_bytes_inject: "m < 256 ^ k \<Longrightarrow> n < 256 ^ k \<Longrightarrow> be_bytes k m = be_bytes k n \<longleftrightarrow> m = n"
proof (induction k arbitrary: m n)
  case (Suc k)
  have "m div 256 < 256 ^ k" "n div 256 < 256 ^ k" using Suc.prems by (simp_all add: less_mult_imp_div_less)
  moreover have "char_of (m mod 256) = (char_of (n mod 256) :: char) \<longleftrightarrow> m mod 256 = n mod 256"
    by (metis byte_of_char_of mod_mod_trivial)
  ultimately show ?case using Suc.IH [of "m div 256" "n div 256"]
    by simp (metis div_mult_mod_eq)
qed simp

text \<open>The length of a sequence as a \<open>u32\<close>: \<open>len() as u32\<close> wraps.\<close>

definition be_len :: "'a list \<Rightarrow> string" where
  "be_len xs = be_bytes 4 (length xs mod 2 ^ 32)"

lemma length_be_len [simp]: "length (be_len xs) = 4"
  by (simp add: be_len_def)

lemma be_len_inject:
  assumes "length xs < 2 ^ 32" "length ys < 2 ^ 32"
  shows "be_len xs = be_len ys \<longleftrightarrow> length xs = length ys"
proof -
  have "length xs < 256 ^ 4" "length ys < 256 ^ 4" using assms by simp_all
  from be_bytes_inject [OF this] show ?thesis unfolding be_len_def mod_less [OF assms(1)] mod_less [OF assms(2)] .
qed

definition be_u64 :: "i64 \<Rightarrow> string" where
  "be_u64 w = be_bytes 8 (unat w)"

definition byte_u8 :: "u8 \<Rightarrow> char" where
  "byte_u8 b = char_of (unat b)"

lemma be_u64_inject [simp]: "be_u64 a = be_u64 b \<longleftrightarrow> a = b"
  using be_bytes_inject [of "unat a" 8 "unat b"] unsigned_less [of a, where 'a = nat]
    unsigned_less [of b, where 'a = nat]
  by (simp add: be_u64_def word_unat_eq_iff)

lemma length_be_u64 [simp]: "length (be_u64 w) = 8"
  by (simp add: be_u64_def)

lemma byte_u8_inject [simp]: "byte_u8 a = byte_u8 b \<longleftrightarrow> a = b"
proof -
  have "unat a < 256" "unat b < 256" using unsigned_less [of a, where 'a = nat] unsigned_less [of b, where 'a = nat] by simp_all
  then show ?thesis unfolding byte_u8_def by (metis byte_of_char_of mod_less word_unat_eq_iff)
qed

section \<open>Self-delimiting encodings\<close>

text \<open>An encoding whose codes can be read off the front of any input: the code and what follows it
  are determined. Sequences with a count in front inherit this.\<close>

definition short_list :: "'a set \<Rightarrow> 'a list set" where
  "short_list D = {xs. set xs \<subseteq> D \<and> length xs < 2 ^ 32}"

definition encode_list :: "('a \<Rightarrow> string) \<Rightarrow> 'a list \<Rightarrow> string" where
  "encode_list enc xs = be_len xs @ concat (map enc xs)"

locale encoding =
  fixes D :: "'a set" and enc :: "'a \<Rightarrow> string"
  assumes enc_split: "x \<in> D \<Longrightarrow> y \<in> D \<Longrightarrow> enc x @ r = enc y @ s \<Longrightarrow> x = y \<and> r = s"
begin

lemma items_split:
  "length xs = length ys \<Longrightarrow> set xs \<subseteq> D \<Longrightarrow> set ys \<subseteq> D \<Longrightarrow>
    concat (map enc xs) @ r = concat (map enc ys) @ s \<Longrightarrow> xs = ys \<and> r = s"
proof (induction xs ys rule: list_induct2)
  case (Cons x xs y ys)
  then show ?case using enc_split [of x y "concat (map enc xs) @ r" "concat (map enc ys) @ s"] by auto
qed simp

lemma list_split:
  assumes "xs \<in> short_list D" "ys \<in> short_list D" "encode_list enc xs @ r = encode_list enc ys @ s"
  shows "xs = ys \<and> r = s"
proof -
  have len: "be_len xs = be_len ys" and rest: "concat (map enc xs) @ r = concat (map enc ys) @ s"
    using assms(3) by (simp_all add: encode_list_def)
  have "length xs = length ys"
    using len assms(1,2) be_len_inject unfolding short_list_def by blast
  then show ?thesis using items_split rest assms(1,2) unfolding short_list_def by blast
qed

end

section \<open>The SHA-256 program hash\<close>

(* program_hash.rs:99-104 compute_program_hash_sha256 *)
fun encode_upvalue :: "upvalue_desc \<Rightarrow> string" where
  "encode_upvalue (FromLocal i) = [char_of (0x00 :: nat), byte_u8 i]"
| "encode_upvalue (FromUpvalue i) = [char_of (0x01 :: nat), byte_u8 i]"

(* program_hash.rs:107-125 compute_program_hash_sha256 *)
fun encode_constant :: "constant_entry \<Rightarrow> string" where
  "encode_constant K_Nil = [char_of (0x00 :: nat)]"
| "encode_constant (K_Boolean b) = [char_of (0x01 :: nat), char_of (if b then 1 else 0 :: nat)]"
| "encode_constant (K_Integer n) = char_of (0x02 :: nat) # be_u64 n"
| "encode_constant (K_String bytes) = char_of (0x03 :: nat) # be_len bytes @ bytes"
| "encode_constant (K_Proto idx) = char_of (0x04 :: nat) # be_bytes 2 (unat idx)"

(* program_hash.rs:128-131 compute_program_hash_sha256 *)
definition encode_instruction :: "instruction \<Rightarrow> string" where
  "encode_instruction i = byte_u8 (instruction_to_opcode_id i) # be_u64 (instruction_to_operand i)"

(* program_hash.rs:95-131 compute_program_hash_sha256 *)
definition encode_proto :: "function_proto \<Rightarrow> string" where
  "encode_proto p = [byte_u8 (fp_param_count p), byte_u8 (fp_local_count p), byte_u8 (fp_upvalue_count p)]
     @ encode_list encode_upvalue (fp_upvalues p) @ encode_list encode_constant (fp_constants p)
     @ encode_list encode_instruction (fp_code p)"

definition program_preimage :: "function_proto list \<Rightarrow> string" where
  "program_preimage ps = encode_list encode_proto ps"

(* program_hash.rs:89-135 compute_program_hash_sha256 *)
definition compute_program_hash_sha256 :: "(string \<Rightarrow> string) \<Rightarrow> function_proto list \<Rightarrow> string" where
  "compute_program_hash_sha256 sha ps = sha (program_preimage ps)"

text \<open>The lengths that fit their \<open>u32\<close> prefix.\<close>

definition encodable_constants :: "constant_entry set" where
  "encodable_constants = {k. \<forall>bytes. k = K_String bytes \<longrightarrow> length bytes < 2 ^ 32}"

definition encodable_protos :: "function_proto set" where
  "encodable_protos = {p. length (fp_upvalues p) < 2 ^ 32 \<and> length (fp_code p) < 2 ^ 32 \<and>
     fp_constants p \<in> short_list encodable_constants}"

text \<open>Debug information is not hashed.\<close>

definition hashed_part :: "function_proto \<Rightarrow> function_proto" where
  "hashed_part p = p\<lparr>fp_lines := [], fp_max_stack := 0\<rparr>"

interpretation upvalue_code: encoding UNIV encode_upvalue
proof
  fix x y :: upvalue_desc and r s
  assume "encode_upvalue x @ r = encode_upvalue y @ s"
  then show "x = y \<and> r = s" by (cases x; cases y) auto
qed

interpretation instruction_code: encoding UNIV encode_instruction
proof
  fix x y :: instruction and r s
  assume "encode_instruction x @ r = encode_instruction y @ s"
  then have "instruction_to_opcode_id x = instruction_to_opcode_id y"
    "be_u64 (instruction_to_operand x) @ r = be_u64 (instruction_to_operand y) @ s"
    by (simp_all add: encode_instruction_def)
  then show "x = y \<and> r = s" using opcode_operand_inject by (simp add: append_eq_append_conv)
qed

lemma be_u16_inject: "be_bytes 2 (unat (a :: u16)) = be_bytes 2 (unat b) \<longleftrightarrow> a = b"
  using be_bytes_inject [of "unat a" 2 "unat b"] unsigned_less [of a, where 'a = nat]
    unsigned_less [of b, where 'a = nat]
  by (simp add: word_unat_eq_iff)

lemma string_code:
  assumes "be_len x = be_len y" "x @ r = y @ s" "length x < 2 ^ 32" "length y < 2 ^ 32"
  shows "x = y \<and> r = s"
proof -
  have "length x = length y" using be_len_inject [OF assms(3,4)] assms(1) by blast
  then show ?thesis using assms(2) by simp
qed

interpretation constant_code: encoding encodable_constants encode_constant
proof
  fix x y r s
  assume "x \<in> encodable_constants" "y \<in> encodable_constants" "encode_constant x @ r = encode_constant y @ s"
  then show "x = y \<and> r = s"
    by (cases x; cases y) (auto simp: encodable_constants_def be_u16_inject append_eq_append_conv
        dest: string_code split: if_splits)
qed

text \<open>A prototype without debug information can be read back from its code.\<close>

interpretation proto_code: encoding "{p \<in> encodable_protos. hashed_part p = p}" encode_proto
proof
  fix x y r s
  assume x: "x \<in> {p \<in> encodable_protos. hashed_part p = p}" and y: "y \<in> {p \<in> encodable_protos. hashed_part p = p}"
    and eq: "encode_proto x @ r = encode_proto y @ s"
  have heads: "fp_param_count x = fp_param_count y" "fp_local_count x = fp_local_count y"
      "fp_upvalue_count x = fp_upvalue_count y"
    and tail: "encode_list encode_upvalue (fp_upvalues x) @ encode_list encode_constant (fp_constants x)
        @ encode_list encode_instruction (fp_code x) @ r
      = encode_list encode_upvalue (fp_upvalues y) @ encode_list encode_constant (fp_constants y)
        @ encode_list encode_instruction (fp_code y) @ s"
    using eq by (simp_all add: encode_proto_def)
  have up: "fp_upvalues p \<in> short_list UNIV" and co: "fp_constants p \<in> short_list encodable_constants"
    and ins: "fp_code p \<in> short_list UNIV" if "p \<in> encodable_protos" for p
    using that by (auto simp: encodable_protos_def short_list_def)
  have 1: "fp_upvalues x = fp_upvalues y \<and> encode_list encode_constant (fp_constants x)
        @ encode_list encode_instruction (fp_code x) @ r
      = encode_list encode_constant (fp_constants y) @ encode_list encode_instruction (fp_code y) @ s"
    by (rule upvalue_code.list_split [OF up up tail]) (use x y in auto)
  have 2: "fp_constants x = fp_constants y \<and>
      encode_list encode_instruction (fp_code x) @ r = encode_list encode_instruction (fp_code y) @ s"
    by (rule constant_code.list_split [OF co co]) (use x y 1 in auto)
  have 3: "fp_code x = fp_code y \<and> r = s"
    by (rule instruction_code.list_split [OF ins ins]) (use x y 2 in auto)
  have "hashed_part x = hashed_part y" using heads 1 2 3 by (simp add: hashed_part_def)
  then show "x = y \<and> r = s" using 3 x y by simp
qed

lemma encode_hashed_part: "encode_proto (hashed_part p) = encode_proto p"
  by (simp add: encode_proto_def hashed_part_def)

lemma hashed_part_idem [simp]: "hashed_part (hashed_part p) = hashed_part p"
  by (simp add: hashed_part_def)

lemma program_preimage_inject:
  assumes "ps \<in> short_list encodable_protos" "qs \<in> short_list encodable_protos"
    and "program_preimage ps = program_preimage qs"
  shows "map hashed_part ps = map hashed_part qs"
proof -
  have e: "encode_list encode_proto (map hashed_part xs) = program_preimage xs" for xs
    by (simp add: program_preimage_def encode_list_def be_len_def comp_def encode_hashed_part)
  have d: "map hashed_part xs \<in> short_list {p \<in> encodable_protos. hashed_part p = p}"
    if "xs \<in> short_list encodable_protos" for xs
    using that by (force simp: short_list_def encodable_protos_def hashed_part_def)
  show ?thesis using proto_code.list_split [OF d [OF assms(1)] d [OF assms(2)], of "[]" "[]"] assms(3) by (simp add: e)
qed

text \<open>C10: The SHA-256 program hash covers the whole program. Two programs with the same hash agree in
  every prototype's code, constants, captured variables and counts (everything but line numbers and
  the derived stack size), or else their preimages are a collision of SHA-256.\<close>

theorem program_hash_binding:
  assumes "ps \<in> short_list encodable_protos" and "qs \<in> short_list encodable_protos"
    and "compute_program_hash_sha256 sha ps = compute_program_hash_sha256 sha qs"
  shows "map hashed_part ps = map hashed_part qs \<or> (\<exists>x y. x \<noteq> y \<and> sha x = sha y)"
  using assms program_preimage_inject unfolding compute_program_hash_sha256_def by blast

definition returns_constant :: "constant_entry \<Rightarrow> function_proto" where
  "returns_constant k = (new_function_proto 0)\<lparr>fp_code := [I_PushK 0, I_Ret 1], fp_constants := [k]\<rparr>"

theorem program_hash_binding_witness:
  "compute_program_hash_sha256 (\<lambda>bytes. bytes) [returns_constant (K_Integer 1)]
    \<noteq> compute_program_hash_sha256 (\<lambda>bytes. bytes) [returns_constant (K_Integer 2)]"
proof -
  have e: "[returns_constant k] \<in> short_list encodable_protos" if "k = K_Integer n" for k n
    using that by (auto simp: short_list_def encodable_protos_def encodable_constants_def
        returns_constant_def new_function_proto_def)
  show ?thesis
    using program_hash_binding [of "[returns_constant (K_Integer 1)]" "[returns_constant (K_Integer 2)]"
        "\<lambda>bytes. bytes"] e
    by (auto simp: hashed_part_def returns_constant_def new_function_proto_def)
qed

section \<open>The Poseidon2 sponge\<close>

text \<open>The field and the permutation of the external crates.\<close>

record 'f poseidon_lib =
  fe_from :: "nat \<Rightarrow> 'f"
  fe_add :: "'f \<Rightarrow> 'f \<Rightarrow> 'f"
  fe_mul :: "'f \<Rightarrow> 'f \<Rightarrow> 'f"
  fe_bytes :: "'f \<Rightarrow> string"
  permutation :: "'f list \<Rightarrow> 'f list"

definition absorb_at :: "'f poseidon_lib \<Rightarrow> 'f list \<Rightarrow> nat \<Rightarrow> 'f \<Rightarrow> 'f list" where
  "absorb_at lib state i x = state[i := fe_add lib (state ! i) x]"

text \<open>The loop over the full chunks, \<open>k\<close> of \<open>n\<close> done.\<close>

(* poseidon2.rs:36-42 poseidon2_hash *)
definition absorb_chunk :: "'f poseidon_lib \<Rightarrow> 'f list \<Rightarrow> 'f list \<Rightarrow> nat \<Rightarrow> 'f list" where
  "absorb_chunk lib inputs state chunk_idx =
     permutation lib (foldl (\<lambda>st i. absorb_at lib st i (inputs ! (chunk_idx * 3 + i))) state [0..<3])"

(* poseidon2.rs:44-50 poseidon2_hash *)
definition absorb_rest :: "'f poseidon_lib \<Rightarrow> 'f list \<Rightarrow> nat \<Rightarrow> 'f list \<Rightarrow> 'f list" where
  "absorb_rest lib inputs remainder_start state =
     foldl (\<lambda>st j. if remainder_start + j < length inputs
       then absorb_at lib st j (inputs ! (remainder_start + j)) else st) state [0..<3]"

(* poseidon2.rs:27-58 poseidon2_hash *)
definition poseidon2_hash :: "'f poseidon_lib \<Rightarrow> 'f list \<Rightarrow> 'f" where
  "poseidon2_hash lib inputs = (let in_len = length inputs;
     iv = fe_mul lib (fe_from lib in_len) (fe_from lib (2 ^ 64));
     zero = fe_from lib 0;
     state = [zero, zero, zero, iv];
     full_chunks = in_len div 3;
     state = foldl (absorb_chunk lib inputs) state [0..<full_chunks];
     state = absorb_rest lib inputs (full_chunks * 3) state;
     state = (if in_len = 0 \<or> in_len mod 3 \<noteq> 0 then permutation lib state else state)
   in state ! 0)"

(* poseidon2.rs:64-75 field_to_be_bytes32 *)
definition field_to_be_bytes32 :: "'f poseidon_lib \<Rightarrow> 'f \<Rightarrow> string" where
  "field_to_be_bytes32 lib f = fe_bytes lib f"

(* poseidon2.rs:79-84 bytes_to_fields *)
definition bytes_to_fields :: "'f poseidon_lib \<Rightarrow> string \<Rightarrow> 'f list" where
  "bytes_to_fields lib bytes = map (\<lambda>b. fe_from lib (byte_of b)) bytes"

(* poseidon2.rs:87-89 u32_to_field *)
definition u32_to_field :: "'f poseidon_lib \<Rightarrow> nat \<Rightarrow> 'f" where
  "u32_to_field lib x = fe_from lib (x mod 2 ^ 32)"

(* poseidon2.rs:92-94 u8_to_field *)
definition u8_to_field :: "'f poseidon_lib \<Rightarrow> u8 \<Rightarrow> 'f" where
  "u8_to_field lib x = fe_from lib (unat x)"

(* poseidon2.rs:99-101 i64_to_field *)
definition i64_to_field :: "'f poseidon_lib \<Rightarrow> i64 \<Rightarrow> 'f" where
  "i64_to_field lib x = fe_from lib (unat x)"

(* program_hash.rs:46-55 compute_program_hash *)
definition program_fields :: "'f poseidon_lib \<Rightarrow> function_proto list \<Rightarrow> 'f list" where
  "program_fields lib ps = concat (map (\<lambda>p. concat (map (\<lambda>instr.
     [u8_to_field lib (instruction_to_opcode_id instr), i64_to_field lib (instruction_to_operand instr)])
     (fp_code p))) ps)"

(* program_hash.rs:45-57 compute_program_hash *)
definition compute_program_hash :: "'f poseidon_lib \<Rightarrow> function_proto list \<Rightarrow> string" where
  "compute_program_hash lib ps = field_to_be_bytes32 lib (poseidon2_hash lib (program_fields lib ps))"

text \<open>The sponge as its description reads: the input in blocks of three, each added to the first
  places of the state and followed by a permutation; the empty input is one empty block.\<close>

fun blocks :: "'f list \<Rightarrow> 'f list list" where
  "blocks [] = []"
| "blocks [a] = [[a]]"
| "blocks [a, b] = [[a, b]]"
| "blocks (a # b # c # xs) = [a, b, c] # blocks xs"

definition add_block :: "'f poseidon_lib \<Rightarrow> 'f list \<Rightarrow> 'f list \<Rightarrow> 'f list" where
  "add_block lib state block = map2 (fe_add lib) (take (length block) state) block @ drop (length block) state"

definition sponge :: "'f poseidon_lib \<Rightarrow> 'f list \<Rightarrow> 'f list \<Rightarrow> 'f list" where
  "sponge lib state inputs = foldl (\<lambda>st b. permutation lib (add_block lib st b)) state (blocks inputs)"

definition initial_state :: "'f poseidon_lib \<Rightarrow> nat \<Rightarrow> 'f list" where
  "initial_state lib n = [fe_from lib 0, fe_from lib 0, fe_from lib 0, fe_mul lib (fe_from lib n) (fe_from lib (2 ^ 64))]"

lemma four_places: "length st = 4 \<Longrightarrow> \<exists>a b c d. st = [a, b, c, d]"
  by (auto simp: numeral_eq_Suc length_Suc_conv)

lemma upto_3: "[0..<3] = [0, 1, 2]"
  by (simp add: upt_rec numeral_eq_Suc)

lemma absorb_chunk_block:
  assumes "length st = 4" "3 * k + 2 < length xs"
  shows "absorb_chunk lib xs st k = permutation lib (add_block lib st [xs ! (3 * k), xs ! (3 * k + 1), xs ! (3 * k + 2)])"
  using four_places [OF assms(1)]
  by (auto simp: absorb_chunk_def absorb_at_def upto_3 add_block_def mult.commute)

lemma absorb_rest_block:
  assumes "length st = 4" "length xs - n < 3"
  shows "absorb_rest lib xs n st = add_block lib st (drop n xs)"
proof -
  obtain a b c d where st: "st = [a, b, c, d]" using four_places [OF assms(1)] by blast
  consider "drop n xs = []" | y where "drop n xs = [y]" | y z where "drop n xs = [y, z]"
    using assms(2) by (cases "drop n xs" rule: blocks.cases) (auto dest: arg_cong [of _ _ length])
  then show ?thesis
  proof cases
    case 1
    then show ?thesis by (simp add: absorb_rest_def upto_3 add_block_def)
  next
    case (2 y)
    then have "n \<le> length xs" by (cases "n \<le> length xs") auto
    then obtain ts where ts: "xs = ts @ [y]" "length ts = n"
      using append_take_drop_id [of n xs] 2 by (metis length_take min.absorb2)
    then show ?thesis using 2 by (simp add: absorb_rest_def absorb_at_def upto_3 add_block_def st nth_append)
  next
    case (3 y z)
    then have "n \<le> length xs" by (cases "n \<le> length xs") auto
    then obtain ts where ts: "xs = ts @ [y, z]" "length ts = n"
      using append_take_drop_id [of n xs] 3 by (metis length_take min.absorb2)
    then show ?thesis using 3 by (simp add: absorb_rest_def absorb_at_def upto_3 add_block_def st nth_append)
  qed
qed

lemma blocks_drop:
  assumes "3 * k + 2 < length xs"
  shows "blocks (drop (3 * k) xs) = [xs ! (3 * k), xs ! (3 * k + 1), xs ! (3 * k + 2)] # blocks (drop (3 * Suc k) xs)"
proof -
  have "3 * Suc k = Suc (Suc (Suc (3 * k)))" by simp
  then show ?thesis using assms by (simp only:) (simp add: Cons_nth_drop_Suc [symmetric])
qed

lemma length_add_block: "length st = 4 \<Longrightarrow> length b \<le> 4 \<Longrightarrow> length (add_block lib st b) = 4"
  by (simp add: add_block_def)

lemma absorb_chunks:
  assumes perm: "\<And>st. length st = 4 \<Longrightarrow> length (permutation lib st) = 4" and st: "length st = 4"
  shows "3 * k \<le> length xs \<Longrightarrow> length (foldl (absorb_chunk lib xs) st [0..<k]) = 4
    \<and> sponge lib (foldl (absorb_chunk lib xs) st [0..<k]) (drop (3 * k) xs) = sponge lib st xs"
proof (induction k)
  case (Suc k)
  let ?st = "foldl (absorb_chunk lib xs) st [0..<k]"
  have k: "3 * k + 2 < length xs" using Suc.prems by simp
  have IH: "length ?st = 4" "sponge lib ?st (drop (3 * k) xs) = sponge lib st xs" using Suc by simp_all
  show ?case using IH absorb_chunk_block [OF IH(1) k, of lib] perm length_add_block [OF IH(1)]
    unfolding sponge_def blocks_drop [OF k] by simp
qed (use st in \<open>simp add: sponge_def\<close>)

lemma blocks_short: "xs \<noteq> [] \<Longrightarrow> length xs < 3 \<Longrightarrow> blocks xs = [xs]"
  by (cases xs rule: blocks.cases) auto

text \<open>C18: \<open>poseidon2_hash\<close> is the rate-3 sponge: its two index loops and the conditional last
  permutation compute the fold over the input's blocks of three, starting from the state whose
  capacity holds the length, with exactly one permutation per block and one for the empty input.\<close>

theorem poseidon2_hash_sponge:
  assumes "\<And>st. length st = 4 \<Longrightarrow> length (permutation lib st) = 4"
  shows "poseidon2_hash lib inputs = (if inputs = [] then permutation lib (initial_state lib 0)
    else sponge lib (initial_state lib (length inputs)) inputs) ! 0"
proof -
  let ?k = "length inputs div 3" and ?st = "initial_state lib (length inputs)"
  let ?mid = "foldl (absorb_chunk lib inputs) ?st [0..<?k]" and ?rest = "drop (?k * 3) inputs"
  have st: "length ?st = 4" by (simp add: initial_state_def)
  have mid: "length ?mid = 4" "sponge lib ?mid ?rest = sponge lib ?st inputs"
    using absorb_chunks [OF assms st, of ?k inputs] by (simp_all add: mult.commute)
  have len: "length inputs - ?k * 3 = length inputs mod 3" by (simp add: minus_div_mult_eq_mod)
  have rest: "absorb_rest lib inputs (?k * 3) ?mid = add_block lib ?mid ?rest"
    by (rule absorb_rest_block [OF mid(1)]) (simp add: len)
  have "poseidon2_hash lib inputs = (if inputs = [] \<or> length inputs mod 3 \<noteq> 0
      then permutation lib (add_block lib ?mid ?rest) else add_block lib ?mid ?rest) ! 0"
    unfolding poseidon2_hash_def Let_def initial_state_def [symmetric] rest by simp
  moreover have "add_block lib ?mid ?rest = sponge lib ?st inputs" if "inputs \<noteq> []" "length inputs mod 3 = 0"
    using that mid(2) len by (simp add: add_block_def sponge_def)
  moreover have "permutation lib (add_block lib ?mid ?rest) = sponge lib ?st inputs"
    if "length inputs mod 3 \<noteq> 0"
  proof -
    have "length ?rest = length inputs mod 3" by (simp add: len)
    then have "blocks ?rest = [?rest]" using that by (intro blocks_short) auto
    then show ?thesis using mid(2) by (simp add: sponge_def)
  qed
  ultimately show ?thesis by (auto simp: add_block_def)
qed

definition sum_lib :: "nat poseidon_lib" where
  "sum_lib = \<lparr>fe_from = id, fe_add = (+), fe_mul = (*), fe_bytes = nat_to_string,
     permutation = (\<lambda>st. [sum_list st, 1, 2, 3])\<rparr>"

theorem poseidon2_hash_sponge_witness:
  "poseidon2_hash sum_lib [5, 6, 7, 8] = sponge sum_lib (initial_state sum_lib (length [5, 6, 7, 8 :: nat])) [5, 6, 7, 8] ! 0"
proof -
  have "length (permutation sum_lib st) = 4" for st by (simp add: sum_lib_def)
  from poseidon2_hash_sponge [OF this, of "[5, 6, 7, 8]"] show ?thesis by simp
qed

text \<open>C27: The Poseidon2 program hash, the one a default build stores, covers the instruction stream
  only. Programs whose prototypes concatenate to the same instructions have the same hash, whatever
  their constants, captured variables and prototype boundaries.\<close>

theorem poseidon_hash_instructions_only:
  assumes "concat (map fp_code ps) = concat (map fp_code qs)"
  shows "compute_program_hash lib ps = compute_program_hash lib qs"
proof -
  have "program_fields lib xs = concat (map (\<lambda>instr.
      [u8_to_field lib (instruction_to_opcode_id instr), i64_to_field lib (instruction_to_operand instr)])
      (concat (map fp_code xs)))" for xs
    by (induction xs) (simp_all add: program_fields_def)
  then show ?thesis using assms by (simp add: compute_program_hash_def)
qed

theorem poseidon_hash_instructions_only_witness:
  "compute_program_hash sum_lib [returns_constant (K_Integer 1)]
    = compute_program_hash sum_lib [returns_constant (K_String ''omega'')]"
  by (rule poseidon_hash_instructions_only) (simp add: returns_constant_def)

end
