(* ===== verification/Lua_Canonical_Fuel.thy ===== *)
theory Lua_Canonical_Fuel
  imports Lua_Canonical
begin

text \<open>
  The decoder of \<open>src/host/canonicalize.rs\<close> always answers: a successful call consumes input, the
  fuel \<open>2 * length + 2\<close> is never used up, and no input makes it panic.
\<close>

section \<open>A successful call consumes input\<close>

lemma trim_shorter: "length (trim_leading_whitespace s) \<le> length s"
  by (simp add: trim_leading_whitespace_def length_dropWhile_le)

lemma deser_string_shorter: "deser_string out s = Some (b, r) \<Longrightarrow> length r < length s"
proof (induction out s rule: deser_string.induct)
  case (1 out s)
  show ?case
  proof (cases s)
    case Nil
    then show ?thesis using "1.prems" by (simp add: deser_string.simps)
  next
    case (Cons c t)
    show ?thesis
    proof (cases "c = CHR 0x5C")
      case False
      then show ?thesis using 1(3) [OF Cons] "1.prems" Cons
        by (subst (asm) deser_string.simps) (fastforce split: if_splits)
    next
      case True
      then obtain e u where t: "t = e # u"
        using "1.prems" Cons by (cases t) (auto simp: deser_string.simps [of out "[CHR 0x5C]"])
      show ?thesis
      proof (cases "simple_escape e")
        case (Some x)
        then show ?thesis using 1(2) [OF Cons _ True t Some] "1.prems" Cons t True
          by (subst (asm) deser_string.simps) fastforce
      next
        case None
        then obtain cp where cp: "e = CHR ''u''" "\<not> (length u < 4 \<or> \<not> utf8_valid (take 4 u))"
            "parse_unsigned 65535 16 (take 4 u) = Some cp"
          and eq: "deser_string (out @ [char_of (cp mod 256)]) (drop 4 u) = Some (b, r)"
          using "1.prems" Cons t True
          by (subst (asm) deser_string.simps) (auto split: if_splits option.splits)
        then show ?thesis using 1(1) [OF Cons _ True t None cp] Cons t True by fastforce
      qed
    qed
  qed
qed

lemma deser_integer_shorter: "deser_integer s = Some (v, r) \<Longrightarrow> length r < length s"
proof -
  assume d: "deser_integer s = Some (v, r)"
  let ?p = "\<lambda>c. c = CHR ''-'' \<or> is_ascii_digit c"
  have "parse_i64 (takeWhile ?p s) \<noteq> None" and r: "r = dropWhile ?p s"
    using d by (auto simp: deser_integer_def Let_def split: option.splits)
  then have "takeWhile ?p s \<noteq> []" by (auto simp: parse_i64_def Let_def)
  then have "0 < length (takeWhile ?p s)" by simp
  moreover have "length (takeWhile ?p s) + length r = length s"
    unfolding r by (metis takeWhile_dropWhile_id length_append)
  ultimately show ?thesis by linarith
qed

text \<open>\<open>settles n m s\<close>: \<open>m\<close> ends in a value or an error, and a value leaves less than \<open>n\<close> to read.\<close>

definition settles :: "nat \<Rightarrow> 'a deser \<Rightarrow> table_store \<Rightarrow> bool" where
  "settles n m h \<longleftrightarrow> (case fst (m h) of Ok (v, r) \<Rightarrow> length r < n | Err e \<Rightarrow> True | _ \<Rightarrow> False)"

lemma settles_ret: "length r < n \<Longrightarrow> settles n (ret (v, r)) h"
  and settles_fail: "settles n (fail e) h"
  and settles_invalid: "settles n invalid_input h"
  and settles_box: "length r < n \<Longrightarrow> settles n (box_table t r) h"
  by (simp_all add: settles_def invalid_input_def box_table_def)

lemma settles_set:
  assumes "\<And>t'. settles n (f t') h"
  shows "settles n (bnd (set_or_invalid k v t) f) h"
proof -
  obtain r t' where r: "rawset k v t = (r, t')" by fastforce
  then have "bnd (set_or_invalid k v t) f h = (case r of Inl _ \<Rightarrow> (Err InvalidInput, h) | Inr _ \<Rightarrow> f t' h)"
    by (auto simp: set_or_invalid_def split: sum.split)
  then show ?thesis using assms by (auto simp: settles_def split: sum.split)
qed

lemma settles_bnd:
  assumes "settles k m h" and "\<And>r v h'. length r < k \<Longrightarrow> settles n (f (v, r)) h'"
  shows "settles n (bnd m f) h"
proof -
  obtain x h' where m: "m h = (x, h')" by fastforce
  show ?thesis
  proof (cases x)
    case (Ok a)
    then have "length (snd a) < k" using assms(1) m by (cases a) (simp add: settles_def)
    then show ?thesis using assms(2) [of "snd a" "fst a" h'] m Ok by (simp add: settles_def bnd_def)
  qed (use assms(1) m in \<open>simp_all add: settles_def bnd_def\<close>)
qed

lemma deser_settles:
  "(2 * length s + 1 \<le> n \<longrightarrow> settles (length s) (deser_value n s) h)
   \<and> (2 * length s + 2 \<le> n \<longrightarrow> settles (length s) (deser_items n t idx s) h)
   \<and> (2 * length s + 2 \<le> n \<longrightarrow> settles (length s) (deser_members n t s) h)"
proof (induction n arbitrary: s h t idx)
  case (Suc n)
  note IHv = Suc.IH [THEN conjunct1, rule_format]
    and IHi = Suc.IH [THEN conjunct2, THEN conjunct1, rule_format]
    and IHm = Suc.IH [THEN conjunct2, THEN conjunct2, rule_format]
  have mono: "settles k m h" if "settles j m h" "j \<le> k" for j k m and h :: table_store
    using that by (auto simp: settles_def split: outcome.splits)
  have trim: "length (trim_leading_whitespace x) \<le> length x" for x by (rule trim_shorter)
  have "settles (length s) (deser_value (Suc n) s) h" if f: "2 * length s + 1 \<le> Suc n"
  proof (cases "trim_leading_whitespace s")
    case Nil
    then show ?thesis by (simp add: deser_value.simps settles_invalid)
  next
    case (Cons c r)
    have cr: "Suc (length r) \<le> length s" using trim [of s] Cons by simp
    have r': "length (trim_leading_whitespace r) < length s" using trim [of r] cr by linarith
    have lit: "settles (length s) (ret (v, drop k r)) h" for v k
      by (rule settles_ret) (use cr in simp)
    have i: "settles (length s) (deser_items n new_table 1 (trim_leading_whitespace r)) h"
      and m: "settles (length s) (deser_members n new_table (trim_leading_whitespace r)) h"
      by (rule mono [OF IHi less_imp_le [OF r']], use r' f in simp)
        (rule mono [OF IHm less_imp_le [OF r']], use r' f in simp)
    have str: "settles (length s) (case deser_string [] r of None \<Rightarrow> invalid_input | Some (b, rest) \<Rightarrow> ret (VStr b, rest)) h"
      using deser_string_shorter cr
      by (auto intro!: settles_ret settles_invalid split: option.splits) fastforce
    have int: "settles (length s) (of_option (deser_integer (c # r))) h"
      using deser_integer_shorter [of "c # r"] cr
      by (cases "deser_integer (c # r)") (auto simp: of_option_def intro!: settles_ret settles_invalid)
    have box: "settles (length s) (box_table t (tl (trim_leading_whitespace r))) h" for t
      by (rule settles_box) (use r' in simp)
    show ?thesis unfolding deser_value.simps Let_def Cons list.case
      using i m by (auto simp: lit str int box settles_invalid)
  qed
  moreover have "settles (length s) (deser_items (Suc n) t idx s) h" if f: "2 * length s + 2 \<le> Suc n" for t idx
    unfolding deser_items.simps
  proof (rule settles_bnd [OF IHv], use f in simp, simp, rule settles_set)
    fix v h' t' and after :: string
    assume a: "length after < length s"
    then have "length (tl (trim_leading_whitespace after)) < length s" using trim [of after] by simp
    then show "settles (length s) (let a = trim_leading_whitespace after in
        if a \<noteq> [] \<and> hd a = CHR '']'' then box_table t' (tl a)
        else if a \<noteq> [] \<and> hd a = CHR '','' then deser_items n t' (idx + 1) (tl a) else invalid_input) h'"
      using f mono [OF IHi [of "tl (trim_leading_whitespace after)"]]
      by (auto simp: Let_def intro!: settles_box settles_invalid)
  qed
  moreover have "settles (length s) (deser_members (Suc n) t s) h" if f: "2 * length s + 2 \<le> Suc n" for t
  proof (cases "trim_leading_whitespace s = [] \<or> hd (trim_leading_whitespace s) \<noteq> CHR 0x22
      \<or> deser_string [] (tl (trim_leading_whitespace s)) = None")
    case True
    then show ?thesis by (auto simp: deser_members.simps Let_def settles_invalid)
  next
    case False
    then obtain key ak where key: "deser_string [] (tl (trim_leading_whitespace s)) = Some (key, ak)" by auto
    have ak: "length ak < length s" using deser_string_shorter [OF key] trim [of s] by simp
    have k: "length (tl (trim_leading_whitespace ak)) < length s" using trim [of ak] ak by simp
    show ?thesis
    proof (cases "trim_leading_whitespace ak = [] \<or> hd (trim_leading_whitespace ak) \<noteq> CHR '':''")
      case True
      then show ?thesis using False key by (auto simp: deser_members.simps Let_def settles_invalid)
    next
      case colon: False
      have "settles (length s) (bnd (deser_value n (tl (trim_leading_whitespace ak))) (\<lambda>(v, after).
          bnd (set_or_invalid (object_key key) v t) (\<lambda>t'. let a = trim_leading_whitespace after in
          if a \<noteq> [] \<and> hd a = CHR ''}'' then box_table t' (tl a)
          else if a \<noteq> [] \<and> hd a = CHR '','' then deser_members n t' (tl a) else invalid_input))) h"
      proof (rule settles_bnd [OF IHv], use f k in simp, unfold prod.case, rule settles_set)
        fix v h' t' and after :: string
        assume a: "length after < length (tl (trim_leading_whitespace ak))"
        then have "length (tl (trim_leading_whitespace after)) < length s" using trim [of after] k by simp
        then show "settles (length s) (let a = trim_leading_whitespace after in
            if a \<noteq> [] \<and> hd a = CHR ''}'' then box_table t' (tl a)
            else if a \<noteq> [] \<and> hd a = CHR '','' then deser_members n t' (tl a) else invalid_input) h'"
          using f mono [OF IHm [of "tl (trim_leading_whitespace after)"]]
          by (auto simp: Let_def intro!: settles_box settles_invalid)
      qed
      then show ?thesis using False key colon by (simp add: deser_members.simps Let_def)
    qed
  qed
  ultimately show ?case by blast
qed simp

text \<open>C17: The canonical decoder is total: on every byte string, valid or not, it ends with a value or
  with an error; it neither panics nor runs out of the fuel of the model.\<close>

theorem canonical_deserialize_total:
  "(\<exists>v. fst (canonical_deserialize bytes h) = Ok v) \<or> (\<exists>e. fst (canonical_deserialize bytes h) = Err e)"
proof -
  have "settles (length bytes) (deser_value (2 * length bytes + 2) bytes) h"
    using deser_settles [of bytes "2 * length bytes + 2"] by simp
  then show ?thesis
    by (auto simp: settles_def canonical_deserialize_def bnd_def split: prod.splits outcome.splits)
qed

end
