(* ===== verification/Lua_Canonical_Roundtrip.thy ===== *)
theory Lua_Canonical_Roundtrip
  imports Lua_Canonical_Fuel
begin

text \<open>
  \<open>src/host/canonicalize.rs\<close>: encoding and decoding are inverse. Decoding a canonical text gives a
  value with the same content, in freshly allocated tables, and encoding that value gives the same
  text again, for values whose string keys do not read as another kind of key (\<open>plain_key\<close>).
\<close>

section \<open>Strings and integers\<close>

lemma hex_escape: "n < 256 \<Longrightarrow> parse_unsigned 65535 16 (''00'' @ hex_byte n) = Some n"
proof -
  assume "n < 256"
  then have "n div 16 < 16" "n mod 16 < 16" by simp_all
  then have "digit_value 16 (digit_char (n div 16)) = Some (n div 16)"
    "digit_value 16 (digit_char (n mod 16)) = Some (n mod 16)"
    by (simp_all add: digit_value_digit_char)
  moreover have "digit_value 16 (CHR ''0'') = Some 0" by code_simp
  ultimately show ?thesis using \<open>n < 256\<close> by (simp add: parse_unsigned_def hex_byte_def)
qed

lemma byte_of_digit_char: "d < 16 \<Longrightarrow> byte_of (digit_char d) < 128"
  by (simp add: digit_char_def)

lemma hex_ascii: "n < 256 \<Longrightarrow> utf8_valid (''00'' @ hex_byte n)"
  by (rule utf8_valid_ascii) (auto simp: hex_byte_def byte_of_digit_char, auto simp: byte_of_def)

lemma char_of_byte_of [simp]: "char_of (byte_of c) = c"
  by (simp add: byte_of_def)

lemma deser_string_escape: "deser_string out (escape_byte b @ rest) = deser_string (out @ [b]) rest"
proof -
  have u: "deser_string out (CHR 0x5C # CHR ''u'' # ''00'' @ hex_byte n @ rest) = deser_string (out @ [char_of n]) rest"
    if "n < 256" for n
  proof -
    have "length (hex_byte n) = 2" by (simp add: hex_byte_def)
    then have "take 4 (''00'' @ hex_byte n @ rest) = ''00'' @ hex_byte n" "drop 4 (''00'' @ hex_byte n @ rest) = rest"
      "\<not> length (''00'' @ hex_byte n @ rest) < 4"
      by simp_all
    then show ?thesis
      by (subst deser_string.simps)
        (simp add: simple_escape_def hex_escape [OF that] hex_ascii [OF that] that del: append.simps)
  qed
  show ?thesis
  proof (cases "b \<in> {CHR 0x22, CHR 0x5C, CHR 0x0A, CHR 0x0D, CHR 0x09}")
    case True
    then show ?thesis by (subst deser_string.simps) (auto simp: escape_byte_def simple_escape_def)
  next
    case False
    then show ?thesis using u [of "byte_of b"]
      by (cases "32 \<le> byte_of b \<and> byte_of b \<le> 126")
        (auto simp: escape_byte_def deser_string.simps [of out "b # rest"])
  qed
qed

lemma deser_string_serialized:
  "deser_string out (concat (map escape_byte s) @ CHR 0x22 # r) = Some (out @ s, r)"
proof (induction s arbitrary: out)
  case Nil
  show ?case by (subst deser_string.simps) simp
next
  case (Cons b s)
  then show ?case by (simp add: deser_string_escape)
qed

lemma digits_only: "c \<in> set (i64_to_string n) \<Longrightarrow> c = CHR ''-'' \<or> is_ascii_digit c"
  by (auto simp: i64_to_string_def Let_def is_ascii_digit_def dest: nat_to_string_digits split: if_splits)

definition ends_number :: "string \<Rightarrow> bool" where
  "ends_number r \<longleftrightarrow> r = [] \<or> \<not> (hd r = CHR ''-'' \<or> is_ascii_digit (hd r))"

lemma deser_integer_serialized:
  assumes "ends_number r"
  shows "deser_integer (i64_to_string n @ r) = Some (VInt n, r)"
proof -
  let ?p = "\<lambda>c. c = CHR ''-'' \<or> is_ascii_digit c"
  have "takeWhile ?p (i64_to_string n @ r) = i64_to_string n" "dropWhile ?p (i64_to_string n @ r) = r"
    using assms digits_only [of _ n]
    by (simp_all add: takeWhile_append2 dropWhile_append2 ends_number_def takeWhile_eq_Nil_iff dropWhile_eq_self_iff)
  then show ?thesis by (simp add: deser_integer_def Let_def parse_i64_to_string)
qed

section \<open>Content\<close>

text \<open>The same content in two stores: equal scalars; tables with equal keys and, recursively, the same
  content at each. Being inductive, it relates finite trees only.\<close>

inductive same_content :: "table_store \<Rightarrow> table_store \<Rightarrow> lua_value \<Rightarrow> lua_value \<Rightarrow> bool" for h h' where
  scalar: "v \<in> range VBool \<union> range VInt \<union> range VStr \<union> {VNil} \<Longrightarrow> same_content h h' v v"
| table: "r' < length h' \<Longrightarrow> table_ok (deref h r) \<Longrightarrow> table_ok (deref h' r')
    \<Longrightarrow> dom (table_get (deref h r)) = dom (table_get (deref h' r'))
    \<Longrightarrow> (\<And>k u u'. table_get (deref h r) k = Some u \<Longrightarrow> table_get (deref h' r') k = Some u' \<Longrightarrow> same_content h h' u u')
    \<Longrightarrow> same_content h h' (VTable r) (VTable r')"

definition same_table :: "table_store \<Rightarrow> table_store \<Rightarrow> lua_table \<Rightarrow> lua_table \<Rightarrow> bool" where
  "same_table h h' t t' \<longleftrightarrow> table_ok t \<and> table_ok t' \<and> dom (table_get t) = dom (table_get t') \<and>
     (\<forall>k u u'. table_get t k = Some u \<longrightarrow> table_get t' k = Some u' \<longrightarrow> same_content h h' u u')"

lemma same_content_extend:
  "same_content h h' v v' \<Longrightarrow> same_content h (h' @ h'') v v'"
proof (induction rule: same_content.induct)
  case (table r' r)
  then have "deref (h' @ h'') r' = deref h' r'" by (simp add: deref_def nth_append)
  then show ?case using table by (intro same_content.table) auto
qed (rule same_content.scalar)

lemma same_content_nil: "same_content h h' v v' \<Longrightarrow> v \<noteq> VNil \<Longrightarrow> v' \<noteq> VNil"
  by (induction rule: same_content.cases) auto

text \<open>Keys whose text reads back as the same key: no string that looks like an integer or a boolean.\<close>

definition key_text :: "lua_key \<Rightarrow> string" where
  "key_text k = (case k of KInt n \<Rightarrow> i64_to_string n | KStr s \<Rightarrow> s | KBool b \<Rightarrow> if b then ''true'' else ''false'')"

definition plain_key :: "lua_key \<Rightarrow> bool" where
  "plain_key k \<longleftrightarrow> k \<noteq> KInt i64_min \<and> object_key (key_text k) = k"

definition plain_table :: "lua_table \<Rightarrow> bool" where
  "plain_table t \<longleftrightarrow> table_ok t \<and> (\<forall>k. table_get t k \<noteq> None \<longrightarrow> plain_key k)"

coinductive plain :: "table_store \<Rightarrow> lua_value \<Rightarrow> bool" for h where
  plain_scalar: "\<forall>r. v \<noteq> VTable r \<Longrightarrow> plain h v"
| plain_tab: "plain_table (deref h r) \<Longrightarrow> (\<And>k u. table_get (deref h r) k = Some u \<Longrightarrow> plain h u) \<Longrightarrow> plain h (VTable r)"

definition plain_contents :: "table_store \<Rightarrow> lua_table \<Rightarrow> bool" where
  "plain_contents h t \<longleftrightarrow> plain_table t \<and> (\<forall>k u. table_get t k = Some u \<longrightarrow> plain h u)"

lemma plain_table_contents: "plain h (VTable r) \<Longrightarrow> plain_contents h (deref h r)"
  by (erule plain.cases) (auto simp: plain_contents_def)

lemma object_key_text: "n \<noteq> i64_min \<Longrightarrow> plain_key (KInt n)" and "plain_key (KBool b)"
proof -
  have "utf8_valid (i64_to_string n)"
  proof (rule utf8_valid_ascii)
    show "byte_of c < 128" if "c \<in> set (i64_to_string n)" for c
      using digits_only [OF that] by (auto simp: is_ascii_digit_def) (simp add: byte_of_def)
  qed
  then show "n \<noteq> i64_min \<Longrightarrow> plain_key (KInt n)"
    by (simp add: plain_key_def key_text_def object_key_def parse_i64_to_string)
  have "object_key ''true'' = KBool True" "object_key ''false'' = KBool False" by code_simp+
  then show "plain_key (KBool b)" by (simp add: plain_key_def key_text_def)
qed

lemma serialize_key_text: "serialize_key k = serialize_string (key_text k)"
proof (cases k)
  case (KBool b)
  have "serialize_string ''true'' = [CHR 0x22] @ ''true'' @ [CHR 0x22]"
    "serialize_string ''false'' = [CHR 0x22] @ ''false'' @ [CHR 0x22]"
    by code_simp+
  then show ?thesis using KBool by (simp add: key_text_def)
qed (simp_all add: key_text_def)

section \<open>The key list\<close>

definition table_keys :: "lua_table \<Rightarrow> lua_key list" where
  "table_keys t = array_keys (tab_array t) @ map fst (tab_hash t)"

lemma table_keys_facts:
  assumes "table_ok t"
  shows "distinct (table_keys t)" "set (table_keys t) = dom (table_get t)"
    "length (table_keys t) = tab_entries t"
proof -
  show "distinct (table_keys t)" unfolding table_keys_def by (rule sorted_keys_keys(1) [OF assms])
  show "set (table_keys t) = dom (table_get t)"
    using sorted_keys_keys(2) [OF assms] unfolding table_keys_def by blast
  show "length (table_keys t) = tab_entries t"
    using assms by (simp add: table_keys_def array_keys_def table_ok_def table_inv_def del: upt_Suc)
qed

lemma table_get_value:
  assumes "table_get t k = Some v"
  shows "v \<in> set (tab_array t) \<or> v \<in> snd ` set (tab_hash t)"
proof (cases "\<exists>i. k = KInt i \<and> in_array (tab_array t) i")
  case True
  then obtain i where i: "k = KInt i" "in_array (tab_array t) i" by blast
  then have "v = tab_array t ! nat (sint i - 1)" "nat (sint i - 1) < length (tab_array t)"
    using assms by (auto simp: table_get_def split_get_def in_array_def)
  then show ?thesis by simp
next
  case False
  then have "bt_get (tab_hash t) k = Some v"
    using assms by (auto simp: table_get_def split_get_def split: lua_key.splits)
  then show ?thesis by (rule disjI2 [OF bt_get_value])
qed

lemma table_value_not_nil: "table_ok t \<Longrightarrow> table_get t k = Some v \<Longrightarrow> v \<noteq> VNil"
  using table_get_value [of t k v] by (auto simp: table_ok_def table_inv_def split_inv_def image_iff)

lemma serializable_keys_eq:
  assumes "table_ok t"
  shows "serializable_keys t = table_keys t"
proof -
  have "List.map_filter (\<lambda>v. case v of VInt i \<Rightarrow> Some (KInt i) | VStr s \<Rightarrow> Some (KStr s)
      | VBool b \<Rightarrow> Some (KBool b) | _ \<Rightarrow> None) (map value_of_key ks) = ks" for ks
  proof (induction ks)
    case (Cons a ks)
    then show ?case by (cases a) (simp_all add: List.map_filter_def)
  qed (simp add: List.map_filter_def)
  then show ?thesis
    using table_keys_facts(2) [OF assms] table_value_not_nil [OF assms]
    by (auto simp: serializable_keys_def sorted_keys_eq table_keys_def [symmetric] filter_id_conv split: option.split)
qed

section \<open>Reading lists of elements\<close>

definition reads_back :: "table_store \<Rightarrow> lua_value \<Rightarrow> string \<Rightarrow> bool" where
  "reads_back h v s \<longleftrightarrow> s \<noteq> [] \<and> \<not> json_space (hd s) \<and>
     (\<forall>r h' n. ends_number r \<longrightarrow> 2 * length (s @ r) + 1 \<le> n \<longrightarrow>
        (\<exists>v' ext. deser_value n (s @ r) h' = (Ok (v', r), h' @ ext) \<and> same_content h (h' @ ext) v v'))"

lemma trim_id: "s \<noteq> [] \<Longrightarrow> \<not> json_space (hd s) \<Longrightarrow> trim_leading_whitespace s = s"
  by (cases s) (simp_all add: trim_leading_whitespace_def)

lemma ends_number_punctuation [simp]: "ends_number (CHR '','' # r)" "ends_number (CHR '']'' # r)"
    "ends_number (CHR ''}'' # r)"
  by (simp_all add: ends_number_def is_ascii_digit_def) (simp_all add: byte_of_def)

lemma trim_punctuation [simp]:
  "trim_leading_whitespace (CHR '','' # r) = CHR '','' # r" "trim_leading_whitespace (CHR '']'' # r) = CHR '']'' # r"
  "trim_leading_whitespace (CHR ''}'' # r) = CHR ''}'' # r" "trim_leading_whitespace (CHR '':'' # r) = CHR '':'' # r"
  "trim_leading_whitespace (CHR 0x22 # r) = CHR 0x22 # r"
  by (simp_all add: trim_leading_whitespace_def json_space_def)

lemma set_or_invalid_ok:
  assumes "table_ok t" "tab_entries t < max_table_entries" "k \<noteq> KInt i64_min" "v \<noteq> VNil"
  obtains t' where "\<forall>s :: table_store. set_or_invalid k v t s = (Ok t', s)" "table_ok t'" "table_get t' = (table_get t)(k \<mapsto> v)"
    "tab_entries t' \<le> tab_entries t + 1"
proof -
  let ?t = "snd (rawset_tracked k v t)"
  have kv: "storable_entry k v" using assms(3,4) by (simp add: storable_entry_def)
  note facts = lua_table_spec.sound_store [OF assms(1) kv assms(2)] lua_table_spec.lookup_store [OF assms(1) kv]
    lua_table_spec.entries_store [OF assms(1) kv]
  have "rawset k v t = (Inr (), ?t)"
    using facts(1,3) assms(2-4) by (auto simp: rawset_def rawset_tracked_def Let_def table_ok_def split: if_splits)
  then show ?thesis using that [of ?t] facts by (simp add: set_or_invalid_def)
qed

lemma same_list_extend:
  "list_all2 (same_content h h') vs us \<Longrightarrow> list_all2 (same_content h (h' @ h'')) vs us"
  by (erule list_all2_mono) (rule same_content_extend)

lemma items_read:
  assumes "ps \<noteq> []" "\<forall>(u, s) \<in> set ps. reads_back h u s \<and> u \<noteq> VNil"
    and "table_ok t" "tab_entries t + length ps \<le> max_table_entries"
    and "1 \<le> sint idx" "sint idx + int (length ps) < 2 ^ 63"
    and "2 * length (join '','' (map snd ps) @ CHR '']'' # r) + 2 \<le> n"
  shows "\<exists>us ext t'. deser_items n t idx (join '','' (map snd ps) @ CHR '']'' # r) h'
      = (Ok (VTable (length (h' @ ext)), r), h' @ ext @ [t'])
    \<and> list_all2 (same_content h (h' @ ext)) (map fst ps) us \<and> table_ok t'
    \<and> table_get t' = table_get t ++ map_of (rev (zip (map (\<lambda>i. KInt (i64_of (sint idx + int i))) [0..<length ps]) us))"
  using assms
proof (induction ps arbitrary: t idx h' n)
  case (Cons p ps)
  obtain u s where p: "p = (u, s)" by fastforce
  obtain m where n: "n = Suc m" using Cons.prems(7) by (cases n) auto
  have rb: "reads_back h u s" and u: "u \<noteq> VNil" using Cons.prems(2) p by auto
  let ?after = "if ps = [] then CHR '']'' # r else CHR '','' # join '','' (map snd ps) @ CHR '']'' # r"
  have shape: "join '','' (map snd (p # ps)) @ CHR '']'' # r = s @ ?after" using p by (cases ps) auto
  have "2 * length (s @ ?after) + 1 \<le> m" using Cons.prems(7) n unfolding shape by simp
  moreover have "ends_number ?after" by simp
  ultimately obtain v' ext where v: "deser_value m (s @ ?after) h' = (Ok (v', ?after), h' @ ext)"
    and sv: "same_content h (h' @ ext) u v'" using rb unfolding reads_back_def by blast
  have k: "KInt idx \<noteq> KInt i64_min" using Cons.prems(5) by auto
  have e: "tab_entries t < max_table_entries" using Cons.prems(4) by simp
  obtain t1 where t1: "\<forall>s :: table_store. set_or_invalid (KInt idx) v' t s = (Ok t1, s)" "table_ok t1"
      "table_get t1 = (table_get t)(KInt idx \<mapsto> v')" "tab_entries t1 \<le> tab_entries t + 1"
    using set_or_invalid_ok [OF Cons.prems(3) e k same_content_nil [OF sv u]] .
  have step: "deser_items n t idx (s @ ?after) h' = (let a = trim_leading_whitespace ?after in
     if a \<noteq> [] \<and> hd a = CHR '']'' then box_table t1 (tl a)
     else if a \<noteq> [] \<and> hd a = CHR '','' then deser_items m t1 (idx + 1) (tl a)
     else invalid_input) (h' @ ext)"
    unfolding n deser_items.simps bnd_def v prod.case outcome.case t1(1) [rule_format] ..
  show ?case
  proof (cases "ps = []")
    case True
    have "deser_items n t idx (join '','' (map snd (p # ps)) @ CHR '']'' # r) h'
        = (Ok (VTable (length (h' @ ext)), r), h' @ ext @ [t1])"
      unfolding shape step using True by (simp add: box_table_def)
    then show ?thesis using True p sv t1(2,3)
      by (intro exI [of _ "[v']"] exI [of _ ext] exI [of _ t1]) (simp add: map_add_def fun_eq_iff)
  next
    case False
    have "idx + 1 = i64_of (sint idx + 1)" by (simp add: i64_of_def)
    moreover have "in_i64 (sint idx + 1)" using Cons.prems(5,6) by (simp add: in_i64_def)
    ultimately have idx1: "sint (idx + 1) = sint idx + 1" by simp
    have "2 * length (join '','' (map snd ps) @ CHR '']'' # r) + 2 \<le> m"
      using Cons.prems(7) n False unfolding shape by simp
    then obtain us ext' t' where
      i: "deser_items m t1 (idx + 1) (join '','' (map snd ps) @ CHR '']'' # r) (h' @ ext)
        = (Ok (VTable (length ((h' @ ext) @ ext')), r), (h' @ ext) @ ext' @ [t'])"
      and us: "list_all2 (same_content h ((h' @ ext) @ ext')) (map fst ps) us" and t': "table_ok t'"
      and get: "table_get t' = table_get t1 ++ map_of (rev (zip (map (\<lambda>i. KInt (i64_of (sint (idx + 1) + int i))) [0..<length ps]) us))"
      using Cons.IH [OF False _ t1(2), of "idx + 1" m "h' @ ext"] Cons.prems t1(4) idx1 by auto
    have len: "length us = length ps" using us by (auto dest: list_all2_lengthD)
    have keys: "map (\<lambda>i. KInt (i64_of (sint idx + int i))) [0..<length (p # ps)]
        = KInt idx # map (\<lambda>i. KInt (i64_of (sint (idx + 1) + int i))) [0..<length ps]"
      unfolding idx1 by (simp add: upt_conv_Cons map_Suc_upt [symmetric] comp_def del: upt_Suc) (simp add: add.assoc)
    have "table_get t' = table_get t ++ map_of (rev (zip (map (\<lambda>i. KInt (i64_of (sint idx + int i))) [0..<length (p # ps)]) (v' # us)))"
      unfolding keys get t1(3) by (simp add: len)
    moreover have "deser_items n t idx (join '','' (map snd (p # ps)) @ CHR '']'' # r) h'
        = (Ok (VTable (length (h' @ ext @ ext')), r), h' @ (ext @ ext') @ [t'])"
      unfolding shape step using False i by simp
    moreover have "list_all2 (same_content h (h' @ ext @ ext')) (map fst (p # ps)) (v' # us)"
      using us same_content_extend [OF sv] p by simp
    ultimately show ?thesis using t' by blast
  qed
qed simp

definition member_text :: "lua_key \<times> lua_value \<times> string \<Rightarrow> string" where
  "member_text p = serialize_key (fst p) @ '':'' @ snd (snd p)"

lemma members_read:
  assumes "ps \<noteq> []" "\<forall>(k, u, s) \<in> set ps. reads_back h u s \<and> u \<noteq> VNil \<and> plain_key k"
    and "table_ok t" "tab_entries t + length ps \<le> max_table_entries"
    and "2 * length (join '','' (map member_text ps) @ CHR ''}'' # r) + 2 \<le> n"
  shows "\<exists>us ext t'. deser_members n t (join '','' (map member_text ps) @ CHR ''}'' # r) h'
      = (Ok (VTable (length (h' @ ext)), r), h' @ ext @ [t'])
    \<and> list_all2 (same_content h (h' @ ext)) (map (\<lambda>p. fst (snd p)) ps) us \<and> table_ok t'
    \<and> table_get t' = table_get t ++ map_of (rev (zip (map fst ps) us))"
  using assms
proof (induction ps arbitrary: t h' n)
  case (Cons p ps)
  obtain k u s where p: "p = (k, u, s)" by (cases p) auto
  obtain m where n: "n = Suc m" using Cons.prems(5) by (cases n) auto
  have rb: "reads_back h u s" and u: "u \<noteq> VNil" and k: "k \<noteq> KInt i64_min" "object_key (key_text k) = k"
    using Cons.prems(2) p by (auto simp: plain_key_def)
  let ?after = "if ps = [] then CHR ''}'' # r else CHR '','' # join '','' (map member_text ps) @ CHR ''}'' # r"
  let ?esc = "concat (map escape_byte (key_text k))"
  have shape: "join '','' (map member_text (p # ps)) @ CHR ''}'' # r = CHR 0x22 # ?esc @ CHR 0x22 # CHR '':'' # s @ ?after"
    using p by (cases ps) (auto simp: member_text_def serialize_key_text serialize_string_def)
  have "2 * length (s @ ?after) + 1 \<le> m" using Cons.prems(5) n unfolding shape by simp
  moreover have "ends_number ?after" by simp
  ultimately obtain v' ext where v: "deser_value m (s @ ?after) h' = (Ok (v', ?after), h' @ ext)"
    and sv: "same_content h (h' @ ext) u v'" using rb unfolding reads_back_def by blast
  have e: "tab_entries t < max_table_entries" using Cons.prems(4) by simp
  obtain t1 where t1: "\<forall>s :: table_store. set_or_invalid k v' t s = (Ok t1, s)" "table_ok t1"
      "table_get t1 = (table_get t)(k \<mapsto> v')" "tab_entries t1 \<le> tab_entries t + 1"
    using set_or_invalid_ok [OF Cons.prems(3) e k(1) same_content_nil [OF sv u]] .
  have step: "deser_members n t (CHR 0x22 # ?esc @ CHR 0x22 # CHR '':'' # s @ ?after) h' =
    (let a = trim_leading_whitespace ?after in
     if a \<noteq> [] \<and> hd a = CHR ''}'' then box_table t1 (tl a)
     else if a \<noteq> [] \<and> hd a = CHR '','' then deser_members m t1 (tl a)
     else invalid_input) (h' @ ext)"
    unfolding n deser_members.simps Let_def trim_punctuation list.sel deser_string_serialized append_Nil
      option.case prod.case append_Cons k(2) bnd_def
    using v t1(1) by (cases "ps = []") simp_all
  show ?case
  proof (cases "ps = []")
    case True
    have "deser_members n t (join '','' (map member_text (p # ps)) @ CHR ''}'' # r) h'
        = (Ok (VTable (length (h' @ ext)), r), h' @ ext @ [t1])"
      unfolding shape step using True by (simp add: box_table_def)
    then show ?thesis using True p sv t1(2,3)
      by (intro exI [of _ "[v']"] exI [of _ ext] exI [of _ t1]) (simp add: map_add_def fun_eq_iff)
  next
    case False
    have "2 * length (join '','' (map member_text ps) @ CHR ''}'' # r) + 2 \<le> m"
      using Cons.prems(5) n False unfolding shape by simp
    then obtain us ext' t' where
      i: "deser_members m t1 (join '','' (map member_text ps) @ CHR ''}'' # r) (h' @ ext)
        = (Ok (VTable (length ((h' @ ext) @ ext')), r), (h' @ ext) @ ext' @ [t'])"
      and us: "list_all2 (same_content h ((h' @ ext) @ ext')) (map (\<lambda>p. fst (snd p)) ps) us" and t': "table_ok t'"
      and get: "table_get t' = table_get t1 ++ map_of (rev (zip (map fst ps) us))"
      using Cons.IH [OF False _ t1(2), of m "h' @ ext"] Cons.prems t1(4) by auto
    have len: "length us = length ps" using us by (auto dest: list_all2_lengthD)
    have "table_get t' = table_get t ++ map_of (rev (zip (map fst (p # ps)) (v' # us)))"
      unfolding get t1(3) by (simp add: len p)
    moreover have "deser_members n t (join '','' (map member_text (p # ps)) @ CHR ''}'' # r) h'
        = (Ok (VTable (length (h' @ ext @ ext')), r), h' @ (ext @ ext') @ [t'])"
      unfolding shape step using False i by simp
    moreover have "list_all2 (same_content h (h' @ ext @ ext')) (map (\<lambda>p. fst (snd p)) (p # ps)) (v' # us)"
      using us same_content_extend [OF sv] p by simp
    ultimately show ?thesis using t' by blast
  qed
qed simp

section \<open>Reading a value back\<close>

definition reads_table :: "table_store \<Rightarrow> lua_table \<Rightarrow> string \<Rightarrow> bool" where
  "reads_table h t s \<longleftrightarrow> s \<noteq> [] \<and> \<not> json_space (hd s) \<and>
     (\<forall>r h' n. 2 * length (s @ r) + 1 \<le> n \<longrightarrow>
        (\<exists>ext t'. deser_value n (s @ r) h' = (Ok (VTable (length (h' @ ext)), r), h' @ ext @ [t'])
           \<and> same_table h (h' @ ext) t t'))"

lemma traverse_Inr: "traverse f xs = Inr ys \<Longrightarrow> list_all2 (\<lambda>x y. f x = Inr y) xs ys"
  by (induction xs arbitrary: ys) (auto split: sum.splits)

text \<open>The table a list of elements was read into, compared with the one it was written from.\<close>

lemma same_table_from_list:
  assumes ok: "table_ok t" "table_ok t'" and us: "list_all2 (same_content h h') (map (value_at t) (table_keys t)) us"
    and get: "table_get t' = table_get new_table ++ map_of (rev (zip (table_keys t) us))"
  shows "same_table h h' t t'"
proof -
  let ?ks = "table_keys t"
  have len: "length us = length ?ks" using us by (auto dest: list_all2_lengthD)
  have empty: "table_get new_table k = None" for k
    by (cases k) (auto simp: table_get_def split_get_def new_table_def in_array_def)
  have get': "table_get t' = map_of (rev (zip ?ks us))" unfolding get
    by (rule ext) (simp add: map_add_def empty split: option.split)
  have "dom (table_get t') = set ?ks" unfolding get' by (simp add: dom_map_of_conv_image_fst len flip: set_map)
  moreover have "same_content h h' u u'" if "table_get t k = Some u" "table_get t' k = Some u'" for k u u'
  proof -
    have "(k, u') \<in> set (zip ?ks us)" using that(2) map_of_SomeD [of "rev (zip ?ks us)" k u'] by (simp add: get')
    then obtain i where i: "i < length ?ks" "?ks ! i = k" "us ! i = u'" by (auto simp: in_set_zip)
    have "same_content h h' (map (value_at t) ?ks ! i) (us ! i)" using us i(1) by (auto dest: list_all2_nthD)
    then show ?thesis using i that(1) by (simp add: value_at_def)
  qed
  ultimately show ?thesis using ok table_keys_facts(2) [OF ok(1)] by (simp add: same_table_def)
qed

lemma is_array_keys:
  assumes "table_ok t" "is_array t"
  shows "table_keys t = map (\<lambda>i. KInt (i64_of (int i))) [1..<table_length t + 1]"
proof -
  have "length (table_keys t) = length (tab_array t)"
    using assms by (simp add: is_array_def serializable_keys_eq table_length_def)
  then have "tab_hash t = []" by (simp add: table_keys_def array_keys_def del: upt_Suc)
  then show ?thesis by (simp add: table_keys_def array_keys_def table_length_def)
qed

lemma reads_back_open:
  assumes "reads_back h v p"
  shows "hd p \<noteq> CHR '']''"
proof
  assume "hd p = CHR '']''"
  then obtain q where p: "p = CHR '']'' # q" using assms by (cases p) (auto simp: reads_back_def)
  obtain v' ext where "deser_value (2 * length (p @ []) + 1) (p @ []) [] = (Ok (v', []), [] @ ext)"
    using assms unfolding reads_back_def ends_number_def by blast
  then show False
    by (simp add: p deser_value.simps Let_def is_ascii_digit_def) (simp add: byte_of_def invalid_input_def)
qed

lemma reads_array:
  assumes t: "plain_contents h t" and arr: "is_array t"
    and parts: "list_all2 (\<lambda>k p. reads_back h (value_at t k) p) (table_keys t) parts"
  shows "reads_table h t (''['' @ join '','' parts @ '']'')"
proof -
  let ?ks = "table_keys t"
  let ?ps = "zip (map (value_at t) ?ks) parts"
  have ok: "table_ok t" using t by (simp add: plain_contents_def plain_table_def)
  have len: "length parts = length ?ks" using parts by (auto dest: list_all2_lengthD)
  have max: "length ?ks \<le> max_table_entries" using table_keys_facts(3) [OF ok] ok by (simp add: table_ok_def)
  have n: "length ?ks = table_length t" "0 < table_length t"
    using arr by (simp_all add: is_array_keys [OF ok arr] is_array_def)
  have ps: "map fst ?ps = map (value_at t) ?ks" "map snd ?ps = parts" "length ?ps = length ?ks" "?ps \<noteq> []"
    using len n by auto
  have val: "value_at t k \<noteq> VNil" if "k \<in> set ?ks" for k
    using that table_keys_facts(2) [OF ok] table_value_not_nil [OF ok] by (auto simp: value_at_def)
  have all: "\<forall>(u, s) \<in> set ?ps. reads_back h u s \<and> u \<noteq> VNil"
    using parts val by (auto simp: in_set_zip list_all2_conv_all_nth)
  have keys: "map (\<lambda>i. KInt (i64_of (sint (1 :: i64) + int i))) [0..<length ?ks] = ?ks"
    unfolding n(1) by (subst is_array_keys [OF ok arr]) (rule nth_equalityI; simp del: upt_Suc)
  have "\<exists>ext t'. deser_value m (''['' @ join '','' parts @ '']'' @ r) h'
      = (Ok (VTable (length (h' @ ext)), r), h' @ ext @ [t']) \<and> same_table h (h' @ ext) t t'"
    if m: "2 * length (''['' @ join '','' parts @ '']'' @ r) + 1 \<le> m" for m r h'
  proof -
    obtain k where k: "m = Suc k" using m by (cases m) auto
    have "2 * length (join '','' (map snd ?ps) @ CHR '']'' # r) + 2 \<le> k" using m k ps(2) by simp
    from items_read [OF ps(4) all table_inv_new _ _ _ this, of 1 h']
    obtain us ext t' where i: "deser_items k new_table 1 (join '','' parts @ CHR '']'' # r) h'
        = (Ok (VTable (length (h' @ ext)), r), h' @ ext @ [t'])"
      and us: "list_all2 (same_content h (h' @ ext)) (map (value_at t) ?ks) us" "table_ok t'"
        "table_get t' = table_get new_table ++ map_of (rev (zip ?ks us))"
      using max n unfolding ps(1-3) keys by (auto simp: max_table_entries_def new_table_def)
    obtain p ps' where parts': "parts = p # ps'" using n len by (cases parts) auto
    have "reads_back h (value_at t (?ks ! 0)) p" using parts parts' n by (cases ?ks) auto
    then have p: "p \<noteq> []" "\<not> json_space (hd p)" by (simp_all add: reads_back_def)
    have start: "trim_leading_whitespace (join '','' parts @ CHR '']'' # r) = join '','' parts @ CHR '']'' # r"
      by (rule trim_id) (use p parts' in \<open>cases ps'; simp\<close>)+
    have "hd p \<noteq> CHR '']''" by (rule reads_back_open) fact
    then have close: "hd (join '','' parts @ CHR '']'' # r) \<noteq> CHR '']''" using p parts' by (cases ps') auto
    have "deser_value m (''['' @ join '','' parts @ '']'' @ r) h' = deser_items k new_table 1 (join '','' parts @ CHR '']'' # r) h'"
      using start close unfolding k deser_value.simps Let_def by (simp add: trim_leading_whitespace_def json_space_def)
    then show ?thesis using i same_table_from_list [OF ok us(2,1,3)] by auto
  qed
  then show ?thesis by (auto simp: reads_table_def json_space_def)
qed

lemma reads_object:
  assumes t: "plain_contents h t"
    and parts: "list_all2 (\<lambda>k p. \<exists>q. p = serialize_key k @ '':'' @ q \<and> reads_back h (value_at t k) q) (table_keys t) parts"
  shows "reads_table h t (''{'' @ join '','' parts @ ''}'')"
proof -
  let ?ks = "table_keys t"
  have ok: "table_ok t" and plain: "\<And>k. table_get t k \<noteq> None \<Longrightarrow> plain_key k"
    using t by (simp_all add: plain_contents_def plain_table_def)
  obtain qs where qs: "list_all2 (\<lambda>k q. reads_back h (value_at t k) q) ?ks qs"
    and eq: "parts = map2 (\<lambda>k q. serialize_key k @ '':'' @ q) ?ks qs"
  proof -
    have "\<exists>qs. list_all2 (\<lambda>k q. reads_back h (value_at t k) q) ks qs \<and> ps = map2 (\<lambda>k q. serialize_key k @ '':'' @ q) ks qs"
      if "list_all2 (\<lambda>k p. \<exists>q. p = serialize_key k @ '':'' @ q \<and> reads_back h (value_at t k) q) ks ps" for ks ps
      using that
    proof (induction rule: list_all2_induct)
      case (Cons k ks p ps)
      then obtain q qs where "p = serialize_key k @ '':'' @ q" "reads_back h (value_at t k) q"
        "list_all2 (\<lambda>k q. reads_back h (value_at t k) q) ks qs" "ps = map2 (\<lambda>k q. serialize_key k @ '':'' @ q) ks qs"
        by blast
      then show ?case by (intro exI [of _ "q # qs"]) simp
    qed simp
    then show ?thesis using parts that by blast
  qed
  let ?ps = "map2 (\<lambda>k q. (k, value_at t k, q)) ?ks qs"
  have len: "length qs = length ?ks" using qs by (auto dest: list_all2_lengthD)
  have max: "length ?ks \<le> max_table_entries" using table_keys_facts(3) [OF ok] ok by (simp add: table_ok_def)
  have ps: "map fst ?ps = ?ks" "map (\<lambda>p. fst (snd p)) ?ps = map (value_at t) ?ks" "map member_text ?ps = parts"
      "length ?ps = length ?ks"
    using len unfolding eq by (auto simp: member_text_def split_def intro!: nth_equalityI)
  have val: "value_at t k \<noteq> VNil" "plain_key k" if "k \<in> set ?ks" for k
    using that table_keys_facts(2) [OF ok] table_value_not_nil [OF ok] plain by (auto simp: value_at_def)
  have all: "\<forall>(k, u, s) \<in> set ?ps. reads_back h u s \<and> u \<noteq> VNil \<and> plain_key k"
    using qs val by (auto simp: in_set_zip list_all2_conv_all_nth)
  have "\<exists>ext t'. deser_value m (''{'' @ join '','' parts @ ''}'' @ r) h'
      = (Ok (VTable (length (h' @ ext)), r), h' @ ext @ [t']) \<and> same_table h (h' @ ext) t t'"
    if m: "2 * length (''{'' @ join '','' parts @ ''}'' @ r) + 1 \<le> m" for m r h'
  proof -
    obtain k where k: "m = Suc k" using m by (cases m) auto
    show ?thesis
    proof (cases "?ks = []")
      case True
      have "deser_value m (''{'' @ join '','' parts @ ''}'' @ r) h' = (Ok (VTable (length h'), r), h' @ [new_table])"
        using True unfolding k eq deser_value.simps Let_def
        by (simp add: trim_leading_whitespace_def json_space_def box_table_def)
      moreover have "same_table h h' t new_table"
        by (rule same_table_from_list [OF ok table_inv_new, of _ _ "[]"]) (simp_all add: True map_add_def)
      ultimately show ?thesis by (intro exI [of _ "[]"] exI [of _ new_table]) simp
    next
      case False
      then have ne: "?ps \<noteq> []" using ps(4) by fastforce
      have "2 * length (join '','' (map member_text ?ps) @ CHR ''}'' # r) + 2 \<le> k" using m k ps(3) by simp
      from members_read [OF ne all table_inv_new _ this, of h']
      obtain us ext t' where i: "deser_members k new_table (join '','' parts @ CHR ''}'' # r) h'
          = (Ok (VTable (length (h' @ ext)), r), h' @ ext @ [t'])"
        and us: "list_all2 (same_content h (h' @ ext)) (map (value_at t) ?ks) us" "table_ok t'"
          "table_get t' = table_get new_table ++ map_of (rev (zip ?ks us))"
        using max unfolding ps by (auto simp: new_table_def)
      obtain rest where rest: "join '','' parts = CHR 0x22 # rest"
      proof -
        obtain k0 ks0 q0 qs0 where "?ks = k0 # ks0" "qs = q0 # qs0" using False len by (cases ?ks; cases qs) auto
        then show ?thesis using that unfolding eq
          by (cases "map2 (\<lambda>k q. serialize_key k @ '':'' @ q) ks0 qs0") (auto simp: serialize_key_text serialize_string_def)
      qed
      have "deser_value m (''{'' @ join '','' parts @ ''}'' @ r) h' = deser_members k new_table (join '','' parts @ CHR ''}'' # r) h'"
        unfolding k deser_value.simps Let_def rest by (simp add: trim_leading_whitespace_def json_space_def)
      then show ?thesis using i same_table_from_list [OF ok us(2,1,3)] by auto
    qed
  qed
  then show ?thesis by (auto simp: reads_table_def json_space_def)
qed

lemma reads_scalar:
  assumes "s \<noteq> []" "\<not> json_space (hd s)" "same_content h [] v v"
    and "\<And>r h' n. ends_number r \<Longrightarrow> deser_value (Suc n) (s @ r) h' = (Ok (v, r), h')"
  shows "reads_back h v s"
  unfolding reads_back_def
proof (intro conjI allI impI)
  fix r h' n
  assume r: "ends_number r" and n: "2 * length (s @ r) + 1 \<le> (n :: nat)"
  obtain m where "n = Suc m" using n by (cases n) auto
  moreover have "same_content h (h' @ []) v v" using same_content_extend [OF assms(3), of "h'"] by simp
  ultimately show "\<exists>v' ext. deser_value n (s @ r) h' = (Ok (v', r), h' @ ext) \<and> same_content h (h' @ ext) v v'"
    using assms(4) [OF r] by fastforce
qed (use assms in auto)

lemma reads_integer: "reads_back h (VInt n) (i64_to_string n)"
proof (rule reads_scalar)
  obtain c q where c: "i64_to_string n = c # q" and d: "c = CHR ''-'' \<or> is_ascii_digit c"
    using digits_only [of "hd (i64_to_string n)" n] parse_i64_to_string [of n]
    by (cases "i64_to_string n") (auto simp: parse_i64_def)
  have other: "c \<notin> {CHR ''n'', CHR ''t'', CHR ''f'', CHR 0x22, CHR ''['', CHR ''{''}" "\<not> json_space c"
    using d by (auto simp: is_ascii_digit_def json_space_def) (auto simp: byte_of_def)
  then show "i64_to_string n \<noteq> []" "\<not> json_space (hd (i64_to_string n))" by (simp_all add: c)
  show "deser_value (Suc m) (i64_to_string n @ r) h' = (Ok (VInt n, r), h')" if r: "ends_number r" for r h' m
  proof -
    have "trim_leading_whitespace (i64_to_string n @ r) = i64_to_string n @ r"
      by (rule trim_id) (simp_all add: c other)
    moreover have "deser_integer (c # q @ r) = Some (VInt n, r)" using deser_integer_serialized [OF r, of n] by (simp add: c)
    ultimately show ?thesis using other d by (simp add: deser_value.simps Let_def c of_option_def)
  qed
qed (rule same_content.scalar, simp)

lemma reads_string: "reads_back h (VStr s) (serialize_string s)"
proof (rule reads_scalar)
  show "deser_value (Suc m) (serialize_string s @ r) h' = (Ok (VStr s, r), h')" for r h' m
    by (simp add: serialize_string_def deser_value.simps deser_string_serialized)
qed (auto simp: serialize_string_def json_space_def intro: same_content.scalar)

lemma reads_literal: "reads_back h VNil ''null''" "reads_back h (VBool b) (if b then ''true'' else ''false'')"
proof -
  show "reads_back h VNil ''null''"
    by (rule reads_scalar) (auto intro: same_content.scalar simp: json_space_def deser_value.simps
        trim_leading_whitespace_def starts_with_def)
  show "reads_back h (VBool b) (if b then ''true'' else ''false'')"
    by (rule reads_scalar) (auto intro: same_content.scalar simp: json_space_def deser_value.simps
        trim_leading_whitespace_def starts_with_def)
qed

lemma reads_table_value:
  assumes "reads_table h (deref h r) s"
  shows "reads_back h (VTable r) s"
  unfolding reads_back_def
proof (intro conjI allI impI)
  fix rest h' n
  assume "2 * length (s @ rest) + 1 \<le> (n :: nat)"
  then obtain ext t' where d: "deser_value n (s @ rest) h' = (Ok (VTable (length (h' @ ext)), rest), h' @ ext @ [t'])"
    and t': "same_table h (h' @ ext) (deref h r) t'"
    using assms unfolding reads_table_def by blast
  have "deref (h' @ ext @ [t']) (length (h' @ ext)) = t'" by (simp add: deref_def nth_append)
  then have "same_content h (h' @ ext @ [t']) (VTable r) (VTable (length (h' @ ext)))"
    using t' same_content_extend [of h "h' @ ext" _ _ "[t']"]
    by (intro same_content.table) (auto simp: same_table_def)
  then show "\<exists>v' e. deser_value n (s @ rest) h' = (Ok (v', rest), h' @ e) \<and> same_content h (h' @ e) (VTable r) v'"
    using d by blast
qed (use assms in \<open>auto simp: reads_table_def\<close>)

lemma plain_value_at: "plain_contents h t \<Longrightarrow> k \<in> set (table_keys t) \<Longrightarrow> plain h (value_at t k)"
  using table_keys_facts(2) [of t] by (auto simp: plain_contents_def plain_table_def value_at_def)

lemma serialize_reads:
  "serialize_value h v d = Inr s \<Longrightarrow> plain h v \<Longrightarrow> reads_back h v s"
  "serialize_table h t d = Inr s \<Longrightarrow> plain_contents h t \<Longrightarrow> reads_table h t s"
proof (induction h v d and h t d arbitrary: s and s rule: serialize_value_serialize_table.induct)
  case (1 h v depth)
  have depth: "\<not> canon_max_depth < depth" using "1.prems"(1) by (auto simp: serialize_value.simps split: if_splits)
  show ?case
  proof (cases v)
    case (VTable r)
    then show ?thesis using 1 depth plain_table_contents
      by (auto simp: serialize_value.simps intro: reads_table_value)
  qed (use 1 depth in \<open>auto simp: serialize_value.simps reads_integer reads_string reads_literal\<close>)
next
  case (2 h t depth)
  have depth: "\<not> canon_max_depth < depth" using "2.prems"(1) by (auto simp: serialize_table.simps split: if_splits)
  have ok: "table_ok t" using "2.prems"(2) by (simp add: plain_contents_def plain_table_def)
  show ?case
  proof (cases "is_array t")
    case True
    let ?key = "\<lambda>i. KInt (i64_of (int i))"
    obtain parts where p: "traverse (\<lambda>i. serialize_value h (value_at t (?key i)) (depth + 1)) [1..<table_length t + 1] = Inr parts"
      and s: "s = ''['' @ join '','' parts @ '']''"
      using "2.prems"(1) True depth by (auto simp: serialize_table.simps simp del: upt_Suc split: sum.splits)
    have "list_all2 (\<lambda>i p. reads_back h (value_at t (?key i)) p) [1..<table_length t + 1] parts"
    proof (rule list.rel_mono_strong [OF traverse_Inr [OF p]])
      fix i q
      assume i: "i \<in> set [1..<table_length t + 1]" and q: "serialize_value h (value_at t (?key i)) (depth + 1) = Inr q"
      have "?key i \<in> set (table_keys t)" unfolding is_array_keys [OF ok True] set_map by (rule imageI [OF i])
      from plain_value_at [OF "2.prems"(2) this] show "reads_back h (value_at t (?key i)) q"
        by (rule "2.IH"(1) [OF depth True i q])
    qed
    then have "list_all2 (\<lambda>k p. reads_back h (value_at t k) p) (table_keys t) parts"
      unfolding is_array_keys [OF ok True] list.rel_map .
    then show ?thesis unfolding s by (rule reads_array [OF "2.prems"(2) True])
  next
    case False
    let ?f = "\<lambda>k. case serialize_value h (value_at t k) (depth + 1) of
        Inl e \<Rightarrow> Inl e | Inr encoded \<Rightarrow> Inr (serialize_key k @ '':'' @ encoded)"
    obtain parts where p: "traverse ?f (table_keys t) = Inr parts" and s: "s = ''{'' @ join '','' parts @ ''}''"
      using "2.prems"(1) False depth by (auto simp: serialize_table.simps serializable_keys_eq [OF ok] split: sum.splits)
    have "list_all2 (\<lambda>k p. \<exists>q. p = serialize_key k @ '':'' @ q \<and> reads_back h (value_at t k) q) (table_keys t) parts"
    proof (rule list.rel_mono_strong [OF traverse_Inr [OF p]])
      fix k p
      assume k: "k \<in> set (table_keys t)" and "?f k = Inr p"
      then obtain q where q: "serialize_value h (value_at t k) (depth + 1) = Inr q" "p = serialize_key k @ '':'' @ q"
        by (auto split: sum.splits)
      have "reads_back h (value_at t k) q"
        by (rule "2.IH"(2) [OF depth False _ q(1) plain_value_at [OF "2.prems"(2) k]])
          (simp add: serializable_keys_eq [OF ok] k)
      then show "\<exists>q. p = serialize_key k @ '':'' @ q \<and> reads_back h (value_at t k) q" using q(2) by blast
    qed
    then show ?thesis unfolding s by (rule reads_object [OF "2.prems"(2)])
  qed
qed

section \<open>Writing depends on the content only\<close>

lemma same_keys:
  assumes ok: "table_ok t" "table_ok t'" and dom: "dom (table_get t) = dom (table_get t')"
  shows "length (tab_array t) = length (tab_array t')" "table_keys t = table_keys t'"
proof -
  have le: "length (tab_array a) \<le> length (tab_array b)"
    if a: "table_ok a" and b: "table_ok b" and d: "dom (table_get a) = dom (table_get b)" for a b
  proof (rule ccontr)
    assume "\<not> ?thesis"
    then have lt: "length (tab_array b) + 1 \<le> length (tab_array a)" by simp
    have bound: "length (tab_array a) < 2 ^ 63" "length (tab_array b) + 1 < 2 ^ 63"
      using table_inv_lengths(2) [OF a] table_inv_lengths(2) [OF b] by linarith+
    let ?i = "i64_of (int (length (tab_array b) + 1))"
    have i: "sint ?i = int (length (tab_array b) + 1)" by (rule sint_i64_of [OF in_i64_nat [OF bound(2)]])
    have "in_array (tab_array a) ?i" using lt i by (simp add: in_array_def)
    then have "KInt ?i \<in> dom (table_get a)" by (auto simp: table_get_def split_get_def)
    moreover have "\<not> in_array (tab_array b) ?i" using i by (simp add: in_array_def)
    moreover have "KInt ?i \<notin> fst ` set (tab_hash b)"
      using b by (simp add: table_ok_def table_inv_def next_index_def)
    ultimately have "table_get b (KInt ?i) = None"
      by (simp add: table_get_def split_get_def bt_get_None)
    then show False using \<open>KInt ?i \<in> dom (table_get a)\<close> d by auto
  qed
  show len: "length (tab_array t) = length (tab_array t')"
    by (rule order_antisym [OF le [OF ok dom] le [OF ok(2,1) dom [symmetric]]])
  then have arr: "array_keys (tab_array t) = array_keys (tab_array t')" by (simp add: array_keys_def)
  have sorted: "sorted_wrt (<) (map fst (tab_hash x))" if "table_ok x" for x
    using that by (simp add: table_ok_def table_inv_def split_inv_def bt_sorted_def)
  have hash: "fst ` set (tab_hash x) = dom (table_get x) - set (array_keys (tab_array x))" if x: "table_ok x" for x
    using table_keys_facts(1,2) [OF x] unfolding table_keys_def by auto
  have "map fst (tab_hash t) = map fst (tab_hash t')"
    using sorted [OF ok(1)] sorted [OF ok(2)] hash [OF ok(1)] hash [OF ok(2)] arr dom
    by (intro sorted_distinct_set_unique) (auto simp: strict_sorted_iff)
  then show "table_keys t = table_keys t'" by (simp add: table_keys_def arr)
qed

lemma serialize_same_table:
  assumes s: "same_table h h' t t'"
    and IH: "\<And>k u u' d. table_get t k = Some u \<Longrightarrow> table_get t' k = Some u' \<Longrightarrow> serialize_value h u d = serialize_value h' u' d"
  shows "serialize_table h t d = serialize_table h' t' d"
proof -
  have ok: "table_ok t" "table_ok t'" and dom: "dom (table_get t) = dom (table_get t')"
    using s by (simp_all add: same_table_def)
  note keys = same_keys [OF ok dom]
  have sk: "serializable_keys t = serializable_keys t'" using keys(2) by (simp add: serializable_keys_eq ok)
  have arr: "table_length t = table_length t'" "is_array t = is_array t'"
    using keys(1) by (simp_all add: is_array_def table_length_def sk)
  have val: "serialize_value h (value_at t k) e = serialize_value h' (value_at t' k) e" if "k \<in> set (table_keys t)" for k e
  proof -
    have k: "k \<in> dom (table_get t)" using that table_keys_facts(2) [OF ok(1)] by simp
    then have "k \<in> dom (table_get t')" using dom by simp
    then obtain u u' where "table_get t k = Some u" "table_get t' k = Some u'" using k by (auto simp only: dom_def mem_Collect_eq)
    then show ?thesis using IH by (simp add: value_at_def)
  qed
  have a: "traverse (\<lambda>i. serialize_value h (value_at t (KInt (i64_of (int i)))) e) [1..<table_length t + 1]
      = traverse (\<lambda>i. serialize_value h' (value_at t' (KInt (i64_of (int i)))) e) [1..<table_length t + 1]" if "is_array t" for e
    by (rule traverse_cong [OF refl], rule val) (simp add: is_array_keys [OF ok(1) that] del: upt_Suc)
  have o: "traverse (\<lambda>k. case serialize_value h (value_at t k) e of Inl e \<Rightarrow> Inl e | Inr encoded \<Rightarrow> Inr (serialize_key k @ '':'' @ encoded)) (table_keys t)
      = traverse (\<lambda>k. case serialize_value h' (value_at t' k) e of Inl e \<Rightarrow> Inl e | Inr encoded \<Rightarrow> Inr (serialize_key k @ '':'' @ encoded)) (table_keys t)" for e
    by (rule traverse_cong [OF refl]) (simp add: val)
  show ?thesis
  proof (cases "is_array t")
    case True
    then show ?thesis unfolding serialize_table.simps arr(1) [symmetric] arr(2) [symmetric] a [OF True]
      by (simp only: if_True)
  next
    case False
    then show ?thesis unfolding serialize_table.simps arr(2) [symmetric] sk [symmetric] serializable_keys_eq [OF ok(1)] o
      by (simp only: if_False)
  qed
qed

lemma serialize_same_content:
  "same_content h h' v v' \<Longrightarrow> serialize_value h v d = serialize_value h' v' d"
proof (induction arbitrary: d rule: same_content.induct)
  case (table r' r)
  have "same_table h h' (deref h r) (deref h' r')" using table by (simp add: same_table_def)
  from serialize_same_table [OF this table(6)] show ?case by (simp add: serialize_value.simps)
qed (auto simp: serialize_value.simps)

section \<open>Encoding and decoding\<close>

lemma reads_back_whole:
  assumes "reads_back h v s"
  obtains v' ext where "canonical_deserialize s h' = (Ok v', h' @ ext)" "same_content h (h' @ ext) v v'"
proof -
  obtain v' ext where "deser_value (2 * length s + 2) (s @ []) h' = (Ok (v', []), h' @ ext)" "same_content h (h' @ ext) v v'"
    using assms unfolding reads_back_def ends_number_def by (metis append_Nil2 le_add1 add_Suc_right le_SucI one_add_one add.assoc le_refl)
  then show ?thesis using that
    by (simp add: canonical_deserialize_def bnd_def trim_leading_whitespace_def)
qed

lemma same_table_extend: "same_table h h' t t' \<Longrightarrow> same_table h (h' @ h'') t t'"
  using same_content_extend by (auto simp: same_table_def)

lemma canonical_serialize_same:
  "same_content h h' v v' \<Longrightarrow> canonical_serialize h v = canonical_serialize h' v'"
  by (simp add: canonical_serialize_def serialize_same_content)

lemma canonical_serialize_same_table:
  "same_table h h' t t' \<Longrightarrow> canonical_serialize_table h t = canonical_serialize_table h' t'"
  using serialize_same_table [of h h' t t'] serialize_same_content
  by (simp add: canonical_serialize_table_def same_table_def)

lemma canonical_table_roundtrip:
  assumes "canonical_serialize_table h t = Inr s" "plain_contents h t"
  obtains r t' ext where "canonical_deserialize s h' = (Ok (VTable r), h' @ ext)" "deref (h' @ ext) r = t'"
    "same_table h (h' @ ext) t t'" "canonical_serialize_table (h' @ ext) t' = Inr s"
proof -
  have "serialize_table h t 0 = Inr s" using assms(1) by (auto simp: canonical_serialize_table_def split: sum.splits if_splits)
  from serialize_reads(2) [OF this assms(2)]
  obtain ext t' where d: "deser_value (2 * length s + 2) (s @ []) h' = (Ok (VTable (length (h' @ ext)), []), h' @ ext @ [t'])"
    and t': "same_table h (h' @ ext) t t'"
    unfolding reads_table_def by (metis append_Nil2 le_add1 add_Suc_right le_SucI one_add_one add.assoc le_refl)
  have same: "same_table h (h' @ ext @ [t']) t t'" using same_table_extend [OF t', of "[t']"] by simp
  have "canonical_deserialize s h' = (Ok (VTable (length (h' @ ext))), h' @ ext @ [t'])"
    using d by (simp add: canonical_deserialize_def bnd_def trim_leading_whitespace_def)
  moreover have "deref (h' @ ext @ [t']) (length (h' @ ext)) = t'" by (simp add: deref_def nth_append)
  moreover have "canonical_serialize_table (h' @ ext @ [t']) t' = Inr s"
    using canonical_serialize_same_table [OF same] assms(1) by simp
  ultimately show ?thesis using that same by blast
qed

text \<open>C8: Canonical encoding round trips. A value without functions, whose tables' string keys do not
  read as integers or booleans, is decoded from its canonical text into fresh tables with the same
  content, whatever the store decoded into, and the decoded value encodes to the same text.\<close>

theorem canonical_roundtrip:
  assumes "canonical_serialize h v = Inr s" and "plain h v"
  shows "\<exists>v' ext. canonical_deserialize s h' = (Ok v', h' @ ext) \<and> same_content h (h' @ ext) v v'
    \<and> canonical_serialize (h' @ ext) v' = Inr s"
proof -
  have "serialize_value h v 0 = Inr s" using assms(1) by (auto simp: canonical_serialize_def split: sum.splits if_splits)
  from reads_back_whole [OF serialize_reads(1) [OF this assms(2)], of h']
  obtain v' ext where "canonical_deserialize s h' = (Ok v', h' @ ext)" "same_content h (h' @ ext) v v'" .
  then show ?thesis using canonical_serialize_same assms(1) by fastforce
qed

definition pair_table :: lua_table where
  "pair_table = new_table\<lparr>tab_array := [VInt 5, VStr ''x''], tab_entries := 2\<rparr>"

lemma pair_table_plain: "plain_contents h pair_table"
proof -
  have get: "table_get pair_table k = (case k of KInt i \<Rightarrow> if in_array [VInt 5, VStr ''x''] i
      then Some ([VInt 5, VStr ''x''] ! nat (sint i - 1)) else None | _ \<Rightarrow> None)" for k
    by (simp add: table_get_def split_get_def pair_table_def new_table_def split: lua_key.split)
  have "table_ok pair_table"
    by (simp add: pair_table_def new_table_def table_ok_def table_inv_def split_inv_def
        next_power_of_two_capacity_def max_table_entries_def)
  moreover have "plain_key k" if k: "table_get pair_table k \<noteq> None" for k
  proof -
    obtain i where i: "k = KInt i" "in_array [VInt 5, VStr ''x''] i" using k by (auto simp: get split: lua_key.splits if_splits)
    then have "i \<noteq> i64_min" by (auto simp: in_array_def)
    then show ?thesis using object_key_text i(1) by simp
  qed
  moreover have "plain h u" if "table_get pair_table k = Some u" for k u
    using table_get_value [OF that] by (auto simp: pair_table_def new_table_def intro: plain_scalar)
  ultimately show ?thesis by (simp add: plain_contents_def plain_table_def)
qed

lemma pair_table_text:
  "canonical_serialize_table h pair_table = Inr ''[5,\"x\"]''"
  "canonical_serialize [pair_table] (VTable 0) = Inr ''[5,\"x\"]''"
proof -
  have t: "table_length pair_table = 2" "is_array pair_table" "value_at pair_table (KInt 1) = VInt 5"
      "value_at pair_table (KInt 2) = VStr ''x''"
    by code_simp+
  have i: "i64_to_string 5 = ''5''" "serialize_string ''x'' = ''\"x\"''" by code_simp+
  have u: "[1..<2 + 1] = [1, 2 :: nat]" by (simp add: upt_rec)
  show 1: "canonical_serialize_table h pair_table = Inr ''[5,\"x\"]''" for h
    using u by (simp add: canonical_serialize_table_def serialize_table.simps
        serialize_value.simps [of _ "VInt n" for n] serialize_value.simps [of _ "VStr n" for n]
        t i i64_of_def canon_max_depth_def canon_max_len_def del: upt_Suc)
  show "canonical_serialize [pair_table] (VTable 0) = Inr ''[5,\"x\"]''"
    using 1 [of "[pair_table]"]
    by (simp add: canonical_serialize_def canonical_serialize_table_def serialize_value.simps [of _ "VTable 0"]
        deref_def canon_max_depth_def)
qed

theorem canonical_roundtrip_witness:
  "\<exists>v' ext. canonical_deserialize ''[5,\"x\"]'' [] = (Ok v', ext) \<and> same_content [pair_table] ext (VTable 0) v'"
proof -
  have "deref [pair_table] 0 = pair_table" by (simp add: deref_def)
  then have "plain [pair_table] (VTable 0)"
    using pair_table_plain [of "[pair_table]"] by (intro plain_tab) (auto simp: plain_contents_def)
  from canonical_roundtrip [OF pair_table_text(2) this, of "[]"] show ?thesis by auto
qed

text \<open>C25: The exception is real. A string key that looks like an integer is written as that text and
  comes back as the integer key: the decoded table answers for \<open>7\<close> and not for \<open>"7"\<close>.\<close>

theorem numeric_string_key_changes:
  assumes "utf8_valid s" and "parse_i64 s = Some n" and "n \<noteq> i64_min"
  shows "\<exists>t'. fst (canonical_deserialize (''{'' @ serialize_string s @ '':true}'') h) = Ok (VTable (length h))
    \<and> snd (canonical_deserialize (''{'' @ serialize_string s @ '':true}'') h) = h @ [t']
    \<and> table_get t' (KInt n) = Some (VBool True) \<and> table_get t' (KStr s) = None"
proof -
  obtain t' where t': "\<forall>st :: table_store. set_or_invalid (KInt n) (VBool True) new_table st = (Ok t', st)"
    "table_get t' = (table_get new_table)(KInt n \<mapsto> VBool True)"
    using set_or_invalid_ok [OF table_inv_new, of "KInt n" "VBool True"] assms(3)
    by (auto simp: new_table_def max_table_entries_def)
  have key: "object_key s = KInt n" using assms by (simp add: object_key_def)
  let ?m = "2 * length (concat (map escape_byte s)) + 16"
  have shape: "''{'' @ serialize_string s @ '':true}'' = CHR ''{'' # CHR 0x22 # concat (map escape_byte s) @ CHR 0x22 # '':true}''"
    by (simp add: serialize_string_def)
  have v: "deser_value (Suc k) ''true}'' h = (Ok (VBool True, ''}''), h)" for k
    by (simp add: deser_value.simps trim_leading_whitespace_def json_space_def starts_with_def)
  have "deser_value (Suc (Suc (Suc k))) (''{'' @ serialize_string s @ '':true}'') h = (Ok (VTable (length h), []), h @ [t'])" for k
    unfolding shape
    by (simp add: deser_value.simps(2) [of "Suc (Suc k)"] trim_leading_whitespace_def json_space_def deser_members.simps
        deser_string_serialized bnd_def v key t'(1) box_table_def)
  moreover obtain k where "2 * length (''{'' @ serialize_string s @ '':true}'') + 2 = Suc (Suc (Suc k))"
    by (simp add: numeral_eq_Suc)
  ultimately have "canonical_deserialize (''{'' @ serialize_string s @ '':true}'') h = (Ok (VTable (length h)), h @ [t'])"
    unfolding canonical_deserialize_def by (simp only: bnd_def) (simp add: trim_leading_whitespace_def)
  moreover have "table_get new_table (KStr s) = None"
    by (simp add: table_get_def split_get_def new_table_def)
  ultimately show ?thesis using t'(2) by auto
qed

theorem numeric_string_key_changes_witness:
  "\<exists>t'. snd (canonical_deserialize (''{'' @ serialize_string ''7'' @ '':true}'') []) = [t']
    \<and> table_get t' (KInt 7) = Some (VBool True) \<and> table_get t' (KStr ''7'') = None"
proof -
  have "utf8_valid ''7''" "parse_i64 ''7'' = Some 7" "(7 :: i64) \<noteq> i64_min" by code_simp+
  from numeric_string_key_changes [OF this, of "[]"] show ?thesis by auto
qed

end
