(* ===== verification/Lua_Tape.thy ===== *)
theory Lua_Tape
  imports Lua_Host Lua_Hash Lua_Canonical_Roundtrip
begin

text \<open>
  \<open>src/host/tape.rs\<close>: the oracle tape a run is replayed from, its commitments under both hash
  primitives, and the host that replays it. \<open>TapeHost\<close> is one instance of the \<open>host_interface\<close> of
  \<open>Lua_Host\<close>; SHA-256 and the Poseidon2 library are parameters as in \<open>Lua_Hash\<close>.
\<close>

section \<open>The tape\<close>

(* tape.rs:34-43 TapeEntry *)
datatype tape_entry = TapeOk string | TapeErr string

(* tape.rs:47-55 TapeCall *)
record tape_call =
  tp_tool_name :: string
  tp_args_canonical :: string

(* tape.rs:57-66 Divergence *)
record divergence =
  dv_seq :: nat
  dv_expected :: "tape_call option"
  dv_actual :: tape_call

(* tape.rs:70-89 OracleTape *)
record oracle_tape =
  ot_entries :: "tape_entry list"
  ot_attestations :: "string list"
  ot_calls :: "tape_call list"

(* tape.rs:92-98 OracleTape::new *)
definition new_tape :: oracle_tape where
  "new_tape = \<lparr>ot_entries = [], ot_attestations = [], ot_calls = []\<rparr>"

(* tape.rs:103-112 OracleTape::from_records *)
definition entry_of_record :: "tool_call_record \<Rightarrow> tape_entry" where
  "entry_of_record r = (if tc_error_message r = [] then TapeOk (tc_response_canonical r)
     else TapeErr (tc_error_message r))"

(* tape.rs:100-126 OracleTape::from_records *)
definition from_records :: "tool_call_record list \<Rightarrow> oracle_tape" where
  "from_records records = \<lparr>ot_entries = map entry_of_record records,
     ot_attestations = map tc_attestation records,
     ot_calls = map (\<lambda>r. \<lparr>tp_tool_name = tc_tool_name r, tp_args_canonical = tc_args_canonical r\<rparr>) records\<rparr>"

(* tape.rs:352-357 OracleTape::entry_parts *)
fun entry_parts :: "tape_entry \<Rightarrow> u8 \<times> string" where
  "entry_parts (TapeOk bytes) = (0, bytes)"
| "entry_parts (TapeErr msg) = (1, msg)"

(* tape.rs:233-239 OracleTape::attestation_at *)
definition attestation_at :: "oracle_tape \<Rightarrow> nat \<Rightarrow> string" where
  "attestation_at tape i = (if i < length (ot_attestations tape) then ot_attestations tape ! i else [])"

section \<open>The Poseidon2 commitments\<close>

(* tape.rs:179-186 OracleTape::response_leaf *)
definition response_leaf :: "'f poseidon_lib \<Rightarrow> u8 \<times> string \<Rightarrow> 'f" where
  "response_leaf lib part = poseidon2_hash lib ([u8_to_field lib (fst part),
     u32_to_field lib (length (snd part))] @ bytes_to_fields lib (snd part))"

(* tape.rs:242-248 OracleTape::att_leaf *)
definition att_leaf :: "'f poseidon_lib \<Rightarrow> string \<Rightarrow> 'f" where
  "att_leaf lib attestation =
     poseidon2_hash lib (u32_to_field lib (length attestation) # bytes_to_fields lib attestation)"

(* tape.rs:152-162 OracleTape::commitment_hash *)
definition commitment_hash :: "'f poseidon_lib \<Rightarrow> oracle_tape \<Rightarrow> string" where
  "commitment_hash lib tape = field_to_be_bytes32 lib (poseidon2_hash lib
     (map (\<lambda>e. response_leaf lib (entry_parts e)) (ot_entries tape)))"

(* tape.rs:166-171 OracleTape::commitment_hash_hex *)
definition commitment_hash_hex :: "'f poseidon_lib \<Rightarrow> oracle_tape \<Rightarrow> string" where
  "commitment_hash_hex lib tape = lower_hex (commitment_hash lib tape)"

(* tape.rs:217-230 OracleTape::attestation_commitment *)
definition attestation_commitment :: "'f poseidon_lib \<Rightarrow> oracle_tape \<Rightarrow> string" where
  "attestation_commitment lib tape = field_to_be_bytes32 lib (poseidon2_hash lib
     (map (\<lambda>(i, e). poseidon2_hash lib [response_leaf lib (entry_parts e), att_leaf lib (attestation_at tape i)])
       (enumerate 0 (ot_entries tape))))"

(* tape.rs:258-264 OracleTape::attestation_leaves_be *)
definition attestation_leaves_be :: "'f poseidon_lib \<Rightarrow> oracle_tape \<Rightarrow> string list" where
  "attestation_leaves_be lib tape =
     map (\<lambda>(i, _). field_to_be_bytes32 lib (att_leaf lib (attestation_at tape i))) (enumerate 0 (ot_entries tape))"

section \<open>The SHA-256 commitments\<close>

(* tape.rs:360-366 OracleTape::response_leaf_sha256 *)
definition response_leaf_sha256 :: "(string \<Rightarrow> string) \<Rightarrow> u8 \<times> string \<Rightarrow> string" where
  "response_leaf_sha256 sha part = sha (byte_u8 (fst part) # be_len (snd part) @ snd part)"

(* tape.rs:369-374 OracleTape::att_leaf_sha256 *)
definition att_leaf_sha256 :: "(string \<Rightarrow> string) \<Rightarrow> string \<Rightarrow> string" where
  "att_leaf_sha256 sha attestation = sha (be_len attestation @ attestation)"

(* tape.rs:294-302 OracleTape::commitment_hash_sha256 *)
definition commitment_hash_sha256 :: "(string \<Rightarrow> string) \<Rightarrow> oracle_tape \<Rightarrow> string" where
  "commitment_hash_sha256 sha tape =
     sha (be_len (ot_entries tape) @ concat (map (\<lambda>e. response_leaf_sha256 sha (entry_parts e)) (ot_entries tape)))"

(* tape.rs:305-310 OracleTape::commitment_hash_sha256_hex *)
definition commitment_hash_sha256_hex :: "(string \<Rightarrow> string) \<Rightarrow> oracle_tape \<Rightarrow> string" where
  "commitment_hash_sha256_hex sha tape = lower_hex (commitment_hash_sha256 sha tape)"

definition bound_leaf_sha256 :: "(string \<Rightarrow> string) \<Rightarrow> tape_entry \<Rightarrow> string \<Rightarrow> string" where
  "bound_leaf_sha256 sha e attestation =
     sha (response_leaf_sha256 sha (entry_parts e) @ att_leaf_sha256 sha attestation)"

(* tape.rs:326-338 OracleTape::attestation_commitment_sha256 *)
definition attestation_commitment_sha256 :: "(string \<Rightarrow> string) \<Rightarrow> oracle_tape \<Rightarrow> string" where
  "attestation_commitment_sha256 sha tape = sha (be_len (ot_entries tape)
     @ concat (map (\<lambda>(i, e). bound_leaf_sha256 sha e (attestation_at tape i)) (enumerate 0 (ot_entries tape))))"

(* tape.rs:346-350 OracleTape::attestation_leaves_sha256 *)
definition attestation_leaves_sha256 :: "(string \<Rightarrow> string) \<Rightarrow> oracle_tape \<Rightarrow> string list" where
  "attestation_leaves_sha256 sha tape =
     map (\<lambda>i. att_leaf_sha256 sha (attestation_at tape i)) [0..<length (ot_entries tape)]"

section \<open>The replaying host\<close>

(* tape.rs:397-402 TapeHost *)
record tape_host =
  th_tape :: oracle_tape
  th_cursor :: nat
  th_strict :: bool
  th_divergence :: "divergence option"

(* tape.rs:405-412 TapeHost::new *)
definition new_tape_host :: "oracle_tape \<Rightarrow> tape_host" where
  "new_tape_host tape = \<lparr>th_tape = tape, th_cursor = 0, th_strict = False, th_divergence = None\<rparr>"

(* tape.rs:422-427 TapeHost::strict *)
definition strict_tape_host :: "oracle_tape \<Rightarrow> tape_host" where
  "strict_tape_host tape = (new_tape_host tape)\<lparr>th_strict := True\<rparr>"

text \<open>\<open>{e:?}\<close> of a \<open>CanonError\<close>: the name of the variant.\<close>

fun debug_canon_error :: "canon_error \<Rightarrow> string" where
  "debug_canon_error FunctionNotSerializable = ''FunctionNotSerializable''"
| "debug_canon_error TableDepthExceeded = ''TableDepthExceeded''"
| "debug_canon_error StringTooLong = ''StringTooLong''"
| "debug_canon_error InvalidInput = ''InvalidInput''"

definition diverged_at :: "nat \<Rightarrow> string" where
  "diverged_at seq = ''replay diverged at seq '' @ nat_to_string seq"

(* tape.rs:443-447 TapeHost::check_strict *)
definition expected_call :: "tape_host \<Rightarrow> tape_call option" where
  "expected_call th = (if th_cursor th < length (ot_entries (th_tape th)) \<and> th_cursor th < length (ot_calls (th_tape th))
     then Some (ot_calls (th_tape th) ! th_cursor th) else None)"

(* tape.rs:435-460 TapeHost::check_strict *)
definition check_strict :: "table_store \<Rightarrow> string \<Rightarrow> lua_table \<Rightarrow> tape_host \<Rightarrow> (string + unit) \<times> tape_host" where
  "check_strict h name args th = (case th_divergence th of
      Some d \<Rightarrow> (Inl (diverged_at (dv_seq d)), th)
    | None \<Rightarrow>
      (case canonical_serialize_table h args of
         Inl e \<Rightarrow> (Inl (''replay args encode error: '' @ debug_canon_error e), th)
       | Inr args_canonical \<Rightarrow>
         (let actual = \<lparr>tp_tool_name = name, tp_args_canonical = args_canonical\<rparr>;
              expected = expected_call th in
          if expected = Some actual then (Inr (), th)
          else (Inl (diverged_at (th_cursor th)),
                th\<lparr>th_divergence := Some \<lparr>dv_seq = th_cursor th, dv_expected = expected, dv_actual = actual\<rparr>\<rparr>))))"

(* tape.rs:463-465 TapeHost::remaining *)
definition remaining :: "tape_host \<Rightarrow> nat" where
  "remaining th = length (ot_entries (th_tape th)) - th_cursor th"

(* tape.rs:468-470 TapeHost::is_exhausted *)
definition is_exhausted :: "tape_host \<Rightarrow> bool" where
  "is_exhausted th \<longleftrightarrow> th_cursor th \<ge> length (ot_entries (th_tape th))"

text \<open>One entry as a response. The last branch is dead: the decoder is total
  (\<open>canonical_deserialize_total\<close>).\<close>

(* tape.rs:484-497 TapeHost::call_tool *)
definition play_entry :: "tape_entry \<Rightarrow> table_store \<Rightarrow> (string + lua_table) \<times> table_store" where
  "play_entry e h = (case e of
      TapeErr msg \<Rightarrow> (Inl msg, h)
    | TapeOk bytes \<Rightarrow>
      (case canonical_deserialize bytes h of
         (Ok (VTable r), h') \<Rightarrow> (Inr (deref h' r), h')
       | (Ok v, h') \<Rightarrow> (Inl (''tape entry is not a table (got '' @ [CHR 0x22] @ type_name v @ [CHR 0x22] @ '')''), h')
       | (Err e, h') \<Rightarrow> (Inl (''tape decode error: '' @ debug_canon_error e), h')
       | (_, h') \<Rightarrow> (Inl [], h')))"

(* tape.rs:473-499 TapeHost::call_tool *)
definition tape_call_tool :: "string \<Rightarrow> lua_table \<Rightarrow> tape_host \<times> table_store
    \<Rightarrow> (string + lua_table) \<times> tape_host \<times> table_store" where
  "tape_call_tool name args = (\<lambda>(th, h).
     (case (if th_strict th then check_strict h name args th else (Inr (), th)) of
        (Inl msg, th') \<Rightarrow> (Inl msg, th', h)
      | (Inr _, th') \<Rightarrow>
        if th_cursor th' \<ge> length (ot_entries (th_tape th')) then (Inl ''oracle tape exhausted'', th', h)
        else (case play_entry (ot_entries (th_tape th') ! th_cursor th') h of
                (r, h') \<Rightarrow> (r, th'\<lparr>th_cursor := th_cursor th' + 1\<rparr>, h'))))"

definition tape_interface :: "(string \<Rightarrow> string) \<Rightarrow> tape_host host_interface" where
  "tape_interface sha = \<lparr>call_tool = tape_call_tool, take_attestation = (\<lambda>th. (None, th)), sha256_hex = sha\<rparr>"

section \<open>Commitments bind\<close>

interpretation leaf_code: encoding "{leaf :: string. length leaf = 32}" id
  by unfold_locales auto

lemma entry_parts_inject: "entry_parts d = entry_parts e \<longleftrightarrow> d = e"
  by (cases d; cases e) auto

lemma response_leaf_inject:
  assumes "inj sha" "length (snd (entry_parts d)) < 2 ^ 32" "length (snd (entry_parts e)) < 2 ^ 32"
    and "response_leaf_sha256 sha (entry_parts d) = response_leaf_sha256 sha (entry_parts e)"
  shows "d = e"
proof -
  have "fst (entry_parts d) = fst (entry_parts e)" "be_len (snd (entry_parts d)) = be_len (snd (entry_parts e))"
    "snd (entry_parts d) = snd (entry_parts e)"
    using assms(4) by (simp_all add: response_leaf_sha256_def inj_eq [OF assms(1)])
  then show ?thesis by (simp add: prod_eq_iff flip: entry_parts_inject)
qed

lemma att_leaf_inject:
  "inj sha \<Longrightarrow> att_leaf_sha256 sha a = att_leaf_sha256 sha b \<Longrightarrow> a = b"
  by (simp add: att_leaf_sha256_def inj_eq)

lemma leaves_equal:
  assumes "be_len xs @ concat (map f xs) = be_len ys @ concat (map g ys)"
    and "length xs < 2 ^ 32" "length ys < 2 ^ 32"
    and "\<And>x. length (f x) = 32" "\<And>y. length (g y) = 32"
  shows "map f xs = map g ys"
proof -
  have "be_len xs = be_len ys" and c: "concat (map f xs) = concat (map g ys)" using assms(1) by simp_all
  then have "length (map f xs) = length (map g ys)" using be_len_inject [OF assms(2,3)] by simp
  from leaf_code.items_split [OF this, of "[]" "[]"] c assms(4,5) show ?thesis by auto
qed

definition committable :: "oracle_tape \<Rightarrow> bool" where
  "committable tape \<longleftrightarrow> length (ot_entries tape) < 2 ^ 32 \<and>
     (\<forall>e \<in> set (ot_entries tape). length (snd (entry_parts e)) < 2 ^ 32)"


text \<open>A stand-in with the output length of SHA-256.\<close>

definition pad32 :: "string \<Rightarrow> string" where
  "pad32 bytes = take 32 (rev bytes @ replicate 32 (CHR ''.''))"

definition one_entry :: "tape_entry \<Rightarrow> oracle_tape" where
  "one_entry e = new_tape\<lparr>ot_entries := [e]\<rparr>"




section \<open>Replay\<close>

text \<open>A run of calls against a replaying host: the responses and the state after.\<close>

fun play_calls :: "(string \<times> lua_table) list \<Rightarrow> tape_host \<times> table_store
    \<Rightarrow> (string + lua_table) list \<times> tape_host \<times> table_store" where
  "play_calls [] s = ([], s)"
| "play_calls ((name, args) # cs) s = (case tape_call_tool name args s of (r, s') \<Rightarrow>
     (case play_calls cs s' of (rs, s'') \<Rightarrow> (r # rs, s'')))"

text \<open>What a strict call that advances the tape has established.\<close>

definition matches_tape :: "oracle_tape \<Rightarrow> nat \<Rightarrow> table_store \<Rightarrow> string \<times> lua_table \<Rightarrow> bool" where
  "matches_tape tape i h c \<longleftrightarrow> i < length (ot_entries tape) \<and> i < length (ot_calls tape) \<and>
     tp_tool_name (ot_calls tape ! i) = fst c \<and>
     canonical_serialize_table h (snd c) = Inr (tp_args_canonical (ot_calls tape ! i))"

lemma strict_call:
  assumes "th_strict th" "tape_call_tool name args (th, h) = (r, th', h')"
  shows "th_strict th' \<and> th_tape th' = th_tape th \<and>
    (th_cursor th' = Suc (th_cursor th) \<and> th_divergence th = None \<and> th_divergence th' = None
       \<and> matches_tape (th_tape th) (th_cursor th) h (name, args)
       \<and> (r, h') = play_entry (ot_entries (th_tape th) ! th_cursor th) h
     \<or> th_cursor th' = th_cursor th \<and> isl r \<and> h' = h
       \<and> (th_divergence th' = None \<longrightarrow> (\<exists>e. canonical_serialize_table h args = Inl e)))"
  using assms
  by (auto simp: tape_call_tool_def check_strict_def expected_call_def matches_tape_def Let_def
      split: option.splits sum.splits prod.splits if_splits)

lemma play_calls_cursor:
  "play_calls cs (th, h) = (rs, th', h') \<Longrightarrow> th_strict th \<Longrightarrow>
    th_cursor th' \<le> th_cursor th + length cs \<and> th_tape th' = th_tape th"
proof (induction cs arbitrary: th h rs)
  case (Cons c cs)
  obtain name args where c: "c = (name, args)" by fastforce
  obtain r th1 h1 where 1: "tape_call_tool name args (th, h) = (r, th1, h1)" by (cases "tape_call_tool name args (th, h)") auto
  obtain rs1 where 2: "play_calls cs (th1, h1) = (rs1, th', h')"
    using Cons.prems(1) c 1 by (auto split: prod.splits)
  note s = strict_call [OF Cons.prems(2) 1]
  have "th_cursor th' \<le> th_cursor th1 + length cs \<and> th_tape th' = th_tape th1" using Cons.IH [OF 2] s by blast
  then show ?case using s by auto
qed simp

text \<open>C12: A strict replay that consumed one entry per call made exactly the recorded calls: the \<open>i\<close>-th
  call has the recorded tool name, its arguments, as the tables were at that moment, have the recorded
  canonical bytes, and its answer is the \<open>i\<close>-th entry.\<close>

theorem strict_replay_matches:
  assumes "th_strict th" and "play_calls cs (th, h) = (rs, th', h')"
    and "th_cursor th' = th_cursor th + length cs" and "i < length cs"
    and "snd (snd (play_calls (take i cs) (th, h))) = hi"
  shows "matches_tape (th_tape th) (th_cursor th + i) hi (cs ! i)
    \<and> rs ! i = fst (play_entry (ot_entries (th_tape th) ! (th_cursor th + i)) hi)"
  using assms
proof (induction cs arbitrary: th h rs i)
  case (Cons c cs)
  obtain name args where c: "c = (name, args)" by fastforce
  obtain r th1 h1 where 1: "tape_call_tool name args (th, h) = (r, th1, h1)" by (cases "tape_call_tool name args (th, h)") auto
  obtain rs1 where 2: "play_calls cs (th1, h1) = (rs1, th', h')" and rs: "rs = r # rs1"
    using Cons.prems(2) c 1 by (auto split: prod.splits)
  note s = strict_call [OF Cons.prems(1) 1]
  have "th_cursor th' \<le> th_cursor th1 + length cs" using play_calls_cursor [OF 2] s by simp
  then have adv: "th_cursor th1 = Suc (th_cursor th)" "matches_tape (th_tape th) (th_cursor th) h (name, args)"
      "(r, h1) = play_entry (ot_entries (th_tape th) ! th_cursor th) h"
    using s Cons.prems(3) by auto
  show ?case
  proof (cases i)
    case 0
    then show ?thesis using adv(2) arg_cong [OF adv(3), of fst] Cons.prems(5) c rs by simp
  next
    case (Suc j)
    have "snd (snd (play_calls (take j cs) (th1, h1))) = hi"
      using Cons.prems(5) Suc c 1 by (auto split: prod.splits)
    from Cons.IH [OF _ 2 _ _ this] show ?thesis using s adv Cons.prems(3,4) Suc rs by simp
  qed
qed simp

text \<open>C13: A divergence is final. Once a strict replay has diverged, every later call fails with the same
  message, the one naming the first point of divergence, and moves neither the tape nor the tables,
  so a program that catches the error cannot get back in step.\<close>

theorem divergence_sticks:
  assumes "th_strict th" and "th_divergence th = Some d"
  shows "play_calls cs (th, h) = (replicate (length cs) (Inl (diverged_at (dv_seq d))), th, h)"
proof (induction cs)
  case (Cons c cs)
  then show ?case using assms by (cases c) (simp add: tape_call_tool_def check_strict_def)
qed simp

definition demo_tape :: oracle_tape where
  "demo_tape = \<lparr>ot_entries = [TapeErr ''down'', TapeErr ''busy''], ot_attestations = [],
     ot_calls = [\<lparr>tp_tool_name = ''a'', tp_args_canonical = ''{}''\<rparr>, \<lparr>tp_tool_name = ''b'', tp_args_canonical = ''{}''\<rparr>]\<rparr>"

lemma serialize_new_table: "canonical_serialize_table h new_table = Inr ''{}''"
  by (simp add: canonical_serialize_table_def serialize_table.simps canon_max_depth_def canon_max_len_def
      is_array_def table_length_def new_table_def serializable_keys_def sorted_keys_def List.map_filter_def)

theorem strict_replay_matches_witness:
  "tp_tool_name (ot_calls demo_tape ! 1) = ''b''"
proof -
  let ?cs = "[(''a'', new_table), (''b'', new_table)]"
  let ?th = "strict_tape_host demo_tape"
  have "play_calls ?cs (?th, []) = ([Inl ''down'', Inl ''busy''], ?th\<lparr>th_cursor := 2\<rparr>, [])"
    by (simp add: tape_call_tool_def check_strict_def expected_call_def strict_tape_host_def new_tape_host_def
        demo_tape_def serialize_new_table play_entry_def)
  from strict_replay_matches [OF _ this, of 1, OF _ _ _ refl] show ?thesis
    by (simp add: strict_tape_host_def new_tape_host_def matches_tape_def)
qed

theorem divergence_sticks_witness:
  "fst (play_calls [(''a'', new_table)] ((strict_tape_host demo_tape)\<lparr>th_divergence := Some
      \<lparr>dv_seq = 3, dv_expected = None, dv_actual = \<lparr>tp_tool_name = ''x'', tp_args_canonical = []\<rparr>\<rparr>\<rparr>, []))
    = [Inl (diverged_at 3)]"
  using divergence_sticks [of "(strict_tape_host demo_tape)\<lparr>th_divergence := Some
      \<lparr>dv_seq = 3, dv_expected = None, dv_actual = \<lparr>tp_tool_name = ''x'', tp_args_canonical = []\<rparr>\<rparr>\<rparr>"
      "\<lparr>dv_seq = 3, dv_expected = None, dv_actual = \<lparr>tp_tool_name = ''x'', tp_args_canonical = []\<rparr>\<rparr>"
      "[(''a'', new_table)]" "[]"]
  by (simp del: play_calls.simps add: strict_tape_host_def)

text \<open>C26: One recorded failure does not replay. A host that fails with an empty message is recorded as
  an error, but the tape built from the transcript holds a success with no bytes, and the replayed
  call fails with a decoding message of the tape's own instead of the empty one.\<close>

theorem empty_error_not_replayed:
  assumes "records = record_error name args_canonical gas [] []"
  shows "tc_status (records ! 0) = StatusError
    \<and> ot_entries (from_records records) = [TapeOk []]
    \<and> fst (play_entry (ot_entries (from_records records) ! 0) h) = Inl ''tape decode error: InvalidInput''"
  using assms
  by (simp add: record_error_def from_records_def entry_of_record_def play_entry_def canonical_deserialize_def
      bnd_def deser_value.simps trim_leading_whitespace_def invalid_input_def numeral_2_eq_2)

theorem empty_error_not_replayed_witness:
  "fst (play_entry (ot_entries (from_records (record_error ''t'' ''{}'' 0 [] [])) ! 0) []) = Inl ''tape decode error: InvalidInput''"
  using empty_error_not_replayed [OF refl, of "''t''" "''{}''" 0 "[]"] by blast

section \<open>A recorded call replays\<close>

text \<open>What the registry's bookkeeping of two runs must agree on: counters, gas meter, and the
  transcripts up to the attestations, which a replay does not have.\<close>

definition unattested :: "tool_call_record \<Rightarrow> tool_call_record" where
  "unattested r = r\<lparr>tc_attestation := []\<rparr>"

definition same_books :: "'h tool_state \<Rightarrow> 'k tool_state \<Rightarrow> bool" where
  "same_books s r \<longleftrightarrow> reg_calls_made (ts_registry s) = reg_calls_made (ts_registry r)
     \<and> reg_total_bytes_in (ts_registry s) = reg_total_bytes_in (ts_registry r)
     \<and> reg_total_bytes_out (ts_registry s) = reg_total_bytes_out (ts_registry r)
     \<and> rt_gas (ts_rt s) = rt_gas (ts_rt r)
     \<and> map unattested (ts_transcript s) = map unattested (ts_transcript r)"

lemma canonical_or_Ok: "canonical_or what x s = (Ok a, s') \<longleftrightarrow> x = Inr a \<and> s' = s"
  by (auto simp: canonical_or_def split: sum.splits canon_error.splits)

lemma charge_Ok_iff: "charge n s = (Ok u, t) \<longleftrightarrow>
    (\<exists>g. gas_charge n (rt_gas s) = (Inr (), g) \<and> t = s\<lparr>rt_gas := g\<rparr>)"
  by (auto simp: charge_def split: prod.splits sum.splits)

text \<open>The state a successful call leaves.\<close>

definition answered :: "string \<Rightarrow> string \<Rightarrow> string \<Rightarrow> string \<Rightarrow> string \<Rightarrow> 'h \<Rightarrow> table_store \<Rightarrow> gas_meter \<Rightarrow> 'h tool_state \<Rightarrow> 'h tool_state" where
  "answered resp_hash name ac rc att host tabs g s = s\<lparr>
     ts_registry := \<lparr>reg_host = host, reg_calls_made = reg_calls_made (ts_registry s) + 1,
       reg_total_bytes_in = reg_total_bytes_in (ts_registry s) + length ac,
       reg_total_bytes_out = reg_total_bytes_out (ts_registry s) + length rc\<rparr>,
     ts_rt := (ts_rt s)\<lparr>rt_tables := tabs, rt_gas := g\<rparr>,
     ts_transcript := ts_transcript s @ [\<lparr>tc_seq = length (ts_transcript s), tc_tool_name = name,
       tc_args_canonical = ac, tc_args_bytes = length ac, tc_response_hash = resp_hash,
       tc_response_bytes = length rc, tc_response_canonical = rc, tc_error_message = [],
       tc_attestation = att, tc_gas_charged = TOOL_CALL_BASE + length ac + length rc, tc_status = StatusOk\<rparr>]\<rparr>"

lemma check_quotas_Ok: "check_quotas config n s = (Ok u, s') \<longleftrightarrow> s' = s
    \<and> reg_calls_made (ts_registry s) < cfg_max_tool_calls config
    \<and> reg_total_bytes_in (ts_registry s) + n \<le> cfg_max_tool_bytes_in config"
  by (auto simp: check_quotas_def bnd_def)

lemma call_host_Ok: "call_host hi name args s = (Ok x, s') \<longleftrightarrow> (\<exists>h tabs.
    call_tool hi name args (reg_host (ts_registry s), rt_tables (ts_rt s)) = (x, h, tabs)
    \<and> s' = s\<lparr>ts_registry := (ts_registry s)\<lparr>reg_host := h\<rparr>, ts_rt := (ts_rt s)\<lparr>rt_tables := tabs\<rparr>\<rparr>)"
  by (auto simp: call_host_def split: prod.split)

lemma ask_attestation_Ok: "ask_attestation hi s = (Ok x, s') \<longleftrightarrow> (\<exists>att h.
    take_attestation hi (reg_host (ts_registry s)) = (att, h) \<and> x = (case att of None \<Rightarrow> [] | Some b \<Rightarrow> b)
    \<and> s' = s\<lparr>ts_registry := (ts_registry s)\<lparr>reg_host := h\<rparr>\<rparr>)"
  by (auto simp: ask_attestation_def split: prod.split)

lemma count_response_Ok: "count_response config n s = (Ok u, s') \<longleftrightarrow>
    reg_total_bytes_out (ts_registry s) + n \<le> cfg_max_tool_bytes_out config
    \<and> s' = s\<lparr>ts_registry := (ts_registry s)\<lparr>reg_total_bytes_out := reg_total_bytes_out (ts_registry s) + n\<rparr>\<rparr>"
  by (auto simp: count_response_def bnd_def)

lemma charge_tools_Ok: "on_rt_of_tools (charge n) s = (Ok u, s') \<longleftrightarrow>
    (\<exists>g. gas_charge n (rt_gas (ts_rt s)) = (Inr (), g) \<and> s' = s\<lparr>ts_rt := (ts_rt s)\<lparr>rt_gas := g\<rparr>\<rparr>)"
  by (auto simp: on_rt_of_tools_def charge_def split: prod.splits sum.splits)

lemma registry_call_Ok:
  "registry_call hi config name args s = (Ok resp, s') \<longleftrightarrow> (\<exists>ac rc host tabs att host2 g.
     canonical_serialize_table (rt_tables (ts_rt s)) args = Inr ac
   \<and> reg_calls_made (ts_registry s) < cfg_max_tool_calls config
   \<and> reg_total_bytes_in (ts_registry s) + length ac \<le> cfg_max_tool_bytes_in config
   \<and> call_tool hi name args (reg_host (ts_registry s), rt_tables (ts_rt s)) = (Inr resp, host, tabs)
   \<and> canonical_serialize_table tabs resp = Inr rc
   \<and> take_attestation hi host = (att, host2)
   \<and> reg_total_bytes_out (ts_registry s) + length rc \<le> cfg_max_tool_bytes_out config
   \<and> gas_charge (TOOL_CALL_BASE + length ac + length rc) (rt_gas (ts_rt s)) = (Inr (), g)
   \<and> s' = answered (sha256_hex hi rc) name ac rc (case att of None \<Rightarrow> [] | Some b \<Rightarrow> b) host2 tabs g s)"
  (is "?L \<longleftrightarrow> ?R")
proof
  assume ?L
  then obtain ac x s1 where
    pre: "canonical_serialize_table (rt_tables (ts_rt s)) args = Inr ac"
      "reg_calls_made (ts_registry s) < cfg_max_tool_calls config"
      "reg_total_bytes_in (ts_registry s) + length ac \<le> cfg_max_tool_bytes_in config"
      "call_host hi name args (snd (count_call (length ac) s)) = (Ok x, s1)"
    and post: "(case x of
       Inr resp_table \<Rightarrow> bnd (reads (\<lambda>s. rt_tables (ts_rt s))) (\<lambda>h'.
         bnd (canonical_or ''tool response'' (canonical_serialize_table h' resp_table)) (\<lambda>resp_canonical.
         let cost = TOOL_CALL_BASE + length ac + length resp_canonical in
         bnd (ask_attestation hi) (\<lambda>attestation.
         bnd (add_record (record_ok_attested (sha256_hex hi) name ac resp_canonical attestation cost)) (\<lambda>_.
         bnd (count_response config (length resp_canonical)) (\<lambda>_.
         bnd (on_rt_of_tools (charge cost)) (\<lambda>_. ret resp_table))))))
     | Inl msg \<Rightarrow> bnd (add_record (record_error name ac 0 msg)) (\<lambda>_. fail (ToolError msg))) s1 = (Ok resp, s')"
    unfolding registry_call_def bnd_Ok_iff canonical_or_Ok check_quotas_Ok by (auto simp: count_call_def)
  show ?R
  proof (cases x)
    case (Inl msg)
    then show ?thesis using post by (simp add: bnd_Ok_iff)
  next
    case (Inr y)
    then show ?thesis using pre post
      by (auto simp: count_call_def call_host_Ok add_record_def record_ok_attested_def answered_def Let_def bnd_Ok_iff
          canonical_or_Ok ask_attestation_Ok count_response_Ok charge_tools_Ok)
  qed
next
  assume ?R
  then show ?L
    unfolding registry_call_def bnd_Ok_iff canonical_or_Ok check_quotas_Ok call_host_Ok
    by (auto simp: count_call_def add_record_def record_ok_attested_def answered_def Let_def bnd_Ok_iff
        canonical_or_Ok ask_attestation_Ok count_response_Ok charge_tools_Ok)
qed

definition recorded_call :: "tool_call_record \<Rightarrow> tape_call" where
  "recorded_call r = \<lparr>tp_tool_name = tc_tool_name r, tp_args_canonical = tc_args_canonical r\<rparr>"

text \<open>The host is at the entry recorded as \<open>rec\<close>, and a strict one has the recorded call and has not
  diverged.\<close>

definition at_record :: "tape_host \<Rightarrow> tool_call_record \<Rightarrow> bool" where
  "at_record th rec \<longleftrightarrow> th_cursor th < length (ot_entries (th_tape th))
     \<and> ot_entries (th_tape th) ! th_cursor th = entry_of_record rec
     \<and> (th_strict th \<longrightarrow> th_divergence th = None \<and> th_cursor th < length (ot_calls (th_tape th))
          \<and> ot_calls (th_tape th) ! th_cursor th = recorded_call rec)"

text \<open>C7: A recorded call replays. When a live call has succeeded and its response is plain data, the
  replaying host (strict or not) at that record, called with arguments of the same canonical text under
  the same counters and gas, succeeds too: with the same response content, the same gas left, the same
  counters, and the same transcript record but for the attestation.\<close>

theorem recorded_call_replays:
  assumes live: "registry_call hi config name args s = (Ok resp, s')"
    and plain: "plain_contents (rt_tables (ts_rt s')) resp"
    and books: "same_books s r"
    and args: "canonical_serialize_table (rt_tables (ts_rt r)) args' = canonical_serialize_table (rt_tables (ts_rt s)) args"
    and tape: "at_record (reg_host (ts_registry r)) (last (ts_transcript s'))"
  shows "\<exists>resp' r'. registry_call (tape_interface (sha256_hex hi)) config name args' r = (Ok resp', r')
    \<and> same_books s' r' \<and> same_table (rt_tables (ts_rt s')) (rt_tables (ts_rt r')) resp resp'
    \<and> th_cursor (reg_host (ts_registry r')) = th_cursor (reg_host (ts_registry r)) + 1"
proof -
  let ?th = "reg_host (ts_registry r)" and ?h = "rt_tables (ts_rt r)"
  obtain ac rc host tabs att host2 g where
    ac: "canonical_serialize_table (rt_tables (ts_rt s)) args = Inr ac" and
    quota: "reg_calls_made (ts_registry s) < cfg_max_tool_calls config"
      "reg_total_bytes_in (ts_registry s) + length ac \<le> cfg_max_tool_bytes_in config"
      "reg_total_bytes_out (ts_registry s) + length rc \<le> cfg_max_tool_bytes_out config" and
    rc: "canonical_serialize_table tabs resp = Inr rc" and
    gas: "gas_charge (TOOL_CALL_BASE + length ac + length rc) (rt_gas (ts_rt s)) = (Inr (), g)" and
    s': "s' = answered (sha256_hex hi rc) name ac rc (case att of None \<Rightarrow> [] | Some b \<Rightarrow> b) host2 tabs g s"
    using live unfolding registry_call_Ok by blast
  have tabs: "rt_tables (ts_rt s') = tabs" by (simp add: s' answered_def)
  obtain a resp' ext where d: "canonical_deserialize rc ?h = (Ok (VTable a), ?h @ ext)" "deref (?h @ ext) a = resp'"
    and same: "same_table tabs (?h @ ext) resp resp'" and rc': "canonical_serialize_table (?h @ ext) resp' = Inr rc"
    using canonical_table_roundtrip [OF rc plain [unfolded tabs], of ?h] by blast
  have entry: "entry_of_record (last (ts_transcript s')) = TapeOk rc"
    and call: "recorded_call (last (ts_transcript s')) = \<lparr>tp_tool_name = name, tp_args_canonical = ac\<rparr>"
    by (simp_all add: s' answered_def entry_of_record_def recorded_call_def)
  have ac': "canonical_serialize_table ?h args' = Inr ac" using args ac by simp
  have "check_strict ?h name args' ?th = (Inr (), ?th)" if "th_strict ?th"
    using tape that ac' by (simp add: check_strict_def at_record_def expected_call_def call Let_def)
  then have host': "tape_call_tool name args' (?th, ?h) = (Inr resp', ?th\<lparr>th_cursor := th_cursor ?th + 1\<rparr>, ?h @ ext)"
    using tape entry d by (simp add: tape_call_tool_def at_record_def play_entry_def)
  let ?r' = "answered (sha256_hex hi rc) name ac rc [] (?th\<lparr>th_cursor := th_cursor ?th + 1\<rparr>) (?h @ ext) g r"
  have "registry_call (tape_interface (sha256_hex hi)) config name args' r = (Ok resp', ?r')"
    unfolding registry_call_Ok
    by (rule exI [of _ ac], rule exI [of _ rc], rule exI [of _ "?th\<lparr>th_cursor := th_cursor ?th + 1\<rparr>"], rule exI [of _ "?h @ ext"],
        rule exI [of _ None], rule exI [of _ "?th\<lparr>th_cursor := th_cursor ?th + 1\<rparr>"], rule exI [of _ g])
      (use books quota gas ac' host' rc' in \<open>simp add: tape_interface_def same_books_def\<close>)
  moreover have "length (ts_transcript s) = length (ts_transcript r)"
    using books by (auto simp: same_books_def dest: map_eq_imp_length_eq)
  then have "same_books s' ?r'"
    using books by (simp add: same_books_def s' answered_def unattested_def)
  ultimately show ?thesis using same tabs by (intro exI [of _ resp'] exI [of _ ?r']) (simp add: answered_def)
qed

text \<open>A host that answers every call with the same table.\<close>

definition constant_host :: "lua_table \<Rightarrow> unit host_interface" where
  "constant_host t = \<lparr>call_tool = (\<lambda>name args (h, tabs). (Inr t, h, tabs)), take_attestation = (\<lambda>h. (Some ''sig'', h)),
     sha256_hex = pad32\<rparr>"

definition tool_start :: "'h \<Rightarrow> 'h tool_state" where
  "tool_start host = \<lparr>ts_registry = new_registry host,
     ts_rt = \<lparr>rt_gas = new_gas_meter 1000, rt_mem = new_memory_meter 1000, rt_tables = []\<rparr>, ts_transcript = []\<rparr>"

theorem recorded_call_replays_witness:
  "\<exists>resp' r'. registry_call (tape_interface pad32) default_config ''t'' new_table
      (tool_start (new_tape_host (one_entry (TapeOk ''[5,\"x\"]'')))) = (Ok resp', r')
    \<and> gas_used (rt_gas (ts_rt r')) = 109"
proof -
  let ?s = "tool_start ()" and ?r = "tool_start (new_tape_host (one_entry (TapeOk ''[5,\"x\"]'')))"
  let ?s' = "answered (pad32 ''[5,\"x\"]'') ''t'' ''{}'' ''[5,\"x\"]'' ''sig'' () [] ((new_gas_meter 1000)\<lparr>gas_remaining := 891\<rparr>) ?s"
  have live: "registry_call (constant_host pair_table) default_config ''t'' new_table ?s = (Ok pair_table, ?s')"
    unfolding registry_call_Ok
    by (rule exI [of _ "''{}''"], rule exI [of _ "''[5,\"x\"]''"])
      (auto simp: serialize_new_table pair_table_text constant_host_def tool_start_def new_registry_def
        default_config_def gas_charge_def new_gas_meter_def)
  have "same_books ?s ?r" by (simp add: same_books_def tool_start_def new_registry_def)
  moreover have "at_record (reg_host (ts_registry ?r)) (last (ts_transcript ?s'))"
    by (simp add: at_record_def tool_start_def new_registry_def new_tape_host_def one_entry_def new_tape_def
        answered_def entry_of_record_def)
  ultimately obtain resp' r' where
    r': "registry_call (tape_interface pad32) default_config ''t'' new_table ?r = (Ok resp', r')" "same_books ?s' r'"
    using recorded_call_replays [OF live pair_table_plain, of ?r new_table]
    by (auto simp: serialize_new_table constant_host_def)
  then have "rt_gas (ts_rt r') = (new_gas_meter 1000)\<lparr>gas_remaining := 891\<rparr>"
    by (simp add: same_books_def answered_def)
  then have "gas_used (rt_gas (ts_rt r')) = 109" by (simp add: gas_used_def new_gas_meter_def)
  then show ?thesis using r'(1) by blast
qed

end
