(* ===== verification/Lua_Lexer.thy ===== *)
theory Lua_Lexer
  imports Lua_Text
begin

text \<open>
  The tokenizer of \<open>src/parser/lexer.rs\<close>: spans, tokens, parse errors and the lexer state (source
  bytes, position, line). Byte offsets and the line counter are natural numbers; the line counter of
  the source is a \<open>u32\<close>, so the model speaks of sources of fewer than \<open>2 ^ 32\<close> lines. Every loop
  that only moves the position over bytes of one class is \<open>skip_while\<close>; the loops that build a
  string or a token list are recursive functions whose termination is proved from the position
  moving towards the end of the source.

  Proved: the position stays within the source and the line counter is one more than the number of
  newlines before it, so every token's span and line are right; tokens are in source order and do
  not overlap; byte strings written with escapes and decimal integers lex back to themselves
  (\<open>Lua_Lexer_Facts\<close>).
\<close>

section \<open>Spans, tokens and errors\<close>

(* lexer.rs:10-14 Span *)
datatype span = Span (span_start: nat) (span_end: nat) (span_line: nat)

(* lexer.rs:22-28 Span::dummy *)
definition span_dummy :: span where
  "span_dummy = Span 0 0 0"

(* lexer.rs:36-93 Token *)
datatype token =
    TInteger i64 | TStringLit string | TIdent string
  | KwAnd | KwBreak | KwDo | KwElse | KwElseif | KwEnd | KwFalse | KwFor | KwFunction | KwIf | KwIn
  | KwLocal | KwNil | KwNot | KwOr | KwReturn | KwThen | KwTrue | KwWhile
  | TPlus | TMinus | TStar | TSlashSlash | TPercent | TDotDot | TDotDotDot | THash | TEq | TTildeEq
  | TLt | TLtEq | TGt | TGtEq | TAssign | TLParen | TRParen | TLBrace | TRBrace | TLBracket
  | TRBracket | TSemicolon | TColon | TComma | TDot
  | TEof

(* lexer.rs:96-99 SpannedToken *)
datatype spanned_token = Spanned (tok_of: token) (tok_span: span)

(* lexer.rs:106-144 ParseError *)
datatype parse_error =
    Single_slash span
  | Float_literal span
  | Integer_overflow span
  | Bad_escape span
  | String_too_long span
  | Unexpected_char span char
  | Unterminated_string span
  | Unterminated_comment span
  | Unexpected_token span string string
  | Expected_expr span
  | Tool_as_value span
  | Disallowed_ident span string
  | Variadic_not_allowed span
  | Multi_assign_not_supported span

(* lexer.rs:147-165 ParseError::code *)
definition parse_error_code :: "parse_error \<Rightarrow> string" where
  "parse_error_code e = (case e of
       Tool_as_value _ \<Rightarrow> ''ERR_COMPILE''
     | Disallowed_ident _ _ \<Rightarrow> ''ERR_COMPILE''
     | Variadic_not_allowed _ \<Rightarrow> ''ERR_COMPILE''
     | Multi_assign_not_supported _ \<Rightarrow> ''ERR_COMPILE''
     | _ \<Rightarrow> ''ERR_PARSE'')"

(* lexer.rs:167-184 ParseError::span *)
primrec parse_error_span :: "parse_error \<Rightarrow> span" where
  "parse_error_span (Single_slash s) = s"
| "parse_error_span (Float_literal s) = s"
| "parse_error_span (Integer_overflow s) = s"
| "parse_error_span (Bad_escape s) = s"
| "parse_error_span (String_too_long s) = s"
| "parse_error_span (Unexpected_char s _) = s"
| "parse_error_span (Unterminated_string s) = s"
| "parse_error_span (Unterminated_comment s) = s"
| "parse_error_span (Unexpected_token s _ _) = s"
| "parse_error_span (Expected_expr s) = s"
| "parse_error_span (Tool_as_value s) = s"
| "parse_error_span (Disallowed_ident s _) = s"
| "parse_error_span (Variadic_not_allowed s) = s"
| "parse_error_span (Multi_assign_not_supported s) = s"

text \<open>
  \<open>format!("{:?}", ch)\<close> for a byte read as a character: the escapes of \<open>char::escape_debug\<close>, and the
  UTF-8 encoding of a printable character above ASCII.
\<close>

definition char_escape :: "char \<Rightarrow> string" where
  "char_escape c = (let k = byte_of c in
     if k = 0 then [CHR 0x5C, CHR ''0'']
     else if k = 9 then [CHR 0x5C, CHR ''t'']
     else if k = 13 then [CHR 0x5C, CHR ''r'']
     else if k = 10 then [CHR 0x5C, CHR ''n'']
     else if k = 39 \<or> k = 92 then [CHR 0x5C, c]
     else if k < 32 \<or> 127 \<le> k \<and> k \<le> 160 \<or> k = 173
     then [CHR 0x5C] @ ''u{'' @ nat_radix 16 k @ ''}''
     else if k < 128 then [c]
     else [char_of (192 + k div 64), char_of (128 + k mod 64)])"

definition char_debug :: "char \<Rightarrow> string" where
  "char_debug c = [CHR 0x27] @ char_escape c @ [CHR 0x27]"

definition backquoted :: "string \<Rightarrow> string" where
  "backquoted s = [CHR 0x60] @ s @ [CHR 0x60]"

(* lexer.rs:186-225 ParseError::message *)
primrec parse_error_message :: "parse_error \<Rightarrow> string" where
  "parse_error_message (Single_slash _) =
     ''use '' @ backquoted ''//'' @ '' for floor division; the '' @ backquoted ''/''
     @ '' operator is not supported''"
| "parse_error_message (Float_literal _) = ''floating-point literals are not supported''"
| "parse_error_message (Integer_overflow _) = ''integer literal out of i64 range''"
| "parse_error_message (Bad_escape _) = ''unrecognized escape sequence in string literal''"
| "parse_error_message (String_too_long _) = ''string literal exceeds maximum length (65536 bytes)''"
| "parse_error_message (Unexpected_char _ ch) = ''unexpected character: '' @ char_debug ch"
| "parse_error_message (Unterminated_string _) = ''unterminated string literal''"
| "parse_error_message (Unterminated_comment _) = ''unterminated block comment or long string''"
| "parse_error_message (Unexpected_token _ expected got) = ''expected '' @ expected @ '', got '' @ got"
| "parse_error_message (Expected_expr _) = ''expected expression''"
| "parse_error_message (Tool_as_value _) =
     backquoted ''tool'' @ '' is a compile-time namespace; only ''
     @ backquoted ''tool.call(name, args)'' @ '' is permitted''"
| "parse_error_message (Disallowed_ident _ name) = backquoted name @ '' is not available in this VM''"
| "parse_error_message (Variadic_not_allowed _) =
     ''variadic arguments ('' @ backquoted ''...'' @ '') are not supported''"
| "parse_error_message (Multi_assign_not_supported _) =
     ''multiple assignment is not supported; assigning both results of ''
     @ ''pcall is only supported in a local declaration: write ''
     @ backquoted ''local ok, err = pcall(...)''"

section \<open>The lexer state\<close>

(* lexer.rs:232-232 MAX_STRING_LEN *)
definition max_string_literal :: nat where
  "max_string_literal = 65536"

(* lexer.rs:234-238 Lexer *)
record lexer =
  lx_src :: string
  lx_pos :: nat
  lx_line :: nat

type_synonym 'a lex_op = "(lexer, parse_error, 'a) op"

(* lexer.rs:241-247 Lexer::new *)
definition new_lexer :: "string \<Rightarrow> lexer" where
  "new_lexer src = \<lparr>lx_src = src, lx_pos = 0, lx_line = 1\<rparr>"

definition newline :: char where
  "newline = CHR 0x0A"

definition at_end :: "lexer \<Rightarrow> bool" where
  "at_end l \<longleftrightarrow> length (lx_src l) \<le> lx_pos l"

(* lexer.rs:268-274 Lexer::cur *)
definition lx_cur :: "lexer \<Rightarrow> char" where
  "lx_cur l = (if lx_pos l < length (lx_src l) then lx_src l ! lx_pos l else CHR 0x00)"

(* lexer.rs:276-282 Lexer::peek *)
definition lx_peek :: "lexer \<Rightarrow> char" where
  "lx_peek l = (if lx_pos l + 1 < length (lx_src l) then lx_src l ! (lx_pos l + 1) else CHR 0x00)"

definition bump :: "nat \<Rightarrow> lexer \<Rightarrow> lexer" where
  "bump n l = l\<lparr>lx_pos := lx_pos l + n\<rparr>"

(* lexer.rs:284-291 Lexer::advance *)
definition lx_advance :: "lexer \<Rightarrow> lexer" where
  "lx_advance l = l\<lparr>lx_line := (if lx_cur l = newline then lx_line l + 1 else lx_line l),
     lx_pos := lx_pos l + 1\<rparr>"

(* lexer.rs:293-295 Lexer::span_from *)
definition span_from :: "nat \<Rightarrow> nat \<Rightarrow> lexer \<Rightarrow> span" where
  "span_from start line l = Span start (lx_pos l) line"

text \<open>The bytes not yet read, and \<open>while pos < len && p(src[pos]) { pos += 1 }\<close>.\<close>

definition lx_rest :: "lexer \<Rightarrow> string" where
  "lx_rest l = drop (lx_pos l) (lx_src l)"

definition skip_while :: "(char \<Rightarrow> bool) \<Rightarrow> lexer \<Rightarrow> lexer" where
  "skip_while p l = bump (length (takeWhile p (lx_rest l))) l"

section \<open>White space, comments and long brackets\<close>

definition lx_space :: "char \<Rightarrow> bool" where
  "lx_space c \<longleftrightarrow> c = CHR '' '' \<or> c = CHR 0x09 \<or> c = CHR 0x0D \<or> c = newline"

text \<open>The white-space loop advances, so it counts lines.\<close>

definition skip_space :: "lexer \<Rightarrow> lexer" where
  "skip_space l = fold (\<lambda>_. lx_advance) (takeWhile lx_space (lx_rest l)) l"

(* lexer.rs:332-347 Lexer::count_long_bracket_open *)
definition long_bracket_level :: "lexer \<Rightarrow> nat option" where
  "long_bracket_level l =
     (if lx_cur l \<noteq> CHR ''['' then None
      else let level = length (takeWhile (\<lambda>c. c = CHR ''='') (drop (lx_pos l + 1) (lx_src l)));
               i = lx_pos l + 1 + level
           in if i < length (lx_src l) \<and> lx_src l ! i = CHR ''['' then Some level else None)"

(* lexer.rs:350-354 Lexer::consume_long_bracket_open *)
definition consume_long_open :: "nat \<Rightarrow> lexer \<Rightarrow> lexer" where
  "consume_long_open level l = bump 1 (bump level (bump 1 l))"

definition skip_first_newline :: "lexer \<Rightarrow> lexer" where
  "skip_first_newline l =
     (if \<not> at_end l \<and> lx_cur l = newline then lx_advance l
      else if lx_pos l + 1 < length (lx_src l) \<and> lx_cur l = CHR 0x0D \<and> lx_peek l = newline
      then lx_advance (lx_advance l) else l)"

text \<open>
  One round of either long-bracket loop after a byte \<open>]\<close> has been consumed: the \<open>=\<close> that follow it
  are consumed as well, and a \<open>]\<close> after exactly \<open>level\<close> of them closes the bracket.
\<close>

definition count_equals :: "lexer \<Rightarrow> nat \<times> lexer" where
  "count_equals l = (length (takeWhile (\<lambda>c. c = CHR ''='') (lx_rest l)),
     skip_while (\<lambda>c. c = CHR ''='') l)"

definition closes :: "nat \<Rightarrow> nat \<Rightarrow> lexer \<Rightarrow> bool" where
  "closes level eq l \<longleftrightarrow> eq = level \<and> \<not> at_end l \<and> lx_cur l = CHR '']''"

lemma lx_advance_src [simp]: "lx_src (lx_advance l) = lx_src l"
  and lx_advance_pos [simp]: "lx_pos (lx_advance l) = lx_pos l + 1"
  and bump_src [simp]: "lx_src (bump n l) = lx_src l"
  and bump_pos [simp]: "lx_pos (bump n l) = lx_pos l + n"
  and bump_line [simp]: "lx_line (bump n l) = lx_line l"
  by (simp_all add: lx_advance_def bump_def)

lemma skip_while_src [simp]: "lx_src (skip_while p l) = lx_src l"
  and skip_while_line [simp]: "lx_line (skip_while p l) = lx_line l"
  and skip_while_pos_le [simp]: "lx_pos l \<le> lx_pos (skip_while p l)"
  by (simp_all add: skip_while_def)

lemma count_equals_src [simp]: "lx_src (snd (count_equals l)) = lx_src l"
  and count_equals_pos_le [simp]: "lx_pos l \<le> lx_pos (snd (count_equals l))"
  by (simp_all add: count_equals_def)

(* lexer.rs:369-399 Lexer::skip_long_string *)
function skip_long_loop :: "nat \<Rightarrow> bool \<Rightarrow> nat \<Rightarrow> string \<Rightarrow> string lex_op" where
  "skip_long_loop level discard start buf l =
     (if at_end l then (Err (Unterminated_comment (Span start (lx_pos l) (lx_line l))), l)
      else if lx_cur l = CHR '']'' then
        (if closes level (fst (count_equals (lx_advance l))) (snd (count_equals (lx_advance l)))
         then (Ok buf, bump 1 (snd (count_equals (lx_advance l))))
         else skip_long_loop level discard start
           (if discard then buf
            else buf @ CHR '']'' # replicate (fst (count_equals (lx_advance l))) (CHR ''=''))
           (snd (count_equals (lx_advance l))))
      else skip_long_loop level discard start (if discard then buf else buf @ [lx_cur l])
             (lx_advance l))"
  by pat_completeness auto
termination
proof (relation "measure (\<lambda>(_, _, _, _, l). length (lx_src l) - lx_pos l)", goal_cases)
  case 1
  show ?case by simp
next
  case (2 level discard start buf l)
  then show ?case
    using count_equals_pos_le [of "lx_advance l"] by (auto simp: at_end_def)
next
  case (3 level discard start buf l)
  then show ?case by (auto simp: at_end_def)
qed

declare skip_long_loop.simps [simp del]

(* lexer.rs:358-367 Lexer::skip_long_string *)
definition skip_long_string :: "nat \<Rightarrow> bool \<Rightarrow> string lex_op" where
  "skip_long_string level discard l =
     skip_long_loop level discard (lx_pos l - 2) []
       (skip_first_newline (consume_long_open level l))"

(* lexer.rs:751-780 Lexer::read_long_string_collect *)
function collect_long_loop :: "nat \<Rightarrow> nat \<Rightarrow> nat \<Rightarrow> string \<Rightarrow> string lex_op" where
  "collect_long_loop level start line buf l =
     (if at_end l then (Err (Unterminated_string (Span start (lx_pos l) line)), l)
      else if lx_cur l = CHR '']'' then
        (if closes level (fst (count_equals (lx_advance l))) (snd (count_equals (lx_advance l)))
         then (if max_string_literal < length buf
               then (Err (String_too_long (Span start
                       (lx_pos (bump 1 (snd (count_equals (lx_advance l))))) line)),
                     bump 1 (snd (count_equals (lx_advance l))))
               else (Ok buf, bump 1 (snd (count_equals (lx_advance l)))))
         else collect_long_loop level start line
           (buf @ CHR '']'' # replicate (fst (count_equals (lx_advance l))) (CHR ''=''))
           (snd (count_equals (lx_advance l))))
      else collect_long_loop level start line (buf @ [lx_cur l]) (lx_advance l))"
  by pat_completeness auto
termination
proof (relation "measure (\<lambda>(_, _, _, _, l). length (lx_src l) - lx_pos l)", goal_cases)
  case 1
  show ?case by simp
next
  case (2 level start line buf l)
  then show ?case
    using count_equals_pos_le [of "lx_advance l"] by (auto simp: at_end_def)
next
  case (3 level start line buf l)
  then show ?case by (auto simp: at_end_def)
qed

declare collect_long_loop.simps [simp del]

(* lexer.rs:736-749 Lexer::read_long_string_collect *)
definition read_long_string :: "nat \<Rightarrow> nat \<Rightarrow> nat \<Rightarrow> string lex_op" where
  "read_long_string level start line l =
     collect_long_loop level start line [] (skip_first_newline (consume_long_open level l))"

text \<open>What either bracket loop does to the lexer: the source stays, the position does not move back.\<close>

definition moves :: "lexer \<Rightarrow> lexer \<Rightarrow> bool" where
  "moves l l' \<longleftrightarrow> lx_src l' = lx_src l \<and> lx_pos l \<le> lx_pos l'"

lemma movesI: "lx_src l' = lx_src l \<Longrightarrow> lx_pos l \<le> lx_pos l' \<Longrightarrow> moves l l'"
  by (simp add: moves_def)

lemma moves_refl [simp]: "moves l l"
  by (simp add: moves_def)

lemma moves_trans: "moves l l' \<Longrightarrow> moves l' l'' \<Longrightarrow> moves l l''"
  by (simp add: moves_def)

interpretation moves: step_preorder moves
  by unfold_locales (auto intro: moves_trans)

lemma moves_simps [simp]:
  "moves l (bump n l)" "moves l (lx_advance l)" "moves l (skip_while p l)"
  "moves l (snd (count_equals l))"
  by (simp_all add: moves_def)

lemma moves_fold_advance [simp]: "moves l (fold (\<lambda>_. lx_advance) cs l)"
  by (induction cs arbitrary: l) (auto intro: moves_trans [OF moves_simps(2)])

lemma moves_skip_space [simp]: "moves l (skip_space l)"
  by (simp add: skip_space_def)

lemma moves_first_newline [simp]: "moves l (skip_first_newline l)"
  by (auto simp: skip_first_newline_def moves_def)

lemma moves_consume_long [simp]: "moves l (consume_long_open level l)"
  by (simp add: consume_long_open_def moves_def)

lemma moves_body: "moves (lx_advance l) l' \<Longrightarrow> moves l l'"
  by (auto simp: moves_def)

lemma moves_count: "moves (snd (count_equals (lx_advance l))) l' \<Longrightarrow> moves l l'"
  by (auto simp: count_equals_def skip_while_def moves_def)

lemma moves_count_bump: "moves l (bump n (snd (count_equals (lx_advance l))))"
  by (rule moves_count) simp

lemma skip_long_loop_moves: "moves l (snd (skip_long_loop level discard start buf l))"
proof (induction level discard start buf l rule: skip_long_loop.induct)
  case (1 level discard start buf l)
  then show ?case
    by (subst skip_long_loop.simps) (auto simp: moves_count_bump intro: moves_count moves_body)
qed

lemma collect_long_loop_moves: "moves l (snd (collect_long_loop level start line buf l))"
proof (induction level start line buf l rule: collect_long_loop.induct)
  case (1 level start line buf l)
  then show ?case
    by (subst collect_long_loop.simps) (auto simp: moves_count_bump intro: moves_count moves_body)
qed

lemma skip_long_string_moves: "moves l (snd (skip_long_string level discard l))"
  unfolding skip_long_string_def
  by (meson skip_long_loop_moves moves_trans moves_first_newline moves_consume_long)

lemma read_long_string_moves: "moves l (snd (read_long_string level start line l))"
  unfolding read_long_string_def
  by (meson collect_long_loop_moves moves_trans moves_first_newline moves_consume_long)

lemma bnd_state_cong [fundef_cong]:
  "m = m' \<Longrightarrow> s = s' \<Longrightarrow> (\<And>a t. m' s' = (Ok a, t) \<Longrightarrow> f a t = f' a t) \<Longrightarrow> bnd m f s = bnd m' f' s'"
  by (auto simp: bnd_def split: prod.splits outcome.splits)

definition comment_at :: "lexer \<Rightarrow> bool" where
  "comment_at l \<longleftrightarrow> lx_pos l + 1 < length (lx_src l) \<and> lx_cur l = CHR ''-'' \<and> lx_peek l = CHR ''-''"

definition long_comment_at :: "lexer \<Rightarrow> nat option" where
  "long_comment_at l = (if lx_cur l = CHR ''['' then long_bracket_level l else None)"

(* lexer.rs:299-328 Lexer::skip_whitespace_and_comments *)
function skip_trivia :: "unit lex_op" where
  "skip_trivia l = (if comment_at (skip_space l)
     then (let l2 = bump 2 (skip_space l) in
       (case long_comment_at l2 of
          Some level \<Rightarrow> bnd (skip_long_string level True) (\<lambda>_ l3. skip_trivia l3) l2
        | None \<Rightarrow> skip_trivia (skip_while (\<lambda>c. c \<noteq> newline) l2)))
     else (Ok (), skip_space l))"
  by pat_completeness auto

lemma moves_comment: "comment_at l1 \<Longrightarrow> moves l l1 \<Longrightarrow> moves (bump 2 l1) l3 \<Longrightarrow>
    moves l l3 \<and> length (lx_src l3) - lx_pos l3 < length (lx_src l) - lx_pos l"
  by (auto simp: comment_at_def moves_def)

termination skip_trivia
proof (relation "measure (\<lambda>l. length (lx_src l) - lx_pos l)", goal_cases)
  case 1
  show ?case by simp
next
  case (2 l l2)
  then show ?case
    using moves_comment [OF 2(1) moves_skip_space, of "skip_while (\<lambda>c. c \<noteq> newline) l2"]
    by (simp add: moves_simps(3) del: skip_while_src)
next
  case (3 l l2 level u l3)
  have "moves l2 l3" using skip_long_string_moves [of l2 level True] 3 by simp
  with 3 show ?case using moves_comment [OF 3(1) moves_skip_space] by simp
qed

declare skip_trivia.simps [simp del]

lemma skip_trivia_moves: "moves l (snd (skip_trivia l))"
proof (induction l rule: skip_trivia.induct)
  case (1 l)
  show ?case
  proof (cases "comment_at (skip_space l)")
    case False
    then show ?thesis by (simp add: skip_trivia.simps)
  next
    case c: True
    let ?l2 = "bump 2 (skip_space l)"
    note onward = conjunct1 [OF moves_comment [OF c moves_skip_space]]
    show ?thesis
    proof (cases "long_comment_at ?l2")
      case None
      have "moves ?l2 (snd (skip_trivia (skip_while (\<lambda>c. c \<noteq> newline) ?l2)))"
        using moves_trans [OF moves_simps(3)] 1(1) [OF c refl None] by blast
      then show ?thesis using c None onward by (simp add: skip_trivia.simps [of l] Let_def)
    next
      case (Some level)
      obtain r l3 where r: "skip_long_string level True ?l2 = (r, l3)" by fastforce
      then have m: "moves ?l2 l3" using skip_long_string_moves [of ?l2 level True] by simp
      have "moves ?l2 (snd (bnd (skip_long_string level True) (\<lambda>_ l3. skip_trivia l3) ?l2))"
        using m 1(2) [OF c refl Some] r
        by (auto simp: bnd_def intro: moves_trans split: outcome.split)
      then show ?thesis using c Some onward by (simp add: skip_trivia.simps [of l] Let_def)
    qed
  qed
qed

section \<open>Numbers, strings and names\<close>

definition ascii_digit :: "char \<Rightarrow> bool" where
  "ascii_digit c \<longleftrightarrow> 48 \<le> byte_of c \<and> byte_of c \<le> 57"

definition ascii_hexdigit :: "char \<Rightarrow> bool" where
  "ascii_hexdigit c \<longleftrightarrow> ascii_digit c \<or> 97 \<le> byte_of c \<and> byte_of c \<le> 102
     \<or> 65 \<le> byte_of c \<and> byte_of c \<le> 70"

definition ascii_letter :: "char \<Rightarrow> bool" where
  "ascii_letter c \<longleftrightarrow> 97 \<le> byte_of c \<and> byte_of c \<le> 122 \<or> 65 \<le> byte_of c \<and> byte_of c \<le> 90"

definition name_char :: "char \<Rightarrow> bool" where
  "name_char c \<longleftrightarrow> ascii_letter c \<or> ascii_digit c \<or> c = CHR ''_''"

(* lexer.rs:825-832 hex_digit_val *)
definition hex_digit_val :: "char \<Rightarrow> nat" where
  "hex_digit_val c = (let k = byte_of c in
     if 48 \<le> k \<and> k \<le> 57 then k - 48
     else if 97 \<le> k \<and> k \<le> 102 then k - 97 + 10
     else if 65 \<le> k \<and> k \<le> 70 then k - 65 + 10 else 0)"

(* lexer.rs:568-573 Lexer::tok *)
definition mk_tok :: "token \<Rightarrow> nat \<Rightarrow> nat \<Rightarrow> lexer \<Rightarrow> spanned_token" where
  "mk_tok t start line l = Spanned t (Span start (lx_pos l) line)"

definition yield_tok :: "token \<Rightarrow> nat \<Rightarrow> nat \<Rightarrow> spanned_token lex_op" where
  "yield_tok t start line l = (Ok (mk_tok t start line l), l)"

definition one_of_next :: "string \<Rightarrow> lexer \<Rightarrow> bool" where
  "one_of_next cs l \<longleftrightarrow> \<not> at_end l \<and> lx_cur l \<in> set cs"

text \<open>The bytes a \<open>skip_while\<close> passes over: the slice the source takes afterwards.\<close>

definition slice_while :: "(char \<Rightarrow> bool) \<Rightarrow> lexer \<Rightarrow> string" where
  "slice_while p l = takeWhile p (lx_rest l)"

definition hex_literal :: "string \<Rightarrow> i64 option" where
  "hex_literal ds = (case parse_unsigned (2 ^ 64 - 1) 16 ds of None \<Rightarrow> None
     | Some v \<Rightarrow> (case option_i64 (int v) of Some w \<Rightarrow> Some w | None \<Rightarrow> Some (word_of_nat v)))"

(* lexer.rs:577-636 Lexer::read_number *)
definition read_number :: "nat \<Rightarrow> nat \<Rightarrow> spanned_token lex_op" where
  "read_number start line l =
     (if lx_cur l = CHR ''0'' \<and> (lx_peek l = CHR ''x'' \<or> lx_peek l = CHR ''X'')
      then (let l1 = bump 2 l; hex_str = slice_while ascii_hexdigit l1;
                l2 = skip_while ascii_hexdigit l1
            in if one_of_next ''.pP'' l2
               then (Err (Float_literal (span_from start line (bump 1 l2))), bump 1 l2)
               else if hex_str = []
               then (Err (Unexpected_token (span_from start line l2)
                       ''hex digits after 0x'' ''nothing''), l2)
               else (case hex_literal hex_str of
                   None \<Rightarrow> (Err (Integer_overflow (span_from start line l2)), l2)
                 | Some v \<Rightarrow> yield_tok (TInteger v) start line l2))
      else (let digits = slice_while ascii_digit l; l1 = skip_while ascii_digit l
            in if one_of_next ''.eE'' l1
               then (Err (Float_literal (span_from start line (bump 1 l1))), bump 1 l1)
               else (case parse_i64 digits of
                   None \<Rightarrow> (Err (Integer_overflow (span_from start line l1)), l1)
                 | Some v \<Rightarrow> yield_tok (TInteger v) start line l1)))"

definition backslash :: char where
  "backslash = CHR 0x5C"

definition simple_escapes :: "(char \<times> char) list" where
  "simple_escapes = [(backslash, backslash), (CHR 0x22, CHR 0x22), (CHR 0x27, CHR 0x27),
     (CHR ''n'', newline), (CHR ''r'', CHR 0x0D), (CHR ''t'', CHR 0x09), (CHR ''a'', CHR 0x07),
     (CHR ''b'', CHR 0x08), (CHR ''f'', CHR 0x0C), (CHR ''v'', CHR 0x0B),
     (newline, newline), (CHR 0x0D, newline)]"

text \<open>The two hex digits of \<open>\\x\<close>, and the up to two digits after the first one of a decimal escape.\<close>

(* lexer.rs:697-710 Lexer::read_escape *)
primrec hex_escape :: "nat \<Rightarrow> nat \<Rightarrow> nat \<Rightarrow> nat \<Rightarrow> char lex_op" where
  "hex_escape esc_start esc_line val 0 l = (Ok (char_of val), l)"
| "hex_escape esc_start esc_line val (Suc k) l =
     (if at_end l \<or> \<not> ascii_hexdigit (lx_cur l)
      then (Err (Bad_escape (Span esc_start (lx_pos l) esc_line)), l)
      else hex_escape esc_start esc_line (val * 16 + hex_digit_val (lx_cur l)) k (bump 1 l))"

definition dec_done :: "nat \<Rightarrow> nat \<Rightarrow> nat \<Rightarrow> char lex_op" where
  "dec_done esc_start esc_line val l =
     (if 255 < val then (Err (Bad_escape (Span esc_start (lx_pos l) esc_line)), l)
      else (Ok (char_of val), l))"

(* lexer.rs:711-727 Lexer::read_escape *)
primrec dec_escape :: "nat \<Rightarrow> nat \<Rightarrow> nat \<Rightarrow> nat \<Rightarrow> char lex_op" where
  "dec_escape esc_start esc_line val 0 l = dec_done esc_start esc_line val l"
| "dec_escape esc_start esc_line val (Suc k) l =
     (if \<not> at_end l \<and> ascii_digit (lx_cur l)
      then dec_escape esc_start esc_line (val * 10 + (byte_of (lx_cur l) - 48)) k (bump 1 l)
      else dec_done esc_start esc_line val l)"

(* lexer.rs:676-732 Lexer::read_escape *)
definition read_escape :: "nat \<Rightarrow> nat \<Rightarrow> char lex_op" where
  "read_escape start line l =
     (if at_end l then (Err (Bad_escape (span_from start line l)), l)
      else let esc_line = lx_line l; esc_start = lx_pos l; c = lx_cur l; l1 = lx_advance l
        in (case map_of simple_escapes c of
              Some b \<Rightarrow> (Ok b, l1)
            | None \<Rightarrow>
                if c = CHR ''x'' then hex_escape esc_start esc_line 0 2 l1
                else if ascii_digit c then dec_escape esc_start esc_line (byte_of c - 48) 2 l1
                else (Err (Bad_escape (Span esc_start (lx_pos l1) esc_line)), l1)))"

lemma hex_escape_moves: "moves l (snd (hex_escape a b v k l))"
  by (induction k arbitrary: v l) (auto intro: moves_trans [OF moves_simps(1)])

lemma dec_escape_moves: "moves l (snd (dec_escape a b v k l))"
  by (induction k arbitrary: v l) (auto simp: dec_done_def intro: moves_trans [OF moves_simps(1)])

lemma read_escape_moves: "moves l (snd (read_escape start line l))"
  using moves_trans [OF moves_simps(2) hex_escape_moves] moves_trans [OF moves_simps(2) dec_escape_moves]
  by (auto simp: read_escape_def Let_def split: option.split)

(* lexer.rs:644-663 Lexer::read_short_string *)
function short_string_loop :: "char \<Rightarrow> nat \<Rightarrow> nat \<Rightarrow> string \<Rightarrow> string lex_op" where
  "short_string_loop quote start line buf l =
     (if at_end l \<or> lx_cur l = newline
      then (Err (Unterminated_string (span_from start line l)), l)
      else if lx_cur l = quote then (Ok buf, bump 1 l)
      else if lx_cur l = backslash
      then bnd (read_escape start line)
             (\<lambda>b l1. short_string_loop quote start line (buf @ [b]) l1) (bump 1 l)
      else short_string_loop quote start line (buf @ [lx_cur l]) (bump 1 l))"
  by pat_completeness auto
termination
proof (relation "measure (\<lambda>(_, _, _, _, l). length (lx_src l) - lx_pos l)", goal_cases)
  case 1
  show ?case by simp
next
  case (2 quote start line buf l b l1)
  then have "moves (bump 1 l) l1" using read_escape_moves [of "bump 1 l" start line] by simp
  with 2 show ?case by (auto simp: moves_def at_end_def)
next
  case (3 quote start line buf l)
  then show ?case by (auto simp: at_end_def)
qed

declare short_string_loop.simps [simp del]

(* lexer.rs:640-674 Lexer::read_short_string *)
definition read_short_string :: "nat \<Rightarrow> nat \<Rightarrow> spanned_token lex_op" where
  "read_short_string start line l =
     bnd (short_string_loop (lx_cur l) start line [])
       (\<lambda>buf l2. if max_string_literal < length buf
          then (Err (String_too_long (span_from start line l2)), l2)
          else yield_tok (TStringLit buf) start line l2) (bump 1 l)"

definition reserved_words :: "(string \<times> token) list" where
  "reserved_words = [(''and'', KwAnd), (''break'', KwBreak), (''do'', KwDo), (''else'', KwElse),
     (''elseif'', KwElseif), (''end'', KwEnd), (''false'', KwFalse), (''for'', KwFor),
     (''function'', KwFunction), (''if'', KwIf), (''in'', KwIn), (''local'', KwLocal),
     (''nil'', KwNil), (''not'', KwNot), (''or'', KwOr), (''return'', KwReturn),
     (''then'', KwThen), (''true'', KwTrue), (''while'', KwWhile)]"

definition ident_or_keyword :: "string \<Rightarrow> token" where
  "ident_or_keyword s = (case map_of reserved_words s of Some t \<Rightarrow> t | None \<Rightarrow> TIdent s)"

(* lexer.rs:785-822 Lexer::read_ident_or_keyword *)
definition read_ident_or_keyword :: "nat \<Rightarrow> nat \<Rightarrow> spanned_token lex_op" where
  "read_ident_or_keyword start line l =
     yield_tok (ident_or_keyword (slice_while name_char l)) start line (skip_while name_char l)"

lemma short_string_loop_moves: "moves l (snd (short_string_loop quote start line buf l))"
proof (induction quote start line buf l rule: short_string_loop.induct)
  case (1 quote start line buf l)
  obtain r l1 where r: "read_escape start line (bump 1 l) = (r, l1)" by fastforce
  then have m: "moves l l1"
    using read_escape_moves [of "bump 1 l" start line] by (auto simp: moves_def)
  show ?case
  proof (cases "at_end l \<or> lx_cur l = newline \<or> lx_cur l = quote")
    case True
    then show ?thesis by (subst short_string_loop.simps) auto
  next
    case False
    show ?thesis
    proof (cases "lx_cur l = backslash")
      case True
      have "r = Ok b \<Longrightarrow> moves l1 (snd (short_string_loop quote start line (buf @ [b]) l1))" for b
        using 1(1) [of b l1] False True r by simp
      then have "moves l (snd (bnd (read_escape start line)
          (\<lambda>b l1. short_string_loop quote start line (buf @ [b]) l1) (bump 1 l)))"
        using m r by (auto simp: bnd_def intro: moves_trans split: outcome.split)
      with True False show ?thesis by (subst short_string_loop.simps) simp
    next
      case other: False
      show ?thesis using False other moves_trans [OF moves_simps(1) 1(2)]
        by (subst short_string_loop.simps) simp
    qed
  qed
qed

section \<open>The token dispatch\<close>

definition single_tokens :: "(char \<times> token) list" where
  "single_tokens = [(CHR ''+'', TPlus), (CHR ''-'', TMinus), (CHR ''*'', TStar), (CHR 0x25, TPercent),
     (CHR ''#'', THash), (CHR ''('', TLParen), (CHR '')'', TRParen), (CHR ''{'', TLBrace),
     (CHR ''}'', TRBrace), (CHR '']'', TRBracket), (CHR '';'', TSemicolon), (CHR '':'', TColon),
     (CHR '','', TComma)]"

definition bump_tok :: "nat \<Rightarrow> token \<Rightarrow> spanned_token lex_op" where
  "bump_tok n t l = yield_tok t (lx_pos l) (lx_line l) (bump n l)"

definition bump_err :: "(span \<Rightarrow> parse_error) \<Rightarrow> spanned_token lex_op" where
  "bump_err e l = (Err (e (span_from (lx_pos l) (lx_line l) (bump 1 l))), bump 1 l)"

(* lexer.rs:404-566 Lexer::next_token *)
definition next_token :: "spanned_token lex_op" where
  "next_token l = (let start = lx_pos l; line = lx_line l; c = lx_cur l in
     case map_of single_tokens c of
       Some t \<Rightarrow> bump_tok 1 t l
     | None \<Rightarrow>
       if c = CHR ''/'' then (if lx_peek l = CHR ''/'' then bump_tok 2 TSlashSlash l
                               else bump_err Single_slash l)
       else if c = CHR ''='' then (if lx_peek l = CHR ''='' then bump_tok 2 TEq l
                                    else bump_tok 1 TAssign l)
       else if c = CHR ''~'' then (if lx_peek l = CHR ''='' then bump_tok 2 TTildeEq l
                                    else bump_err (\<lambda>s. Unexpected_char s (CHR ''~'')) l)
       else if c = CHR ''<'' then (if lx_peek l = CHR ''='' then bump_tok 2 TLtEq l
                                    else bump_tok 1 TLt l)
       else if c = CHR ''>'' then (if lx_peek l = CHR ''='' then bump_tok 2 TGtEq l
                                    else bump_tok 1 TGt l)
       else if c = CHR ''.'' then
         (if lx_peek l = CHR ''.''
          then (if lx_pos l + 2 < length (lx_src l) \<and> lx_src l ! (lx_pos l + 2) = CHR ''.''
                then bump_tok 3 TDotDotDot l else bump_tok 2 TDotDot l)
          else if ascii_digit (lx_peek l) then bump_err Float_literal l
          else bump_tok 1 TDot l)
       else if c = CHR ''['' then
         (case long_bracket_level l of
            Some level \<Rightarrow> bnd (read_long_string level start line)
              (\<lambda>bytes l1. yield_tok (TStringLit bytes) start line l1) l
          | None \<Rightarrow> bump_tok 1 TLBracket l)
       else if c = CHR 0x22 \<or> c = CHR 0x27 then read_short_string start line l
       else if ascii_digit c then read_number start line l
       else if ascii_letter c \<or> c = CHR ''_'' then read_ident_or_keyword start line l
       else bump_err (\<lambda>s. Unexpected_char s c) l)"

(* lexer.rs:249-264 Lexer::tokenize *)
function tokenize_loop :: "spanned_token list \<Rightarrow> spanned_token list lex_op" where
  "tokenize_loop tokens l = bnd skip_trivia (\<lambda>_ l1.
     if at_end l1
     then (Ok (tokens @ [Spanned TEof (Span (lx_pos l1) (lx_pos l1) (lx_line l1))]), l1)
     else bnd next_token (\<lambda>t l2. tokenize_loop (tokens @ [t]) l2) l1) l"
  by pat_completeness auto

text \<open>A token takes at least one byte, so the loop ends.\<close>

definition moves_on :: "lexer \<Rightarrow> lexer \<Rightarrow> bool" where
  "moves_on l l' \<longleftrightarrow> lx_src l' = lx_src l \<and> lx_pos l < lx_pos l'"

lemma moves_on_bump [simp]: "moves_on l (bump n l) \<longleftrightarrow> 0 < n"
  by (simp add: moves_on_def)

lemma moves_on_skip: "moves_on l l' \<Longrightarrow> moves_on l (skip_while p l')"
  by (auto simp: moves_on_def intro: less_le_trans [OF _ skip_while_pos_le])

lemma moves_on_bumped: "moves_on l l' \<Longrightarrow> moves_on l (bump n l')"
  by (auto simp: moves_on_def)

lemma moves_on_moves: "moves_on l l' \<Longrightarrow> moves l' l'' \<Longrightarrow> moves_on l l''"
  "moves l l' \<Longrightarrow> moves_on l' l'' \<Longrightarrow> moves_on l l''"
  by (auto simp: moves_on_def moves_def)

lemma skip_while_moves_on:
  "\<not> at_end l \<Longrightarrow> p (lx_cur l) \<Longrightarrow> moves_on l (skip_while p l)"
  by (auto simp: moves_on_def skip_while_def lx_rest_def at_end_def lx_cur_def
      takeWhile_eq_Nil_iff drop_eq_Nil hd_drop_conv_nth)

lemma bump_tok_moves: "0 < n \<Longrightarrow> moves_on l (snd (bump_tok n t l))"
  by (simp add: bump_tok_def yield_tok_def)

lemma bump_err_moves: "moves_on l (snd (bump_err e l))"
  by (simp add: bump_err_def)

lemma read_number_moves:
  assumes "\<not> at_end l" and "ascii_digit (lx_cur l)"
  shows "moves_on l (snd (read_number start line l))"
proof -
  have d: "moves_on l (skip_while ascii_digit l)"
    using assms by (rule skip_while_moves_on)
  have h: "moves_on l (skip_while ascii_hexdigit (bump 2 l))"
    by (rule moves_on_skip) simp
  show ?thesis unfolding read_number_def Let_def yield_tok_def
    by (simp add: d h moves_on_bumped split: option.split)
qed

lemma read_short_string_moves: "moves_on l (snd (read_short_string start line l))"
proof -
  obtain r l1 where r: "short_string_loop (lx_cur l) start line [] (bump 1 l) = (r, l1)" by fastforce
  then have "moves (bump 1 l) l1"
    using short_string_loop_moves [of "bump 1 l" "lx_cur l" start line "[]"] by simp
  then have "moves_on l l1" by (auto simp: moves_def moves_on_def)
  then show ?thesis using r
    by (auto simp: read_short_string_def bnd_def yield_tok_def split: outcome.split)
qed

lemma long_bracket_moves:
  assumes "\<not> at_end l"
  shows "moves_on l (snd (read_long_string level start line l))"
proof -
  have "moves_on l (consume_long_open level l)"
    by (simp add: consume_long_open_def moves_on_def)
  then show ?thesis unfolding read_long_string_def
    by (meson collect_long_loop_moves moves_on_moves(1) moves_first_newline)
qed

lemma moves_on_if:
  "(c \<Longrightarrow> moves_on l (snd a)) \<Longrightarrow> (\<not> c \<Longrightarrow> moves_on l (snd b)) \<Longrightarrow> moves_on l (snd (if c then a else b))"
  by simp

lemma moves_on_option:
  "(\<And>t. x = Some t \<Longrightarrow> moves_on l (snd (f t))) \<Longrightarrow> (x = None \<Longrightarrow> moves_on l (snd b)) \<Longrightarrow>
     moves_on l (snd (case x of Some t \<Rightarrow> f t | None \<Rightarrow> b))"
  by (simp split: option.split)

lemma next_token_moves:
  assumes "\<not> at_end l"
  shows "moves_on l (snd (next_token l))"
proof -
  have long: "moves_on l (snd (bnd (read_long_string level start line)
      (\<lambda>bytes l1. yield_tok (TStringLit bytes) start line l1) l))" for level start line
    using long_bracket_moves [OF assms, of level start line]
    by (auto simp: bnd_def yield_tok_def split: prod.split outcome.split)
  have name: "ascii_letter (lx_cur l) \<or> lx_cur l = CHR ''_'' \<Longrightarrow>
      moves_on l (snd (read_ident_or_keyword start line l))" for start line
    using skip_while_moves_on [OF assms, of name_char]
    by (auto simp: read_ident_or_keyword_def yield_tok_def name_char_def)
  show ?thesis unfolding next_token_def Let_def
    by (intro moves_on_if moves_on_option bump_tok_moves bump_err_moves long name
        read_number_moves read_short_string_moves assms; simp)
qed

termination tokenize_loop
proof (relation "measure (\<lambda>(_, l). length (lx_src l) - lx_pos l)", goal_cases)
  case 1
  show ?case by simp
next
  case (2 tokens l u l1 t l2)
  have "moves l l1" using skip_trivia_moves [of l] 2 by simp
  moreover have "moves_on l1 l2" using next_token_moves [of l1] 2 by simp
  ultimately show ?case using 2(2) by (auto simp: moves_def moves_on_def at_end_def)
qed

declare tokenize_loop.simps [simp del]

(* lexer.rs:249-264 Lexer::tokenize *)
definition tokenize :: "string \<Rightarrow> (parse_error, spanned_token list) outcome" where
  "tokenize src = fst (tokenize_loop [] (new_lexer src))"

end
