(* ===== verification/Lua_Ast.thy ===== *)
theory Lua_Ast
  imports Lua_Lexer
begin

text \<open>
  The syntax tree of \<open>src/parser/ast.rs\<close>. A struct that is the payload of exactly one variant
  (\<open>IfStmt\<close> of \<open>Stmt::If\<close>, \<open>BinOp\<close> of \<open>Expr::BinOp\<close>, ...) has its fields as the arguments of that
  variant's constructor, in the order of the struct; \<open>Box\<close> is transparent. The mutually recursive
  types are one declaration, whose head is \<open>expr\<close>.
\<close>

(* ast.rs:270-289 BinOpKind *)
datatype bin_op_kind = OpAdd | OpSub | OpMul | OpIDiv | OpMod | OpConcat | OpEq | OpNe | OpLt | OpLe
  | OpGt | OpGe | OpAnd | OpOr

(* ast.rs:300-304 UnOpKind *)
datatype un_op_kind = OpNeg | OpNot | OpLen

(* ast.rs:131-134 FuncName *)
datatype func_name = FuncName (fn_parts: "(string \<times> span) list") (fn_method: "(string \<times> span) option")

(* ast.rs:12-195 Block, ReturnStmt, Stmt, AssignTarget, ElseifClause, FuncBody, Expr *)
datatype expr =
    ENil span
  | ETrue span
  | EFalse span
  | EInteger i64 span
  | EStringLit string span
  | EVararg span
  | EName string span
  | ETable "table_field list" span
  | EIndex expr expr span
  | EField expr string span
  | EMethodCall expr string span "expr list" span
  | ECall expr "expr list" span
  | EBinOp bin_op_kind expr expr span
  | EUnOp un_op_kind expr span
  | EFuncDef func_body span
and table_field =
    ExplicitKey expr expr span
  | NamedKey string span expr span
  | Positional expr span
and func_body = FuncBody "(string \<times> span) list" block span
and block = Block "stmt list" "return_stmt option" span
and return_stmt = ReturnStmt "expr option" span
and assign_target =
    TargetName string span
  | TargetIndex expr expr span
and elseif_clause = Elseif expr block span
and stmt =
    LocalDecl "(string \<times> span) list" "expr list" span
  | AssignStmt assign_target expr span
  | IfStmt expr block "elseif_clause list" "block option" span
  | WhileStmt expr block span
  | NumericFor string span expr expr "expr option" block span
  | GenericFor "(string \<times> span) list" "expr list" block span
  | FunctionDecl func_name func_body span
  | LocalFunctionDecl string span func_body span
  | ExprStmt expr span
  | BreakStmt span
  | DoStmt block span

(* ast.rs:199-217 Expr::span *)
definition expr_span :: "expr \<Rightarrow> span" where
  "expr_span e = (case e of
       ENil s \<Rightarrow> s | ETrue s \<Rightarrow> s | EFalse s \<Rightarrow> s | EInteger _ s \<Rightarrow> s | EStringLit _ s \<Rightarrow> s
     | EVararg s \<Rightarrow> s | EName _ s \<Rightarrow> s | ETable _ s \<Rightarrow> s | EIndex _ _ s \<Rightarrow> s | EField _ _ s \<Rightarrow> s
     | EMethodCall _ _ _ _ s \<Rightarrow> s | ECall _ _ s \<Rightarrow> s | EBinOp _ _ _ s \<Rightarrow> s | EUnOp _ _ s \<Rightarrow> s
     | EFuncDef _ s \<Rightarrow> s)"

abbreviation expr_line :: "expr \<Rightarrow> nat" where
  "expr_line e \<equiv> span_line (expr_span e)"

end
