(* ===== verification/Lua_Lexer_Facts.thy ===== *)
theory Lua_Lexer_Facts
  imports Lua_Lexer
begin

text \<open>
  What the tokenizer guarantees: positions and line numbers (\<open>tracks\<close>), the shape of a token list
  (\<open>laid_out\<close>), and the tokens of string and integer literals.
\<close>

section \<open>Positions and lines\<close>

definition newlines :: "string \<Rightarrow> nat" where
  "newlines s = length (filter (\<lambda>c. c = newline) s)"

text \<open>The lexer is inside its source and its line counter counts the newlines behind it.\<close>

definition placed :: "lexer \<Rightarrow> bool" where
  "placed l \<longleftrightarrow> lx_pos l \<le> length (lx_src l) \<and> lx_line l = 1 + newlines (take (lx_pos l) (lx_src l))"

definition tracks :: "lexer \<Rightarrow> lexer \<Rightarrow> bool" where
  "tracks l l' \<longleftrightarrow> (placed l \<longrightarrow> placed l')"

lemma newlines_simps [simp]:
  "newlines [] = 0" "newlines (c # s) = (if c = newline then 1 else 0) + newlines s"
  "newlines (s @ t) = newlines s + newlines t"
  by (simp_all add: newlines_def)

lemma newlines_0: "newline \<notin> set s \<Longrightarrow> newlines s = 0"
  by (auto simp: newlines_def filter_empty_conv)

lemma tracks_refl [simp]: "tracks l l"
  by (simp add: tracks_def)

lemma tracks_trans: "tracks l l' \<Longrightarrow> tracks l' l'' \<Longrightarrow> tracks l l''"
  by (simp add: tracks_def)

lemma placed_new: "placed (new_lexer src)"
  by (simp add: placed_def new_lexer_def)

lemma placed_bump:
  assumes "placed l" and "n \<le> length (lx_rest l)" and "newline \<notin> set (take n (lx_rest l))"
  shows "placed (bump n l)"
proof -
  have "take (lx_pos l + n) (lx_src l) = take (lx_pos l) (lx_src l) @ take n (lx_rest l)"
    by (simp add: take_add lx_rest_def)
  then show ?thesis using assms newlines_0 [OF assms(3)]
    by (auto simp: placed_def lx_rest_def)
qed

lemma tracks_bump:
  "n \<le> length (lx_rest l) \<Longrightarrow> newline \<notin> set (take n (lx_rest l)) \<Longrightarrow> tracks l (bump n l)"
  by (simp add: tracks_def placed_bump)

lemma lx_rest_Cons: "\<not> at_end l \<Longrightarrow> lx_rest l = lx_cur l # lx_rest (bump 1 l)"
  by (simp add: lx_rest_def lx_cur_def at_end_def Cons_nth_drop_Suc)

lemma lx_rest_bump: "lx_rest (bump n l) = drop n (lx_rest l)"
  by (simp add: lx_rest_def add.commute)

lemma at_end_iff: "at_end l \<longleftrightarrow> lx_rest l = []"
  by (simp add: at_end_def lx_rest_def)

lemma tracks_bump_1: "\<not> at_end l \<Longrightarrow> lx_cur l \<noteq> newline \<Longrightarrow> tracks l (bump 1 l)"
  by (rule tracks_bump) (auto simp: lx_rest_Cons)

lemma tracks_advance: "\<not> at_end l \<Longrightarrow> tracks l (lx_advance l)"
  by (auto simp: tracks_def placed_def lx_advance_def at_end_def lx_cur_def take_Suc_conv_app_nth)

lemma tracks_skip_while: "\<not> p newline \<Longrightarrow> tracks l (skip_while p l)"
  unfolding skip_while_def
  by (rule tracks_bump) (auto simp: length_takeWhile_le takeWhile_eq_take [symmetric] dest: set_takeWhileD)

lemma lx_rest_advance: "lx_rest (lx_advance l) = tl (lx_rest l)"
  by (simp add: lx_rest_def drop_Suc tl_drop)

lemma tracks_fold_advance:
  "length cs \<le> length (lx_rest l) \<Longrightarrow> tracks l (fold (\<lambda>_. lx_advance) cs l)"
proof (induction cs arbitrary: l)
  case (Cons c cs)
  then have "\<not> at_end l" by (auto simp: at_end_iff)
  moreover have "tracks (lx_advance l) (fold (\<lambda>_. lx_advance) cs (lx_advance l))"
    using Cons by (intro Cons.IH) (simp add: lx_rest_advance)
  ultimately show ?case by (auto intro: tracks_trans tracks_advance)
qed simp

lemma tracks_skip_space [simp]: "tracks l (skip_space l)"
  unfolding skip_space_def by (rule tracks_fold_advance) (rule length_takeWhile_le)

lemma tracks_first_newline [simp]: "tracks l (skip_first_newline l)"
proof -
  have "lx_pos l + 1 < length (lx_src l) \<Longrightarrow> tracks l (lx_advance (lx_advance l))"
    by (rule tracks_trans [OF tracks_advance tracks_advance]) (auto simp: at_end_def)
  then show ?thesis by (auto simp: skip_first_newline_def tracks_advance)
qed

lemma lx_cur_rest: "lx_cur l = (case lx_rest l of [] \<Rightarrow> CHR 0x00 | c # _ \<Rightarrow> c)"
  by (auto simp: lx_cur_def lx_rest_def hd_drop_conv_nth split: list.split)
     (metis hd_drop_conv_nth list.sel(1))+

lemma lx_peek_rest: "lx_peek l = (case lx_rest l of _ # c # _ \<Rightarrow> c | _ \<Rightarrow> CHR 0x00)"
proof -
  have "lx_peek l = lx_cur (bump 1 l)" by (simp add: lx_peek_def lx_cur_def)
  then show ?thesis by (simp add: lx_cur_rest lx_rest_bump drop_Suc split: list.split)
qed

lemma long_bracket_level_rest:
  assumes "long_bracket_level l = Some level"
  obtains r where "lx_rest l = CHR ''['' # replicate level (CHR ''='') @ CHR ''['' # r"
proof -
  let ?eq = "\<lambda>c. c = CHR ''=''"
  let ?r = "drop (lx_pos l + 1) (lx_src l)"
  have c: "lx_cur l = CHR ''[''" and lv: "level = length (takeWhile ?eq ?r)"
    and i: "lx_pos l + 1 + level < length (lx_src l)"
    and b: "lx_src l ! (lx_pos l + 1 + level) = CHR ''[''"
    using assms by (auto simp: long_bracket_level_def Let_def split: if_splits)
  have rest: "lx_rest l = CHR ''['' # ?r"
    using c i lx_rest_Cons [of l] by (simp add: at_end_def lx_rest_def)
  have eqs: "takeWhile ?eq ?r = replicate level (CHR ''='')"
    by (rule replicate_eqI) (auto simp: lv dest: set_takeWhileD)
  have "dropWhile ?eq ?r = drop level ?r"
    by (simp add: lv dropWhile_eq_drop)
  also have "\<dots> = CHR ''['' # drop (Suc level) ?r"
  proof -
    have "?r ! level = CHR ''[''" using b i by (simp add: add_ac)
    moreover have "drop level ?r = ?r ! level # drop (Suc level) ?r"
      by (rule Cons_nth_drop_Suc [symmetric]) (use i in simp)
    ultimately show ?thesis by (simp only:)
  qed
  finally have dw: "dropWhile ?eq ?r = CHR ''['' # drop (Suc level) ?r" .
  have "?r = takeWhile ?eq ?r @ dropWhile ?eq ?r"
    by (rule takeWhile_dropWhile_id [symmetric])
  also have "\<dots> = replicate level (CHR ''='') @ CHR ''['' # drop (Suc level) ?r"
    by (subst eqs, subst dw) (rule refl)
  finally have "lx_rest l = CHR ''['' # replicate level (CHR ''='') @ CHR ''['' # drop (Suc level) ?r"
    by (subst rest) (rule arg_cong)
  then show ?thesis by (rule that)
qed

lemma consume_long_open_bump: "consume_long_open level l = bump (level + 2) l"
  by (simp add: consume_long_open_def bump_def)

lemma tracks_consume_long:
  "long_bracket_level l = Some level \<Longrightarrow> tracks l (consume_long_open level l)"
  unfolding consume_long_open_bump
  by (erule long_bracket_level_rest, rule tracks_bump) (auto simp: newline_def)

lemma tracks_count_equals [simp]: "tracks l (snd (count_equals l))"
  by (simp add: count_equals_def tracks_skip_while newline_def)

lemma tracks_closes: "closes level eq l \<Longrightarrow> tracks l (bump 1 l)"
  by (rule tracks_bump_1) (auto simp: closes_def newline_def)

lemma skip_long_loop_tracks: "tracks l (snd (skip_long_loop level discard start buf l))"
proof (induction level discard start buf l rule: skip_long_loop.induct)
  case (1 level discard start buf l)
  let ?l1 = "snd (count_equals (lx_advance l))"
  show ?case
  proof (cases "at_end l")
    case True
    then show ?thesis by (simp add: skip_long_loop.simps)
  next
    case False
    then have adv: "tracks l (lx_advance l)" by (rule tracks_advance)
    then have eqs: "tracks l ?l1" by (rule tracks_trans) simp
    show ?thesis using False 1 tracks_trans [OF eqs tracks_closes] tracks_trans [OF adv]
        tracks_trans [OF eqs]
      by (subst skip_long_loop.simps) auto
  qed
qed

lemma collect_long_loop_tracks: "tracks l (snd (collect_long_loop level start line buf l))"
proof (induction level start line buf l rule: collect_long_loop.induct)
  case (1 level start line buf l)
  let ?l1 = "snd (count_equals (lx_advance l))"
  show ?case
  proof (cases "at_end l")
    case True
    then show ?thesis by (simp add: collect_long_loop.simps)
  next
    case False
    then have adv: "tracks l (lx_advance l)" by (rule tracks_advance)
    then have eqs: "tracks l ?l1" by (rule tracks_trans) simp
    show ?thesis using False 1 tracks_trans [OF eqs tracks_closes] tracks_trans [OF adv]
        tracks_trans [OF eqs]
      by (subst collect_long_loop.simps) auto
  qed
qed

lemma skip_long_string_tracks:
  "long_bracket_level l = Some level \<Longrightarrow> tracks l (snd (skip_long_string level discard l))"
  unfolding skip_long_string_def
  by (meson skip_long_loop_tracks tracks_trans tracks_first_newline tracks_consume_long)

lemma read_long_string_tracks:
  "long_bracket_level l = Some level \<Longrightarrow> tracks l (snd (read_long_string level start line l))"
  unfolding read_long_string_def
  by (meson collect_long_loop_tracks tracks_trans tracks_first_newline tracks_consume_long)

lemma comment_at_rest:
  assumes "comment_at l"
  shows "\<exists>r. lx_rest l = CHR ''-'' # CHR ''-'' # r"
proof -
  have "\<not> at_end l" "\<not> at_end (bump 1 l)" "lx_cur l = CHR ''-''" "lx_peek l = CHR ''-''"
    using assms by (auto simp: comment_at_def at_end_def)
  moreover have "lx_peek l = lx_cur (bump 1 l)" by (simp add: lx_peek_def lx_cur_def)
  ultimately show ?thesis using lx_rest_Cons [of l] lx_rest_Cons [of "bump 1 l"] by auto
qed

lemma tracks_comment: "comment_at l \<Longrightarrow> tracks l (bump 2 l)"
  by (rule tracks_bump; drule comment_at_rest) (auto simp: newline_def)

lemma skip_trivia_tracks: "tracks l (snd (skip_trivia l))"
proof (induction l rule: skip_trivia.induct)
  case (1 l)
  show ?case
  proof (cases "comment_at (skip_space l)")
    case False
    then show ?thesis by (simp add: skip_trivia.simps)
  next
    case c: True
    let ?l2 = "bump 2 (skip_space l)"
    have onward: "tracks l ?l2"
      by (rule tracks_trans [OF tracks_skip_space tracks_comment [OF c]])
    show ?thesis
    proof (cases "long_comment_at ?l2")
      case None
      have "tracks ?l2 (snd (skip_trivia (skip_while (\<lambda>c. c \<noteq> newline) ?l2)))"
        by (rule tracks_trans [OF tracks_skip_while 1(1) [OF c refl None]]) simp
      then show ?thesis using c None tracks_trans [OF onward]
        by (simp add: skip_trivia.simps [of l] Let_def)
    next
      case (Some level)
      then have lv: "long_bracket_level ?l2 = Some level"
        by (simp add: long_comment_at_def split: if_splits)
      obtain r l3 where r: "skip_long_string level True ?l2 = (r, l3)" by fastforce
      then have m: "tracks ?l2 l3" using skip_long_string_tracks [OF lv, of True] by simp
      have "tracks ?l2 (snd (bnd (skip_long_string level True) (\<lambda>_ l3. skip_trivia l3) ?l2))"
        using m 1(2) [OF c refl Some] r
        by (auto simp: bnd_def intro: tracks_trans split: outcome.split)
      then show ?thesis using c Some tracks_trans [OF onward]
        by (simp add: skip_trivia.simps [of l] Let_def)
    qed
  qed
qed

text \<open>After white space and comments the lexer is at the end or at a byte that starts a token.\<close>

lemma byte_of_newline [simp]: "byte_of newline = 10"
  by (simp add: newline_def byte_of_def)

lemma not_newline [simp]:
  "\<not> ascii_digit newline" "\<not> ascii_hexdigit newline" "\<not> name_char newline" "\<not> ascii_letter newline"
  by (simp_all add: ascii_digit_def ascii_hexdigit_def name_char_def ascii_letter_def)
     (simp add: newline_def)

lemma tracks_one_of_next: "one_of_next cs l \<Longrightarrow> newline \<notin> set cs \<Longrightarrow> tracks l (bump 1 l)"
  by (rule tracks_bump_1) (auto simp: one_of_next_def)

lemma hex_escape_tracks: "tracks l (snd (hex_escape a b v k l))"
proof (induction k arbitrary: v l)
  case (Suc k)
  have "\<not> at_end l \<and> ascii_hexdigit (lx_cur l) \<Longrightarrow> tracks l (snd (hex_escape a b w k (bump 1 l)))" for w
    by (rule tracks_trans [OF tracks_bump_1 Suc]) auto
  then show ?case by auto
qed simp

lemma dec_escape_tracks: "tracks l (snd (dec_escape a b v k l))"
proof (induction k arbitrary: v l)
  case (Suc k)
  have "\<not> at_end l \<and> ascii_digit (lx_cur l) \<Longrightarrow> tracks l (snd (dec_escape a b w k (bump 1 l)))" for w
    by (rule tracks_trans [OF tracks_bump_1 Suc]) auto
  then show ?case by (auto simp: dec_done_def)
qed (simp add: dec_done_def)

lemma read_escape_tracks: "tracks l (snd (read_escape start line l))"
  using tracks_trans [OF tracks_advance hex_escape_tracks] tracks_trans [OF tracks_advance dec_escape_tracks]
  by (auto simp: read_escape_def Let_def tracks_advance split: option.split)

lemma short_string_loop_tracks: "quote \<noteq> newline \<Longrightarrow> tracks l (snd (short_string_loop quote start line buf l))"
proof (induction quote start line buf l rule: short_string_loop.induct)
  case (1 quote start line buf l)
  show ?case
  proof (cases "at_end l \<or> lx_cur l = newline")
    case True
    then show ?thesis by (subst short_string_loop.simps) auto
  next
    case in_line: False
    then have one: "tracks l (bump 1 l)" by (intro tracks_bump_1) auto
    obtain r l1 where r: "read_escape start line (bump 1 l) = (r, l1)" by fastforce
    then have m: "tracks l l1"
      using tracks_trans [OF one read_escape_tracks, of start line] by simp
    show ?thesis
    proof (cases "lx_cur l = quote")
      case True
      then show ?thesis using in_line one by (subst short_string_loop.simps) auto
    next
      case nq: False
      show ?thesis
      proof (cases "lx_cur l = backslash")
        case True
        have "r = Ok b \<Longrightarrow> tracks l1 (snd (short_string_loop quote start line (buf @ [b]) l1))" for b
          using 1(1) [of b l1] in_line nq True r 1(3) by simp
        then have "tracks l (snd (bnd (read_escape start line)
            (\<lambda>b l1. short_string_loop quote start line (buf @ [b]) l1) (bump 1 l)))"
          using m r by (auto simp: bnd_def intro: tracks_trans split: outcome.split)
        with True in_line nq show ?thesis by (subst short_string_loop.simps) simp
      next
        case False
        then show ?thesis using in_line nq tracks_trans [OF one 1(2)] 1(3)
          by (subst short_string_loop.simps) simp
      qed
    qed
  qed
qed

section \<open>What a token is\<close>

text \<open>
  \<open>settled l m\<close>: the outcome is \<open>Ok\<close> or \<open>Err\<close>. \<open>lexed l m\<close>: moreover a token that comes out is not
  the end marker, its span runs from the position and line of \<open>l\<close> to the position reached, and the
  lexer reached is placed when \<open>l\<close> was.
\<close>

definition settled :: "('e, 'a) outcome \<Rightarrow> bool" where
  "settled r \<longleftrightarrow> (case r of Ok _ \<Rightarrow> True | Err _ \<Rightarrow> True | _ \<Rightarrow> False)"

lemma settled_simps [simp]:
  "settled (Ok a)" "settled (Err e)" "\<not> settled (Panic p)" "\<not> settled Timeout"
  by (simp_all add: settled_def)

definition lexed :: "lexer \<Rightarrow> (parse_error, spanned_token) outcome \<times> lexer \<Rightarrow> bool" where
  "lexed l m \<longleftrightarrow> settled (fst m) \<and> (\<forall>t. fst m = Ok t \<longrightarrow>
     tok_of t \<noteq> TEof \<and> tok_span t = Span (lx_pos l) (lx_pos (snd m)) (lx_line l) \<and> tracks l (snd m))"

lemma lexed_if: "(c \<Longrightarrow> lexed l a) \<Longrightarrow> (\<not> c \<Longrightarrow> lexed l b) \<Longrightarrow> lexed l (if c then a else b)"
  by simp

lemma lexed_option:
  "(\<And>t. x = Some t \<Longrightarrow> lexed l (f t)) \<Longrightarrow> (x = None \<Longrightarrow> lexed l b) \<Longrightarrow>
     lexed l (case x of Some t \<Rightarrow> f t | None \<Rightarrow> b)"
  by (simp split: option.split)

lemma lexed_Err [simp]: "lexed l (Err e, l')"
  by (simp add: lexed_def)

lemma lexed_bump_err [simp]: "lexed l (bump_err e l)"
  by (simp add: bump_err_def)

lemma lexed_yield:
  "tracks l l' \<Longrightarrow> t \<noteq> TEof \<Longrightarrow> lexed l (yield_tok t (lx_pos l) (lx_line l) l')"
  by (simp add: lexed_def yield_tok_def mk_tok_def)

lemma lexed_bump_tok:
  "n \<le> length (lx_rest l) \<Longrightarrow> newline \<notin> set (take n (lx_rest l)) \<Longrightarrow> t \<noteq> TEof \<Longrightarrow>
     lexed l (bump_tok n t l)"
  unfolding bump_tok_def by (rule lexed_yield [OF tracks_bump])

lemma lexed_1: "\<not> at_end l \<Longrightarrow> lx_cur l \<noteq> newline \<Longrightarrow> t \<noteq> TEof \<Longrightarrow> lexed l (bump_tok 1 t l)"
  by (rule lexed_bump_tok) (auto simp: lx_rest_Cons)

lemma peek_rest:
  "\<not> at_end l \<Longrightarrow> lx_peek l = c \<Longrightarrow> c \<noteq> CHR 0x00 \<Longrightarrow> \<exists>r. lx_rest l = lx_cur l # c # r"
  by (cases "lx_rest l") (auto simp: at_end_iff lx_peek_rest lx_cur_rest split: list.splits)

lemma lexed_2:
  assumes "\<not> at_end l" and "lx_cur l \<noteq> newline" and "lx_peek l \<noteq> CHR 0x00"
    and "lx_peek l \<noteq> newline" and "t \<noteq> TEof"
  shows "lexed l (bump_tok 2 t l)"
proof -
  obtain r where "lx_rest l = lx_cur l # lx_peek l # r"
    using peek_rest [OF assms(1) refl assms(3)] by blast
  with assms show ?thesis by (intro lexed_bump_tok) auto
qed

lemma lexed_3:
  assumes "\<not> at_end l" and "lx_cur l \<noteq> newline" and "lx_peek l \<noteq> CHR 0x00"
    and "lx_peek l \<noteq> newline" and "lx_pos l + 2 < length (lx_src l)"
    and "lx_src l ! (lx_pos l + 2) \<noteq> newline" and "t \<noteq> TEof"
  shows "lexed l (bump_tok 3 t l)"
proof -
  obtain r where r: "lx_rest l = lx_cur l # lx_peek l # r"
    using peek_rest [OF assms(1) refl assms(3)] by blast
  have "lx_rest l ! 2 \<noteq> newline" "2 < length (lx_rest l)" using assms by (auto simp: lx_rest_def)
  with r have "\<exists>d r'. d \<noteq> newline \<and> lx_rest l = lx_cur l # lx_peek l # d # r'" by (cases r) auto
  with assms show ?thesis by (elim exE conjE) (intro lexed_bump_tok; simp)
qed

lemma long_loops_settled:
  "settled (fst (skip_long_loop level discard start buf l))"
  "settled (fst (collect_long_loop level start line buf l))"
proof -
  show "settled (fst (skip_long_loop level discard start buf l))"
  proof (induction level discard start buf l rule: skip_long_loop.induct)
    case (1 level discard start buf l)
    then show ?case by (subst skip_long_loop.simps) auto
  qed
  show "settled (fst (collect_long_loop level start line buf l))"
  proof (induction level start line buf l rule: collect_long_loop.induct)
    case (1 level start line buf l)
    then show ?case by (subst collect_long_loop.simps) auto
  qed
qed

lemma escape_settled: "settled (fst (read_escape start line l))"
proof -
  have "settled (fst (hex_escape a b v k l'))" for a b v k l'
    by (induction k arbitrary: v l') auto
  moreover have "settled (fst (dec_escape a b v k l'))" for a b v k l'
    by (induction k arbitrary: v l') (auto simp: dec_done_def)
  ultimately show ?thesis by (simp add: read_escape_def Let_def split: option.split)
qed

lemma settled_bnd:
  "settled (fst (m l)) \<Longrightarrow> (\<And>a l'. m l = (Ok a, l') \<Longrightarrow> settled (fst (f a l'))) \<Longrightarrow>
     settled (fst (bnd m f l))"
  by (cases "m l") (auto simp: bnd_def split: outcome.split)

lemma short_string_settled: "settled (fst (short_string_loop quote start line buf l))"
proof (induction quote start line buf l rule: short_string_loop.induct)
  case (1 quote start line buf l)
  show ?case
  proof (cases "at_end l \<or> lx_cur l = newline \<or> lx_cur l = quote \<or> lx_cur l \<noteq> backslash")
    case True
    then show ?thesis using 1(2) by (subst short_string_loop.simps) auto
  next
    case False
    then have "settled (fst (bnd (read_escape start line)
        (\<lambda>b l1. short_string_loop quote start line (buf @ [b]) l1) (bump 1 l)))"
      using 1(1) by (intro settled_bnd escape_settled) auto
    with False show ?thesis by (subst short_string_loop.simps) simp
  qed
qed

lemma trivia_settled: "settled (fst (skip_trivia l))"
proof (induction l rule: skip_trivia.induct)
  case (1 l)
  show ?case
  proof (cases "comment_at (skip_space l)")
    case c: True
    have "long_comment_at (bump 2 (skip_space l)) = Some level \<Longrightarrow>
        settled (fst (bnd (skip_long_string level True) (\<lambda>_ l3. skip_trivia l3)
          (bump 2 (skip_space l))))" for level
      using 1(2) [OF c refl]
      by (intro settled_bnd) (auto simp: skip_long_string_def long_loops_settled)
    then show ?thesis using c 1(1) [OF c refl]
      by (subst skip_trivia.simps) (simp add: Let_def split: option.split)
  qed (simp add: skip_trivia.simps)
qed

lemma lexed_bnd:
  assumes "settled (fst (m l))" and "tracks l (snd (m l))"
    and "\<And>a l'. tracks l l' \<Longrightarrow> lexed l (f a l')"
  shows "lexed l (bnd m f l)"
  using assms by (cases "m l") (auto simp: bnd_def split: outcome.split)

lemma lexed_long_string:
  "long_bracket_level l = Some level \<Longrightarrow> lexed l (bnd (read_long_string level (lx_pos l) (lx_line l))
     (\<lambda>bytes l1. yield_tok (TStringLit bytes) (lx_pos l) (lx_line l) l1) l)"
  by (rule lexed_bnd [OF _ read_long_string_tracks])
     (auto simp: read_long_string_def long_loops_settled intro: lexed_yield)

lemma lexed_short_string:
  assumes "\<not> at_end l" and "lx_cur l \<noteq> newline"
  shows "lexed l (read_short_string (lx_pos l) (lx_line l) l)"
proof -
  let ?m = "short_string_loop (lx_cur l) (lx_pos l) (lx_line l) []"
  let ?f = "\<lambda>buf l2. if max_string_literal < length buf
      then (Err (String_too_long (span_from (lx_pos l) (lx_line l) l2)), l2)
      else yield_tok (TStringLit buf) (lx_pos l) (lx_line l) l2"
  have "tracks l (snd (?m (bump 1 l)))"
    using assms by (intro tracks_trans [OF tracks_bump_1 short_string_loop_tracks]) auto
  moreover have "settled (fst (?m (bump 1 l)))" by (rule short_string_settled)
  moreover have "tracks l l' \<Longrightarrow> lexed l (?f buf l')" for buf l'
    by (simp add: lexed_yield)
  ultimately have "lexed l (bnd ?m ?f (bump 1 l))"
    by (cases "?m (bump 1 l)") (auto simp: bnd_def split: outcome.split)
  then show ?thesis by (simp add: read_short_string_def)
qed

lemma lexed_number:
  assumes "\<not> at_end l" and "ascii_digit (lx_cur l)"
  shows "lexed l (read_number (lx_pos l) (lx_line l) l)"
proof -
  have nl: "lx_cur l \<noteq> newline" using assms(2) by auto
  have h: "tracks l (skip_while ascii_hexdigit (bump 2 l))"
    if "lx_peek l = CHR ''x'' \<or> lx_peek l = CHR ''X''"
  proof -
    have "lx_peek l \<noteq> CHR 0x00" "lx_peek l \<noteq> newline" using that by (auto simp: newline_def)
    moreover from this obtain r where "lx_rest l = lx_cur l # lx_peek l # r"
      using peek_rest [OF assms(1) refl] by blast
    ultimately have "tracks l (bump 2 l)" using nl by (intro tracks_bump) auto
    then show ?thesis by (rule tracks_trans) (rule tracks_skip_while, simp)
  qed
  show ?thesis unfolding read_number_def Let_def
    by (intro lexed_if) (auto simp: h tracks_skip_while lexed_yield split: option.split)
qed

lemma lexed_name: "lexed l (read_ident_or_keyword (lx_pos l) (lx_line l) l)"
proof -
  have "ident_or_keyword s \<noteq> TEof" for s
  proof (cases "map_of reserved_words s")
    case (Some t)
    then have "(s, t) \<in> set reserved_words" by (rule map_of_SomeD)
    moreover have "\<forall>(s, t)\<in>set reserved_words. t \<noteq> TEof" by (simp add: reserved_words_def)
    ultimately show ?thesis using Some by (auto simp: ident_or_keyword_def)
  qed (simp add: ident_or_keyword_def)
  then show ?thesis unfolding read_ident_or_keyword_def
    by (intro lexed_yield tracks_skip_while) auto
qed

lemma lexed_single:
  assumes "\<not> at_end l" and "map_of single_tokens (lx_cur l) = Some t"
  shows "lexed l (bump_tok 1 t l)"
proof -
  have "(lx_cur l, t) \<in> set single_tokens" using assms(2) by (rule map_of_SomeD)
  moreover have "\<forall>(c, t) \<in> set single_tokens. c \<noteq> newline \<and> t \<noteq> TEof"
    by (simp add: single_tokens_def newline_def)
  ultimately show ?thesis using assms(1) by (intro lexed_1) auto
qed

lemma next_token_lexed:
  assumes "\<not> at_end l"
  shows "lexed l (next_token l)"
proof -
  note tok = lexed_1 [OF assms] lexed_2 [OF assms] lexed_3 [OF assms]
  have q: "lx_cur l = CHR 0x22 \<or> lx_cur l = CHR 0x27 \<Longrightarrow>
      lexed l (read_short_string (lx_pos l) (lx_line l) l)"
    by (rule lexed_short_string [OF assms]) (auto simp: newline_def)
  show ?thesis unfolding next_token_def Let_def
    by (intro lexed_if lexed_option lexed_bump_err lexed_single [OF assms] q lexed_name
        lexed_long_string lexed_number [OF assms] tok; simp add: newline_def)
qed

text \<open>
  A token and the source: its span is a non-empty part of it and its line is one more than the
  number of newlines before it.
\<close>

definition well_placed :: "string \<Rightarrow> spanned_token \<Rightarrow> bool" where
  "well_placed src t \<longleftrightarrow> (case tok_span t of Span a b line \<Rightarrow>
     a < b \<and> b \<le> length src \<and> line = 1 + newlines (take a src))"

definition end_token :: "string \<Rightarrow> spanned_token" where
  "end_token src = Spanned TEof (Span (length src) (length src) (1 + newlines src))"

definition laid_out :: "string \<Rightarrow> nat \<Rightarrow> spanned_token list \<Rightarrow> bool" where
  "laid_out src pos body \<longleftrightarrow> (\<forall>t\<in>set body. tok_of t \<noteq> TEof \<and> well_placed src t) \<and>
     sorted_wrt (\<lambda>a b. span_end (tok_span a) \<le> span_start (tok_span b)) body \<and>
     (\<forall>t\<in>set body. span_end (tok_span t) \<le> pos)"

lemma laid_out_snoc:
  assumes "laid_out src p body" and "tok_of t \<noteq> TEof" and "well_placed src t"
    and "p \<le> span_start (tok_span t)" and "span_end (tok_span t) \<le> q"
  shows "laid_out src q (body @ [t])"
proof -
  have "span_start (tok_span t) < span_end (tok_span t)"
    using assms(3) by (cases "tok_span t") (simp add: well_placed_def)
  with assms show ?thesis by (fastforce simp: laid_out_def sorted_wrt_append)
qed

lemma laid_out_weaken: "laid_out src p body \<Longrightarrow> p \<le> q \<Longrightarrow> laid_out src q body"
  by (fastforce simp: laid_out_def)

lemma tokenize_loop_laid_out:
  assumes "placed l" and "laid_out (lx_src l) (lx_pos l) acc" and "tokenize_loop acc l = (Ok ts, l')"
  shows "\<exists>body. ts = body @ [end_token (lx_src l)] \<and> laid_out (lx_src l) (length (lx_src l)) body"
  using assms
proof (induction acc l rule: tokenize_loop.induct)
  case (1 acc l)
  obtain u l1 where tr: "skip_trivia l = (Ok u, l1)"
    using 1(4) by (cases "skip_trivia l") (auto simp: tokenize_loop.simps [of acc l] bnd_def
        split: outcome.splits)
  have src: "lx_src l1 = lx_src l" and pos: "lx_pos l \<le> lx_pos l1"
    using skip_trivia_moves [of l] tr by (auto simp: moves_def)
  have pl: "placed l1" using skip_trivia_tracks [of l] tr 1(2) by (simp add: tracks_def)
  note step = 1(4) [unfolded tokenize_loop.simps [of acc l] bnd_eq(1) [where m = skip_trivia, OF tr]]
  show ?case
  proof (cases "at_end l1")
    case True
    with pl have "lx_pos l1 = length (lx_src l1)" "lx_line l1 = 1 + newlines (lx_src l1)"
      by (auto simp: at_end_def placed_def)
    moreover have "laid_out (lx_src l) (length (lx_src l)) acc"
      using 1(2) by (intro laid_out_weaken [OF 1(3)]) (simp add: placed_def)
    ultimately show ?thesis using step True src
      by (intro exI [of _ acc]) (auto simp: end_token_def)
  next
    case False
    obtain t l2 where nt: "next_token l1 = (Ok t, l2)"
      using step False by (cases "next_token l1") (auto simp: bnd_def split: outcome.splits)
    have on: "lx_src l2 = lx_src l1" "lx_pos l1 < lx_pos l2"
      using next_token_moves [OF False] nt by (auto simp: moves_on_def)
    have t: "tok_of t \<noteq> TEof" "tok_span t = Span (lx_pos l1) (lx_pos l2) (lx_line l1)"
        "placed l2"
      using next_token_lexed [OF False] nt pl by (auto simp: lexed_def tracks_def)
    have "well_placed (lx_src l) t"
      using pl t on src by (simp add: well_placed_def placed_def)
    then have "laid_out (lx_src l) (lx_pos l2) (acc @ [t])"
      using laid_out_snoc [OF 1(3) t(1)] t(2) pos by simp
    with on src t have "laid_out (lx_src l2) (lx_pos l2) (acc @ [t])" "lx_src l2 = lx_src l"
        "placed l2" by simp_all
    then show ?thesis using 1(1) [OF tr False nt] step False nt by (simp add: bnd_def)
  qed
qed

lemma tokenize_laid_out:
  assumes "tokenize src = Ok ts"
  shows "\<exists>body. ts = body @ [end_token src] \<and> laid_out src (length src) body"
proof -
  obtain l' where "tokenize_loop [] (new_lexer src) = (Ok ts, l')"
    using assms by (cases "tokenize_loop [] (new_lexer src)") (simp add: tokenize_def)
  moreover have "laid_out (lx_src (new_lexer src)) (lx_pos (new_lexer src)) []"
    by (simp add: laid_out_def)
  ultimately show ?thesis
    using tokenize_loop_laid_out [OF placed_new] by (fastforce simp: new_lexer_def)
qed

text \<open>C31: Tokens stand where the source has them. The token list ends with exactly one end marker, at
  the end of the source; every other token has a non-empty span inside the source, carries the line
  number of its first byte (one more than the newlines before it, counting those inside comments,
  long strings and escapes), and starts no earlier than the token before it ended.
\<close>

theorem tokens_placed:
  assumes "tokenize src = Ok ts"
  shows "\<exists>body. ts = body @ [end_token src] \<and> laid_out src (length src) body"
  using assms by (rule tokenize_laid_out)

lemma tokenize_settled: "settled (tokenize src)"
proof -
  have "settled (fst (tokenize_loop acc l))" for acc l
  proof (induction acc l rule: tokenize_loop.induct)
    case (1 acc l)
    have "settled (fst (bnd next_token (\<lambda>t. tokenize_loop (acc @ [t])) l1))"
      if "skip_trivia l = (Ok u, l1)" "\<not> at_end l1" for u l1
      using 1 [OF that] next_token_lexed [OF that(2)] by (intro settled_bnd) (auto simp: lexed_def)
    then show ?case by (subst tokenize_loop.simps) (auto intro!: settled_bnd trivia_settled)
  qed
  then show ?thesis by (simp add: tokenize_def)
qed

section \<open>Texts of one token\<close>

lemma lx_cur_eq [simp]: "lx_rest l = c # r \<Longrightarrow> lx_cur l = c"
  by (simp add: lx_cur_rest)

lemma at_end_eq [simp]: "lx_rest l = c # r \<Longrightarrow> \<not> at_end l"
  by (simp add: at_end_iff)

lemma bump_bump [simp]: "bump m (bump n l) = bump (n + m) l"
  by (simp add: bump_def)

lemma new_lexer_simps [simp]:
  "lx_src (new_lexer s) = s" "lx_pos (new_lexer s) = 0" "lx_line (new_lexer s) = 1"
  "lx_rest (new_lexer s) = s"
  by (simp_all add: new_lexer_def lx_rest_def)

lemma lx_advance_bump: "lx_cur l \<noteq> newline \<Longrightarrow> lx_advance l = bump 1 l"
  by (simp add: lx_advance_def bump_def)

lemma hex_digit_char:
  assumes "d < 16"
  shows "ascii_hexdigit (digit_char d)" and "hex_digit_val (digit_char d) = d"
  using assms by (auto simp: digit_char_def ascii_hexdigit_def ascii_digit_def hex_digit_val_def Let_def)

text \<open>A byte as a hexadecimal escape, and a byte string as a literal written with such escapes.\<close>

definition hex_escaped :: "char \<Rightarrow> string" where
  "hex_escaped c = [backslash, CHR ''x'', digit_char (byte_of c div 16), digit_char (byte_of c mod 16)]"

definition quote_literal :: "string \<Rightarrow> string" where
  "quote_literal s = CHR 0x22 # concat (map hex_escaped s) @ [CHR 0x22]"

lemma length_hex_escaped [simp]: "length (hex_escaped c) = 4"
  by (simp add: hex_escaped_def)

lemma length_concat_hex: "length (concat (map hex_escaped s)) = 4 * length s"
  by (induction s) simp_all

lemma char_of_byte_value [simp]: "char_of (byte_of c) = c"
  by (simp add: byte_of_def)

lemma hex_escape_reads:
  assumes "lx_rest l = digit_char (byte_of c div 16) # digit_char (byte_of c mod 16) # r"
  shows "hex_escape a b 0 2 l = (Ok c, bump 2 l)"
proof -
  have h: "byte_of c div 16 < 16" "byte_of c mod 16 < 16"
    using byte_of_less [of c] by (auto simp: less_mult_imp_div_less)
  have r: "lx_rest (bump 1 l) = digit_char (byte_of c mod 16) # r"
    using assms by (simp add: lx_rest_bump)
  have "byte_of c div 16 * 16 + byte_of c mod 16 = byte_of c" by simp
  then show ?thesis using assms r h
    by (simp add: numeral_2_eq_2 hex_digit_char)
qed

lemma read_escape_hex:
  assumes "lx_rest l = CHR ''x'' # digit_char (byte_of c div 16) # digit_char (byte_of c mod 16) # r"
  shows "read_escape start line l = (Ok c, bump 3 l)"
proof -
  have "map_of simple_escapes (CHR ''x'') = None"
    by (simp add: simple_escapes_def backslash_def newline_def)
  moreover have "lx_advance l = bump 1 l" using assms by (simp add: lx_advance_bump newline_def)
  moreover have "lx_rest (bump 1 l) = digit_char (byte_of c div 16) # digit_char (byte_of c mod 16) # r"
    using assms by (simp add: lx_rest_bump)
  ultimately show ?thesis using assms
    by (simp add: read_escape_def Let_def hex_escape_reads)
qed

lemma short_string_reads:
  "lx_rest l = concat (map hex_escaped s) @ CHR 0x22 # r \<Longrightarrow>
     short_string_loop (CHR 0x22) start line buf l = (Ok (buf @ s), bump (4 * length s + 1) l)"
proof (induction s arbitrary: l buf)
  case Nil
  then show ?case by (subst short_string_loop.simps) (simp add: newline_def)
next
  case (Cons c s)
  have "lx_rest (bump 1 l) = CHR ''x'' # digit_char (byte_of c div 16)
      # digit_char (byte_of c mod 16) # concat (map hex_escaped s) @ CHR 0x22 # r"
    using Cons.prems by (simp add: lx_rest_bump hex_escaped_def [of c])
  then have "read_escape start line (bump 1 l) = (Ok c, bump 4 l)"
    using read_escape_hex by fastforce
  moreover have "lx_rest (bump 4 l) = concat (map hex_escaped s) @ CHR 0x22 # r"
    using Cons.prems by (simp add: lx_rest_bump)
  ultimately show ?case using Cons.prems
    by (subst short_string_loop.simps)
       (simp add: Cons.IH bnd_def hex_escaped_def [of c] newline_def backslash_def)
qed

lemma skip_trivia_none:
  assumes "lx_rest l = c # r" and "\<not> lx_space c" and "c \<noteq> CHR ''-''"
  shows "skip_trivia l = (Ok (), l)"
proof -
  have "skip_space l = l" using assms by (simp add: skip_space_def)
  then show ?thesis using assms by (subst skip_trivia.simps) (simp add: comment_at_def)
qed

lemma skip_trivia_end: "lx_rest l = [] \<Longrightarrow> skip_trivia l = (Ok (), l)"
  by (subst skip_trivia.simps) (auto simp: skip_space_def comment_at_def lx_rest_def)

text \<open>A text whose first token ends where the text ends.\<close>

lemma tokenize_single:
  assumes "src = c # r" and "\<not> lx_space c" and "c \<noteq> CHR ''-''" and "newlines src = 0"
    and "next_token (new_lexer src) = (Ok (Spanned t (Span 0 n 1)), bump n (new_lexer src))"
    and "n = length src"
  shows "tokenize src = Ok [Spanned t (Span 0 (length src) 1), end_token src]"
proof -
  let ?l = "new_lexer src"
  have "lx_rest ?l = c # r" by (simp add: lx_rest_def new_lexer_def assms(1))
  then have tr: "skip_trivia ?l = (Ok (), ?l)" and ne: "\<not> at_end ?l"
    using skip_trivia_none assms(2,3) by auto
  have rest: "lx_rest (bump n ?l) = []" by (simp add: lx_rest_def new_lexer_def assms(6))
  then have "tokenize_loop [Spanned t (Span 0 n 1)] (bump n ?l) =
      (Ok [Spanned t (Span 0 n 1), end_token src], bump n ?l)"
    by (subst tokenize_loop.simps)
       (simp add: bnd_def skip_trivia_end at_end_iff end_token_def assms(4,6) new_lexer_def)
  then show ?thesis using assms(5,6) tr ne unfolding tokenize_def
    by (subst tokenize_loop.simps) (simp add: bnd_def)
qed

lemma tokenize_single_Err:
  assumes "src = c # r" and "\<not> lx_space c" and "c \<noteq> CHR ''-''"
    and "next_token (new_lexer src) = (Err e, l')"
  shows "tokenize src = Err e"
proof -
  let ?l = "new_lexer src"
  have "lx_rest ?l = c # r" by (simp add: lx_rest_def new_lexer_def assms(1))
  then have tr: "skip_trivia ?l = (Ok (), ?l)" and ne: "\<not> at_end ?l"
    using skip_trivia_none assms(2,3) by auto
  then show ?thesis using assms(4) unfolding tokenize_def
    by (subst tokenize_loop.simps) (simp add: bnd_def)
qed

lemma next_token_string:
  assumes "lx_cur l = CHR 0x22"
  shows "next_token l = read_short_string (lx_pos l) (lx_line l) l"
proof -
  have "map_of single_tokens (CHR 0x22) = None" by (simp add: single_tokens_def)
  then show ?thesis by (simp add: next_token_def Let_def assms)
qed

lemma digit_char_not_newline: "d < 16 \<Longrightarrow> digit_char d \<noteq> newline"
  by (metis hex_digit_char(1) not_newline(2))

lemma newline_hex_escaped: "newline \<notin> set (hex_escaped c)"
proof -
  have h: "byte_of c div 16 < 16" "byte_of c mod 16 < 16"
    using byte_of_less [of c] by (auto simp: less_mult_imp_div_less)
  show ?thesis using digit_char_not_newline [OF h(1)] digit_char_not_newline [OF h(2)]
    by (auto simp: hex_escaped_def backslash_def newline_def)
qed

text \<open>C32: Every byte string is a string literal. Written between double quotes with each byte as a
  hexadecimal escape, it lexes back to exactly that byte string when it has at most 65536 bytes, and
  to \<open>StringTooLong\<close> over the whole literal otherwise.
\<close>

theorem string_literal_roundtrip:
  "tokenize (quote_literal s) =
     (if length s \<le> max_string_literal
      then Ok [Spanned (TStringLit s) (Span 0 (4 * length s + 2) 1), end_token (quote_literal s)]
      else Err (String_too_long (Span 0 (4 * length s + 2) 1)))"
proof -
  let ?src = "quote_literal s"
  let ?l = "new_lexer ?src"
  have rest: "lx_rest ?l = CHR 0x22 # concat (map hex_escaped s) @ [CHR 0x22]"
    by (simp add: lx_rest_def new_lexer_def quote_literal_def)
  then have q: "lx_cur ?l = CHR 0x22" by simp
  have len: "length ?src = 4 * length s + 2"
    by (simp add: quote_literal_def length_concat_hex)
  have "lx_rest (bump 1 ?l) = concat (map hex_escaped s) @ [CHR 0x22]"
    using rest by (simp add: lx_rest_bump)
  from short_string_reads [OF this]
  have rd: "read_short_string 0 1 ?l = (if length s \<le> max_string_literal
      then (Ok (Spanned (TStringLit s) (Span 0 (4 * length s + 2) 1)), bump (4 * length s + 2) ?l)
      else (Err (String_too_long (Span 0 (4 * length s + 2) 1)), bump (4 * length s + 2) ?l))"
    using q by (simp add: read_short_string_def bnd_def yield_tok_def mk_tok_def span_from_def new_lexer_def)
  have nt: "next_token ?l = read_short_string 0 1 ?l"
    using next_token_string [OF q] by (simp add: new_lexer_def)
  have nl: "newlines ?src = 0"
    using newline_hex_escaped by (intro newlines_0) (auto simp: quote_literal_def newline_def)
  have q': "\<not> lx_space (CHR 0x22)" by (simp add: lx_space_def newline_def)
  have src: "?src = CHR 0x22 # concat (map hex_escaped s) @ [CHR 0x22]"
    by (rule quote_literal_def)
  have minus: "CHR 0x22 \<noteq> CHR ''-''" by simp
  show ?thesis
  proof (cases "length s \<le> max_string_literal")
    case True
    with nt rd have "next_token ?l = (Ok (Spanned (TStringLit s) (Span 0 (4 * length s + 2) 1)),
        bump (4 * length s + 2) ?l)"
      by (simp only: if_True)
    from tokenize_single [OF src q' minus nl this len [symmetric]] True len
    show ?thesis by (simp only: if_True)
  next
    case False
    with nt rd have "next_token ?l = (Err (String_too_long (Span 0 (4 * length s + 2) 1)),
        bump (4 * length s + 2) ?l)"
      by (simp only: if_False)
    from tokenize_single_Err [OF src q' minus this] False
    show ?thesis by (simp only: if_False)
  qed
qed

lemma digits_text:
  assumes "c \<in> set (nat_to_string n)"
  shows "ascii_digit c" and "c \<noteq> newline" and "\<not> lx_space c"
proof -
  have b: "48 \<le> byte_of c" "byte_of c \<le> 57" using nat_to_string_digits [OF assms] by simp_all
  then show "ascii_digit c" by (simp add: ascii_digit_def)
  then show "c \<noteq> newline" by auto
  have "byte_of (CHR '' '') = 32" "byte_of (CHR 0x09) = 9" "byte_of (CHR 0x0D) = 13"
    by (simp_all add: byte_of_def)
  with b show "\<not> lx_space c" by (auto simp: lx_space_def)
qed

lemma parse_i64_digits:
  "parse_i64 (nat_to_string n) = option_i64 (int n)"
proof -
  obtain c r where s: "nat_to_string n = c # r" by (cases "nat_to_string n") simp_all
  then have "48 \<le> byte_of c" using nat_to_string_digits [of c n] by simp
  then have "c \<noteq> CHR ''-''" "c \<noteq> CHR ''+''" by (auto simp: byte_of_def)
  moreover have "digits_value 10 0 (c # r) = Some n"
    using digits_value_nat_to_string [of n] by (simp only: s)
  ultimately show ?thesis by (simp add: parse_i64_def s)
qed

lemma single_tokens_digit: "ascii_digit c \<Longrightarrow> map_of single_tokens c = None"
proof -
  have "\<forall>(c, t)\<in>set single_tokens. \<not> ascii_digit c"
    by (simp add: single_tokens_def ascii_digit_def byte_of_def)
  then show "ascii_digit c \<Longrightarrow> map_of single_tokens c = None"
    by (auto simp: map_of_eq_None_iff)
qed

lemma next_token_digit:
  assumes "ascii_digit (lx_cur l)"
  shows "next_token l = read_number (lx_pos l) (lx_line l) l"
proof -
  have "lx_cur l \<notin> {CHR ''/'', CHR ''='', CHR ''~'', CHR ''<'', CHR ''>'', CHR ''.'', CHR ''['',
      CHR 0x22, CHR 0x27}"
    using assms by (auto simp: ascii_digit_def byte_of_def)
  with assms single_tokens_digit [OF assms] show ?thesis
    by (simp add: next_token_def Let_def)
qed

text \<open>C33: The decimal notation of a natural number lexes to that integer when it is below \<open>2 ^ 63\<close>, and
  to \<open>IntegerOverflow\<close> over the whole literal otherwise; in particular \<open>9223372036854775808\<close> has no
  literal, so the least integer can only be written in hexadecimal or computed.
\<close>

theorem integer_literal:
  "tokenize (nat_to_string n) =
     (if n < 2 ^ 63
      then Ok [Spanned (TInteger (i64_of (int n))) (Span 0 (length (nat_to_string n)) 1),
               end_token (nat_to_string n)]
      else Err (Integer_overflow (Span 0 (length (nat_to_string n)) 1)))"
proof -
  let ?s = "nat_to_string n"
  let ?l = "new_lexer ?s"
  obtain c r where s: "?s = c # r" by (cases ?s) simp_all
  have rest: "lx_rest ?l = ?s" by simp
  then have cur: "lx_cur ?l = c" using s by (simp add: lx_cur_rest)
  have c: "ascii_digit c" "\<not> lx_space c" "c \<noteq> newline" using digits_text [of c n] s by simp_all
  have minus: "c \<noteq> CHR ''-''" using c(1) by (auto simp: ascii_digit_def byte_of_def)
  have nl: "newlines ?s = 0" using digits_text(2) by (intro newlines_0) blast
  have "lx_peek ?l \<noteq> CHR ''x'' \<and> lx_peek ?l \<noteq> CHR ''X''"
  proof (cases r)
    case (Cons d r')
    then have "ascii_digit d" using digits_text(1) [of d n] s by simp
    then show ?thesis using rest s Cons by (auto simp: lx_peek_rest ascii_digit_def byte_of_def)
  qed (use rest s in \<open>simp add: lx_peek_rest\<close>)
  moreover have tw: "takeWhile ascii_digit ?s = ?s"
    using digits_text(1) by (simp add: takeWhile_eq_all_conv)
  moreover have "\<not> one_of_next ''.eE'' (bump (length ?s) ?l)"
    by (simp add: one_of_next_def at_end_def new_lexer_def)
  ultimately have "read_number 0 1 ?l = (case option_i64 (int n) of
      None \<Rightarrow> (Err (Integer_overflow (Span 0 (length ?s) 1)), bump (length ?s) ?l)
    | Some v \<Rightarrow> (Ok (Spanned (TInteger v) (Span 0 (length ?s) 1)), bump (length ?s) ?l))"
    by (simp add: tw read_number_def slice_while_def skip_while_def rest Let_def parse_i64_digits
        yield_tok_def mk_tok_def span_from_def split: option.split)
  moreover have "next_token ?l = read_number 0 1 ?l"
    using next_token_digit [of ?l] c(1) cur by (simp add: new_lexer_def)
  moreover have "in_i64 (int n) \<longleftrightarrow> n < 2 ^ 63" by (simp add: in_i64_def)
  ultimately show ?thesis
    using tokenize_single [OF s c(2) minus nl _ refl, of "TInteger (i64_of (int n))"]
      tokenize_single_Err [OF s c(2) minus]
    by (simp add: option_i64_def)
qed

lemma tokenize_loop_next:
  "skip_trivia l = (Ok (), l1) \<Longrightarrow> \<not> at_end l1 \<Longrightarrow> next_token l1 = (Ok t, l2) \<Longrightarrow>
     tokenize_loop acc l = tokenize_loop (acc @ [t]) l2"
  by (subst tokenize_loop.simps) (simp add: bnd_def)

lemma tokenize_loop_end:
  "skip_trivia l = (Ok (), l1) \<Longrightarrow> at_end l1 \<Longrightarrow>
     tokenize_loop acc l = (Ok (acc @ [Spanned TEof (Span (lx_pos l1) (lx_pos l1) (lx_line l1))]), l1)"
  by (subst tokenize_loop.simps) (simp add: bnd_def)

lemma skip_trivia_space:
  "\<not> comment_at (skip_space l) \<Longrightarrow> skip_trivia l = (Ok (), skip_space l)"
  by (simp add: skip_trivia.simps)

lemma tokenize_two_lines:
  "tokenize [CHR ''a'', newline, CHR '';''] = Ok [Spanned (TIdent ''a'') (Span 0 1 1),
     Spanned TSemicolon (Span 2 3 2), end_token [CHR ''a'', newline, CHR '';'']]"
proof -
  let ?src = "[CHR ''a'', newline, CHR '';'']"
  let ?at = "\<lambda>p n. \<lparr>lx_src = ?src, lx_pos = p, lx_line = n\<rparr>"
  note defs = skip_space_def lx_rest_def lx_space_def comment_at_def lx_cur_def lx_peek_def
    at_end_def lx_advance_def
  have n: "newline \<noteq> CHR ''a''" "newline \<noteq> CHR '';''" "newline \<noteq> CHR ''-''" "newline \<noteq> CHR ''_''"
    by (simp_all add: newline_def)
  have a: "skip_trivia (?at 0 1) = (Ok (), ?at 0 1)"
    by (subst skip_trivia_space) (use n in \<open>auto simp: defs\<close>)
  have "map_of single_tokens (CHR ''a'') = None" by (simp add: single_tokens_def)
  then have b: "next_token (?at 0 1) = (Ok (Spanned (TIdent ''a'') (Span 0 1 1)), ?at 1 1)"
    using n by (simp add: next_token_def Let_def defs read_ident_or_keyword_def slice_while_def
        skip_while_def yield_tok_def mk_tok_def bump_def name_char_def ascii_letter_def
        ascii_digit_def byte_of_def ident_or_keyword_def reserved_words_def newline_def)
  have c: "skip_trivia (?at 1 1) = (Ok (), ?at 2 2)"
    by (subst skip_trivia_space) (use n in \<open>auto simp: defs\<close>)
  have "map_of single_tokens (CHR '';'') = Some TSemicolon" by (simp add: single_tokens_def)
  then have d: "next_token (?at 2 2) = (Ok (Spanned TSemicolon (Span 2 3 2)), ?at 3 2)"
    by (simp add: next_token_def Let_def defs bump_tok_def yield_tok_def mk_tok_def bump_def)
  have e: "skip_trivia (?at 3 2) = (Ok (), ?at 3 2)"
    by (rule skip_trivia_end) (simp add: lx_rest_def)
  have "tokenize_loop [] (?at 0 1) = tokenize_loop [Spanned (TIdent ''a'') (Span 0 1 1)] (?at 1 1)"
    using tokenize_loop_next [OF a _ b] by (simp add: at_end_def)
  also have "\<dots> = tokenize_loop [Spanned (TIdent ''a'') (Span 0 1 1),
      Spanned TSemicolon (Span 2 3 2)] (?at 3 2)"
    using tokenize_loop_next [OF c _ d] by (simp add: at_end_def)
  finally show ?thesis using tokenize_loop_end [OF e]
    by (simp add: tokenize_def new_lexer_def at_end_def end_token_def n not_sym [OF n(1)]
        not_sym [OF n(2)])
qed

lemma tokens_placed_witness:
  "\<exists>body. [Spanned (TIdent ''a'') (Span 0 1 1), Spanned TSemicolon (Span 2 3 2),
       end_token [CHR ''a'', newline, CHR '';'']] = body @ [end_token [CHR ''a'', newline, CHR '';'']] \<and>
     laid_out [CHR ''a'', newline, CHR '';''] 3 body"
  using tokens_placed [OF tokenize_two_lines] by (simp add: numeral_3_eq_3)

end
