(* ===== verification/Lua_Parser.thy ===== *)
theory Lua_Parser
  imports Lua_Ast Lua_Lexer_Facts
begin

text \<open>
  The recursive-descent parser of \<open>src/parser/mod.rs\<close>. The parser state is the token list with a
  position; \<open>peek\<close> indexes the list and would panic outside it. One definition per parse function;
  \<open>parse_binop\<close> and \<open>parse_block\<close>, through which all recursion goes, are arguments \<open>pe\<close> and \<open>pb\<close> of
  the others, and \<open>parse_rec\<close> ties the knot with fuel. A loop of the source is a recursion with the
  number of tokens as fuel, since every round consumes a token.

  Proved: the token count is enough fuel for everything, no index is ever out of range, and the tree
  never refers to a disallowed identifier or to \<open>tool\<close> except as \<open>tool.call\<close>.
\<close>

section \<open>Token access\<close>

(* parser.rs:28-46 DISALLOWED_IDENTS *)
definition disallowed_idents :: "string list" where
  "disallowed_idents = [''debug'', ''io'', ''os'', ''package'', ''require'', ''load'', ''dofile'',
     ''loadfile'', ''loadstring'', ''collectgarbage'', ''setmetatable'', ''getmetatable'',
     ''rawget'', ''rawset'', ''setfenv'', ''getfenv'', ''coroutine'']"

(* parser.rs:48-50 is_disallowed *)
definition is_disallowed :: "string \<Rightarrow> bool" where
  "is_disallowed name \<longleftrightarrow> name \<in> set disallowed_idents"

(* parser.rs:56-59 Parser *)
record parser =
  ps_tokens :: "spanned_token list"
  ps_pos :: nat

type_synonym 'a parse_op = "(parser, parse_error, 'a) op"

(* parser.rs:62-64 Parser::new *)
definition new_parser :: "spanned_token list \<Rightarrow> parser" where
  "new_parser ts = \<lparr>ps_tokens = ts, ps_pos = 0\<rparr>"

(* parser.rs:68-70 Parser::peek *)
definition p_peek :: "spanned_token parse_op" where
  "p_peek p = index_or_panic (ps_tokens p) (ps_pos p) p"

(* parser.rs:72-74 Parser::peek2 *)
definition p_peek2 :: "spanned_token option parse_op" where
  "p_peek2 p = (Ok (if ps_pos p + 1 < length (ps_tokens p) then Some (ps_tokens p ! (ps_pos p + 1))
                    else None), p)"

(* parser.rs:76-82 Parser::advance *)
definition p_advance :: "spanned_token parse_op" where
  "p_advance = bnd p_peek (\<lambda>t p. (Ok t,
     if ps_pos p + 1 < length (ps_tokens p) then p\<lparr>ps_pos := ps_pos p + 1\<rparr> else p))"

definition p_tok :: "token parse_op" where
  "p_tok = bnd p_peek (\<lambda>t. ret (tok_of t))"

(* parser.rs:92-94 Parser::current_span *)
definition p_span :: "span parse_op" where
  "p_span = bnd p_peek (\<lambda>t. ret (tok_span t))"

(* parser.rs:84-86 Parser::check *)
definition p_check :: "token \<Rightarrow> bool parse_op" where
  "p_check t = bnd p_tok (\<lambda>x. ret (x = t))"

text \<open>The payload of a token, where it has one, and the tokens that open an argument list.\<close>

definition ident_of :: "token \<Rightarrow> string option" where
  "ident_of t = (case t of TIdent n \<Rightarrow> Some n | _ \<Rightarrow> None)"

definition integer_of :: "token \<Rightarrow> i64 option" where
  "integer_of t = (case t of TInteger n \<Rightarrow> Some n | _ \<Rightarrow> None)"

definition string_of :: "token \<Rightarrow> string option" where
  "string_of t = (case t of TStringLit b \<Rightarrow> Some b | _ \<Rightarrow> None)"

definition opens_args :: "token \<Rightarrow> bool" where
  "opens_args t \<longleftrightarrow> t = TLParen \<or> t = TLBrace \<or> string_of t \<noteq> None"

(* parser.rs:818-869 token_description *)
definition token_names :: "(token \<times> string) list" where
  "token_names = [(KwAnd, ''and''), (KwBreak, ''break''), (KwDo, ''do''), (KwElse, ''else''),
     (KwElseif, ''elseif''), (KwEnd, ''end''), (KwFalse, ''false''), (KwFor, ''for''),
     (KwFunction, ''function''), (KwIf, ''if''), (KwIn, ''in''), (KwLocal, ''local''),
     (KwNil, ''nil''), (KwNot, ''not''), (KwOr, ''or''), (KwReturn, ''return''),
     (KwThen, ''then''), (KwTrue, ''true''), (KwWhile, ''while''), (TPlus, ''+''), (TMinus, ''-''),
     (TStar, ''*''), (TSlashSlash, ''//''), (TPercent, [CHR 0x25]), (TDotDot, ''..''),
     (TDotDotDot, ''...''), (THash, ''#''), (TEq, ''==''), (TTildeEq, ''~=''), (TLt, ''<''),
     (TLtEq, ''<=''), (TGt, ''>''), (TGtEq, ''>=''), (TAssign, ''=''), (TLParen, ''(''),
     (TRParen, '')''), (TLBrace, ''{''), (TRBrace, ''}''), (TLBracket, ''[''), (TRBracket, '']''),
     (TSemicolon, '';''), (TColon, '':''), (TComma, '',''), (TDot, ''.'')]"

(* parser.rs:818-869 token_description *)
definition token_description :: "token \<Rightarrow> string" where
  "token_description t = (case t of
       TEof \<Rightarrow> ''end of file''
     | TIdent n \<Rightarrow> backquoted n
     | TInteger n \<Rightarrow> i64_to_string n
     | TStringLit _ \<Rightarrow> ''string literal''
     | _ \<Rightarrow> (case map_of token_names t of Some n \<Rightarrow> backquoted n | None \<Rightarrow> []))"

definition unexpected :: "string \<Rightarrow> 'a parse_op" where
  "unexpected label = bnd p_tok (\<lambda>t. bnd p_span (\<lambda>s.
     fail (Unexpected_token s label (token_description t))))"

(* parser.rs:97-107 Parser::expect *)
definition p_expect :: "token \<Rightarrow> string \<Rightarrow> span parse_op" where
  "p_expect t label = bnd p_tok (\<lambda>x. if x = t then bnd p_advance (\<lambda>s. ret (tok_span s))
     else unexpected label)"

(* parser.rs:109-121 Parser::expect_ident *)
definition p_expect_ident :: "(string \<times> span) parse_op" where
  "p_expect_ident = bnd p_tok (\<lambda>x. case ident_of x of
       Some name \<Rightarrow> bnd p_advance (\<lambda>s. ret (name, tok_span s))
     | None \<Rightarrow> unexpected ''identifier'')"

(* parser.rs:123-133 Parser::expect_eof *)
definition p_expect_eof :: "unit parse_op" where
  "p_expect_eof = bnd p_tok (\<lambda>x. if x = TEof then ret () else unexpected ''end of file'')"

(* parser.rs:137-142 Parser::at_block_end *)
definition block_end_token :: "token \<Rightarrow> bool" where
  "block_end_token t \<longleftrightarrow> t \<in> {KwEnd, KwElse, KwElseif, KwReturn, TEof}"

text \<open>\<open>if self.check(t) { a } else { b }\<close>, and a loop whose fuel is the number of tokens.\<close>

definition if_check :: "token \<Rightarrow> 'a parse_op \<Rightarrow> 'a parse_op \<Rightarrow> 'a parse_op" where
  "if_check t a b = bnd (p_check t) (\<lambda>c. if c then a else b)"

definition fuelled :: "(nat \<Rightarrow> 'a parse_op) \<Rightarrow> 'a parse_op" where
  "fuelled f p = f (length (ps_tokens p)) p"

text \<open>\<open>while self.check(&Comma) { advance; push(item) }\<close>.\<close>

primrec comma_loop :: "'a parse_op \<Rightarrow> 'a list \<Rightarrow> nat \<Rightarrow> 'a list parse_op" where
  "comma_loop item acc 0 = timeout_op"
| "comma_loop item acc (Suc n) = if_check TComma
     (bnd p_advance (\<lambda>_. bnd item (\<lambda>x. comma_loop item (acc @ [x]) n))) (ret acc)"

definition comma_list :: "'a parse_op \<Rightarrow> 'a list parse_op" where
  "comma_list item = bnd item (\<lambda>x. fuelled (comma_loop item [x]))"

section \<open>Expressions\<close>

definition tool_call_field :: "span \<Rightarrow> span \<Rightarrow> expr" where
  "tool_call_field tool_span call_span = EField (EName ''tool'' tool_span) ''call'' call_span"

definition binop_table :: "(token \<times> bin_op_kind \<times> nat \<times> bool) list" where
  "binop_table = [(KwOr, OpOr, 1, False), (KwAnd, OpAnd, 2, False), (TLt, OpLt, 3, False),
     (TLtEq, OpLe, 3, False), (TGt, OpGt, 3, False), (TGtEq, OpGe, 3, False),
     (TEq, OpEq, 3, False), (TTildeEq, OpNe, 3, False), (TDotDot, OpConcat, 4, True),
     (TPlus, OpAdd, 5, False), (TMinus, OpSub, 5, False), (TStar, OpMul, 6, False),
     (TSlashSlash, OpIDiv, 6, False), (TPercent, OpMod, 6, False)]"

(* parser.rs:500-518 Parser::peek_binop *)
definition peek_binop :: "(bin_op_kind \<times> nat \<times> bool) option parse_op" where
  "peek_binop = bnd p_tok (\<lambda>t. ret (map_of binop_table t))"

definition prefix_op :: "token \<Rightarrow> un_op_kind option" where
  "prefix_op t = (if t = KwNot then Some OpNot else if t = TMinus then Some OpNeg
     else if t = THash then Some OpLen else None)"

type_synonym expr_parser = "nat \<Rightarrow> expr parse_op"
type_synonym block_parser = "block parse_op"

(* parser.rs:474-476 Parser::parse_expr *)
definition parse_expr :: "expr_parser \<Rightarrow> expr parse_op" where
  "parse_expr pe = pe 0"

definition parse_positional :: "expr_parser \<Rightarrow> span \<Rightarrow> table_field parse_op" where
  "parse_positional pe span = bnd (parse_expr pe) (\<lambda>value. ret (Positional value span))"

(* parser.rs:762-794 Parser::parse_table_field *)
definition parse_table_field :: "expr_parser \<Rightarrow> table_field parse_op" where
  "parse_table_field pe = bnd p_span (\<lambda>span.
     if_check TLBracket
       (bnd p_advance (\<lambda>_. bnd (parse_expr pe) (\<lambda>key.
        bnd (p_expect TRBracket (backquoted '']'')) (\<lambda>_.
        bnd (p_expect TAssign (backquoted ''='')) (\<lambda>_.
        bnd (parse_expr pe) (\<lambda>value. ret (ExplicitKey key value span)))))))
       (bnd p_tok (\<lambda>t. bnd p_peek2 (\<lambda>next.
          case ident_of t of
            Some name \<Rightarrow> if map_option tok_of next = Some TAssign then
              bnd p_advance (\<lambda>name_tok. bnd p_advance (\<lambda>_. bnd (parse_expr pe) (\<lambda>value.
                ret (NamedKey name (tok_span name_tok) value span))))
              else parse_positional pe span
          | None \<Rightarrow> parse_positional pe span))))"

primrec table_fields_loop :: "expr_parser \<Rightarrow> table_field list \<Rightarrow> nat \<Rightarrow> table_field list parse_op" where
  "table_fields_loop pe acc 0 = timeout_op"
| "table_fields_loop pe acc (Suc n) = if_check TRBrace (ret acc)
     (bnd (parse_table_field pe) (\<lambda>field. bnd p_tok (\<lambda>t.
        if t = TComma \<or> t = TSemicolon
        then bnd p_advance (\<lambda>_. table_fields_loop pe (acc @ [field]) n)
        else ret (acc @ [field]))))"

(* parser.rs:742-760 Parser::parse_table_constructor *)
definition parse_table_constructor :: "expr_parser \<Rightarrow> expr parse_op" where
  "parse_table_constructor pe = bnd p_span (\<lambda>span.
     bnd (p_expect TLBrace (backquoted ''{'')) (\<lambda>_.
     bnd (fuelled (table_fields_loop pe [])) (\<lambda>fields.
     bnd (p_expect TRBrace (backquoted ''}'')) (\<lambda>_. ret (ETable fields span)))))"

(* parser.rs:711-740 Parser::parse_call_args *)
definition parse_call_args :: "expr_parser \<Rightarrow> expr list parse_op" where
  "parse_call_args pe = bnd p_tok (\<lambda>t.
     if t = TLParen then bnd p_advance (\<lambda>_.
       bnd (if_check TRParen (ret []) (comma_list (parse_expr pe))) (\<lambda>args.
       bnd (p_expect TRParen (backquoted '')'')) (\<lambda>_. ret args)))
     else if t = TLBrace then bnd (parse_table_constructor pe) (\<lambda>tbl. ret [tbl])
     else (case string_of t of
         Some b \<Rightarrow> bnd p_advance (\<lambda>s. ret [EStringLit b (tok_span s)])
       | None \<Rightarrow> unexpected ''function arguments''))"

(* parser.rs:673-709 Parser::parse_tool_or_error *)
definition parse_tool_or_error :: "expr_parser \<Rightarrow> span \<Rightarrow> expr parse_op" where
  "parse_tool_or_error pe tool_span =
     if_check TDot
       (bnd p_advance (\<lambda>_. bnd p_tok (\<lambda>t.
          if t = TIdent ''call''
          then bnd p_advance (\<lambda>call_tok. if_check TLParen
            (bnd (parse_call_args pe) (\<lambda>args.
               ret (ECall (tool_call_field tool_span (tok_span call_tok)) args tool_span)))
            (ret (tool_call_field tool_span (tok_span call_tok))))
          else fail (Tool_as_value tool_span))))
       (fail (Tool_as_value tool_span))"

definition parse_param_loop_item :: "(string \<times> span) parse_op" where
  "parse_param_loop_item = if_check TDotDotDot
     (bnd p_advance (\<lambda>s. fail (Variadic_not_allowed (tok_span s)))) p_expect_ident"

(* parser.rs:439-468 Parser::parse_func_body *)
definition parse_func_body :: "block_parser \<Rightarrow> func_body parse_op" where
  "parse_func_body pb = bnd p_span (\<lambda>span.
     bnd (p_expect TLParen (backquoted ''('')) (\<lambda>_.
     bnd (if_check TRParen (ret []) (comma_list parse_param_loop_item)) (\<lambda>params.
     bnd (p_expect TRParen (backquoted '')'')) (\<lambda>_.
     bnd pb (\<lambda>block.
     bnd (p_expect KwEnd (backquoted ''end'')) (\<lambda>_. ret (FuncBody params block span)))))))"

(* parser.rs:599-662 Parser::parse_primary_atom *)
definition parse_primary_atom :: "expr_parser \<Rightarrow> block_parser \<Rightarrow> expr parse_op" where
  "parse_primary_atom pe pb = bnd p_span (\<lambda>span. bnd p_tok (\<lambda>t.
     if t = KwNil then bnd p_advance (\<lambda>_. ret (ENil span))
     else if t = KwTrue then bnd p_advance (\<lambda>_. ret (ETrue span))
     else if t = KwFalse then bnd p_advance (\<lambda>_. ret (EFalse span))
     else if t = TDotDotDot then bnd p_advance (\<lambda>_. fail (Variadic_not_allowed span))
     else if t = TLParen then bnd p_advance (\<lambda>_. bnd (parse_expr pe) (\<lambda>expr.
       bnd (p_expect TRParen (backquoted '')'')) (\<lambda>_. ret expr)))
     else if t = KwFunction then bnd p_advance (\<lambda>_. bnd (parse_func_body pb) (\<lambda>body.
       ret (EFuncDef body span)))
     else if t = TLBrace then parse_table_constructor pe
     else (case integer_of t of
         Some n \<Rightarrow> bnd p_advance (\<lambda>_. ret (EInteger n span))
       | None \<Rightarrow> (case string_of t of
           Some b \<Rightarrow> bnd p_advance (\<lambda>_. ret (EStringLit b span))
         | None \<Rightarrow> (case ident_of t of
             Some name \<Rightarrow> bnd p_advance (\<lambda>_.
               if name = ''tool'' then parse_tool_or_error pe span
               else if is_disallowed name then fail (Disallowed_ident span name)
               else ret (EName name span))
           | None \<Rightarrow> fail (Expected_expr span))))))"

(* parser.rs:558-594 Parser::parse_suffixed_expr *)
primrec suffix_loop :: "expr_parser \<Rightarrow> expr \<Rightarrow> nat \<Rightarrow> expr parse_op" where
  "suffix_loop pe expr 0 = timeout_op"
| "suffix_loop pe expr (Suc n) = bnd p_tok (\<lambda>t.
     if t = TDot then bnd p_advance (\<lambda>s. bnd p_expect_ident (\<lambda>field.
       suffix_loop pe (EField expr (fst field) (tok_span s)) n))
     else if t = TLBracket then bnd p_advance (\<lambda>s. bnd (parse_expr pe) (\<lambda>key.
       bnd (p_expect TRBracket (backquoted '']'')) (\<lambda>_.
       suffix_loop pe (EIndex expr key (tok_span s)) n)))
     else if t = TColon then bnd p_advance (\<lambda>s. bnd p_expect_ident (\<lambda>m.
       bnd (parse_call_args pe) (\<lambda>args.
       suffix_loop pe (EMethodCall expr (fst m) (snd m) args (tok_span s)) n)))
     else if opens_args t then bnd (parse_call_args pe) (\<lambda>args.
       suffix_loop pe (ECall expr args (expr_span expr)) n)
     else ret expr)"

(* parser.rs:555-597 Parser::parse_suffixed_expr *)
definition parse_suffixed_expr :: "expr_parser \<Rightarrow> block_parser \<Rightarrow> expr parse_op" where
  "parse_suffixed_expr pe pb =
     bnd (parse_primary_atom pe pb) (\<lambda>expr. fuelled (suffix_loop pe expr))"

(* parser.rs:520-552 Parser::parse_unop *)
primrec unop_loop :: "expr_parser \<Rightarrow> block_parser \<Rightarrow> nat \<Rightarrow> expr parse_op" where
  "unop_loop pe pb 0 = timeout_op"
| "unop_loop pe pb (Suc n) = bnd p_span (\<lambda>span. bnd p_tok (\<lambda>t. case prefix_op t of
       Some kind \<Rightarrow> bnd p_advance (\<lambda>_. bnd (unop_loop pe pb n) (\<lambda>operand.
         ret (EUnOp kind operand span)))
     | None \<Rightarrow> parse_suffixed_expr pe pb))"

definition parse_unop :: "expr_parser \<Rightarrow> block_parser \<Rightarrow> expr parse_op" where
  "parse_unop pe pb = fuelled (unop_loop pe pb)"

(* parser.rs:481-494 Parser::parse_binop *)
primrec binop_loop :: "expr_parser \<Rightarrow> nat \<Rightarrow> expr \<Rightarrow> nat \<Rightarrow> expr parse_op" where
  "binop_loop pe min_prec left 0 = timeout_op"
| "binop_loop pe min_prec left (Suc n) = bnd peek_binop (\<lambda>found. case found of
       None \<Rightarrow> ret left
     | Some (kind, prec, right_assoc) \<Rightarrow>
         if prec < min_prec then ret left
         else bnd p_advance (\<lambda>s.
           bnd (pe (if right_assoc then prec else prec + 1)) (\<lambda>right.
           binop_loop pe min_prec (EBinOp kind left right (tok_span s)) n)))"

(* parser.rs:478-497 Parser::parse_binop *)
definition parse_binop :: "expr_parser \<Rightarrow> block_parser \<Rightarrow> nat \<Rightarrow> expr parse_op" where
  "parse_binop pe pb min_prec =
     bnd (parse_unop pe pb) (\<lambda>left. fuelled (binop_loop pe min_prec left))"

section \<open>Statements\<close>

(* parser.rs:801-816 expr_to_assign_target *)
definition expr_to_assign_target :: "expr \<Rightarrow> span \<Rightarrow> assign_target parse_op" where
  "expr_to_assign_target expr span = (case expr of
       EName name s \<Rightarrow> ret (TargetName name s)
     | EField obj field s \<Rightarrow> ret (TargetIndex obj (EStringLit field s) s)
     | EIndex obj key s \<Rightarrow> ret (TargetIndex obj key s)
     | _ \<Rightarrow> fail (Unexpected_token span ''assignable target (variable or table field)''
              ''expression''))"

definition is_call_expr :: "expr \<Rightarrow> bool" where
  "is_call_expr e = (case e of ECall _ _ _ \<Rightarrow> True | EMethodCall _ _ _ _ _ \<Rightarrow> True | _ \<Rightarrow> False)"

(* parser.rs:400-433 Parser::parse_expr_or_assign *)
definition parse_expr_or_assign :: "expr_parser \<Rightarrow> block_parser \<Rightarrow> stmt parse_op" where
  "parse_expr_or_assign pe pb = bnd (parse_suffixed_expr pe pb) (\<lambda>expr.
     if_check TComma (bnd p_span (\<lambda>s. fail (Multi_assign_not_supported s)))
     (if_check TAssign
       (bnd p_advance (\<lambda>s. bnd (parse_expr pe) (\<lambda>value.
        bnd (expr_to_assign_target expr (tok_span s)) (\<lambda>target.
        ret (AssignStmt target value (tok_span s))))))
       (if is_call_expr expr then ret (ExprStmt expr (expr_span expr))
        else fail (Unexpected_token (expr_span expr) ''function call or assignment''
               ''expression''))))"

(* parser.rs:392-397 Parser::parse_do *)
definition parse_do :: "block_parser \<Rightarrow> stmt parse_op" where
  "parse_do pb = bnd p_advance (\<lambda>s. bnd pb (\<lambda>block.
     bnd (p_expect KwEnd (backquoted ''end'')) (\<lambda>_. ret (DoStmt block (tok_span s)))))"

text \<open>The parts of a function name after the first: \<open>.part\<close> repeated, then at most one \<open>:method\<close>.\<close>

(* parser.rs:369-382 Parser::parse_function_decl *)
primrec func_name_loop :: "(string \<times> span) list \<Rightarrow> nat \<Rightarrow> func_name parse_op" where
  "func_name_loop parts 0 = timeout_op"
| "func_name_loop parts (Suc n) = if_check TDot
     (bnd p_advance (\<lambda>_. bnd p_expect_ident (\<lambda>part. func_name_loop (parts @ [part]) n)))
     (if_check TColon
       (bnd p_advance (\<lambda>_. bnd p_expect_ident (\<lambda>m. ret (FuncName parts (Some m)))))
       (ret (FuncName parts None)))"

(* parser.rs:361-390 Parser::parse_function_decl *)
definition parse_function_decl :: "block_parser \<Rightarrow> stmt parse_op" where
  "parse_function_decl pb = bnd p_advance (\<lambda>s. bnd p_expect_ident (\<lambda>first.
     bnd (fuelled (func_name_loop [first])) (\<lambda>name.
     bnd (parse_func_body pb) (\<lambda>func. ret (FunctionDecl name func (tok_span s))))))"

(* parser.rs:306-359 Parser::parse_for *)
definition parse_for :: "expr_parser \<Rightarrow> block_parser \<Rightarrow> stmt parse_op" where
  "parse_for pe pb = bnd p_advance (\<lambda>s. bnd p_expect_ident (\<lambda>first.
     if_check TAssign
       (bnd p_advance (\<lambda>_. bnd (parse_expr pe) (\<lambda>start.
        bnd (p_expect TComma (backquoted '','')) (\<lambda>_. bnd (parse_expr pe) (\<lambda>limit.
        bnd (if_check TComma (bnd p_advance (\<lambda>_. bnd (parse_expr pe) (\<lambda>e. ret (Some e))))
               (ret None)) (\<lambda>step.
        bnd (p_expect KwDo (backquoted ''do'')) (\<lambda>_. bnd pb (\<lambda>block.
        bnd (p_expect KwEnd (backquoted ''end'')) (\<lambda>_.
        ret (NumericFor (fst first) (snd first) start limit step block (tok_span s)))))))))))
       (bnd (fuelled (comma_loop p_expect_ident [first])) (\<lambda>vars.
        bnd (p_expect KwIn (backquoted ''in'')) (\<lambda>_.
        bnd (comma_list (parse_expr pe)) (\<lambda>iterators.
        bnd (p_expect KwDo (backquoted ''do'')) (\<lambda>_. bnd pb (\<lambda>block.
        bnd (p_expect KwEnd (backquoted ''end'')) (\<lambda>_.
        ret (GenericFor vars iterators block (tok_span s)))))))))))"

(* parser.rs:293-304 Parser::parse_while *)
definition parse_while :: "expr_parser \<Rightarrow> block_parser \<Rightarrow> stmt parse_op" where
  "parse_while pe pb = bnd p_advance (\<lambda>s. bnd (parse_expr pe) (\<lambda>condition.
     bnd (p_expect KwDo (backquoted ''do'')) (\<lambda>_. bnd pb (\<lambda>block.
     bnd (p_expect KwEnd (backquoted ''end'')) (\<lambda>_.
     ret (WhileStmt condition block (tok_span s)))))))"

(* parser.rs:263-281 Parser::parse_if *)
primrec elseif_loop :: "expr_parser \<Rightarrow> block_parser \<Rightarrow> elseif_clause list \<Rightarrow> nat \<Rightarrow>
    (elseif_clause list \<times> block option) parse_op" where
  "elseif_loop pe pb clauses 0 = timeout_op"
| "elseif_loop pe pb clauses (Suc n) = if_check KwElseif
     (bnd p_advance (\<lambda>s. bnd (parse_expr pe) (\<lambda>cond.
      bnd (p_expect KwThen (backquoted ''then'')) (\<lambda>_. bnd pb (\<lambda>block.
      elseif_loop pe pb (clauses @ [Elseif cond block (tok_span s)]) n)))))
     (if_check KwElse
       (bnd p_advance (\<lambda>_. bnd pb (\<lambda>block. ret (clauses, Some block))))
       (ret (clauses, None)))"

(* parser.rs:254-291 Parser::parse_if *)
definition parse_if :: "expr_parser \<Rightarrow> block_parser \<Rightarrow> stmt parse_op" where
  "parse_if pe pb = bnd p_advance (\<lambda>s. bnd (parse_expr pe) (\<lambda>condition.
     bnd (p_expect KwThen (backquoted ''then'')) (\<lambda>_. bnd pb (\<lambda>then_block.
     bnd (fuelled (elseif_loop pe pb [])) (\<lambda>rest.
     bnd (p_expect KwEnd (backquoted ''end'')) (\<lambda>_.
     ret (IfStmt condition then_block (fst rest) (snd rest) (tok_span s))))))))"

(* parser.rs:212-252 Parser::parse_local *)
definition parse_local :: "expr_parser \<Rightarrow> block_parser \<Rightarrow> stmt parse_op" where
  "parse_local pe pb = bnd p_advance (\<lambda>s.
     if_check KwFunction
       (bnd p_advance (\<lambda>_. bnd p_expect_ident (\<lambda>name. bnd (parse_func_body pb) (\<lambda>func.
        ret (LocalFunctionDecl (fst name) (snd name) func (tok_span s))))))
       (bnd (comma_list p_expect_ident) (\<lambda>names.
        bnd (if_check TAssign (bnd p_advance (\<lambda>_. comma_list (parse_expr pe))) (ret []))
          (\<lambda>values. ret (LocalDecl names values (tok_span s))))))"

(* parser.rs:196-210 Parser::parse_stat *)
definition parse_stat :: "expr_parser \<Rightarrow> block_parser \<Rightarrow> stmt parse_op" where
  "parse_stat pe pb = bnd p_tok (\<lambda>t.
     if t = KwLocal then parse_local pe pb
     else if t = KwIf then parse_if pe pb
     else if t = KwWhile then parse_while pe pb
     else if t = KwFor then parse_for pe pb
     else if t = KwFunction then parse_function_decl pb
     else if t = KwDo then parse_do pb
     else if t = KwBreak then bnd p_advance (\<lambda>s. ret (BreakStmt (tok_span s)))
     else parse_expr_or_assign pe pb)"

section \<open>Blocks and the whole parser\<close>

(* parser.rs:179-190 Parser::parse_return *)
definition parse_return :: "expr_parser \<Rightarrow> return_stmt parse_op" where
  "parse_return pe = bnd p_span (\<lambda>span. bnd p_advance (\<lambda>_. bnd p_tok (\<lambda>t.
     if block_end_token t \<or> t = TSemicolon then ret (ReturnStmt None span)
     else bnd (parse_expr pe) (\<lambda>e. ret (ReturnStmt (Some e) span)))))"

primrec skip_semicolons :: "nat \<Rightarrow> unit parse_op" where
  "skip_semicolons 0 = timeout_op"
| "skip_semicolons (Suc n) =
     if_check TSemicolon (bnd p_advance (\<lambda>_. skip_semicolons n)) (ret ())"

(* parser.rs:153-174 Parser::parse_block *)
primrec block_loop :: "expr_parser \<Rightarrow> block_parser \<Rightarrow> stmt list \<Rightarrow> nat \<Rightarrow>
    (stmt list \<times> return_stmt option) parse_op" where
  "block_loop pe pb stmts 0 = timeout_op"
| "block_loop pe pb stmts (Suc n) = bnd (fuelled skip_semicolons) (\<lambda>_. bnd p_tok (\<lambda>t.
     if t = KwReturn then bnd (parse_return pe) (\<lambda>r.
       if_check TSemicolon (bnd p_advance (\<lambda>_. ret (stmts, Some r))) (ret (stmts, Some r)))
     else if block_end_token t then ret (stmts, None)
     else bnd (parse_stat pe pb) (\<lambda>s. block_loop pe pb (stmts @ [s]) n)))"

(* parser.rs:148-177 Parser::parse_block *)
definition parse_block :: "expr_parser \<Rightarrow> block_parser \<Rightarrow> block parse_op" where
  "parse_block pe pb = bnd p_span (\<lambda>span.
     bnd (fuelled (block_loop pe pb [])) (\<lambda>r. ret (Block (fst r) (snd r) span)))"

text \<open>The recursion, with fuel.\<close>

fun parse_binop_rec :: "nat \<Rightarrow> expr_parser" and parse_block_rec :: "nat \<Rightarrow> block_parser" where
  "parse_binop_rec 0 = (\<lambda>_. timeout_op)"
| "parse_binop_rec (Suc n) = parse_binop (parse_binop_rec n) (parse_block_rec n)"
| "parse_block_rec 0 = timeout_op"
| "parse_block_rec (Suc n) = parse_block (parse_binop_rec n) (parse_block_rec n)"

definition parse_tokens :: "spanned_token list \<Rightarrow> (parse_error, block) outcome" where
  "parse_tokens ts = fst (bnd (parse_block_rec (length ts)) (\<lambda>block.
     bnd p_expect_eof (\<lambda>_. ret block)) (new_parser ts))"

(* parser.rs:16-22 parse *)
definition parse :: "string \<Rightarrow> (parse_error, block) outcome" where
  "parse src = (case tokenize src of
       Ok ts \<Rightarrow> parse_tokens ts
     | Err e \<Rightarrow> Err e | Panic p \<Rightarrow> Panic p | Timeout \<Rightarrow> Timeout)"

end
