(* ===== verification/Lua_Parser_Facts.thy ===== *)
theory Lua_Parser_Facts
  imports Lua_Parser
begin

text \<open>
  What the parser guarantees. \<open>parses T n k m Q\<close> is the contract every parse function satisfies: from
  a state whose current token satisfies \<open>T\<close> and that has at most \<open>n\<close> tokens left, \<open>m\<close> ends (no panic,
  no exhausted fuel), and when it succeeds it has used up at least \<open>k\<close> tokens and its value satisfies
  \<open>Q\<close>. The locale \<open>parser_knots\<close> states the contract of the two recursion points; the contract of
  every parse function is proved once inside it.
\<close>

section \<open>Which names a tree may refer to\<close>

definition name_ok :: "string \<Rightarrow> bool" where
  "name_ok n \<longleftrightarrow> \<not> is_disallowed n \<and> n \<noteq> ''tool''"

definition is_tool_call_field :: "expr \<Rightarrow> string \<Rightarrow> bool" where
  "is_tool_call_field e f \<longleftrightarrow> f = ''call'' \<and> (case e of EName n _ \<Rightarrow> n = ''tool'' | _ \<Rightarrow> False)"

primrec expr_ok :: "expr \<Rightarrow> bool" and field_ok :: "table_field \<Rightarrow> bool"
  and func_ok :: "func_body \<Rightarrow> bool" and block_ok :: "block \<Rightarrow> bool"
  and return_ok :: "return_stmt \<Rightarrow> bool" and target_ok :: "assign_target \<Rightarrow> bool"
  and elseif_ok :: "elseif_clause \<Rightarrow> bool" and stmt_ok :: "stmt \<Rightarrow> bool" where
  "expr_ok (ENil s) \<longleftrightarrow> True"
| "expr_ok (ETrue s) \<longleftrightarrow> True"
| "expr_ok (EFalse s) \<longleftrightarrow> True"
| "expr_ok (EInteger n s) \<longleftrightarrow> True"
| "expr_ok (EStringLit b s) \<longleftrightarrow> True"
| "expr_ok (EVararg s) \<longleftrightarrow> False"
| "expr_ok (EName n s) \<longleftrightarrow> name_ok n"
| "expr_ok (ETable fs s) \<longleftrightarrow> list_all (\<lambda>b. b) (map field_ok fs)"
| "expr_ok (EIndex e k s) \<longleftrightarrow> expr_ok e \<and> expr_ok k"
| "expr_ok (EField e f s) \<longleftrightarrow> is_tool_call_field e f \<or> expr_ok e"
| "expr_ok (EMethodCall e m ms args s) \<longleftrightarrow> expr_ok e \<and> list_all (\<lambda>b. b) (map expr_ok args)"
| "expr_ok (ECall e args s) \<longleftrightarrow> expr_ok e \<and> list_all (\<lambda>b. b) (map expr_ok args)"
| "expr_ok (EBinOp k l r s) \<longleftrightarrow> expr_ok l \<and> expr_ok r"
| "expr_ok (EUnOp k e s) \<longleftrightarrow> expr_ok e"
| "expr_ok (EFuncDef f s) \<longleftrightarrow> func_ok f"
| "field_ok (ExplicitKey k v s) \<longleftrightarrow> expr_ok k \<and> expr_ok v"
| "field_ok (NamedKey n ns v s) \<longleftrightarrow> expr_ok v"
| "field_ok (Positional v s) \<longleftrightarrow> expr_ok v"
| "func_ok (FuncBody ps b s) \<longleftrightarrow> block_ok b"
| "block_ok (Block ss r s) \<longleftrightarrow> list_all (\<lambda>b. b) (map stmt_ok ss) \<and>
     pred_option (\<lambda>b. b) (map_option return_ok r)"
| "return_ok (ReturnStmt v s) \<longleftrightarrow> pred_option (\<lambda>b. b) (map_option expr_ok v)"
| "target_ok (TargetName n s) \<longleftrightarrow> name_ok n"
| "target_ok (TargetIndex e k s) \<longleftrightarrow> expr_ok k \<and>
     (expr_ok e \<or> (\<exists>f s'. k = EStringLit f s' \<and> is_tool_call_field e f))"
| "elseif_ok (Elseif c b s) \<longleftrightarrow> expr_ok c \<and> block_ok b"
| "stmt_ok (LocalDecl ns vs s) \<longleftrightarrow> list_all (\<lambda>b. b) (map expr_ok vs)"
| "stmt_ok (AssignStmt t v s) \<longleftrightarrow> target_ok t \<and> expr_ok v"
| "stmt_ok (IfStmt c b es e s) \<longleftrightarrow> expr_ok c \<and> block_ok b \<and> list_all (\<lambda>b. b) (map elseif_ok es) \<and>
     pred_option (\<lambda>b. b) (map_option block_ok e)"
| "stmt_ok (WhileStmt c b s) \<longleftrightarrow> expr_ok c \<and> block_ok b"
| "stmt_ok (NumericFor v vs a l st b s) \<longleftrightarrow> expr_ok a \<and> expr_ok l \<and>
     pred_option (\<lambda>b. b) (map_option expr_ok st) \<and> block_ok b"
| "stmt_ok (GenericFor vs es b s) \<longleftrightarrow> list_all (\<lambda>b. b) (map expr_ok es) \<and> block_ok b"
| "stmt_ok (FunctionDecl n f s) \<longleftrightarrow> fn_parts n \<noteq> [] \<and> func_ok f"
| "stmt_ok (LocalFunctionDecl n ns f s) \<longleftrightarrow> func_ok f"
| "stmt_ok (ExprStmt e s) \<longleftrightarrow> is_call_expr e \<and> expr_ok e"
| "stmt_ok (BreakStmt s) \<longleftrightarrow> True"
| "stmt_ok (DoStmt b s) \<longleftrightarrow> block_ok b"

lemma list_all_map_id [simp]: "list_all (\<lambda>b. b) (map f xs) \<longleftrightarrow> list_all f xs"
  by (simp add: list_all_iff)

lemma pred_option_map_id [simp]: "pred_option (\<lambda>b. b) (map_option f x) \<longleftrightarrow> pred_option f x"
  by (cases x) simp_all

section \<open>The contract of a parse function\<close>

definition p_good :: "parser \<Rightarrow> bool" where
  "p_good p \<longleftrightarrow> ps_pos p < length (ps_tokens p) \<and> tok_of (last (ps_tokens p)) = TEof"

definition p_left :: "parser \<Rightarrow> nat" where
  "p_left p = length (ps_tokens p) - ps_pos p"

definition p_cur :: "parser \<Rightarrow> spanned_token" where
  "p_cur p = ps_tokens p ! ps_pos p"

definition any :: "token \<Rightarrow> bool" where
  "any t \<longleftrightarrow> True"

definition fits :: "nat \<Rightarrow> parser \<Rightarrow> ('a \<Rightarrow> bool) \<Rightarrow> (parse_error, 'a) outcome \<times> parser \<Rightarrow> bool" where
  "fits k p Q r \<longleftrightarrow> (case fst r of
       Ok a \<Rightarrow> p_good (snd r) \<and> ps_tokens (snd r) = ps_tokens p \<and> p_left (snd r) + k \<le> p_left p \<and> Q a
     | Err _ \<Rightarrow> True
     | _ \<Rightarrow> False)"

definition parses :: "(token \<Rightarrow> bool) \<Rightarrow> nat \<Rightarrow> nat \<Rightarrow> 'a parse_op \<Rightarrow> ('a \<Rightarrow> bool) \<Rightarrow> bool" where
  "parses T n k m Q \<longleftrightarrow> (\<forall>p. p_good p \<longrightarrow> p_left p \<le> n \<longrightarrow> T (tok_of (p_cur p)) \<longrightarrow> fits k p Q (m p))"

lemma fits_simps [simp]:
  "fits k p Q (Ok a, p') \<longleftrightarrow>
     p_good p' \<and> ps_tokens p' = ps_tokens p \<and> p_left p' + k \<le> p_left p \<and> Q a"
  "fits k p Q (Err e, p')" "\<not> fits k p Q (Panic c, p')" "\<not> fits k p Q (Timeout, p')"
  by (simp_all add: fits_def)

lemma fits_step:
  "ps_tokens p' = ps_tokens p \<Longrightarrow> p_left p' + j \<le> p_left p \<Longrightarrow> fits (k - j) p' Q r \<Longrightarrow> fits k p Q r"
  by (auto simp: fits_def split: outcome.splits)

lemma fits_mono:
  "fits k p Q r \<Longrightarrow> k' \<le> k \<Longrightarrow> (\<And>a. Q a \<Longrightarrow> Q' a) \<Longrightarrow> fits k' p Q' r"
  by (auto simp: fits_def split: outcome.splits)

lemma any_simp [simp]: "any t"
  by (simp add: any_def)

lemma p_left_pos: "p_good p \<Longrightarrow> 1 \<le> p_left p"
  by (auto simp: p_good_def p_left_def)

lemma p_peek_good: "p_good p \<Longrightarrow> p_peek p = (Ok (p_cur p), p)"
  by (simp add: p_peek_def p_good_def index_or_panic_def p_cur_def)

lemma p_tok_good: "p_good p \<Longrightarrow> p_tok p = (Ok (tok_of (p_cur p)), p)"
  by (simp add: p_tok_def bnd_def p_peek_good)

lemma p_span_good: "p_good p \<Longrightarrow> p_span p = (Ok (tok_span (p_cur p)), p)"
  by (simp add: p_span_def bnd_def p_peek_good)

lemma p_check_good: "p_good p \<Longrightarrow> p_check t p = (Ok (tok_of (p_cur p) = t), p)"
  by (simp add: p_check_def bnd_def p_tok_good)

lemma p_advance_good:
  assumes "p_good p" and "tok_of (p_cur p) \<noteq> TEof"
  shows "\<exists>p'. p_advance p = (Ok (p_cur p), p') \<and> p_good p' \<and> ps_tokens p' = ps_tokens p
    \<and> p_left p' + 1 = p_left p"
proof -
  have "ps_pos p + 1 < length (ps_tokens p)"
  proof (rule ccontr)
    assume "\<not> ps_pos p + 1 < length (ps_tokens p)"
    with assms(1) have "ps_pos p = length (ps_tokens p) - 1" "ps_tokens p \<noteq> []"
      by (auto simp: p_good_def)
    then have "p_cur p = last (ps_tokens p)" by (simp add: p_cur_def last_conv_nth)
    with assms show False by (simp add: p_good_def)
  qed
  then show ?thesis using assms(1)
    by (auto simp: p_advance_def bnd_def p_peek_good p_good_def p_left_def)
qed

lemma parsesI:
  "(\<And>p. p_good p \<Longrightarrow> p_left p \<le> n \<Longrightarrow> T (tok_of (p_cur p)) \<Longrightarrow> fits k p Q (m p)) \<Longrightarrow> parses T n k m Q"
  by (simp add: parses_def)

lemma parsesD:
  "parses T n k m Q \<Longrightarrow> p_good p \<Longrightarrow> p_left p \<le> n \<Longrightarrow> T (tok_of (p_cur p)) \<Longrightarrow> fits k p Q (m p)"
  by (simp add: parses_def)

lemma parses_ret: "k = 0 \<Longrightarrow> Q a \<Longrightarrow> parses T n k (ret a) Q"
  by (simp add: parses_def)

lemma parses_0 [simp]: "parses T 0 k m Q"
  unfolding parses_def using p_left_pos by fastforce

lemma parses_fail: "parses T n k (fail e) Q"
  by (simp add: parses_def)

lemma parses_weaken:
  "parses T n k m Q \<Longrightarrow> n' \<le> n \<Longrightarrow> k' \<le> k \<Longrightarrow> (\<And>t. T' t \<Longrightarrow> T t) \<Longrightarrow> (\<And>a. Q a \<Longrightarrow> Q' a) \<Longrightarrow>
     parses T' n' k' m Q'"
  by (rule parsesI, rule fits_mono, erule parsesD) auto

lemma parses_bnd:
  assumes m: "parses T n j m R" and f: "\<And>a. R a \<Longrightarrow> parses any (n - j) (k - j) (f a) Q"
  shows "parses T n k (bnd m f) Q"
proof (rule parsesI)
  fix p assume p: "p_good p" "p_left p \<le> n" "T (tok_of (p_cur p))"
  obtain r p' where mp: "m p = (r, p')" by fastforce
  have fit: "fits j p R (r, p')" using parsesD [OF m p] mp by simp
  show "fits k p Q (bnd m f p)"
  proof (cases r)
    case (Ok a)
    with fit have a: "p_good p'" "ps_tokens p' = ps_tokens p" "p_left p' + j \<le> p_left p" "R a"
      by auto
    then have "fits (k - j) p' Q (f a p')" using p by (intro parsesD [OF f]) auto
    with a mp Ok show ?thesis by (simp add: bnd_def fits_step)
  qed (use fit mp in \<open>auto simp: bnd_def\<close>)
qed

lemma parses_tok:
  assumes "\<And>t. T t \<Longrightarrow> parses ((=) t) n k (f t) Q"
  shows "parses T n k (bnd p_tok f) Q"
proof (rule parsesI)
  fix p assume p: "p_good p" "p_left p \<le> n" "T (tok_of (p_cur p))"
  then show "fits k p Q (bnd p_tok f p)"
    using parsesD [OF assms [OF p(3)] p(1,2)] by (simp add: bnd_def p_tok_good)
qed

lemma parses_span:
  assumes "\<And>s. parses T n k (f s) Q"
  shows "parses T n k (bnd p_span f) Q"
proof (rule parsesI)
  fix p assume p: "p_good p" "p_left p \<le> n" "T (tok_of (p_cur p))"
  then show "fits k p Q (bnd p_span f p)"
    using parsesD [OF assms p] by (simp add: bnd_def p_span_good)
qed

lemma parses_peek2:
  assumes "\<And>s. parses T n k (f s) Q"
  shows "parses T n k (bnd p_peek2 f) Q"
proof (rule parsesI)
  fix p assume p: "p_good p" "p_left p \<le> n" "T (tok_of (p_cur p))"
  show "fits k p Q (bnd p_peek2 f p)"
    using parsesD [OF assms p] by (simp add: bnd_def p_peek2_def)
qed

lemma parses_advance:
  assumes "\<And>t. T t \<Longrightarrow> t \<noteq> TEof" and "\<And>s. parses any (n - 1) (k - 1) (f s) Q"
  shows "parses T n k (bnd p_advance f) Q"
proof -
  have "parses T n 1 p_advance (\<lambda>_. True)"
  proof (rule parsesI)
    fix p assume p: "p_good p" "T (tok_of (p_cur p))"
    then obtain p' where "p_advance p = (Ok (p_cur p), p')" "p_good p'"
        "ps_tokens p' = ps_tokens p" "p_left p' + 1 = p_left p"
      using p_advance_good assms(1) by blast
    then show "fits 1 p (\<lambda>_. True) (p_advance p)" by simp
  qed
  then show ?thesis using assms(2) by (intro parses_bnd)
qed

lemma parses_advance_any:
  assumes "\<And>s. parses any n k (f s) Q"
  shows "parses T n k (bnd p_advance f) Q"
proof (rule parses_bnd [where j = 0])
  show "parses T n 0 p_advance (\<lambda>_. True)"
  proof (rule parsesI)
    fix p assume p: "p_good p"
    show "fits 0 p (\<lambda>_. True) (p_advance p)"
    proof (cases "tok_of (p_cur p) = TEof")
      case False
      then show ?thesis using p_advance_good [OF p] by auto
    qed (use p in \<open>auto simp: p_advance_def bnd_def p_peek_good p_good_def p_left_def\<close>)
  qed
qed (use assms in simp)

lemma parses_check:
  assumes "T t \<Longrightarrow> parses ((=) t) n k a Q" and "parses (\<lambda>x. T x \<and> x \<noteq> t) n k b Q"
  shows "parses T n k (if_check t a b) Q"
  by (rule parsesI) (use assms in \<open>auto simp: if_check_def bnd_def p_check_good intro: parsesD\<close>)

lemma parses_if:
  "(c \<Longrightarrow> parses T n k a Q) \<Longrightarrow> (\<not> c \<Longrightarrow> parses T n k b Q) \<Longrightarrow> parses T n k (if c then a else b) Q"
  by simp

lemma parses_option:
  "(x = None \<Longrightarrow> parses T n k a Q) \<Longrightarrow> (\<And>y. x = Some y \<Longrightarrow> parses T n k (f y) Q) \<Longrightarrow>
     parses T n k (case x of None \<Rightarrow> a | Some y \<Rightarrow> f y) Q"
  by (simp split: option.split)

lemma parses_unexpected: "parses T n k (unexpected label) Q"
  unfolding unexpected_def by (intro parses_tok parses_span parses_fail)

lemma parses_expect:
  "t \<noteq> TEof \<Longrightarrow> parses T n 1 (p_expect t label) (\<lambda>_. True)"
  unfolding p_expect_def
  by (intro parses_tok parses_if parses_unexpected parses_advance) (auto intro: parses_ret)

lemma ident_of_Some [simp]: "ident_of t = Some n \<longleftrightarrow> t = TIdent n"
  by (cases t) (auto simp: ident_of_def)

lemma string_of_Some [simp]: "string_of t = Some n \<longleftrightarrow> t = TStringLit n"
  by (cases t) (auto simp: string_of_def)

lemma integer_of_Some [simp]: "integer_of t = Some n \<longleftrightarrow> t = TInteger n"
  by (cases t) (auto simp: integer_of_def)

lemma parses_ident: "parses T n 1 p_expect_ident (\<lambda>_. True)"
  unfolding p_expect_ident_def
  by (intro parses_tok parses_option parses_unexpected parses_advance) (auto intro: parses_ret)

lemma parses_eof: "parses T n 0 p_expect_eof (\<lambda>_. True)"
  unfolding p_expect_eof_def
  by (intro parses_tok parses_if parses_unexpected) (auto intro: parses_ret)

lemma parses_expect_bnd:
  "t \<noteq> TEof \<Longrightarrow> (\<And>s. parses any (n - 1) (k - 1) (f s) Q) \<Longrightarrow> parses T n k (bnd (p_expect t label) f) Q"
  by (rule parses_bnd [OF parses_expect]) auto

lemma parses_ident_bnd:
  "(\<And>s. parses any (n - 1) (k - 1) (f s) Q) \<Longrightarrow> parses T n k (bnd p_expect_ident f) Q"
  by (rule parses_bnd [OF parses_ident]) auto

text \<open>A loop whose rounds each use up a token needs at most as many rounds as tokens are left.\<close>

lemma parses_fuelled:
  assumes "\<And>m b. m \<le> n \<Longrightarrow> m \<le> b \<Longrightarrow> parses T m k (f b) Q"
  shows "parses T n k (fuelled f) Q"
proof (rule parsesI)
  fix p assume "p_good p" "p_left p \<le> n" "T (tok_of (p_cur p))"
  moreover have "p_left p \<le> length (ps_tokens p)" by (simp add: p_left_def)
  ultimately show "fits k p Q (fuelled f p)"
    using assms [of "p_left p" "length (ps_tokens p)"] by (simp add: parsesD fuelled_def)
qed

lemma parses_fuelled_bnd:
  assumes "\<And>m b. m \<le> n \<Longrightarrow> m \<le> b \<Longrightarrow> parses T m j (g b) R"
    and "\<And>a. R a \<Longrightarrow> parses any (n - j) (k - j) (f a) Q"
  shows "parses T n k (bnd (fuelled g) f) Q"
  using parses_fuelled [OF assms(1)] assms(2) by (rule parses_bnd)

lemma parses_comma_loop:
  assumes item: "\<And>m. m < n \<Longrightarrow> parses any m 1 item R"
  shows "m \<le> n \<Longrightarrow> m \<le> b \<Longrightarrow> list_all R acc \<Longrightarrow> parses T m 0 (comma_loop item acc b) (list_all R)"
proof (induction b arbitrary: m acc T)
  case (Suc b)
  show ?case
  proof (cases m)
    case (Suc m')
    have loop: "R x \<Longrightarrow> parses any (m' - 1) 0 (comma_loop item (acc @ [x]) b) (list_all R)" for x
      using Suc Suc.prems by (intro Suc.IH) auto
    have "parses any m' 1 item R" using Suc Suc.prems by (intro item) simp
    then have "parses any m' 0 (bnd item (\<lambda>x. comma_loop item (acc @ [x]) b)) (list_all R)"
      by (rule parses_bnd) (use loop in simp)
    then show ?thesis using Suc Suc.prems
      by (auto intro!: parses_check parses_advance parses_ret)
  qed simp
qed simp

lemma parses_comma_list:
  assumes "\<And>m. m \<le> n \<Longrightarrow> parses any m 1 item R"
  shows "parses any n 1 (comma_list item) (list_all R)"
  unfolding comma_list_def
proof (rule parses_bnd)
  show "parses any n 1 item R" by (rule assms) simp
  fix x assume "R x"
  then show "parses any (n - 1) (1 - 1) (fuelled (comma_loop item [x])) (list_all R)"
    using parses_comma_loop [of n item R] assms by (intro parses_fuelled) auto
qed


section \<open>Expressions\<close>

locale parser_knots =
  fixes pe :: expr_parser and pb :: block_parser and bound :: nat
  assumes knot_expr: "parses any bound 1 (pe prec) expr_ok"
    and knot_block: "parses any bound 0 pb block_ok"
begin

lemma binop_operand: "n \<le> bound \<Longrightarrow> parses T n 1 (pe prec) expr_ok"
  by (rule parses_weaken [OF knot_expr]) auto

lemma expr: "n \<le> bound \<Longrightarrow> parses T n 1 (parse_expr pe) expr_ok"
  unfolding parse_expr_def by (rule binop_operand)

lemma blk: "n \<le> bound \<Longrightarrow> parses T n 0 pb block_ok"
  by (rule parses_weaken [OF knot_block]) auto

lemma expr_bnd:
  "n \<le> bound \<Longrightarrow> (\<And>e. expr_ok e \<Longrightarrow> parses any (n - 1) (k - 1) (f e) Q) \<Longrightarrow>
     parses T n k (bnd (parse_expr pe) f) Q"
  by (rule parses_bnd [OF expr])

lemma block_bnd:
  assumes "n \<le> bound" and "\<And>b. block_ok b \<Longrightarrow> parses any n k (f b) Q"
  shows "parses T n k (bnd pb f) Q"
  by (rule parses_bnd [OF blk]) (use assms in auto)

lemma exprs: "n \<le> bound \<Longrightarrow> parses any n 1 (comma_list (parse_expr pe)) (list_all expr_ok)"
  by (rule parses_comma_list) (rule expr, simp)

lemma positional: "n \<le> bound \<Longrightarrow> parses T n 1 (parse_positional pe s) field_ok"
  unfolding parse_positional_def by (intro expr_bnd parses_ret) auto

lemma table_field: "n \<le> bound \<Longrightarrow> k \<le> 1 \<Longrightarrow> parses T n k (parse_table_field pe) field_ok"
proof (rule parses_weaken [where k = 1 and n = n and T = any and Q = field_ok])
  assume n: "n \<le> bound"
  have named: "ident_of t = Some name \<Longrightarrow> parses ((=) t) n 1 (bnd p_advance (\<lambda>name_tok. bnd p_advance (\<lambda>_.
      bnd (parse_expr pe) (\<lambda>value. ret (NamedKey name (tok_span name_tok) value span))))) field_ok"
    for name span t
    using n by (intro parses_advance parses_advance_any [where n = "n - 1"] expr_bnd parses_ret) auto
  show "parses any n 1 (parse_table_field pe) field_ok"
    unfolding parse_table_field_def using n
    by (intro parses_span parses_check parses_tok parses_peek2 parses_option parses_if positional named;
        auto intro!: parses_advance expr_bnd parses_expect_bnd parses_ret)
qed auto

lemma table_fields:
  "n \<le> bound \<Longrightarrow> n \<le> b \<Longrightarrow> list_all field_ok acc \<Longrightarrow> k = 0 \<Longrightarrow>
     parses T n k (table_fields_loop pe acc b) (list_all field_ok)"
proof (induction b arbitrary: n acc k T)
  case (Suc b)
  have rest: "field_ok f \<Longrightarrow> parses any (n - 1) 0 (bnd p_tok (\<lambda>t. if t = TComma \<or> t = TSemicolon
      then bnd p_advance (\<lambda>_. table_fields_loop pe (acc @ [f]) b)
      else ret (acc @ [f]))) (list_all field_ok)" for f
    using Suc.prems by (intro parses_tok parses_if parses_advance parses_ret Suc.IH) auto
  have "parses T n 0 (bnd (parse_table_field pe) (\<lambda>f. bnd p_tok (\<lambda>t.
      if t = TComma \<or> t = TSemicolon
      then bnd p_advance (\<lambda>_. table_fields_loop pe (acc @ [f]) b)
      else ret (acc @ [f])))) (list_all field_ok)" for T
    using rest by (intro parses_bnd [OF table_field [OF Suc.prems(1), of 1]]) auto
  then show ?case using Suc.prems by (auto intro!: parses_check parses_ret)
qed simp

lemma table: "n \<le> Suc bound \<Longrightarrow> parses T n 1 (parse_table_constructor pe) expr_ok"
proof -
  assume n: "n \<le> Suc bound"
  have "parses any (n - 1) 0 (fuelled (table_fields_loop pe [])) (list_all field_ok)"
    by (rule parses_fuelled, rule table_fields) (use n in auto)
  then have "parses any (n - 1) 0 (bnd (fuelled (table_fields_loop pe [])) (\<lambda>fields.
      bnd (p_expect TRBrace (backquoted ''}'')) (\<lambda>_. ret (ETable fields span)))) expr_ok" for span
    by (rule parses_bnd) (auto intro!: parses_expect_bnd parses_ret)
  then show ?thesis unfolding parse_table_constructor_def
    by (intro parses_span parses_expect_bnd) auto
qed

lemma args_inside:
  "n \<le> bound \<Longrightarrow> parses any n 0 (if_check TRParen (ret []) (comma_list (parse_expr pe))) (list_all expr_ok)"
  by (intro parses_check parses_ret parses_weaken [OF exprs]) auto

lemma call_args: "n \<le> Suc bound \<Longrightarrow> k \<le> 1 \<Longrightarrow> parses T n k (parse_call_args pe) (list_all expr_ok)"
proof (rule parses_weaken [where k = 1 and n = n and T = any])
  assume n: "n \<le> Suc bound"
  have paren: "parses any (n - 1) 0 (bnd (if_check TRParen (ret []) (comma_list (parse_expr pe)))
      (\<lambda>args. bnd (p_expect TRParen (backquoted '')'')) (\<lambda>_. ret args))) (list_all expr_ok)"
    by (rule parses_bnd [OF args_inside]) (use n in \<open>auto intro!: parses_expect_bnd parses_ret\<close>)
  have table: "parses T' n 1 (bnd (parse_table_constructor pe) (\<lambda>tbl. ret [tbl])) (list_all expr_ok)" for T'
    using n by (intro parses_bnd [OF table] parses_ret) auto
  show "parses any n 1 (parse_call_args pe) (list_all expr_ok)"
    unfolding parse_call_args_def using paren table
    by (intro parses_tok parses_if parses_option parses_unexpected parses_advance; (simp add: parses_ret)?; auto)
qed auto


lemma func_body: "n \<le> Suc bound \<Longrightarrow> k \<le> 1 \<Longrightarrow> parses T n k (parse_func_body pb) func_ok"
proof (rule parses_weaken [where k = 1 and n = n and T = any and Q = func_ok])
  assume n: "n \<le> Suc bound"
  have param: "parses any m 1 parse_param_loop_item (\<lambda>_. True)" for m
    unfolding parse_param_loop_item_def
    by (intro parses_check parses_advance parses_fail parses_weaken [OF parses_ident]) auto
  have "parses any (n - 1) 0 (if_check TRParen (ret []) (comma_list parse_param_loop_item))
      (list_all (\<lambda>_. True))"
    by (intro parses_check parses_ret parses_weaken [OF parses_comma_list [OF param]]) auto
  then have "parses any (n - 1) 0 (bnd (if_check TRParen (ret []) (comma_list parse_param_loop_item))
      (\<lambda>params. bnd (p_expect TRParen (backquoted '')'')) (\<lambda>_. bnd pb (\<lambda>block.
         bnd (p_expect KwEnd (backquoted ''end'')) (\<lambda>_. ret (FuncBody params block span)))))) func_ok"
    for span
    by (rule parses_bnd) (use n in \<open>auto intro!: parses_expect_bnd block_bnd parses_ret\<close>)
  then show "parses any n 1 (parse_func_body pb) func_ok"
    unfolding parse_func_body_def by (intro parses_span parses_expect_bnd) auto
qed auto

lemma tool: "n \<le> bound \<Longrightarrow> parses any n 0 (parse_tool_or_error pe s) expr_ok"
proof -
  assume n: "n \<le> bound"
  have t: "expr_ok (tool_call_field s s')" for s'
    by (simp add: tool_call_field_def is_tool_call_field_def)
  have call: "parses T m 0 (bnd (parse_call_args pe) (\<lambda>args. ret (ECall (tool_call_field s s') args s))) expr_ok"
    if "m \<le> bound" for T m s'
    using that t by (intro parses_bnd [OF call_args [where k = 1]] parses_ret) auto
  show ?thesis unfolding parse_tool_or_error_def
    by (intro parses_check parses_advance parses_tok parses_if parses_fail; (rule parses_ret)?;
        use n t call in auto)
qed

lemma primary: "n \<le> Suc bound \<Longrightarrow> parses T n 1 (parse_primary_atom pe pb) expr_ok"
proof -
  assume n: "n \<le> Suc bound"
  have m: "n - Suc 0 \<le> bound" using n by simp
  have name: "parses any (n - Suc 0) 0 (if nm = ''tool'' then parse_tool_or_error pe span
      else if is_disallowed nm then fail (Disallowed_ident span nm) else ret (EName nm span)) expr_ok"
    for nm span
    using n by (intro parses_if parses_fail parses_ret tool) (auto simp: name_ok_def)
  have paren: "parses any (n - Suc 0) 0 (bnd (parse_expr pe) (\<lambda>expr.
      bnd (p_expect TRParen (backquoted '')'')) (\<lambda>_. ret expr))) expr_ok"
    using n by (intro expr_bnd parses_expect_bnd parses_ret) auto
  have func: "parses any (n - Suc 0) 0 (bnd (parse_func_body pb) (\<lambda>body. ret (EFuncDef body span))) expr_ok"
    for span
    using n by (intro parses_bnd [OF func_body [where k = 1]] parses_ret) auto
  show ?thesis unfolding parse_primary_atom_def
    by (intro parses_span parses_tok parses_if parses_option parses_fail table n parses_advance;
        (simp add: name paren func parses_ret; fail)?; auto intro!: tool parses_ret simp: name_ok_def m)
qed

lemma suffix:
  "n \<le> Suc bound \<Longrightarrow> n \<le> b \<Longrightarrow> expr_ok e \<Longrightarrow> k = 0 \<Longrightarrow> parses T n k (suffix_loop pe e b) expr_ok"
proof (induction b arbitrary: n e T k)
  case (Suc b)
  have field: "parses any (n - Suc 0) 0 (bnd p_expect_ident (\<lambda>f. suffix_loop pe (EField e (fst f) s) b)) expr_ok"
    for s using Suc.prems by (intro parses_ident_bnd Suc.IH) auto
  have index: "parses any (n - Suc 0) 0 (bnd (parse_expr pe) (\<lambda>key. bnd (p_expect TRBracket (backquoted '']''))
      (\<lambda>_. suffix_loop pe (EIndex e key s) b))) expr_ok" for s
    using Suc.prems by (intro expr_bnd parses_expect_bnd Suc.IH) auto
  have meth: "parses any (n - Suc 0) 0 (bnd p_expect_ident (\<lambda>m. bnd (parse_call_args pe) (\<lambda>args.
      suffix_loop pe (EMethodCall e (fst m) (snd m) args s) b))) expr_ok" for s
    using Suc.prems by (intro parses_ident_bnd parses_bnd [OF call_args [where k = 1]] Suc.IH) auto
  have call: "parses T' n 0 (bnd (parse_call_args pe) (\<lambda>args.
      suffix_loop pe (ECall e args (expr_span e)) b)) expr_ok" for T'
    using Suc.prems by (intro parses_bnd [OF call_args [where k = 1]] Suc.IH) auto
  show ?case using Suc.prems unfolding suffix_loop.simps
    by (intro parses_tok parses_if parses_advance; (simp add: field index meth call parses_ret; fail)?; auto)
qed simp

lemma suffixed: "n \<le> Suc bound \<Longrightarrow> parses T n 1 (parse_suffixed_expr pe pb) expr_ok"
  unfolding parse_suffixed_expr_def
proof (rule parses_bnd [OF primary])
  fix e assume "n \<le> Suc bound" "expr_ok e"
  then show "parses any (n - 1) (1 - 1) (fuelled (suffix_loop pe e)) expr_ok"
    by (intro parses_fuelled suffix) auto
qed simp

lemma unop_run: "n \<le> Suc bound \<Longrightarrow> n \<le> b \<Longrightarrow> parses T n 1 (unop_loop pe pb b) expr_ok"
proof (induction b arbitrary: n T)
  case (Suc b)
  have rest: "parses any (n - Suc 0) 0 (bnd (unop_loop pe pb b) (\<lambda>operand. ret (EUnOp kind operand s))) expr_ok"
    for kind s
    by (rule parses_bnd [OF Suc.IH]) (use Suc.prems in \<open>auto intro: parses_ret\<close>)
  show ?case using Suc.prems unfolding unop_loop.simps
    by (intro parses_span parses_tok parses_option parses_advance suffixed)
       (auto simp: rest prefix_op_def split: if_splits)
qed simp

lemma unop: "n \<le> Suc bound \<Longrightarrow> parses T n 1 (parse_unop pe pb) expr_ok"
  unfolding parse_unop_def by (intro parses_fuelled unop_run) auto

lemma binop_table_TEof: "map_of binop_table t = Some x \<Longrightarrow> t \<noteq> TEof"
  by (auto simp: binop_table_def)

lemma binop_run:
  "n \<le> bound \<Longrightarrow> n \<le> b \<Longrightarrow> expr_ok left \<Longrightarrow> k = 0 \<Longrightarrow> parses T n k (binop_loop pe prec left b) expr_ok"
proof (induction b arbitrary: n left T k)
  case (Suc b)
  have rest: "parses any (n - Suc 0) 0 (bnd (pe q) (\<lambda>right.
      binop_loop pe prec (EBinOp kind left right s) b)) expr_ok" for q kind s
    using Suc.prems by (intro parses_bnd [OF binop_operand] Suc.IH) auto
  have "parses T n 0 (bnd p_tok (\<lambda>t. case map_of binop_table t of
       None \<Rightarrow> ret left
     | Some (kind, q, right_assoc) \<Rightarrow>
         if q < prec then ret left
         else bnd p_advance (\<lambda>s.
           bnd (pe (if right_assoc then q else q + 1)) (\<lambda>right.
           binop_loop pe prec (EBinOp kind left right (tok_span s)) b)))) expr_ok"
    using Suc.prems rest
    by (intro parses_tok parses_option)
       (auto intro!: parses_if parses_advance parses_ret dest: binop_table_TEof split: prod.split)
  then show ?case using Suc.prems(4) by (simp add: peek_binop_def bnd_assoc)
qed simp

lemma binop: "n \<le> Suc bound \<Longrightarrow> parses T n 1 (parse_binop pe pb prec) expr_ok"
  unfolding parse_binop_def
proof (rule parses_bnd [OF unop])
  fix e assume "n \<le> Suc bound" "expr_ok e"
  then show "parses any (n - 1) (1 - 1) (fuelled (binop_loop pe prec e)) expr_ok"
    by (intro parses_fuelled binop_run) auto
qed simp


section \<open>Statements\<close>

lemma assign_target: "expr_ok e \<Longrightarrow> k = 0 \<Longrightarrow> parses T n k (expr_to_assign_target e s) target_ok"
  by (cases e) (auto simp: expr_to_assign_target_def intro: parses_ret parses_fail)

lemma expr_or_assign: "n \<le> Suc bound \<Longrightarrow> parses T n 1 (parse_expr_or_assign pe pb) stmt_ok"
  unfolding parse_expr_or_assign_def
proof (rule parses_bnd [OF suffixed])
  fix e assume n: "n \<le> Suc bound" and e: "expr_ok e"
  have assign: "parses any (n - 1 - 1) 0 (bnd (parse_expr pe) (\<lambda>value.
      bnd (expr_to_assign_target e s) (\<lambda>target. ret (AssignStmt target value s)))) stmt_ok" for s
    using n e by (intro expr_bnd parses_bnd [OF assign_target [where k = 0]] parses_ret) auto
  show "parses any (n - 1) (1 - 1) (if_check TComma (bnd p_span (\<lambda>s. fail (Multi_assign_not_supported s)))
     (if_check TAssign
       (bnd p_advance (\<lambda>s. bnd (parse_expr pe) (\<lambda>value.
        bnd (expr_to_assign_target e (tok_span s)) (\<lambda>target.
        ret (AssignStmt target value (tok_span s))))))
       (if is_call_expr e then ret (ExprStmt e (expr_span e))
        else fail (Unexpected_token (expr_span e) ''function call or assignment''
               ''expression'')))) stmt_ok"
    using assign [simplified] e
    by (intro parses_check parses_span parses_fail parses_if parses_advance parses_ret) auto
qed simp

lemma do_stmt: "n \<le> Suc bound \<Longrightarrow> parses ((=) KwDo) n 1 (parse_do pb) stmt_ok"
  unfolding parse_do_def by (intro parses_advance block_bnd parses_expect_bnd parses_ret) auto

lemma func_name: "n \<le> b \<Longrightarrow> parts \<noteq> [] \<Longrightarrow>
    parses T n 0 (func_name_loop parts b) (\<lambda>name. fn_parts name \<noteq> [])"
proof (induction b arbitrary: n parts T)
  case (Suc b)
  have "parses any (n - Suc 0) 0 (bnd p_expect_ident (\<lambda>part. func_name_loop (parts @ [part]) b))
      (\<lambda>name. fn_parts name \<noteq> [])"
    using Suc.prems by (intro parses_ident_bnd) (auto intro: Suc.IH)
  moreover have "parses any m 0 (bnd p_expect_ident (\<lambda>m. ret (FuncName parts (Some m))))
      (\<lambda>name. fn_parts name \<noteq> [])" for m
    using Suc.prems by (intro parses_ident_bnd parses_ret) auto
  ultimately show ?case using Suc.prems unfolding func_name_loop.simps
    by (intro parses_check parses_advance) (auto intro: parses_ret)
qed simp

lemma function_decl: "n \<le> Suc bound \<Longrightarrow> parses ((=) KwFunction) n 1 (parse_function_decl pb) stmt_ok"
proof -
  assume n: "n \<le> Suc bound"
  have "parses any m 0 (bnd (fuelled (func_name_loop parts)) (\<lambda>name. bnd (parse_func_body pb) (\<lambda>func.
      ret (FunctionDecl name func s)))) stmt_ok" if "m \<le> Suc bound" "parts \<noteq> []" for m parts s
    using that by (intro parses_bnd [OF parses_fuelled [OF func_name]] parses_bnd [OF func_body [where k = 1]]
        parses_ret) auto
  with n show ?thesis unfolding parse_function_decl_def
    by (intro parses_advance parses_ident_bnd) auto
qed

lemma while_stmt: "n \<le> Suc bound \<Longrightarrow> parses ((=) KwWhile) n 1 (parse_while pe pb) stmt_ok"
  unfolding parse_while_def
  by (intro parses_advance expr_bnd block_bnd parses_expect_bnd parses_ret) auto

lemma elseifs:
  "n \<le> bound \<Longrightarrow> n \<le> b \<Longrightarrow> list_all elseif_ok cs \<Longrightarrow> k = 0 \<Longrightarrow>
     parses T n k (elseif_loop pe pb cs b) (\<lambda>r. list_all elseif_ok (fst r) \<and> pred_option block_ok (snd r))"
proof (induction b arbitrary: n cs T k)
  case (Suc b)
  have clause: "parses any (n - Suc 0) 0 (bnd (parse_expr pe) (\<lambda>cond.
      bnd (p_expect KwThen (backquoted ''then'')) (\<lambda>_. bnd pb (\<lambda>block.
      elseif_loop pe pb (cs @ [Elseif cond block s]) b))))
      (\<lambda>r. list_all elseif_ok (fst r) \<and> pred_option block_ok (snd r))" for s
    using Suc.prems by (intro expr_bnd parses_expect_bnd block_bnd Suc.IH) auto
  have last: "parses any (n - Suc 0) 0 (bnd pb (\<lambda>block. ret (cs, Some block)))
      (\<lambda>r. list_all elseif_ok (fst r) \<and> pred_option block_ok (snd r))"
    using Suc.prems by (intro block_bnd parses_ret) auto
  show ?case using Suc.prems clause last unfolding elseif_loop.simps
    by (intro parses_check parses_advance parses_ret) auto
qed simp

lemma if_stmt: "n \<le> Suc bound \<Longrightarrow> parses ((=) KwIf) n 1 (parse_if pe pb) stmt_ok"
proof -
  assume n: "n \<le> Suc bound"
  have "parses any m 0 (bnd (fuelled (elseif_loop pe pb [])) (\<lambda>rest.
      bnd (p_expect KwEnd (backquoted ''end'')) (\<lambda>_.
      ret (IfStmt c b (fst rest) (snd rest) s)))) stmt_ok"
    if "m \<le> bound" "expr_ok c" "block_ok b" for m c b s
    by (rule parses_bnd, rule parses_fuelled, rule elseifs [where k = 0])
       (use that in \<open>auto intro!: parses_expect_bnd parses_ret\<close>)
  with n show ?thesis unfolding parse_if_def
    by (intro parses_advance expr_bnd parses_expect_bnd block_bnd) auto
qed


lemma local_stmt: "n \<le> Suc bound \<Longrightarrow> parses ((=) KwLocal) n 1 (parse_local pe pb) stmt_ok"
proof -
  assume n: "n \<le> Suc bound"
  have func: "parses any m 0 (bnd p_expect_ident (\<lambda>name. bnd (parse_func_body pb) (\<lambda>func.
      ret (LocalFunctionDecl (fst name) (snd name) func s)))) stmt_ok" if "m \<le> bound" for m s
    using that by (intro parses_ident_bnd parses_bnd [OF func_body [where k = 1]] parses_ret) auto
  have vals: "parses any m 0 (if_check TAssign (bnd p_advance (\<lambda>_. comma_list (parse_expr pe))) (ret []))
      (list_all expr_ok)" if "m \<le> bound" for m
    using that by (intro parses_check parses_advance parses_ret parses_weaken [OF exprs]) auto
  have names: "parses any (n - 1) 0 (bnd (comma_list p_expect_ident) (\<lambda>names.
      bnd (if_check TAssign (bnd p_advance (\<lambda>_. comma_list (parse_expr pe))) (ret []))
        (\<lambda>values. ret (LocalDecl names values s)))) stmt_ok" for s
    by (rule parses_bnd [OF parses_comma_list [OF parses_ident]], rule parses_bnd, rule vals)
       (use n in \<open>auto intro: parses_ret\<close>)
  have "parses any (n - 1) 0 (if_check KwFunction
      (bnd p_advance (\<lambda>_. bnd p_expect_ident (\<lambda>name. bnd (parse_func_body pb) (\<lambda>func.
        ret (LocalFunctionDecl (fst name) (snd name) func s)))))
      (bnd (comma_list p_expect_ident) (\<lambda>names.
        bnd (if_check TAssign (bnd p_advance (\<lambda>_. comma_list (parse_expr pe))) (ret []))
          (\<lambda>values. ret (LocalDecl names values s))))) stmt_ok" for s
    by (rule parses_check, rule parses_advance)
       (use n func names in \<open>auto intro: parses_weaken [OF names]\<close>)
  then show ?thesis unfolding parse_local_def by (intro parses_advance) auto
qed

lemma numeric_for: "n \<le> bound \<Longrightarrow> parses any n 0 (bnd (parse_expr pe) (\<lambda>start.
     bnd (p_expect TComma (backquoted '','')) (\<lambda>_. bnd (parse_expr pe) (\<lambda>limit.
     bnd (if_check TComma (bnd p_advance (\<lambda>_. bnd (parse_expr pe) (\<lambda>e. ret (Some e))))
            (ret None)) (\<lambda>step.
     bnd (p_expect KwDo (backquoted ''do'')) (\<lambda>_. bnd pb (\<lambda>block.
     bnd (p_expect KwEnd (backquoted ''end'')) (\<lambda>_.
     ret (NumericFor v vs start limit step block s))))))))) stmt_ok"
proof -
  assume n: "n \<le> bound"
  have step: "parses any m 0 (if_check TComma (bnd p_advance (\<lambda>_. bnd (parse_expr pe) (\<lambda>e. ret (Some e))))
      (ret None)) (pred_option expr_ok)" if "m \<le> bound" for m
    using that by (intro parses_check parses_advance expr_bnd parses_ret) auto
  have tail: "parses any m 0 (bnd (if_check TComma (bnd p_advance (\<lambda>_. bnd (parse_expr pe) (\<lambda>e. ret (Some e))))
            (ret None)) (\<lambda>step.
     bnd (p_expect KwDo (backquoted ''do'')) (\<lambda>_. bnd pb (\<lambda>block.
     bnd (p_expect KwEnd (backquoted ''end'')) (\<lambda>_.
     ret (NumericFor v vs start limit step block s)))))) stmt_ok"
    if "m \<le> bound" "expr_ok start" "expr_ok limit" for m start limit
    by (rule parses_bnd [OF step])
       (use that in \<open>auto intro!: parses_expect_bnd block_bnd parses_ret\<close>)
  show ?thesis using n by (intro expr_bnd parses_expect_bnd) (auto intro: tail)
qed

lemma generic_for: "n \<le> bound \<Longrightarrow> parses any n 0 (bnd (fuelled (comma_loop p_expect_ident vs)) (\<lambda>vars.
     bnd (p_expect KwIn (backquoted ''in'')) (\<lambda>_.
     bnd (comma_list (parse_expr pe)) (\<lambda>iterators.
     bnd (p_expect KwDo (backquoted ''do'')) (\<lambda>_. bnd pb (\<lambda>block.
     bnd (p_expect KwEnd (backquoted ''end'')) (\<lambda>_.
     ret (GenericFor vars iterators block s)))))))) stmt_ok"
proof -
  assume n: "n \<le> bound"
  have tail: "parses any m 0 (bnd (comma_list (parse_expr pe)) (\<lambda>iterators.
     bnd (p_expect KwDo (backquoted ''do'')) (\<lambda>_. bnd pb (\<lambda>block.
     bnd (p_expect KwEnd (backquoted ''end'')) (\<lambda>_.
     ret (GenericFor vars iterators block s)))))) stmt_ok" if "m \<le> bound" for m vars
    by (rule parses_bnd [OF exprs])
       (use that in \<open>auto intro!: parses_expect_bnd block_bnd parses_ret\<close>)
  have vars: "parses any n 0 (fuelled (comma_loop p_expect_ident vs)) (list_all (\<lambda>_. True))"
    by (rule parses_fuelled, rule parses_comma_loop [OF parses_ident]) (auto simp: list_all_iff)
  show ?thesis
    by (rule parses_bnd [OF vars]) (use n in \<open>auto intro!: parses_expect_bnd tail\<close>)
qed

lemma for_stmt: "n \<le> Suc bound \<Longrightarrow> parses ((=) KwFor) n 1 (parse_for pe pb) stmt_ok"
  unfolding parse_for_def
  by (intro parses_advance parses_ident_bnd parses_check parses_weaken [OF numeric_for [of "n - 1 - 1 - 1"]]
      parses_weaken [OF generic_for [of "n - 1 - 1"]]) auto

lemmas keyword_stmts = local_stmt [simplified] if_stmt [simplified] while_stmt [simplified]
  for_stmt [simplified] function_decl [simplified] do_stmt [simplified]

lemma statement: "n \<le> Suc bound \<Longrightarrow> parses T n 1 (parse_stat pe pb) stmt_ok"
  unfolding parse_stat_def
  by (intro parses_tok parses_if expr_or_assign)
     (auto intro: keyword_stmts intro!: parses_advance parses_ret)

lemma return_stmt: "n \<le> Suc bound \<Longrightarrow> parses ((=) KwReturn) n 1 (parse_return pe) return_ok"
  unfolding parse_return_def
  by (intro parses_span parses_advance parses_tok parses_if expr_bnd parses_ret) auto

lemma semicolons: "n \<le> b \<Longrightarrow> parses T n 0 (skip_semicolons b) (\<lambda>_. True)"
proof (induction b arbitrary: n T)
  case (Suc b)
  have "parses any (n - Suc 0) 0 (skip_semicolons b) (\<lambda>_. True)"
    using Suc.prems by (intro Suc.IH) auto
  then show ?case unfolding skip_semicolons.simps
    by (intro parses_check parses_advance parses_ret) auto
qed simp

lemma block_run:
  "n \<le> Suc bound \<Longrightarrow> n \<le> b \<Longrightarrow> list_all stmt_ok ss \<Longrightarrow> k = 0 \<Longrightarrow>
     parses T n k (block_loop pe pb ss b) (\<lambda>r. list_all stmt_ok (fst r) \<and> pred_option return_ok (snd r))"
proof (induction b arbitrary: n ss T k)
  case (Suc b)
  let ?Q = "\<lambda>r. list_all stmt_ok (fst r) \<and> pred_option return_ok (snd r)"
  have more: "parses T n 0 (bnd (parse_stat pe pb) (\<lambda>s. block_loop pe pb (ss @ [s]) b)) ?Q" for T
    using Suc.prems by (intro parses_bnd [OF statement] Suc.IH) auto
  have ending: "parses ((=) KwReturn) n 0 (bnd (parse_return pe) (\<lambda>r.
      if_check TSemicolon (bnd p_advance (\<lambda>_. ret (ss, Some r))) (ret (ss, Some r)))) ?Q"
    using Suc.prems by (intro parses_bnd [OF return_stmt] parses_check parses_advance parses_ret) auto
  have "parses any n 0 (bnd p_tok (\<lambda>t.
     if t = KwReturn then bnd (parse_return pe) (\<lambda>r.
       if_check TSemicolon (bnd p_advance (\<lambda>_. ret (ss, Some r))) (ret (ss, Some r)))
     else if block_end_token t then ret (ss, None)
     else bnd (parse_stat pe pb) (\<lambda>s. block_loop pe pb (ss @ [s]) b))) ?Q"
    using Suc.prems more ending by (intro parses_tok parses_if) (auto intro: parses_ret)
  then show ?case using Suc.prems unfolding block_loop.simps
    by (intro parses_bnd [OF parses_fuelled [OF semicolons]]) auto
qed simp

lemma block_parse: "n \<le> Suc bound \<Longrightarrow> parses any n 0 (parse_block pe pb) block_ok"
proof -
  assume n: "n \<le> Suc bound"
  have "parses any n 0 (fuelled (block_loop pe pb []))
      (\<lambda>r. list_all stmt_ok (fst r) \<and> pred_option return_ok (snd r))"
    by (intro parses_fuelled block_run) (use n in auto)
  then show ?thesis unfolding parse_block_def
    by (intro parses_span parses_bnd parses_ret) auto
qed

end

text \<open>The contract holds of the recursion points the parser itself uses, at every amount of fuel.\<close>

interpretation knots: parser_knots "parse_binop_rec n" "parse_block_rec n" n for n
proof (induction n)
  case 0
  show ?case by unfold_locales simp_all
next
  case (Suc n)
  show ?case
  proof
    show "parses any (Suc n) 1 (parse_binop_rec (Suc n) prec) expr_ok" for prec
      by (simp only: parse_binop_rec.simps) (rule parser_knots.binop [OF Suc], simp)
    show "parses any (Suc n) 0 (parse_block_rec (Suc n)) block_ok"
      by (simp only: parse_block_rec.simps) (rule parser_knots.block_parse [OF Suc], simp)
  qed
qed

section \<open>The parser\<close>

lemma parses_parse:
  "parses any n 0 (bnd (parse_block_rec n) (\<lambda>block. bnd p_expect_eof (\<lambda>_. ret block))) block_ok"
  by (rule parses_bnd [OF knots.knot_block], rule parses_bnd [OF parses_eof]) (simp add: parses_ret)

lemma new_parser_good:
  assumes "tokenize src = Ok ts"
  shows "p_good (new_parser ts)" and "p_left (new_parser ts) = length ts"
proof -
  obtain body where "ts = body @ [end_token src]" using tokenize_laid_out [OF assms] by blast
  then show "p_good (new_parser ts)" "p_left (new_parser ts) = length ts"
    by (simp_all add: p_good_def p_left_def new_parser_def end_token_def)
qed

lemma parse_fits:
  assumes "tokenize src = Ok ts"
  shows "\<exists>r. parse src = fst r \<and> fits 0 (new_parser ts) block_ok r"
  using parsesD [OF parses_parse new_parser_good(1) [OF assms], of "length ts"]
    new_parser_good(2) [OF assms] assms
  by (intro exI [of _ "bnd (parse_block_rec (length ts)) (\<lambda>block. bnd p_expect_eof (\<lambda>_. ret block))
    (new_parser ts)"]) (simp add: parse_def parse_tokens_def)

text \<open>C29: The parser is total. Whatever the source text, \<open>parse\<close> returns a tree or an error: it never
  indexes outside the token list, and the fuel given to the recursion and to every loop (the number
  of tokens) is never used up, since every recursive call and every further round of a loop comes
  after a token has been consumed.
\<close>

theorem parse_total:
  "(\<exists>block. parse src = Ok block) \<or> (\<exists>e. parse src = Err e)"
proof (cases "tokenize src")
  case (Ok ts)
  then obtain r where "parse src = fst r" "fits 0 (new_parser ts) block_ok r"
    using parse_fits by blast
  then show ?thesis by (auto simp: fits_def split: outcome.splits)
qed (use tokenize_settled [of src] in \<open>simp_all add: parse_def\<close>)

lemma parsed_block_ok:
  assumes "parse src = Ok block"
  shows "block_ok block"
proof (cases "tokenize src")
  case (Ok ts)
  then obtain r where "parse src = fst r" "fits 0 (new_parser ts) block_ok r"
    using parse_fits by blast
  with assms show ?thesis by (cases r) auto
qed (use assms in \<open>simp_all add: parse_def\<close>)


section \<open>A parsed example\<close>

lemmas step_defs = bnd_def p_peek_def p_tok_def p_span_def p_advance_def p_check_def
  index_or_panic_def if_check_def fuelled_def

definition return_x :: "spanned_token list" where
  "return_x = [Spanned KwReturn (Span 0 6 1), Spanned (TIdent ''x'') (Span 7 8 1),
     Spanned TEof (Span 8 8 1)]"

lemma tok_payloads [simp]:
  "string_of (TIdent s) = None" "integer_of (TIdent s) = None" "ident_of (TIdent s) = Some s"
  "prefix_op (TIdent s) = None"
  by (simp_all add: string_of_def integer_of_def prefix_op_def)

lemma atom_x: "parse_primary_atom pe pb \<lparr>ps_tokens = return_x, ps_pos = Suc 0\<rparr> =
    (Ok (EName ''x'' (Span 7 8 1)), \<lparr>ps_tokens = return_x, ps_pos = 2\<rparr>)"
  by (simp add: parse_primary_atom_def step_defs return_x_def is_disallowed_def disallowed_idents_def)

lemma suffix_x: "suffix_loop pe e (Suc n) \<lparr>ps_tokens = return_x, ps_pos = 2\<rparr> =
    (Ok e, \<lparr>ps_tokens = return_x, ps_pos = 2\<rparr>)"
  by (simp add: step_defs return_x_def opens_args_def string_of_def)

lemma expr_x: "parse_binop_rec (Suc n) 0 \<lparr>ps_tokens = return_x, ps_pos = Suc 0\<rparr> =
    (Ok (EName ''x'' (Span 7 8 1)), \<lparr>ps_tokens = return_x, ps_pos = 2\<rparr>)"
proof -
  have len: "length return_x = Suc (Suc (Suc 0))" by (simp add: return_x_def)
  have "parse_suffixed_expr pe pb \<lparr>ps_tokens = return_x, ps_pos = Suc 0\<rparr> =
      (Ok (EName ''x'' (Span 7 8 1)), \<lparr>ps_tokens = return_x, ps_pos = 2\<rparr>)" for pe pb
    by (simp add: parse_suffixed_expr_def bnd_def atom_x fuelled_def len suffix_x del: suffix_loop.simps)
  then have "parse_unop pe pb \<lparr>ps_tokens = return_x, ps_pos = Suc 0\<rparr> =
      (Ok (EName ''x'' (Span 7 8 1)), \<lparr>ps_tokens = return_x, ps_pos = 2\<rparr>)" for pe pb
    unfolding parse_unop_def fuelled_def
    by (simp add: len bnd_def p_span_def p_tok_def p_peek_def index_or_panic_def) (simp add: return_x_def)
  moreover have "binop_loop pe 0 e (Suc n) \<lparr>ps_tokens = return_x, ps_pos = 2\<rparr> =
      (Ok e, \<lparr>ps_tokens = return_x, ps_pos = 2\<rparr>)" for pe e n
    by (simp add: step_defs return_x_def peek_binop_def binop_table_def)
  ultimately show ?thesis
    by (simp add: parse_binop_def bnd_def fuelled_def len del: binop_loop.simps)
qed


lemma parse_return_x: "parse_tokens return_x =
    Ok (Block [] (Some (ReturnStmt (Some (EName ''x'' (Span 7 8 1))) (Span 0 6 1))) (Span 0 6 1))"
proof -
  have len: "length return_x = Suc (Suc (Suc 0))" by (simp add: return_x_def)
  let ?p = "\<lambda>k. \<lparr>ps_tokens = return_x, ps_pos = k\<rparr>"
  have ret: "parse_return (parse_binop_rec (Suc (Suc 0))) (?p 0) =
      (Ok (ReturnStmt (Some (EName ''x'' (Span 7 8 1))) (Span 0 6 1)), ?p 2)"
  proof -
    have "p_advance (?p 0) = (Ok (Spanned KwReturn (Span 0 6 1)), ?p (Suc 0))"
      "p_span (?p 0) = (Ok (Span 0 6 1), ?p 0)" "p_tok (?p (Suc 0)) = (Ok (TIdent ''x''), ?p (Suc 0))"
      by (simp_all add: step_defs return_x_def)
    then show ?thesis
      by (simp add: parse_return_def bnd_def parse_expr_def expr_x block_end_token_def
          del: parse_binop_rec.simps)
  qed
  have semi: "skip_semicolons (Suc n) (?p 0) = (Ok (), ?p 0)" for n
    by (simp add: step_defs return_x_def)
  have tok: "p_tok (?p 0) = (Ok KwReturn, ?p 0)" "p_check TSemicolon (?p 2) = (Ok False, ?p 2)"
      "p_span (?p 0) = (Ok (Span 0 6 1), ?p 0)"
    by (simp_all add: step_defs return_x_def)
  have "block_loop (parse_binop_rec (Suc (Suc 0))) pb [] (Suc n) (?p 0) =
      (Ok ([], Some (ReturnStmt (Some (EName ''x'' (Span 7 8 1))) (Span 0 6 1))), ?p 2)" for pb n
    by (simp add: bnd_def fuelled_def len semi tok ret if_check_def
        del: skip_semicolons.simps parse_binop_rec.simps)
  then have "parse_block_rec (Suc (Suc (Suc 0))) (?p 0) =
      (Ok (Block [] (Some (ReturnStmt (Some (EName ''x'' (Span 7 8 1))) (Span 0 6 1))) (Span 0 6 1)), ?p 2)"
    by (simp add: parse_block_def bnd_def fuelled_def len tok
        del: block_loop.simps parse_binop_rec.simps)
  moreover have "p_expect_eof (?p 2) = (Ok (), ?p 2)"
    by (simp add: p_expect_eof_def step_defs return_x_def)
  ultimately show ?thesis
    by (simp add: parse_tokens_def bnd_def new_parser_def len
        del: parse_binop_rec.simps parse_block_rec.simps)
qed

lemma tokenize_return_x: "tokenize ''return x'' = Ok return_x"
proof -
  let ?at = "\<lambda>p. \<lparr>lx_src = ''return x'', lx_pos = p, lx_line = 1\<rparr>"
  note defs = skip_space_def lx_rest_def lx_space_def comment_at_def lx_cur_def lx_peek_def
    at_end_def lx_advance_def newline_def
  note name_defs = read_ident_or_keyword_def slice_while_def skip_while_def yield_tok_def mk_tok_def
    bump_def name_char_def ascii_letter_def ascii_digit_def byte_of_def ident_or_keyword_def
    reserved_words_def
  have a: "skip_trivia (?at 0) = (Ok (), ?at 0)" by (subst skip_trivia_space) (simp_all add: defs)
  have c: "skip_trivia (?at 6) = (Ok (), ?at 7)" by (subst skip_trivia_space) (simp_all add: defs)
  have e: "skip_trivia (?at 8) = (Ok (), ?at 8)" by (rule skip_trivia_end) (simp add: lx_rest_def)
  have "map_of single_tokens (CHR ''r'') = None" "map_of single_tokens (CHR ''x'') = None"
    by (simp_all add: single_tokens_def)
  then have b: "next_token (?at 0) = (Ok (Spanned KwReturn (Span 0 6 1)), ?at 6)"
    and d: "next_token (?at 7) = (Ok (Spanned (TIdent ''x'') (Span 7 8 1)), ?at 8)"
    by (simp_all add: next_token_def Let_def defs name_defs)
  have "tokenize_loop [] (?at 0) = tokenize_loop [Spanned KwReturn (Span 0 6 1)] (?at 6)"
    using tokenize_loop_next [OF a _ b] by (simp add: at_end_def)
  also have "\<dots> = tokenize_loop [Spanned KwReturn (Span 0 6 1),
      Spanned (TIdent ''x'') (Span 7 8 1)] (?at 8)"
    using tokenize_loop_next [OF c _ d] by (simp add: at_end_def)
  finally show ?thesis using tokenize_loop_end [OF e]
    by (simp add: tokenize_def new_lexer_def at_end_def return_x_def)
qed



end
