(* ===== verification/Lua_Codegen.thy ===== *)
theory Lua_Codegen
  imports Lua_Ast Lua_Bytecode
begin

text \<open>
  The code generator of \<open>src/compiler/codegen.rs\<close> and its errors (\<open>src/compiler/error.rs\<close>). The
  compiler state is the stack of function scopes and the prototypes finished so far. Scopes, blocks,
  the locals of a block and the loops being compiled are lists with the innermost element first (the
  source keeps them innermost last). Slots are natural numbers; where the source narrows with
  \<open>as u8\<close>, \<open>as u16\<close> or \<open>as i16\<close> the model takes the value modulo the width. \<open>expect\<close> on a missing
  scope or block, an index outside the code and \<open>+\<close> beyond a \<open>u8\<close> are panics.

  \<open>compile_expr\<close> and \<open>compile_block\<close>, through which all recursion goes, are arguments \<open>ce\<close> and \<open>cb\<close> of
  the other functions; \<open>compile_expr_rec\<close> and \<open>compile_block_rec\<close> tie the knot with fuel, for which
  the size of the tree is enough.
\<close>

section \<open>Errors\<close>

(* error.rs:6-33 CompileError *)
datatype compile_error =
    CE_Tool_as_value nat
  | CE_Indirect_tool_call nat
  | CE_Variadic_not_allowed nat
  | CE_Too_many_locals nat
  | CE_Too_many_upvalues nat
  | CE_Too_many_constants nat
  | CE_Too_many_prototypes nat
  | CE_Break_outside_loop nat
  | CE_Expr_stmt_not_call nat
  | CE_Multi_return_not_allowed nat
  | CE_Bytecode_too_large nat
  | CE_Generic_for_not_iterator nat
  | CE_Unknown_global string nat

(* error.rs:36-38 CompileError::code *)
definition compile_error_code :: "compile_error \<Rightarrow> string" where
  "compile_error_code e = ''ERR_COMPILE''"

(* error.rs:40-56 CompileError::line *)
primrec compile_error_line :: "compile_error \<Rightarrow> nat" where
  "compile_error_line (CE_Tool_as_value l) = l"
| "compile_error_line (CE_Indirect_tool_call l) = l"
| "compile_error_line (CE_Variadic_not_allowed l) = l"
| "compile_error_line (CE_Too_many_locals l) = l"
| "compile_error_line (CE_Too_many_upvalues l) = l"
| "compile_error_line (CE_Too_many_constants l) = l"
| "compile_error_line (CE_Too_many_prototypes l) = l"
| "compile_error_line (CE_Break_outside_loop l) = l"
| "compile_error_line (CE_Expr_stmt_not_call l) = l"
| "compile_error_line (CE_Multi_return_not_allowed l) = l"
| "compile_error_line (CE_Bytecode_too_large l) = l"
| "compile_error_line (CE_Generic_for_not_iterator l) = l"
| "compile_error_line (CE_Unknown_global _ l) = l"

definition at_line :: "nat \<Rightarrow> string \<Rightarrow> string" where
  "at_line l msg = ''line '' @ nat_to_string l @ '': '' @ msg"

(* error.rs:58-102 CompileError::message *)
primrec compile_error_message :: "compile_error \<Rightarrow> string" where
  "compile_error_message (CE_Tool_as_value l) =
     at_line l (backquoted ''tool'' @ '' cannot be used as a value'')"
| "compile_error_message (CE_Indirect_tool_call l) =
     at_line l (backquoted ''tool.call'' @ '' cannot be stored or passed as a value'')"
| "compile_error_message (CE_Variadic_not_allowed l) =
     at_line l (backquoted ''...'' @ '' is not allowed in this context'')"
| "compile_error_message (CE_Too_many_locals l) = at_line l ''too many local variables (max 200)''"
| "compile_error_message (CE_Too_many_upvalues l) = at_line l ''too many upvalues (max 255)''"
| "compile_error_message (CE_Too_many_constants l) = at_line l ''too many constants (max 65535)''"
| "compile_error_message (CE_Too_many_prototypes l) =
     at_line l ''too many function prototypes (max 65535)''"
| "compile_error_message (CE_Break_outside_loop l) = at_line l (backquoted ''break'' @ '' outside loop'')"
| "compile_error_message (CE_Expr_stmt_not_call l) =
     at_line l ''expression statement must be a function call''"
| "compile_error_message (CE_Multi_return_not_allowed l) =
     at_line l ''multiple return values only allowed from pcall''"
| "compile_error_message (CE_Bytecode_too_large l) = at_line l ''bytecode too large''"
| "compile_error_message (CE_Generic_for_not_iterator l) =
     at_line l ''generic for iterator must be pairs_sorted, pairs, or ipairs''"
| "compile_error_message (CE_Unknown_global name l) = at_line l (''unknown global '' @ backquoted name)"

section \<open>The compiler state\<close>

(* codegen.rs:25-40 FunctionScope *)
record function_scope =
  fs_proto :: function_proto
  fs_blocks :: "(string \<times> nat) list list"
  fs_upvalues :: "(string \<times> upvalue_desc) list"
  fs_next_slot :: nat
  fs_max_locals :: nat
  fs_break_patches :: "(nat \<times> nat list) list"

(* codegen.rs:43-52 FunctionScope::new *)
definition new_function_scope :: "nat \<Rightarrow> function_scope" where
  "new_function_scope param_count = \<lparr>fs_proto = new_function_proto (of_nat param_count),
     fs_blocks = [], fs_upvalues = [], fs_next_slot = param_count, fs_max_locals = param_count,
     fs_break_patches = []\<rparr>"

(* codegen.rs:56-60 VarRef *)
datatype var_ref = VarLocal nat | VarUpvalue u8 | VarGlobal

(* codegen.rs:66-71 Compiler *)
record compiler =
  cg_scopes :: "function_scope list"
  cg_prototypes :: "function_proto list"

type_synonym 'a cg_op = "(compiler, compile_error, 'a) op"
type_synonym 'a scope_op = "(function_scope, compile_error, 'a) op"

text \<open>An operation on \<open>current_scope_mut()\<close>.\<close>

(* codegen.rs:129-135 Compiler::current_scope_mut *)
definition on_scope :: "'a scope_op \<Rightarrow> 'a cg_op" where
  "on_scope m c = (case cg_scopes c of
       [] \<Rightarrow> (Panic Unwrap_on_none, c)
     | s # ss \<Rightarrow> (case m s of (r, s') \<Rightarrow> (r, c\<lparr>cg_scopes := s' # ss\<rparr>)))"

(* codegen.rs:104-108 Compiler::enter_function *)
definition enter_function :: "nat \<Rightarrow> unit cg_op" where
  "enter_function param_count = modifies (\<lambda>c.
     c\<lparr>cg_scopes := (new_function_scope param_count)\<lparr>fs_blocks := [[]]\<rparr> # cg_scopes c\<rparr>)"

definition push_local :: "string \<Rightarrow> nat \<Rightarrow> unit scope_op" where
  "push_local name slot s = (case fs_blocks s of
       [] \<Rightarrow> (Panic Unwrap_on_none, s)
     | b # bs \<Rightarrow> (Ok (), s\<lparr>fs_blocks := ((name, slot) # b) # bs\<rparr>))"

(* codegen.rs:112-119 Compiler::register_param *)
definition register_param :: "string \<Rightarrow> nat \<Rightarrow> unit cg_op" where
  "register_param name slot = on_scope (push_local name slot)"

(* codegen.rs:121-127 Compiler::exit_function *)
definition exit_function :: "function_proto cg_op" where
  "exit_function c = (case cg_scopes c of
       [] \<Rightarrow> (Panic Unwrap_on_none, c)
     | s # ss \<Rightarrow> (Ok ((fs_proto s)\<lparr>fp_local_count := of_nat (fs_max_locals s),
           fp_upvalue_count := of_nat (length (fs_upvalues s)),
           fp_upvalues := map snd (fs_upvalues s)\<rparr>), c\<lparr>cg_scopes := ss\<rparr>))"

(* codegen.rs:137-139 Compiler::enter_block *)
definition enter_block :: "unit cg_op" where
  "enter_block = on_scope (modifies (\<lambda>s. s\<lparr>fs_blocks := [] # fs_blocks s\<rparr>))"

(* codegen.rs:141-147 Compiler::exit_block *)
definition exit_block :: "unit cg_op" where
  "exit_block = on_scope (modifies (\<lambda>s. case fs_blocks s of
       [] \<Rightarrow> s
     | b # bs \<Rightarrow> s\<lparr>fs_blocks := bs, fs_next_slot := fs_next_slot s - length b mod 256\<rparr>))"

definition take_slot :: "nat scope_op" where
  "take_slot s = (let slot = fs_next_slot s in
     if slot + 1 < 256
     then (Ok slot, s\<lparr>fs_next_slot := slot + 1, fs_max_locals := max (fs_max_locals s) (slot + 1)\<rparr>)
     else (Panic Arithmetic_overflow, s))"

(* codegen.rs:149-165 Compiler::declare_local *)
definition declare_local :: "string \<Rightarrow> nat \<Rightarrow> nat cg_op" where
  "declare_local name line = on_scope (bnd (reads fs_next_slot) (\<lambda>n.
     if 200 \<le> n then fail (CE_Too_many_locals line)
     else bnd take_slot (\<lambda>slot. bnd (push_local name slot) (\<lambda>_. ret slot))))"

(* codegen.rs:168-176 Compiler::alloc_temp_slot *)
definition alloc_temp_slot :: "nat cg_op" where
  "alloc_temp_slot = on_scope take_slot"

(* codegen.rs:178-183 Compiler::free_temp_slot *)
definition free_temp_slot :: "unit cg_op" where
  "free_temp_slot = on_scope (modifies (\<lambda>s. s\<lparr>fs_next_slot := fs_next_slot s - 1\<rparr>))"

(* codegen.rs:185-189 Compiler::push_break_scope *)
definition push_break_scope :: "nat \<Rightarrow> unit cg_op" where
  "push_break_scope extra_pops = on_scope (modifies (\<lambda>s.
     s\<lparr>fs_break_patches := (extra_pops, []) # fs_break_patches s\<rparr>))"

(* codegen.rs:191-197 Compiler::pop_break_scope *)
definition pop_break_scope :: "nat list cg_op" where
  "pop_break_scope = on_scope (\<lambda>s. case fs_break_patches s of
       [] \<Rightarrow> (Ok [], s)
     | (_, patches) # rest \<Rightarrow> (Ok patches, s\<lparr>fs_break_patches := rest\<rparr>))"

section \<open>Names\<close>

definition scope_local :: "function_scope \<Rightarrow> string \<Rightarrow> nat option" where
  "scope_local s name = map_of (concat (fs_blocks s)) name"

primrec index_of :: "'a list \<Rightarrow> 'a \<Rightarrow> nat option" where
  "index_of [] x = None"
| "index_of (y # ys) x = (if y = x then Some 0 else map_option Suc (index_of ys x))"

definition scope_upvalue :: "function_scope \<Rightarrow> string \<Rightarrow> u8 option" where
  "scope_upvalue s name = map_option of_nat (index_of (map fst (fs_upvalues s)) name)"

definition add_upvalue :: "string \<Rightarrow> upvalue_desc \<Rightarrow> function_scope \<Rightarrow> u8 \<times> function_scope" where
  "add_upvalue name d s = (of_nat (length (fs_upvalues s)),
     s\<lparr>fs_upvalues := fs_upvalues s @ [(name, d)]\<rparr>)"

(* codegen.rs:240-268 Compiler::find_upvalue_in_enclosing *)
primrec find_upvalue :: "string \<Rightarrow> function_scope list \<Rightarrow> upvalue_desc option \<times> function_scope list" where
  "find_upvalue name [] = (None, [])"
| "find_upvalue name (s # ss) =
     (case scope_local s name of
        Some slot \<Rightarrow> (Some (FromLocal (of_nat slot)), s # ss)
      | None \<Rightarrow> (case scope_upvalue s name of
          Some i \<Rightarrow> (Some (FromUpvalue i), s # ss)
        | None \<Rightarrow> (case find_upvalue name ss of
            (None, ss') \<Rightarrow> (None, s # ss')
          | (Some d, ss') \<Rightarrow> (case add_upvalue name d s of
              (i, s') \<Rightarrow> (Some (FromUpvalue i), s' # ss')))))"

(* codegen.rs:203-235 Compiler::resolve_var *)
definition resolve_var :: "string \<Rightarrow> var_ref cg_op" where
  "resolve_var name c = (case cg_scopes c of
       [] \<Rightarrow> (Panic Arithmetic_overflow, c)
     | s # ss \<Rightarrow> (case scope_local s name of
         Some slot \<Rightarrow> (Ok (VarLocal slot), c)
       | None \<Rightarrow> (case scope_upvalue s name of
           Some i \<Rightarrow> (Ok (VarUpvalue i), c)
         | None \<Rightarrow> (case find_upvalue name ss of
             (None, ss') \<Rightarrow> (Ok VarGlobal, c\<lparr>cg_scopes := s # ss'\<rparr>)
           | (Some d, ss') \<Rightarrow> (case add_upvalue name d s of
               (i, s') \<Rightarrow> (Ok (VarUpvalue i), c\<lparr>cg_scopes := s' # ss'\<rparr>))))))"

section \<open>Instructions and constants\<close>

(* codegen.rs:274-280 Compiler::emit *)
definition emit :: "instruction \<Rightarrow> nat \<Rightarrow> nat cg_op" where
  "emit instr line = on_scope (\<lambda>s. (Ok (length (fp_code (fs_proto s))),
     s\<lparr>fs_proto := (fs_proto s)\<lparr>fp_code := fp_code (fs_proto s) @ [instr],
                               fp_lines := fp_lines (fs_proto s) @ [line]\<rparr>\<rparr>))"

definition emits :: "nat \<Rightarrow> instruction list \<Rightarrow> unit cg_op" where
  "emits line is = for_each (\<lambda>i. bnd (emit i line) (\<lambda>_. ret ())) is"

(* codegen.rs:282-284 Compiler::emit_placeholder *)
definition emit_placeholder :: "nat \<Rightarrow> nat cg_op" where
  "emit_placeholder line = emit (I_Jmp 0) line"

definition code_len :: "nat cg_op" where
  "code_len = on_scope (reads (\<lambda>s. length (fp_code (fs_proto s))))"

text \<open>\<open>(target as i64 - idx as i64 - 1) as i16\<close>, and the instructions that carry an offset.\<close>

definition jump_offset :: "nat \<Rightarrow> nat \<Rightarrow> i16" where
  "jump_offset idx target = word_of_int (int target - int idx - 1)"

fun with_offset :: "i16 \<Rightarrow> instruction \<Rightarrow> instruction option" where
  "with_offset o' (I_Jmp _) = Some (I_Jmp o')"
| "with_offset o' (I_JmpIf _) = Some (I_JmpIf o')"
| "with_offset o' (I_JmpIfNot _) = Some (I_JmpIfNot o')"
| "with_offset o' (I_And _) = Some (I_And o')"
| "with_offset o' (I_Or _) = Some (I_Or o')"
| "with_offset o' (I_IterInitSorted _) = Some (I_IterInitSorted o')"
| "with_offset o' (I_IterInitArray _) = Some (I_IterInitArray o')"
| "with_offset o' (I_IterNext _) = Some (I_IterNext o')"
| "with_offset o' _ = None"

(* codegen.rs:293-308 Compiler::patch_jump_to *)
definition patch_jump_to :: "nat \<Rightarrow> nat \<Rightarrow> unit cg_op" where
  "patch_jump_to idx target = on_scope (\<lambda>s. let code = fp_code (fs_proto s) in
     if length code \<le> idx then (Panic Index_out_of_bounds, s)
     else (case with_offset (jump_offset idx target) (code ! idx) of
         None \<Rightarrow> (Panic Explicit_panic, s)
       | Some i \<Rightarrow> (Ok (), s\<lparr>fs_proto := (fs_proto s)\<lparr>fp_code := code[idx := i]\<rparr>\<rparr>)))"

(* codegen.rs:287-290 Compiler::patch_jump *)
definition patch_jump :: "nat \<Rightarrow> unit cg_op" where
  "patch_jump idx = bnd code_len (\<lambda>n. patch_jump_to idx n)"

definition back_jump :: "nat \<Rightarrow> nat \<Rightarrow> unit cg_op" where
  "back_jump loop_start line = bnd code_len (\<lambda>n.
     bnd (emit (I_Jmp (jump_offset n loop_start)) line) (\<lambda>_. ret ()))"

(* codegen.rs:314-328 Compiler::add_constant *)
definition add_constant :: "constant_entry \<Rightarrow> nat \<Rightarrow> u16 cg_op" where
  "add_constant k line = on_scope (\<lambda>s. let ks = fp_constants (fs_proto s) in
     case index_of ks k of
       Some i \<Rightarrow> (Ok (of_nat i), s)
     | None \<Rightarrow> if 65535 \<le> length ks then (Err (CE_Too_many_constants line), s)
         else (Ok (of_nat (length ks)),
               s\<lparr>fs_proto := (fs_proto s)\<lparr>fp_constants := ks @ [k]\<rparr>\<rparr>))"

(* codegen.rs:330-332 Compiler::add_string_constant *)
definition add_string_constant :: "string \<Rightarrow> nat \<Rightarrow> u16 cg_op" where
  "add_string_constant b line = add_constant (K_String b) line"

(* codegen.rs:334-336 Compiler::add_int_constant *)
definition add_int_constant :: "i64 \<Rightarrow> nat \<Rightarrow> u16 cg_op" where
  "add_int_constant n line = add_constant (K_Integer n) line"

(* codegen.rs:338-345 Compiler::push_proto *)
definition push_proto :: "function_proto \<Rightarrow> nat cg_op" where
  "push_proto p c = (let idx = length (cg_prototypes c) in
     if 65535 \<le> idx then (Err (CE_Too_many_prototypes 0), c)
     else (Ok idx, c\<lparr>cg_prototypes := cg_prototypes c @ [p]\<rparr>))"


section \<open>Shapes of expressions\<close>

(* codegen.rs:1283-1285 is_tool_ref *)
definition is_tool_ref :: "expr \<Rightarrow> bool" where
  "is_tool_ref e = (case e of EName n _ \<Rightarrow> n = ''tool'' | _ \<Rightarrow> False)"

(* codegen.rs:1288-1293 is_tool_call *)
definition is_tool_call :: "expr \<Rightarrow> bool" where
  "is_tool_call func = (case func of
       EField inner field_name _ \<Rightarrow> is_tool_ref inner \<and> field_name = ''call''
     | _ \<Rightarrow> False)"

definition call_name :: "expr \<Rightarrow> string option" where
  "call_name func = (case func of EName n _ \<Rightarrow> Some n | _ \<Rightarrow> None)"

(* codegen.rs:1296-1298 is_pcall_expr *)
definition is_pcall_expr :: "expr \<Rightarrow> bool" where
  "is_pcall_expr e = (case e of ECall func _ _ \<Rightarrow> call_name func = Some ''pcall'' | _ \<Rightarrow> False)"

(* codegen.rs:1300-1303 IterKind *)
datatype iter_kind = IterSorted | IterArray

(* codegen.rs:1306-1321 validate_iter_call *)
definition validate_iter_call :: "expr \<Rightarrow> iter_kind option" where
  "validate_iter_call e = (case e of
       ECall func _ _ \<Rightarrow> (case call_name func of
           Some name \<Rightarrow> if name = ''pairs_sorted'' \<or> name = ''pairs'' then Some IterSorted
                        else if name = ''ipairs'' then Some IterArray else None
         | None \<Rightarrow> None)
     | _ \<Rightarrow> None)"

(* codegen.rs:1324-1329 extract_iter_table_arg *)
definition extract_iter_table_arg :: "expr \<Rightarrow> expr option" where
  "extract_iter_table_arg e = (case e of ECall _ (a # _) _ \<Rightarrow> Some a | _ \<Rightarrow> None)"

(* codegen.rs:1332-1341 collect_concat_args *)
fun collect_concat_args :: "expr \<Rightarrow> expr list" where
  "collect_concat_args (EBinOp OpConcat l r s) = collect_concat_args l @ collect_concat_args r"
| "collect_concat_args e = [e]"

section \<open>Expressions\<close>

type_synonym expr_compiler = "expr \<Rightarrow> unit cg_op"
type_synonym block_compiler = "block \<Rightarrow> unit cg_op"

text \<open>\<open>self.emit(instr, line);\<close> with the index thrown away.\<close>

definition emit1 :: "instruction \<Rightarrow> nat \<Rightarrow> unit cg_op" where
  "emit1 instr line = bnd (emit instr line) (\<lambda>_. ret ())"

definition push_string :: "string \<Rightarrow> nat \<Rightarrow> unit cg_op" where
  "push_string b line = bnd (add_string_constant b line) (\<lambda>idx. emit1 (I_PushK idx) line)"

definition library_globals :: "string list" where
  "library_globals = [''string'', ''math'', ''table'', ''json'', ''decimal'',
     ''tostring'', ''tonumber'', ''type'', ''select'', ''unpack'']"

(* codegen.rs:948-1008 Compiler::compile_name *)
definition compile_name :: "string \<Rightarrow> nat \<Rightarrow> unit cg_op" where
  "compile_name name line =
     (if name = ''tool'' then fail (CE_Tool_as_value line)
      else if name \<in> {''pairs_sorted'', ''pairs'', ''ipairs''} then fail (CE_Tool_as_value line)
      else bnd (resolve_var name) (\<lambda>v. case v of
          VarLocal slot \<Rightarrow> emit1 (I_LoadLocal (of_nat slot)) line
        | VarUpvalue idx \<Rightarrow> emit1 (I_LoadUp idx) line
        | VarGlobal \<Rightarrow> if name \<in> set library_globals then push_string (''__'' @ name) line
                       else fail (CE_Unknown_global name line)))"

(* codegen.rs:1017-1045 Compiler::compile_table_constructor *)
primrec compile_field :: "expr_compiler \<Rightarrow> int \<Rightarrow> table_field \<Rightarrow> int cg_op" where
  "compile_field ce auto_idx (NamedKey name _ value span) =
     bnd (emit1 I_Dup (span_line span)) (\<lambda>_.
     bnd (add_string_constant name (span_line span)) (\<lambda>idx.
     bnd (ce value) (\<lambda>_.
     bnd (emit1 (I_SetField idx) (span_line span)) (\<lambda>_. ret auto_idx))))"
| "compile_field ce auto_idx (ExplicitKey key value span) =
     bnd (emit1 I_Dup (span_line span)) (\<lambda>_.
     bnd (ce key) (\<lambda>_.
     bnd (ce value) (\<lambda>_.
     bnd (emit1 I_SetTable (span_line span)) (\<lambda>_. ret auto_idx))))"
| "compile_field ce auto_idx (Positional value span) =
     bnd (emit1 I_Dup (span_line span)) (\<lambda>_.
     bnd (add_int_constant (i64_of auto_idx) (span_line span)) (\<lambda>kidx.
     bnd (emit1 (I_PushK kidx) (span_line span)) (\<lambda>_.
     bnd (ce value) (\<lambda>_.
     bnd (emit1 I_SetTable (span_line span)) (\<lambda>_. ret (auto_idx + 1))))))"

primrec compile_fields :: "expr_compiler \<Rightarrow> int \<Rightarrow> table_field list \<Rightarrow> unit cg_op" where
  "compile_fields ce auto_idx [] = ret ()"
| "compile_fields ce auto_idx (f # fs) =
     bnd (compile_field ce auto_idx f) (\<lambda>i. compile_fields ce i fs)"

(* codegen.rs:1010-1047 Compiler::compile_table_constructor *)
definition compile_table_constructor :: "expr_compiler \<Rightarrow> table_field list \<Rightarrow> span \<Rightarrow> unit cg_op" where
  "compile_table_constructor ce tfs span =
     bnd (emit1 I_NewTable (span_line span)) (\<lambda>_. compile_fields ce 1 tfs)"

definition binop_instruction :: "bin_op_kind \<Rightarrow> instruction option" where
  "binop_instruction k = (case k of
       OpAdd \<Rightarrow> Some I_Add | OpSub \<Rightarrow> Some I_Sub | OpMul \<Rightarrow> Some I_Mul | OpIDiv \<Rightarrow> Some I_IDiv
     | OpMod \<Rightarrow> Some I_Mod | OpEq \<Rightarrow> Some I_Eq | OpNe \<Rightarrow> Some I_Ne | OpLt \<Rightarrow> Some I_Lt
     | OpLe \<Rightarrow> Some I_Le | OpGt \<Rightarrow> Some I_Gt | OpGe \<Rightarrow> Some I_Ge | _ \<Rightarrow> None)"

(* codegen.rs:1093-1101 Compiler::compile_concat_expr *)
definition compile_concat_expr :: "expr_compiler \<Rightarrow> expr \<Rightarrow> unit cg_op" where
  "compile_concat_expr ce e = (let args = collect_concat_args e in
     bnd (for_each ce args) (\<lambda>_. emit1 (I_Concat (of_nat (length args))) (expr_line e)))"

definition short_circuit :: "expr_compiler \<Rightarrow> instruction \<Rightarrow> expr \<Rightarrow> expr \<Rightarrow> nat \<Rightarrow> unit cg_op" where
  "short_circuit ce instr left right line =
     bnd (ce left) (\<lambda>_. bnd (emit instr line) (\<lambda>idx. bnd (emit1 I_Pop line) (\<lambda>_.
     bnd (ce right) (\<lambda>_. patch_jump idx))))"

(* codegen.rs:1049-1090 Compiler::compile_binop *)
definition compile_binop :: "expr_compiler \<Rightarrow> bin_op_kind \<Rightarrow> expr \<Rightarrow> expr \<Rightarrow> span \<Rightarrow> unit cg_op" where
  "compile_binop ce k left right span =
     (if k = OpAnd then short_circuit ce (I_And 0) left right (span_line span)
      else if k = OpOr then short_circuit ce (I_Or 0) left right (span_line span)
      else if k = OpConcat then compile_concat_expr ce (EBinOp k left right span)
      else bnd (ce left) (\<lambda>_. bnd (ce right) (\<lambda>_. (case binop_instruction k of
          Some i \<Rightarrow> emit1 i (span_line span)
        | None \<Rightarrow> panic_with Explicit_panic))))"

(* codegen.rs:1185-1199 Compiler::compile_pcall_two_values *)
definition compile_pcall_two_values :: "expr_compiler \<Rightarrow> expr list \<Rightarrow> span \<Rightarrow> unit cg_op" where
  "compile_pcall_two_values ce args span = (case args of
       [] \<Rightarrow> bnd (emit1 I_PushNil (span_line span)) (\<lambda>_. emit1 (I_PCall 0) (span_line span))
     | a # rest \<Rightarrow> bnd (ce a) (\<lambda>_. bnd (for_each ce rest) (\<lambda>_.
         emit1 (I_PCall (of_nat (length args - 1))) (span_line span))))"

(* codegen.rs:1177-1181 Compiler::compile_pcall *)
definition compile_pcall :: "expr_compiler \<Rightarrow> expr list \<Rightarrow> span \<Rightarrow> unit cg_op" where
  "compile_pcall ce args span =
     bnd (compile_pcall_two_values ce args span) (\<lambda>_. emit1 I_Pop (span_line span))"

(* codegen.rs:1203-1210 Compiler::compile_pcall_expr *)
definition compile_pcall_expr :: "expr_compiler \<Rightarrow> expr \<Rightarrow> unit cg_op" where
  "compile_pcall_expr ce e = (case e of
       ECall _ args span \<Rightarrow> compile_pcall_two_values ce args span
     | _ \<Rightarrow> fail (CE_Multi_return_not_allowed (expr_line e)))"

definition first_arg_or_nil :: "expr_compiler \<Rightarrow> expr list \<Rightarrow> nat \<Rightarrow> unit cg_op" where
  "first_arg_or_nil ce args line = (case args of a # _ \<Rightarrow> ce a | [] \<Rightarrow> emit1 I_PushNil line)"

definition normal_call :: "expr_compiler \<Rightarrow> expr \<Rightarrow> expr list \<Rightarrow> nat \<Rightarrow> unit cg_op" where
  "normal_call ce func args line = bnd (ce func) (\<lambda>_. bnd (for_each ce args) (\<lambda>_.
     emit1 (I_Call (of_nat (length args))) line))"

text \<open>
  The branch of the source that tests for \<open>tool.call\<close> a second time, after \<open>is_tool_call\<close> has
  answered no, can never be taken.
\<close>

(* codegen.rs:1103-1168 Compiler::compile_call *)
definition compile_call :: "expr_compiler \<Rightarrow> expr \<Rightarrow> expr list \<Rightarrow> span \<Rightarrow> unit cg_op" where
  "compile_call ce func args span = (let line = span_line span in
     if is_tool_call func then
       (case args of
          [name, arg] \<Rightarrow> bnd (ce name) (\<lambda>_. bnd (ce arg) (\<lambda>_. emit1 I_ToolCall line))
        | _ \<Rightarrow> fail (CE_Tool_as_value line))
     else (case call_name func of
         Some name \<Rightarrow>
           if name = ''tool'' then fail (CE_Tool_as_value (expr_line func))
           else if name = ''pcall'' then compile_pcall ce args span
           else if name = ''error'' then
             bnd (first_arg_or_nil ce args line) (\<lambda>_. emit1 I_Error line)
           else if name = ''print'' \<or> name = ''log'' then
             bnd (first_arg_or_nil ce args line) (\<lambda>_. emits line [I_Log, I_PushNil])
           else normal_call ce func args line
       | None \<Rightarrow> normal_call ce func args line))"

(* codegen.rs:1212-1230 Compiler::compile_method_call *)
definition compile_method_call :: "expr_compiler \<Rightarrow> expr \<Rightarrow> string \<Rightarrow> expr list \<Rightarrow> span \<Rightarrow> unit cg_op" where
  "compile_method_call ce object method args span = (let line = span_line span in
     bnd (ce object) (\<lambda>_. bnd alloc_temp_slot (\<lambda>tmp.
     bnd (emits line [I_Dup, I_StoreLocal (of_nat tmp)]) (\<lambda>_.
     bnd (add_string_constant method line) (\<lambda>idx.
     bnd (emits line [I_GetField idx, I_LoadLocal (of_nat tmp)]) (\<lambda>_.
     bnd free_temp_slot (\<lambda>_.
     bnd (for_each ce args) (\<lambda>_.
       if length args mod 256 + 1 < 256
       then emit1 (I_Call (of_nat (length args mod 256 + 1))) line
       else panic_with Arithmetic_overflow))))))))"

(* codegen.rs:1247-1254 Compiler::compile_function_body *)
primrec register_params :: "nat \<Rightarrow> string list \<Rightarrow> unit cg_op" where
  "register_params slot [] = ret ()"
| "register_params slot (name # names) = bnd (register_param name slot) (\<lambda>_.
     if slot + 1 < 256 then register_params (slot + 1) names else panic_with Arithmetic_overflow)"

definition ends_with_ret :: "instruction list \<Rightarrow> bool" where
  "ends_with_ret code = (case code of [] \<Rightarrow> False
     | _ \<Rightarrow> (case last code of I_Ret _ \<Rightarrow> True | _ \<Rightarrow> False))"

(* codegen.rs:1236-1275 Compiler::compile_function_body *)
primrec compile_function_body :: "block_compiler \<Rightarrow> func_body \<Rightarrow> string list \<Rightarrow> u16 cg_op" where
  "compile_function_body cb (FuncBody params block span) extra_params =
     bnd (enter_function ((length extra_params + length params) mod 256)) (\<lambda>_.
     bnd (register_params 0 (extra_params @ map fst params)) (\<lambda>_.
     bnd (cb block) (\<lambda>_.
     bnd (on_scope (reads (\<lambda>s. ends_with_ret (fp_code (fs_proto s))))) (\<lambda>has_ret.
     bnd (if has_ret then ret () else emit1 (I_Ret 0) (span_line span)) (\<lambda>_.
     bnd exit_function (\<lambda>p. bnd (push_proto p) (\<lambda>idx. ret (of_nat idx))))))))"

definition unop_instruction :: "un_op_kind \<Rightarrow> instruction" where
  "unop_instruction k = (case k of OpNeg \<Rightarrow> I_Neg | OpNot \<Rightarrow> I_Not | OpLen \<Rightarrow> I_Len)"

(* codegen.rs:874-946 Compiler::compile_expr *)
definition compile_expr :: "expr_compiler \<Rightarrow> block_compiler \<Rightarrow> expr \<Rightarrow> unit cg_op" where
  "compile_expr ce cb e = (let line = expr_line e in case e of
       ENil _ \<Rightarrow> emit1 I_PushNil line
     | ETrue _ \<Rightarrow> emit1 I_PushTrue line
     | EFalse _ \<Rightarrow> emit1 I_PushFalse line
     | EInteger n _ \<Rightarrow> bnd (add_int_constant n line) (\<lambda>idx. emit1 (I_PushK idx) line)
     | EStringLit b _ \<Rightarrow> push_string b line
     | EVararg _ \<Rightarrow> fail (CE_Variadic_not_allowed line)
     | EName name span \<Rightarrow> compile_name name (span_line span)
     | EField table field_name _ \<Rightarrow>
         if is_tool_ref table \<and> field_name = ''call'' then fail (CE_Tool_as_value line)
         else bnd (ce table) (\<lambda>_. bnd (add_string_constant field_name line) (\<lambda>idx.
           emit1 (I_GetField idx) line))
     | EIndex table key _ \<Rightarrow> bnd (ce table) (\<lambda>_. bnd (ce key) (\<lambda>_. emit1 I_GetTable line))
     | ETable tfs span \<Rightarrow> compile_table_constructor ce tfs span
     | EBinOp k left right span \<Rightarrow> compile_binop ce k left right span
     | EUnOp k operand _ \<Rightarrow> bnd (ce operand) (\<lambda>_. emit1 (unop_instruction k) line)
     | ECall func args span \<Rightarrow> compile_call ce func args span
     | EMethodCall object method _ args span \<Rightarrow> compile_method_call ce object method args span
     | EFuncDef body _ \<Rightarrow> bnd (compile_function_body cb body []) (\<lambda>idx.
         emit1 (I_Closure idx) line))"


section \<open>Statements\<close>

text \<open>\<open>Ret\<close> of the statement that ends a block, and the pairing of names with values.\<close>

(* codegen.rs:856-868 Compiler::compile_return *)
primrec compile_return :: "expr_compiler \<Rightarrow> return_stmt \<Rightarrow> unit cg_op" where
  "compile_return ce (ReturnStmt value span) = (case value of
       None \<Rightarrow> emit1 (I_Ret 0) (span_line span)
     | Some e \<Rightarrow> bnd (ce e) (\<lambda>_. emit1 (I_Ret 1) (span_line span)))"

(* codegen.rs:838-854 Compiler::compile_break *)
definition compile_break :: "nat \<Rightarrow> unit cg_op" where
  "compile_break line = bnd (on_scope (reads fs_break_patches)) (\<lambda>patches. case patches of
       [] \<Rightarrow> fail (CE_Break_outside_loop line)
     | (extra_pops, _) # _ \<Rightarrow>
         bnd (emits line (replicate extra_pops I_Pop)) (\<lambda>_.
         bnd (emit_placeholder line) (\<lambda>idx.
         on_scope (\<lambda>s. case fs_break_patches s of
             [] \<Rightarrow> (Panic Unwrap_on_none, s)
           | (n, js) # rest \<Rightarrow> (Ok (), s\<lparr>fs_break_patches := (n, js @ [idx]) # rest\<rparr>)))))"

(* codegen.rs:819-836 Compiler::compile_expr_stmt *)
definition compile_expr_stmt :: "expr_compiler \<Rightarrow> expr \<Rightarrow> span \<Rightarrow> unit cg_op" where
  "compile_expr_stmt ce e span = (case e of
       ECall func args s \<Rightarrow> bnd (compile_call ce func args s) (\<lambda>_. emit1 I_Pop (span_line span))
     | EMethodCall object method _ args s \<Rightarrow>
         bnd (compile_method_call ce object method args s) (\<lambda>_. emit1 I_Pop (span_line span))
     | _ \<Rightarrow> fail (CE_Expr_stmt_not_call (span_line span)))"

(* codegen.rs:803-817 Compiler::compile_local_function_decl *)
definition compile_local_function_decl ::
    "block_compiler \<Rightarrow> string \<Rightarrow> span \<Rightarrow> func_body \<Rightarrow> span \<Rightarrow> unit cg_op" where
  "compile_local_function_decl cb name name_span func span = (let line = span_line span in
     bnd (declare_local name (span_line name_span)) (\<lambda>slot.
     bnd (emits line [I_PushNil, I_StoreLocal (of_nat slot)]) (\<lambda>_.
     bnd (compile_function_body cb func []) (\<lambda>idx.
     emits line [I_Closure idx, I_StoreLocal (of_nat slot)]))))"

definition load_var :: "var_ref \<Rightarrow> instruction option" where
  "load_var v = (case v of VarLocal slot \<Rightarrow> Some (I_LoadLocal (of_nat slot))
     | VarUpvalue idx \<Rightarrow> Some (I_LoadUp idx) | VarGlobal \<Rightarrow> None)"

definition store_var :: "var_ref \<Rightarrow> instruction option" where
  "store_var v = (case v of VarLocal slot \<Rightarrow> Some (I_StoreLocal (of_nat slot))
     | VarUpvalue idx \<Rightarrow> Some (I_StoreUp idx) | VarGlobal \<Rightarrow> None)"

definition get_fields :: "string list \<Rightarrow> nat \<Rightarrow> unit cg_op" where
  "get_fields parts line = for_each (\<lambda>part. bnd (add_string_constant part line)
     (\<lambda>idx. emit1 (I_GetField idx) line)) parts"

(* codegen.rs:703-801 Compiler::store_func_name *)
definition store_func_name :: "func_name \<Rightarrow> nat \<Rightarrow> unit cg_op" where
  "store_func_name name line = (let
       all_parts = map fst (fn_parts name) @ (case fn_method name of Some m \<Rightarrow> [fst m] | None \<Rightarrow> [])
     in case all_parts of
       [] \<Rightarrow> panic_with Index_out_of_bounds
     | [varname] \<Rightarrow> bnd (resolve_var varname) (\<lambda>v. case store_var v of
           Some i \<Rightarrow> emit1 i line
         | None \<Rightarrow> bnd (declare_local varname line) (\<lambda>slot. emit1 (I_StoreLocal (of_nat slot)) line))
     | base # rest \<Rightarrow> bnd (resolve_var base) (\<lambda>v. case load_var v of
           None \<Rightarrow> fail (CE_Unknown_global base line)
         | Some load \<Rightarrow>
             bnd (emit1 load line) (\<lambda>_.
             bnd (get_fields (butlast rest) line) (\<lambda>_.
             bnd alloc_temp_slot (\<lambda>tmp.
             bnd (emits line [I_StoreLocal (of_nat tmp), load]) (\<lambda>_.
             bnd (get_fields (butlast rest) line) (\<lambda>_.
             bnd (emit1 (I_LoadLocal (of_nat tmp)) line) (\<lambda>_.
             bnd free_temp_slot (\<lambda>_.
             bnd (add_string_constant (last rest) line) (\<lambda>idx.
             emit1 (I_SetField idx) line))))))))))"

(* codegen.rs:684-701 Compiler::compile_function_decl *)
definition compile_function_decl ::
    "block_compiler \<Rightarrow> func_name \<Rightarrow> func_body \<Rightarrow> span \<Rightarrow> unit cg_op" where
  "compile_function_decl cb name func span = (let line = span_line span in
     bnd (compile_function_body cb func (if fn_method name = None then [] else [''self'']))
       (\<lambda>idx. bnd (emit1 (I_Closure idx) line) (\<lambda>_. store_func_name name line)))"

definition loop_var :: "(string \<times> span) list \<Rightarrow> nat \<Rightarrow> string \<Rightarrow> span \<Rightarrow> string \<times> span" where
  "loop_var vars i hidden span = (if i < length vars then vars ! i else (hidden, span))"

(* codegen.rs:614-682 Compiler::compile_generic_for *)
definition compile_generic_for :: "expr_compiler \<Rightarrow> block_compiler \<Rightarrow> (string \<times> span) list \<Rightarrow>
    expr list \<Rightarrow> block \<Rightarrow> span \<Rightarrow> unit cg_op" where
  "compile_generic_for ce cb vars iterators block span = (let line = span_line span in
     case iterators of
       [iter_expr] \<Rightarrow> (case validate_iter_call iter_expr of
           None \<Rightarrow> fail (CE_Generic_for_not_iterator line)
         | Some kind \<Rightarrow> (case extract_iter_table_arg iter_expr of
             None \<Rightarrow> fail (CE_Generic_for_not_iterator line)
           | Some table_arg \<Rightarrow>
               bnd (ce table_arg) (\<lambda>_.
               bnd (push_break_scope 1) (\<lambda>_.
               bnd (emit (case kind of IterSorted \<Rightarrow> I_IterInitSorted 0 | IterArray \<Rightarrow> I_IterInitArray 0)
                      line) (\<lambda>init_idx.
               bnd code_len (\<lambda>loop_top.
               bnd (emit (I_IterNext 0) line) (\<lambda>next_idx.
               bnd enter_block (\<lambda>_.
               bnd (declare_local (fst (loop_var vars 0 ''_'' span))
                      (span_line (snd (loop_var vars 0 ''_'' span)))) (\<lambda>k_slot.
               bnd (declare_local (fst (loop_var vars 1 ''_v'' span))
                      (span_line (snd (loop_var vars 1 ''_v'' span)))) (\<lambda>v_slot.
               bnd (emits line [I_StoreLocal (of_nat v_slot), I_StoreLocal (of_nat k_slot)]) (\<lambda>_.
               bnd (cb block) (\<lambda>_.
               bnd exit_block (\<lambda>_.
               bnd (back_jump loop_top line) (\<lambda>_.
               bnd code_len (\<lambda>loop_end.
               bnd (patch_jump_to next_idx loop_end) (\<lambda>_.
               bnd (patch_jump_to init_idx loop_end) (\<lambda>_.
               bnd pop_break_scope (\<lambda>breaks.
               for_each (\<lambda>idx. patch_jump_to idx loop_end) breaks))))))))))))))))))
     | _ \<Rightarrow> fail (CE_Generic_for_not_iterator line))"

(* codegen.rs:516-612 Compiler::compile_numeric_for *)
definition compile_numeric_for :: "expr_compiler \<Rightarrow> block_compiler \<Rightarrow> string \<Rightarrow> span \<Rightarrow> expr \<Rightarrow> expr \<Rightarrow>
    expr option \<Rightarrow> block \<Rightarrow> span \<Rightarrow> unit cg_op" where
  "compile_numeric_for ce cb var var_span start limit step block span = (let line = span_line span in
     bnd enter_block (\<lambda>_.
     bnd (ce start) (\<lambda>_.
     bnd (declare_local ''(for_i)'' line) (\<lambda>i_slot.
     bnd (emit1 (I_StoreLocal (of_nat i_slot)) line) (\<lambda>_.
     bnd (ce limit) (\<lambda>_.
     bnd (declare_local ''(for_lim)'' line) (\<lambda>lim_slot.
     bnd (emit1 (I_StoreLocal (of_nat lim_slot)) line) (\<lambda>_.
     bnd (case step of
            Some e \<Rightarrow> ce e
          | None \<Rightarrow> bnd (add_int_constant 1 line) (\<lambda>one_idx. emit1 (I_PushK one_idx) line)) (\<lambda>_.
     bnd (declare_local ''(for_step)'' line) (\<lambda>step_slot.
     bnd (emit1 (I_StoreLocal (of_nat step_slot)) line) (\<lambda>_.
     bnd (declare_local var (span_line var_span)) (\<lambda>var_slot.
     bnd code_len (\<lambda>loop_start.
     bnd (push_break_scope 0) (\<lambda>_.
     bnd (add_int_constant 0 line) (\<lambda>zero_idx.
     bnd (emits line [I_LoadLocal (of_nat step_slot), I_PushK zero_idx, I_Lt]) (\<lambda>_.
     bnd (emit (I_JmpIfNot 0) line) (\<lambda>jmp_positive.
     bnd (emits line [I_LoadLocal (of_nat i_slot), I_LoadLocal (of_nat lim_slot), I_Lt]) (\<lambda>_.
     bnd (emit (I_JmpIf 0) line) (\<lambda>jmp_exit_neg.
     bnd (emit_placeholder line) (\<lambda>jmp_continue.
     bnd (patch_jump jmp_positive) (\<lambda>_.
     bnd (emits line [I_LoadLocal (of_nat i_slot), I_LoadLocal (of_nat lim_slot), I_Gt]) (\<lambda>_.
     bnd (emit (I_JmpIf 0) line) (\<lambda>jmp_exit_pos.
     bnd (patch_jump jmp_continue) (\<lambda>_.
     bnd (emits line [I_LoadLocal (of_nat i_slot), I_StoreLocal (of_nat var_slot)]) (\<lambda>_.
     bnd (cb block) (\<lambda>_.
     bnd (emits line [I_LoadLocal (of_nat i_slot), I_LoadLocal (of_nat step_slot), I_Add,
            I_StoreLocal (of_nat i_slot)]) (\<lambda>_.
     bnd (back_jump loop_start line) (\<lambda>_.
     bnd (patch_jump jmp_exit_neg) (\<lambda>_.
     bnd (patch_jump jmp_exit_pos) (\<lambda>_.
     bnd pop_break_scope (\<lambda>breaks.
     bnd (for_each patch_jump breaks) (\<lambda>_. exit_block))))))))))))))))))))))))))))))))"

(* codegen.rs:494-514 Compiler::compile_while *)
definition compile_while :: "expr_compiler \<Rightarrow> block_compiler \<Rightarrow> expr \<Rightarrow> block \<Rightarrow> span \<Rightarrow> unit cg_op" where
  "compile_while ce cb condition block span = (let line = span_line span in
     bnd code_len (\<lambda>loop_start.
     bnd (push_break_scope 0) (\<lambda>_.
     bnd (ce condition) (\<lambda>_.
     bnd (emit (I_JmpIfNot 0) line) (\<lambda>jmp_exit.
     bnd (cb block) (\<lambda>_.
     bnd (back_jump loop_start line) (\<lambda>_.
     bnd (patch_jump jmp_exit) (\<lambda>_.
     bnd pop_break_scope (\<lambda>breaks. for_each patch_jump breaks)))))))))"

(* codegen.rs:475-482 Compiler::compile_if *)
primrec compile_elseif :: "expr_compiler \<Rightarrow> block_compiler \<Rightarrow> elseif_clause \<Rightarrow> nat cg_op" where
  "compile_elseif ce cb (Elseif condition block span) =
     bnd (ce condition) (\<lambda>_.
     bnd (emit (I_JmpIfNot 0) (span_line span)) (\<lambda>jmp_false.
     bnd (cb block) (\<lambda>_.
     bnd (emit_placeholder (span_line span)) (\<lambda>jmp_end.
     bnd (patch_jump jmp_false) (\<lambda>_. ret jmp_end)))))"

(* codegen.rs:458-492 Compiler::compile_if *)
definition compile_if :: "expr_compiler \<Rightarrow> block_compiler \<Rightarrow> expr \<Rightarrow> block \<Rightarrow> elseif_clause list \<Rightarrow>
    block option \<Rightarrow> span \<Rightarrow> unit cg_op" where
  "compile_if ce cb condition then_block elseifs else_block span = (let line = span_line span in
     bnd (ce condition) (\<lambda>_.
     bnd (emit (I_JmpIfNot 0) line) (\<lambda>jmp_false.
     bnd (cb then_block) (\<lambda>_.
     bnd (if elseifs \<noteq> [] \<or> else_block \<noteq> None
          then bnd (emit_placeholder line) (\<lambda>jmp_end. ret [jmp_end]) else ret []) (\<lambda>first_end.
     bnd (patch_jump jmp_false) (\<lambda>_.
     bnd (collect (compile_elseif ce cb) elseifs) (\<lambda>ends.
     bnd (case else_block of Some b \<Rightarrow> cb b | None \<Rightarrow> ret ()) (\<lambda>_.
     for_each patch_jump (first_end @ ends)))))))))"

(* codegen.rs:420-456 Compiler::compile_assign *)
definition compile_assign :: "expr_compiler \<Rightarrow> assign_target \<Rightarrow> expr \<Rightarrow> span \<Rightarrow> unit cg_op" where
  "compile_assign ce target value span = (let line = span_line span in case target of
       TargetName name name_span \<Rightarrow> bnd (resolve_var name) (\<lambda>v. bnd (ce value) (\<lambda>_.
         case store_var v of
           Some i \<Rightarrow> emit1 i line
         | None \<Rightarrow> fail (CE_Unknown_global name (span_line name_span))))
     | TargetIndex table key _ \<Rightarrow> bnd (ce table) (\<lambda>_. case key of
           EStringLit b _ \<Rightarrow> bnd (add_string_constant b line) (\<lambda>idx. bnd (ce value) (\<lambda>_.
             emit1 (I_SetField idx) line))
         | _ \<Rightarrow> bnd (ce key) (\<lambda>_. bnd (ce value) (\<lambda>_. emit1 I_SetTable line))))"

definition declare_and_store :: "nat \<Rightarrow> string \<times> span \<Rightarrow> unit cg_op" where
  "declare_and_store line name = bnd (declare_local (fst name) (span_line (snd name))) (\<lambda>slot.
     emit1 (I_StoreLocal (of_nat slot)) line)"

primrec local_pairs :: "expr_compiler \<Rightarrow> nat \<Rightarrow> (string \<times> span) list \<Rightarrow> expr list \<Rightarrow> unit cg_op" where
  "local_pairs ce line [] values = ret ()"
| "local_pairs ce line (name # names) values =
     bnd (case values of v # _ \<Rightarrow> ce v | [] \<Rightarrow> emit1 I_PushNil line) (\<lambda>_.
     bnd (declare_and_store line name) (\<lambda>_. local_pairs ce line names (tl values)))"

(* codegen.rs:379-418 Compiler::compile_local_decl *)
definition compile_local_decl :: "expr_compiler \<Rightarrow> (string \<times> span) list \<Rightarrow> expr list \<Rightarrow> span \<Rightarrow>
    unit cg_op" where
  "compile_local_decl ce names values span = (let line = span_line span in
     case (names, values) of
       (name_a # name_b # others, [v]) \<Rightarrow>
         if is_pcall_expr v then
           bnd (compile_pcall_expr ce v) (\<lambda>_.
           bnd (declare_local (fst name_a) (span_line (snd name_a))) (\<lambda>slot_a.
           bnd (declare_local (fst name_b) (span_line (snd name_b))) (\<lambda>slot_b.
           bnd (emits line [I_StoreLocal (of_nat slot_b), I_StoreLocal (of_nat slot_a)]) (\<lambda>_.
           for_each (\<lambda>name. bnd (emit1 I_PushNil line) (\<lambda>_. declare_and_store line name)) others))))
         else local_pairs ce line names values
     | _ \<Rightarrow> local_pairs ce line names values)"

(* codegen.rs:363-377 Compiler::compile_stmt *)
definition compile_stmt :: "expr_compiler \<Rightarrow> block_compiler \<Rightarrow> stmt \<Rightarrow> unit cg_op" where
  "compile_stmt ce cb st = (case st of
       LocalDecl names values span \<Rightarrow> compile_local_decl ce names values span
     | AssignStmt target value span \<Rightarrow> compile_assign ce target value span
     | IfStmt c b es e span \<Rightarrow> compile_if ce cb c b es e span
     | WhileStmt c b span \<Rightarrow> compile_while ce cb c b span
     | NumericFor v vs a l s b span \<Rightarrow> compile_numeric_for ce cb v vs a l s b span
     | GenericFor vars its b span \<Rightarrow> compile_generic_for ce cb vars its b span
     | FunctionDecl name f span \<Rightarrow> compile_function_decl cb name f span
     | LocalFunctionDecl n ns f span \<Rightarrow> compile_local_function_decl cb n ns f span
     | ExprStmt e span \<Rightarrow> compile_expr_stmt ce e span
     | BreakStmt span \<Rightarrow> compile_break (span_line span)
     | DoStmt b _ \<Rightarrow> cb b)"

(* codegen.rs:351-361 Compiler::compile_block *)
primrec compile_block :: "expr_compiler \<Rightarrow> block_compiler \<Rightarrow> block \<Rightarrow> unit cg_op" where
  "compile_block ce cb (Block stmts return span) =
     bnd enter_block (\<lambda>_.
     bnd (for_each (compile_stmt ce cb) stmts) (\<lambda>_.
     bnd (case return of Some r \<Rightarrow> compile_return ce r | None \<Rightarrow> ret ()) (\<lambda>_. exit_block)))"

section \<open>The whole program\<close>

fun compile_expr_rec :: "nat \<Rightarrow> expr_compiler" and compile_block_rec :: "nat \<Rightarrow> block_compiler" where
  "compile_expr_rec 0 = (\<lambda>_. timeout_op)"
| "compile_expr_rec (Suc n) = compile_expr (compile_expr_rec n) (compile_block_rec n)"
| "compile_block_rec 0 = (\<lambda>_. timeout_op)"
| "compile_block_rec (Suc n) = compile_block (compile_expr_rec n) (compile_block_rec n)"

primrec block_span :: "block \<Rightarrow> span" where
  "block_span (Block stmts return span) = span"

text \<open>
  \<open>Compiler::compile\<close> up to the program hash, which is a function of the prototypes (\<open>Lua_Hash\<close>
  models both of its versions) and a parameter here.
\<close>

definition compile_prototypes :: "block \<Rightarrow> function_proto list cg_op" where
  "compile_prototypes block =
     bnd (modifies (\<lambda>c. c\<lparr>cg_prototypes := cg_prototypes c @ [new_function_proto 0]\<rparr>)) (\<lambda>_.
     bnd (enter_function 0) (\<lambda>_.
     bnd (compile_block_rec (Suc (size block)) block) (\<lambda>_.
     bnd (emit1 (I_Ret 0) (span_line (block_span block))) (\<lambda>_.
     bnd exit_function (\<lambda>p.
     bnd (modifies (\<lambda>c. c\<lparr>cg_prototypes := (cg_prototypes c)[0 := p]\<rparr>)) (\<lambda>_.
     reads cg_prototypes))))))"

(* codegen.rs:74-98 Compiler::compile *)
definition compile :: "(function_proto list \<Rightarrow> string) \<Rightarrow> block \<Rightarrow> (compile_error, compiled_program) outcome" where
  "compile hash block = fst (bnd (compile_prototypes block)
     (\<lambda>ps. ret \<lparr>prototypes = ps, program_hash = hash ps\<rparr>) \<lparr>cg_scopes = [], cg_prototypes = []\<rparr>)"

end
