(* ===== verification/Lua_Codegen_Facts.thy ===== *)
theory Lua_Codegen_Facts
  imports Lua_Codegen Lua_Parser_Facts Lua_Verifier
begin

text \<open>
  What the code generator guarantees of the code it emits.

  \<open>code_in\<close> is well-formedness of a prototype: one line per instruction, distinct literal constants
  of at most 65535, every operand in range (\<open>needs\<close> lists what an instruction refers to) and every
  jump offset computed from a target inside the code or at its end. \<open>gen n F m n' G\<close> is the contract
  of a compiler operation: from a well-formed state with \<open>n + 1\<close> open blocks in which the facts \<open>F\<close>
  hold, \<open>m\<close> ends; it raises only the errors of \<open>raised\<close>, panics only on arithmetic overflow, and when
  it succeeds the state is well formed again, has grown (\<open>extends\<close>), and the facts \<open>G\<close> of its value
  hold too. Facts (a constant index, a slot, the place of a jump to patch, ...) stay true while the
  state grows, so each operation of the source is checked against what the earlier ones returned.
\<close>

section \<open>Well-formed code\<close>

fun desc_in :: "nat \<Rightarrow> nat \<Rightarrow> upvalue_desc \<Rightarrow> bool" where
  "desc_in nl nu (FromLocal b) \<longleftrightarrow> unat b < nl"
| "desc_in nl nu (FromUpvalue b) \<longleftrightarrow> unat b < nu"

definition jumps :: "instruction \<Rightarrow> bool" where
  "jumps i \<longleftrightarrow> Lua_Verifier.jump_offset i \<noteq> None"

datatype fact = Konst u16 | Slot u8 | Upval u8 | Proto_at u16 | Jump_at nat | Target nat

text \<open>A fact about a prototype with \<open>nl\<close> locals and \<open>nu\<close> upvalues, among the prototypes \<open>ps\<close>.\<close>

fun fact_in :: "function_proto list \<Rightarrow> nat \<Rightarrow> nat \<Rightarrow> function_proto \<Rightarrow> fact \<Rightarrow> bool" where
  "fact_in ps nl nu p (Konst k) \<longleftrightarrow> unat k < length (fp_constants p)"
| "fact_in ps nl nu p (Slot b) \<longleftrightarrow> unat b < nl"
| "fact_in ps nl nu p (Upval b) \<longleftrightarrow> unat b < nu"
| "fact_in ps nl nu p (Proto_at i) \<longleftrightarrow> 0 < unat i \<and> unat i < length ps \<and>
     (\<forall>d \<in> set (fp_upvalues (ps ! unat i)). desc_in nl nu d)"
| "fact_in ps nl nu p (Jump_at i) \<longleftrightarrow> i < length (fp_code p) \<and> jumps (fp_code p ! i)"
| "fact_in ps nl nu p (Target t) \<longleftrightarrow> t \<le> length (fp_code p)"

fun needs :: "instruction \<Rightarrow> fact set" where
  "needs (I_PushK k) = {Konst k}"
| "needs (I_GetField k) = {Konst k}"
| "needs (I_SetField k) = {Konst k}"
| "needs (I_LoadLocal b) = {Slot b}"
| "needs (I_StoreLocal b) = {Slot b}"
| "needs (I_LoadUp b) = {Upval b}"
| "needs (I_StoreUp b) = {Upval b}"
| "needs (I_Closure i) = {Proto_at i}"
| "needs _ = {}"

fun literal :: "constant_entry \<Rightarrow> bool" where
  "literal (K_Integer n) \<longleftrightarrow> True"
| "literal (K_String b) \<longleftrightarrow> True"
| "literal _ \<longleftrightarrow> False"

definition lands :: "nat \<Rightarrow> nat \<Rightarrow> instruction \<Rightarrow> bool" where
  "lands len pc i \<longleftrightarrow> (\<forall>off. Lua_Verifier.jump_offset i = Some off \<longrightarrow>
     (\<exists>t\<le>len. off = Lua_Codegen.jump_offset pc t))"

definition code_in :: "function_proto list \<Rightarrow> nat \<Rightarrow> nat \<Rightarrow> function_proto \<Rightarrow> bool" where
  "code_in ps nl nu p \<longleftrightarrow>
     length (fp_lines p) = length (fp_code p) \<and>
     distinct (fp_constants p) \<and> length (fp_constants p) \<le> 65535 \<and>
     (\<forall>k \<in> set (fp_constants p). literal k) \<and>
     (\<forall>i \<in> set (fp_code p). \<forall>f \<in> needs i. fact_in ps nl nu p f) \<and>
     (\<forall>pc < length (fp_code p). lands (length (fp_code p)) pc (fp_code p ! pc))"

definition proto_ok :: "function_proto list \<Rightarrow> function_proto \<Rightarrow> bool" where
  "proto_ok ps p \<longleftrightarrow> code_in ps (unat (fp_local_count p)) (length (fp_upvalues p)) p \<and>
     fp_upvalue_count p = of_nat (length (fp_upvalues p))"

section \<open>Well-formed compiler states\<close>

abbreviation scope_fact :: "function_proto list \<Rightarrow> function_scope \<Rightarrow> fact \<Rightarrow> bool" where
  "scope_fact ps s \<equiv> fact_in ps (fs_max_locals s) (length (fs_upvalues s)) (fs_proto s)"

definition scope_ok :: "function_proto list \<Rightarrow> function_scope \<Rightarrow> bool" where
  "scope_ok ps s \<longleftrightarrow>
     code_in ps (fs_max_locals s) (length (fs_upvalues s)) (fs_proto s) \<and>
     fs_max_locals s \<le> 255 \<and> fs_blocks s \<noteq> [] \<and>
     (\<forall>(name, slot) \<in> set (concat (fs_blocks s)). slot < fs_max_locals s) \<and>
     (\<forall>(n, js) \<in> set (fs_break_patches s). \<forall>j \<in> set js. scope_fact ps s (Jump_at j))"

text \<open>Every upvalue of a function is a local or an upvalue of the enclosing one.\<close>

fun chained :: "function_scope list \<Rightarrow> bool" where
  "chained [] \<longleftrightarrow> True"
| "chained [s] \<longleftrightarrow> fs_upvalues s = []"
| "chained (s # t # ss) \<longleftrightarrow>
     (\<forall>d \<in> snd ` set (fs_upvalues s). desc_in (fs_max_locals t) (length (fs_upvalues t)) d) \<and>
     chained (t # ss)"

definition state_ok :: "compiler \<Rightarrow> bool" where
  "state_ok c \<longleftrightarrow>
     (\<forall>s \<in> set (cg_scopes c). scope_ok (cg_prototypes c) s) \<and> chained (cg_scopes c) \<and>
     (\<forall>p \<in> set (cg_prototypes c). proto_ok (cg_prototypes c) p) \<and>
     0 < length (cg_prototypes c) \<and> length (cg_prototypes c) \<le> 65535"

definition at_block :: "nat \<Rightarrow> compiler \<Rightarrow> bool" where
  "at_block n c \<longleftrightarrow> (\<exists>s ss. cg_scopes c = s # ss \<and> length (fs_blocks s) = Suc n)"

definition knows :: "compiler \<Rightarrow> fact set \<Rightarrow> bool" where
  "knows c F \<longleftrightarrow> (\<forall>f \<in> F. scope_fact (cg_prototypes c) (hd (cg_scopes c)) f)"

definition scope_grows :: "function_scope \<Rightarrow> function_scope \<Rightarrow> bool" where
  "scope_grows s s' \<longleftrightarrow> fs_max_locals s \<le> fs_max_locals s' \<and>
     length (fs_upvalues s) \<le> length (fs_upvalues s') \<and>
     length (fp_constants (fs_proto s)) \<le> length (fp_constants (fs_proto s')) \<and>
     length (fp_code (fs_proto s)) \<le> length (fp_code (fs_proto s')) \<and>
     (\<forall>i < length (fp_code (fs_proto s)).
        jumps (fp_code (fs_proto s) ! i) \<longrightarrow> jumps (fp_code (fs_proto s') ! i))"

text \<open>An enclosing function can only gain upvalues.\<close>

definition captures :: "function_scope \<Rightarrow> function_scope \<Rightarrow> bool" where
  "captures s s' \<longleftrightarrow> (\<exists>us. s' = s\<lparr>fs_upvalues := fs_upvalues s @ us\<rparr>)"

definition extends :: "compiler \<Rightarrow> compiler \<Rightarrow> bool" where
  "extends c c' \<longleftrightarrow> (\<exists>s ss s' ss' ps. cg_scopes c = s # ss \<and> cg_scopes c' = s' # ss' \<and> scope_grows s s' \<and>
     list_all2 captures ss ss' \<and> cg_prototypes c' = cg_prototypes c @ ps)"

lemma scope_grows_refl [simp]: "scope_grows s s"
  by (simp add: scope_grows_def)

lemma scope_grows_trans: "scope_grows s t \<Longrightarrow> scope_grows t u \<Longrightarrow> scope_grows s u"
  unfolding scope_grows_def by (meson le_trans less_le_trans)

lemma captures_refl [simp]: "captures s s"
  by (auto simp: captures_def intro: exI [of _ "[]"])

lemma captures_trans: "captures s t \<Longrightarrow> captures t u \<Longrightarrow> captures s u"
  by (auto simp: captures_def)

lemma captures_list_refl [simp]: "list_all2 captures ss ss"
  by (simp add: list_all2_refl)

lemma extends_refl: "at_block n c \<Longrightarrow> extends c c"
  by (auto simp: extends_def at_block_def)

lemma captures_list_trans:
  "list_all2 captures ss ts \<Longrightarrow> list_all2 captures ts us \<Longrightarrow> list_all2 captures ss us"
  by (rule list_all2_trans [OF captures_trans])

lemma extends_trans:
  assumes "extends c d" and "extends d e"
  shows "extends c e"
proof -
  obtain s ss t ts ps where d: "cg_scopes c = s # ss" "cg_scopes d = t # ts" "scope_grows s t"
      "list_all2 captures ss ts" "cg_prototypes d = cg_prototypes c @ ps"
    using assms(1) unfolding extends_def by blast
  obtain u us qs where e: "cg_scopes e = u # us" "scope_grows t u" "list_all2 captures ts us"
      "cg_prototypes e = cg_prototypes d @ qs"
    using assms(2) d(2) unfolding extends_def by fastforce
  show ?thesis unfolding extends_def
    using d e scope_grows_trans [OF d(3) e(2)] captures_list_trans [OF d(4) e(3)] by auto
qed

lemma desc_in_mono: "desc_in nl nu d \<Longrightarrow> nl \<le> nl' \<Longrightarrow> nu \<le> nu' \<Longrightarrow> desc_in nl' nu' d"
  by (cases d) auto

lemma fact_in_grows:
  "scope_fact ps s f \<Longrightarrow> scope_grows s s' \<Longrightarrow> scope_fact (ps @ qs) s' f"
  by (cases f) (auto simp: scope_grows_def nth_append intro: desc_in_mono)

lemma knows_extends: "knows c F \<Longrightarrow> extends c c' \<Longrightarrow> knows c' F"
  unfolding knows_def extends_def by (metis fact_in_grows list.sel(1))

section \<open>The contract of a compiler operation\<close>

fun raised :: "compile_error \<Rightarrow> bool" where
  "raised (CE_Tool_as_value l) \<longleftrightarrow> True"
| "raised (CE_Too_many_locals l) \<longleftrightarrow> True"
| "raised (CE_Too_many_constants l) \<longleftrightarrow> True"
| "raised (CE_Too_many_prototypes l) \<longleftrightarrow> True"
| "raised (CE_Break_outside_loop l) \<longleftrightarrow> True"
| "raised (CE_Generic_for_not_iterator l) \<longleftrightarrow> True"
| "raised (CE_Unknown_global name l) \<longleftrightarrow> True"
| "raised _ \<longleftrightarrow> False"

definition ends_in :: "(compile_error, 'a) outcome \<times> 's \<Rightarrow> ('a \<Rightarrow> 's \<Rightarrow> bool) \<Rightarrow> bool" where
  "ends_in r Q \<longleftrightarrow> (case fst r of
       Ok a \<Rightarrow> Q a (snd r)
     | Err e \<Rightarrow> raised e
     | Panic p \<Rightarrow> p = Arithmetic_overflow
     | Timeout \<Rightarrow> False)"

definition gen :: "nat \<Rightarrow> fact set \<Rightarrow> 'a cg_op \<Rightarrow> nat \<Rightarrow> ('a \<Rightarrow> fact set) \<Rightarrow> bool" where
  "gen n F m n' G \<longleftrightarrow> (\<forall>c. state_ok c \<longrightarrow> at_block n c \<longrightarrow> knows c F \<longrightarrow>
     ends_in (m c) (\<lambda>a c'. state_ok c' \<and> at_block n' c' \<and> extends c c' \<and> knows c' (G a)))"

lemma ends_in_simps [simp]:
  "ends_in (Ok a, s) Q \<longleftrightarrow> Q a s"
  "ends_in (Err e, s) Q \<longleftrightarrow> raised e"
  "ends_in (Panic p, s) Q \<longleftrightarrow> p = Arithmetic_overflow"
  "\<not> ends_in (Timeout, s) Q"
  by (simp_all add: ends_in_def)

lemma ends_in_mono: "ends_in r Q \<Longrightarrow> (\<And>a s. Q a s \<Longrightarrow> Q' a s) \<Longrightarrow> ends_in r Q'"
  by (auto simp: ends_in_def split: outcome.splits)

lemma ends_in_bnd: "ends_in (m s) (\<lambda>a s'. ends_in (f a s') Q) \<Longrightarrow> ends_in (bnd m f s) Q"
  by (auto simp: bnd_def ends_in_def split: prod.splits outcome.splits)

lemma genI:
  "(\<And>c. state_ok c \<Longrightarrow> at_block n c \<Longrightarrow> knows c F \<Longrightarrow>
     ends_in (m c) (\<lambda>a c'. state_ok c' \<and> at_block n' c' \<and> extends c c' \<and> knows c' (G a))) \<Longrightarrow> gen n F m n' G"
  by (simp add: gen_def)

lemma genD:
  "gen n F m n' G \<Longrightarrow> state_ok c \<Longrightarrow> at_block n c \<Longrightarrow> knows c F \<Longrightarrow>
     ends_in (m c) (\<lambda>a c'. state_ok c' \<and> at_block n' c' \<and> extends c c' \<and> knows c' (G a))"
  by (simp add: gen_def)

lemma knows_mono: "knows c F \<Longrightarrow> G \<subseteq> F \<Longrightarrow> knows c G"
  by (auto simp: knows_def)

lemma knows_Un [simp]: "knows c (F \<union> G) \<longleftrightarrow> knows c F \<and> knows c G"
  by (auto simp: knows_def)

lemma knows_empty [simp]: "knows c {}"
  by (simp add: knows_def)

lemma gen_ret: "G a \<subseteq> F \<Longrightarrow> gen n F (ret a) n G"
  by (auto intro!: genI simp: extends_refl intro: knows_mono)

lemma gen_fail: "raised e \<Longrightarrow> gen n F (fail e) n' G"
  by (auto intro!: genI)

lemma gen_overflow: "gen n F (panic_with Arithmetic_overflow) n' G"
  by (auto intro!: genI)

lemma gen_bnd:
  assumes "gen n F m k G" and "\<And>a. gen k (F \<union> G a) (f a) n' H"
  shows "gen n F (bnd m f) n' H"
proof (rule genI)
  fix c assume c: "state_ok c" "at_block n c" "knows c F"
  show "ends_in (bnd m f c) (\<lambda>a c'. state_ok c' \<and> at_block n' c' \<and> extends c c' \<and> knows c' (H a))"
  proof (rule ends_in_bnd, rule ends_in_mono [OF genD [OF assms(1) c]])
    fix a d assume d: "state_ok d \<and> at_block k d \<and> extends c d \<and> knows d (G a)"
    with c(3) have "knows d (F \<union> G a)" by (auto intro: knows_extends)
    with d have "ends_in (f a d) (\<lambda>a c'. state_ok c' \<and> at_block n' c' \<and> extends d c' \<and> knows c' (H a))"
      by (intro genD [OF assms(2)]) auto
    then show "ends_in (f a d) (\<lambda>a c'. state_ok c' \<and> at_block n' c' \<and> extends c c' \<and> knows c' (H a))"
      using d by (auto elim!: ends_in_mono intro: extends_trans)
  qed
qed

lemma gen_weaken: "gen n F m n' G \<Longrightarrow> F \<subseteq> F' \<Longrightarrow> (\<And>a. H a \<subseteq> G a) \<Longrightarrow> gen n F' m n' H"
  by (rule genI, rule ends_in_mono, rule genD, assumption+) (auto intro: knows_mono)

lemma gen_if: "(b \<Longrightarrow> gen n F m n' G) \<Longrightarrow> (\<not> b \<Longrightarrow> gen n F m' n' G) \<Longrightarrow> gen n F (if b then m else m') n' G"
  by simp

lemma gen_for_each: "(\<And>x. x \<in> set xs \<Longrightarrow> gen n F (f x) n (\<lambda>_. {})) \<Longrightarrow> gen n F (for_each f xs) n (\<lambda>_. {})"
  by (induction xs) (auto intro!: gen_ret gen_bnd)

section \<open>Operations on the innermost scope\<close>

definition scope_step :: "nat \<Rightarrow> fact set \<Rightarrow> 'a scope_op \<Rightarrow> nat \<Rightarrow> ('a \<Rightarrow> fact set) \<Rightarrow> bool" where
  "scope_step n F m n' G \<longleftrightarrow> (\<forall>ps s. scope_ok ps s \<longrightarrow> length (fs_blocks s) = Suc n \<longrightarrow>
     (\<forall>f \<in> F. scope_fact ps s f) \<longrightarrow>
     ends_in (m s) (\<lambda>a s'. scope_ok ps s' \<and> length (fs_blocks s') = Suc n' \<and> scope_grows s s' \<and>
       fs_upvalues s' = fs_upvalues s \<and> (\<forall>f \<in> G a. scope_fact ps s' f)))"

lemma chained_head: "chained (s # ss) \<Longrightarrow> fs_upvalues s' = fs_upvalues s \<Longrightarrow> chained (s' # ss)"
  by (cases ss) auto

lemma on_scope_eq:
  "cg_scopes c = s # ss \<Longrightarrow> on_scope m c = (case m s of (r, s') \<Rightarrow> (r, c\<lparr>cg_scopes := s' # ss\<rparr>))"
  by (simp add: on_scope_def)

lemma on_scope_bnd: "bnd (on_scope m) (\<lambda>a. on_scope (f a)) = on_scope (bnd m f)"
  by (rule ext) (auto simp: bnd_def on_scope_def split: list.splits prod.splits outcome.splits)

lemma gen_on_scope:
  assumes "scope_step n F m n' G"
  shows "gen n F (on_scope m) n' G"
proof (rule genI)
  fix c assume c: "state_ok c" "at_block n c" "knows c F"
  then obtain s ss where s: "cg_scopes c = s # ss" "length (fs_blocks s) = Suc n"
    by (auto simp: at_block_def)
  obtain r s' where r: "m s = (r, s')" by (cases "m s")
  have "ends_in (r, s') (\<lambda>a s'. scope_ok (cg_prototypes c) s' \<and> length (fs_blocks s') = Suc n' \<and>
      scope_grows s s' \<and> fs_upvalues s' = fs_upvalues s \<and>
      (\<forall>f \<in> G a. scope_fact (cg_prototypes c) s' f))"
    using assms c s unfolding scope_step_def r [symmetric] by (auto simp: state_ok_def knows_def)
  then show "ends_in (on_scope m c) (\<lambda>a c'. state_ok c' \<and> at_block n' c' \<and> extends c c' \<and> knows c' (G a))"
    using c s r
    by (cases r) (auto simp: on_scope_eq state_ok_def at_block_def extends_def knows_def
        intro: chained_head)
qed

lemma scope_stepI:
  "(\<And>ps s. scope_ok ps s \<Longrightarrow> length (fs_blocks s) = Suc n \<Longrightarrow> (\<forall>f \<in> F. scope_fact ps s f) \<Longrightarrow>
     ends_in (m s) (\<lambda>a s'. scope_ok ps s' \<and> length (fs_blocks s') = Suc n' \<and> scope_grows s s' \<and>
       fs_upvalues s' = fs_upvalues s \<and> (\<forall>f \<in> G a. scope_fact ps s' f))) \<Longrightarrow> scope_step n F m n' G"
  by (simp add: scope_step_def)

lemma lands_mono: "lands len pc i \<Longrightarrow> len \<le> len' \<Longrightarrow> lands len' pc i"
  unfolding lands_def by (meson order_trans)

lemma lands_not_jump [simp]: "\<not> jumps i \<Longrightarrow> lands len pc i"
  by (simp add: lands_def jumps_def)

lemma lands_next: "Lua_Verifier.jump_offset i = Some 0 \<Longrightarrow> pc < len \<Longrightarrow> lands len pc i"
  by (auto simp: lands_def Lua_Codegen.jump_offset_def intro!: exI [of _ "Suc pc"])

lemma with_offset_jump: "jumps i \<Longrightarrow> \<exists>i'. with_offset off i = Some i'"
  by (cases i) (auto simp: jumps_def)

lemma with_offset_Some:
  "with_offset off i = Some i' \<Longrightarrow> Lua_Verifier.jump_offset i' = Some off \<and> needs i' = {} \<and> jumps i'"
  by (cases i) (auto simp: jumps_def)

text \<open>Appending an instruction, and replacing the offset of a jump.\<close>

lemma code_in_more:
  assumes "code_in ps nl nu p" and "nl \<le> nl'" and "nu \<le> nu'"
  shows "code_in ps nl' nu' p"
proof -
  have "fact_in ps nl nu p f \<Longrightarrow> fact_in ps nl' nu' p f" for f
    using assms(2,3) by (cases f) (auto intro: desc_in_mono)
  with assms(1) show ?thesis by (auto simp: code_in_def)
qed

lemma fact_in_code:
  "length (fp_code p) \<le> length code \<Longrightarrow>
   (\<And>i. i < length (fp_code p) \<Longrightarrow> jumps (fp_code p ! i) \<Longrightarrow> jumps (code ! i)) \<Longrightarrow>
   fact_in ps nl nu p f \<Longrightarrow> fact_in ps nl nu (p\<lparr>fp_code := code, fp_lines := ls\<rparr>) f"
  by (cases f) auto

lemma code_in_append:
  assumes "code_in ps nl nu p" and "\<forall>f \<in> needs i. fact_in ps nl nu p f"
    and "lands (Suc (length (fp_code p))) (length (fp_code p)) i"
  shows "code_in ps nl nu (p\<lparr>fp_code := fp_code p @ [i], fp_lines := fp_lines p @ [line]\<rparr>)"
proof -
  have "fact_in ps nl nu p f \<Longrightarrow>
      fact_in ps nl nu (p\<lparr>fp_code := fp_code p @ [i], fp_lines := fp_lines p @ [line]\<rparr>) f" for f
    by (rule fact_in_code) (auto simp: nth_append)
  moreover have "lands (Suc (length (fp_code p))) pc ((fp_code p @ [i]) ! pc)"
    if "pc < Suc (length (fp_code p))" for pc
    using that assms by (auto simp: nth_append code_in_def less_Suc_eq intro: lands_mono)
  ultimately show ?thesis using assms(1,2) by (auto simp: code_in_def)
qed

lemma code_in_patch:
  assumes p: "code_in ps nl nu p" and "idx < length (fp_code p)" and "jumps (fp_code p ! idx)"
    and i: "with_offset (Lua_Codegen.jump_offset idx t) (fp_code p ! idx) = Some i" and t: "t \<le> length (fp_code p)"
  shows "code_in ps nl nu (p\<lparr>fp_code := (fp_code p)[idx := i]\<rparr>)"
proof -
  have "fact_in ps nl nu p f \<Longrightarrow> fact_in ps nl nu (p\<lparr>fp_code := (fp_code p)[idx := i], fp_lines := fp_lines p\<rparr>) f" for f
    using with_offset_Some [OF i] assms(2) by (intro fact_in_code) (auto simp: nth_list_update)
  moreover have "lands (length (fp_code p)) pc ((fp_code p)[idx := i] ! pc)" if "pc < length (fp_code p)" for pc
    using that p t with_offset_Some [OF i] by (cases "pc = idx") (auto simp: code_in_def lands_def)
  ultimately show ?thesis using p with_offset_Some [OF i]
    by (auto simp: code_in_def dest!: set_update_subset_insert [THEN subsetD])
qed

lemma scope_okD:
  "scope_ok ps s \<Longrightarrow> code_in ps (fs_max_locals s) (length (fs_upvalues s)) (fs_proto s)"
  "scope_ok ps s \<Longrightarrow> fs_max_locals s \<le> 255"
  "scope_ok ps s \<Longrightarrow> fs_blocks s \<noteq> []"
  "scope_ok ps s \<Longrightarrow> (name, slot) \<in> set (concat (fs_blocks s)) \<Longrightarrow> slot < fs_max_locals s"
  "scope_ok ps s \<Longrightarrow> (n, js) \<in> set (fs_break_patches s) \<Longrightarrow> j \<in> set js \<Longrightarrow> scope_fact ps s (Jump_at j)"
  unfolding scope_ok_def by (blast | fastforce)+

lemma gen_code_len: "gen n F code_len n (\<lambda>t. {Target t})"
  unfolding code_len_def by (rule gen_on_scope) (auto intro!: scope_stepI)

lemma scope_ok_code:
  assumes "scope_ok ps s" and "code_in ps (fs_max_locals s) (length (fs_upvalues s)) p"
    and "length (fp_code (fs_proto s)) \<le> length (fp_code p)"
    and "\<And>i. i < length (fp_code (fs_proto s)) \<Longrightarrow> jumps (fp_code (fs_proto s) ! i) \<Longrightarrow> jumps (fp_code p ! i)"
  shows "scope_ok ps (s\<lparr>fs_proto := p\<rparr>)"
  using assms unfolding scope_ok_def by fastforce

lemma step_emit:
  assumes "needs i \<subseteq> F" and "Lua_Verifier.jump_offset i = None \<or> Lua_Verifier.jump_offset i = Some 0"
  shows "gen n F (emit i line) n (\<lambda>idx. if jumps i then {Jump_at idx} else {})"
  unfolding emit_def
proof (intro gen_on_scope scope_stepI)
  fix ps s assume s: "scope_ok ps s" "length (fs_blocks s) = Suc n" "\<forall>f \<in> F. scope_fact ps s f"
  let ?p = "fs_proto s"
  let ?p' = "?p\<lparr>fp_code := fp_code ?p @ [i], fp_lines := fp_lines ?p @ [line]\<rparr>"
  have "lands (Suc (length (fp_code ?p))) (length (fp_code ?p)) i"
    using assms(2) by (auto simp: jumps_def intro: lands_next)
  then have "code_in ps (fs_max_locals s) (length (fs_upvalues s)) ?p'"
    using s assms(1) by (intro code_in_append scope_okD) auto
  then show "ends_in (Ok (length (fp_code ?p)), s\<lparr>fs_proto := ?p'\<rparr>) (\<lambda>idx s'. scope_ok ps s' \<and>
      length (fs_blocks s') = Suc n \<and> scope_grows s s' \<and> fs_upvalues s' = fs_upvalues s \<and>
      (\<forall>f \<in> if jumps i then {Jump_at idx} else {}. scope_fact ps s' f))"
    using s by (auto simp: scope_grows_def nth_append intro!: scope_ok_code)
qed

lemma gen_emit:
  "needs i \<subseteq> F \<Longrightarrow> Lua_Verifier.jump_offset i = Some 0 \<Longrightarrow> gen n F (emit i line) n (\<lambda>idx. {Jump_at idx})"
  using step_emit [of i F n line] by (simp add: jumps_def)

lemma gen_emit1: "needs i \<subseteq> F \<Longrightarrow> \<not> jumps i \<Longrightarrow> gen n F (emit1 i line) n (\<lambda>_. {})"
  unfolding emit1_def using step_emit [of i F n line]
  by (auto simp: jumps_def intro!: gen_bnd [where G = "\<lambda>_. {}"] gen_ret)

lemma gen_emits: "(\<And>i. i \<in> set is \<Longrightarrow> needs i \<subseteq> F \<and> \<not> jumps i) \<Longrightarrow> gen n F (emits line is) n (\<lambda>_. {})"
  unfolding emits_def emit1_def [symmetric] by (intro gen_for_each gen_emit1) auto

lemma gen_placeholder: "gen n F (emit_placeholder line) n (\<lambda>idx. {Jump_at idx})"
  unfolding emit_placeholder_def by (rule gen_emit) auto

lemma gen_patch_to:
  assumes "Jump_at idx \<in> F" and "Target t \<in> F"
  shows "gen n F (patch_jump_to idx t) n (\<lambda>_. {})"
  unfolding patch_jump_to_def
proof (intro gen_on_scope scope_stepI)
  fix ps s assume s: "scope_ok ps s" "length (fs_blocks s) = Suc n" "\<forall>f \<in> F. scope_fact ps s f"
  let ?p = "fs_proto s"
  have at: "idx < length (fp_code ?p)" "jumps (fp_code ?p ! idx)" "t \<le> length (fp_code ?p)"
    using s(3) assms by force+
  obtain i where i: "with_offset (Lua_Codegen.jump_offset idx t) (fp_code ?p ! idx) = Some i"
    using with_offset_jump [OF at(2)] by blast
  have "scope_ok ps (s\<lparr>fs_proto := ?p\<lparr>fp_code := (fp_code ?p)[idx := i]\<rparr>\<rparr>)"
    using s(1) at with_offset_Some [OF i]
    by (intro scope_ok_code code_in_patch [OF _ _ _ i] scope_okD) (auto simp: nth_list_update)
  then show "ends_in (let code = fp_code ?p in if length code \<le> idx then (Panic Index_out_of_bounds, s)
       else (case with_offset (Lua_Codegen.jump_offset idx t) (code ! idx) of
           None \<Rightarrow> (Panic Explicit_panic, s)
         | Some i \<Rightarrow> (Ok (), s\<lparr>fs_proto := ?p\<lparr>fp_code := code[idx := i]\<rparr>\<rparr>)))
     (\<lambda>a s'. scope_ok ps s' \<and> length (fs_blocks s') = Suc n \<and> scope_grows s s' \<and>
        fs_upvalues s' = fs_upvalues s \<and> (\<forall>f \<in> {}. scope_fact ps s' f))"
    using s at i with_offset_Some [OF i] by (simp add: scope_grows_def nth_list_update)
qed

lemma gen_patch: "Jump_at idx \<in> F \<Longrightarrow> gen n F (patch_jump idx) n (\<lambda>_. {})"
  unfolding patch_jump_def by (intro gen_bnd [OF gen_code_len] gen_patch_to) auto

lemma gen_back_jump:
  assumes "Target t \<in> F"
  shows "gen n F (back_jump t line) n (\<lambda>_. {})"
proof -
  let ?jmp = "\<lambda>s. I_Jmp (Lua_Codegen.jump_offset (length (fp_code (fs_proto s))) t)"
  let ?step = "\<lambda>s. (Ok (length (fp_code (fs_proto s))), s\<lparr>fs_proto := (fs_proto s)
      \<lparr>fp_code := fp_code (fs_proto s) @ [?jmp s], fp_lines := fp_lines (fs_proto s) @ [line]\<rparr>\<rparr>)"
  have "back_jump t line = bnd (on_scope ?step) (\<lambda>_. ret ())"
    by (rule ext) (simp add: back_jump_def code_len_def emit_def on_scope_def bnd_def split: list.split)
  moreover have "scope_step n F ?step n (\<lambda>_. {})"
  proof (rule scope_stepI)
    fix ps s assume s: "scope_ok ps s" "length (fs_blocks s) = Suc n" "\<forall>f \<in> F. scope_fact ps s f"
    let ?p = "fs_proto s"
    have "t \<le> length (fp_code ?p)" using s(3) assms by force
    then have "lands (Suc (length (fp_code ?p))) (length (fp_code ?p)) (?jmp s)"
      by (auto simp: lands_def intro!: exI [of _ t])
    then have "code_in ps (fs_max_locals s) (length (fs_upvalues s))
        (?p\<lparr>fp_code := fp_code ?p @ [?jmp s], fp_lines := fp_lines ?p @ [line]\<rparr>)"
      using s by (intro code_in_append scope_okD) auto
    then show "ends_in (?step s) (\<lambda>a s'. scope_ok ps s' \<and> length (fs_blocks s') = Suc n \<and>
        scope_grows s s' \<and> fs_upvalues s' = fs_upvalues s \<and> (\<forall>f \<in> {}. scope_fact ps s' f))"
      using s by (auto simp: scope_grows_def nth_append intro!: scope_ok_code)
  qed
  ultimately show ?thesis by (auto intro: gen_bnd [OF gen_on_scope] gen_ret)
qed

text \<open>Constants.\<close>

lemma unat_of_nat_le: "unat (of_nat x :: 'a::len word) \<le> x"
  by (simp add: unat_of_nat)

lemma unat_of_nat_less: "x < y \<Longrightarrow> unat (of_nat x :: 'a::len word) < y"
  by (rule le_less_trans [OF unat_of_nat_le])

lemma index_of_less: "index_of xs x = Some i \<Longrightarrow> i < length xs"
  by (induction xs arbitrary: i) (auto split: if_splits)

lemma index_of_None: "index_of xs x = None \<Longrightarrow> x \<notin> set xs"
  by (induction xs) (auto split: if_splits)

lemma fact_in_constants:
  "fact_in ps nl nu p f \<Longrightarrow> fact_in ps nl nu (p\<lparr>fp_constants := fp_constants p @ ks\<rparr>) f"
  by (cases f) auto

lemma gen_add_constant: "literal k \<Longrightarrow> gen n F (add_constant k line) n (\<lambda>i. {Konst i})"
  unfolding add_constant_def
proof (intro gen_on_scope scope_stepI, goal_cases)
  case (1 ps s)
  let ?p = "fs_proto s"
  show ?case
  proof (cases "index_of (fp_constants ?p) k")
    case None
    then have "code_in ps (fs_max_locals s) (length (fs_upvalues s)) (?p\<lparr>fp_constants := fp_constants ?p @ [k]\<rparr>)"
      if "length (fp_constants ?p) < 65535"
      using 1 that scope_okD(1) [OF 1(2)] index_of_None [OF None]
      by (auto simp: code_in_def intro: fact_in_constants)
    with None 1 show ?thesis
      by (auto simp: Let_def scope_grows_def intro!: scope_ok_code unat_of_nat_less)
  qed (use 1 in \<open>auto simp: unat_of_nat_less dest: index_of_less\<close>)
qed

lemma gen_string_constant: "gen n F (add_string_constant b line) n (\<lambda>i. {Konst i})"
  unfolding add_string_constant_def by (rule gen_add_constant) simp

lemma gen_int_constant: "gen n F (add_int_constant m line) n (\<lambda>i. {Konst i})"
  unfolding add_int_constant_def by (rule gen_add_constant) simp

text \<open>Slots, blocks and loops.\<close>

lemma scope_ok_locals:
  assumes "scope_ok ps s" and "fs_max_locals s \<le> m" and "m \<le> 255" and "bs \<noteq> []"
    and "\<And>name slot. (name, slot) \<in> set (concat bs) \<Longrightarrow> slot < m"
  shows "scope_ok ps (s\<lparr>fs_next_slot := x, fs_max_locals := m, fs_blocks := bs\<rparr>)"
  using assms unfolding scope_ok_def by (auto intro: code_in_more)

lemma scope_ok_blocks:
  assumes "scope_ok ps s" and "bs \<noteq> []"
    and "\<And>name slot. (name, slot) \<in> set (concat bs) \<Longrightarrow> slot < fs_max_locals s"
  shows "scope_ok ps (s\<lparr>fs_blocks := bs, fs_next_slot := x\<rparr>)" "scope_ok ps (s\<lparr>fs_blocks := bs\<rparr>)"
  using assms unfolding scope_ok_def by auto

lemma scope_ok_next: "scope_ok ps s \<Longrightarrow> scope_ok ps (s\<lparr>fs_next_slot := x\<rparr>)"
  by (simp add: scope_ok_def)

lemma scope_ok_take: "scope_ok ps s \<Longrightarrow> m \<le> 255 \<Longrightarrow>
    scope_ok ps (s\<lparr>fs_next_slot := x, fs_max_locals := max (fs_max_locals s) m\<rparr>)"
  unfolding scope_ok_def by (fastforce intro: code_in_more)

lemma step_take_slot: "scope_step n F take_slot n (\<lambda>slot. {Slot (of_nat slot)})"
  by (rule scope_stepI)
    (auto simp: take_slot_def Let_def scope_grows_def intro!: scope_ok_take unat_of_nat_less)

lemma gen_alloc_temp: "gen n F alloc_temp_slot n (\<lambda>slot. {Slot (of_nat slot)})"
  unfolding alloc_temp_slot_def by (intro gen_on_scope step_take_slot)

lemma gen_free_temp: "gen n F free_temp_slot n (\<lambda>_. {})"
  unfolding free_temp_slot_def
  by (intro gen_on_scope scope_stepI) (auto simp: scope_grows_def intro: scope_ok_next)

lemma gen_declare_local: "gen n F (declare_local name line) n (\<lambda>slot. {Slot (of_nat slot)})"
  unfolding declare_local_def
proof (intro gen_on_scope scope_stepI, goal_cases)
  case (1 ps s)
  then obtain b bs where b: "fs_blocks s = b # bs" by (cases "fs_blocks s") auto
  have "scope_ok ps (s\<lparr>fs_next_slot := x, fs_max_locals := max (fs_max_locals s) (Suc m),
      fs_blocks := ((name, m) # b) # bs\<rparr>)" if "Suc m \<le> 255" for x m
    using that scope_okD(4) [OF 1(1)] scope_okD(2) [OF 1(1)] b
    by (intro scope_ok_locals [OF 1(1)]) (auto simp: less_max_iff_disj)
  with 1 b show ?case
    by (auto simp: bnd_def take_slot_def Let_def push_local_def scope_grows_def intro!: unat_of_nat_less)
qed

lemma gen_enter_block: "gen n F enter_block (Suc n) (\<lambda>_. {})"
  unfolding enter_block_def
  by (intro gen_on_scope scope_stepI) (auto simp: scope_grows_def intro!: scope_ok_blocks dest: scope_okD(4))

lemma gen_exit_block: "gen (Suc n) F exit_block n (\<lambda>_. {})"
  unfolding exit_block_def
proof (intro gen_on_scope scope_stepI, goal_cases)
  case (1 ps s)
  then obtain b bs where b: "fs_blocks s = b # bs" "bs \<noteq> []" by (cases "fs_blocks s"; cases "tl (fs_blocks s)") auto
  have "scope_ok ps (s\<lparr>fs_blocks := bs, fs_next_slot := x\<rparr>)" for x
    using scope_okD(4) [OF 1(1)] b by (intro scope_ok_blocks [OF 1(1)]) auto
  with 1 b show ?case by (simp add: scope_grows_def)
qed

lemma gen_push_break: "gen n F (push_break_scope k) n (\<lambda>_. {})"
  unfolding push_break_scope_def
  by (intro gen_on_scope scope_stepI) (auto simp: scope_grows_def scope_ok_def)

lemma gen_pop_break: "gen n F pop_break_scope n (\<lambda>js. Jump_at ` set js)"
  unfolding pop_break_scope_def
  by (intro gen_on_scope scope_stepI) (auto simp: scope_grows_def scope_ok_def split: list.split)

section \<open>Names\<close>

lemma captures_grows: "captures s s' \<Longrightarrow> scope_grows s s'"
  by (auto simp: captures_def scope_grows_def)

lemma captures_blocks: "captures s s' \<Longrightarrow> fs_blocks s' = fs_blocks s"
  by (auto simp: captures_def)

lemma scope_ok_captures: "scope_ok ps s \<Longrightarrow> captures s s' \<Longrightarrow> scope_ok ps s'"
  by (fastforce simp: captures_def scope_ok_def intro: code_in_more)

lemma desc_in_captures:
  "desc_in (fs_max_locals s) (length (fs_upvalues s)) d \<Longrightarrow> captures s s' \<Longrightarrow>
   desc_in (fs_max_locals s') (length (fs_upvalues s')) d"
  by (auto simp: captures_def intro: desc_in_mono)

lemma chained_tail:
  "chained (s # ss) \<Longrightarrow> list_all2 captures ss ss' \<Longrightarrow> chained ss' \<Longrightarrow> chained (s # ss')"
  by (cases ss; cases ss') (auto intro: desc_in_captures)

definition found :: "upvalue_desc option \<Rightarrow> function_scope list \<Rightarrow> bool" where
  "found d ss \<longleftrightarrow> (case d of None \<Rightarrow> True
     | Some d \<Rightarrow> (case ss of [] \<Rightarrow> False
         | s # _ \<Rightarrow> desc_in (fs_max_locals s) (length (fs_upvalues s)) d))"

lemma local_found:
  "scope_ok ps s \<Longrightarrow> scope_local s name = Some slot \<Longrightarrow> unat (of_nat slot :: u8) < fs_max_locals s"
  unfolding scope_local_def by (intro unat_of_nat_less) (rule scope_okD(4), auto dest: map_of_SomeD)

lemma upvalue_found: "scope_upvalue s name = Some i \<Longrightarrow> unat i < length (fs_upvalues s)"
  by (auto simp: scope_upvalue_def intro!: unat_of_nat_less dest: index_of_less)

lemma captures_add: "add_upvalue name d s = (i, s') \<Longrightarrow> captures s s' \<and> unat i < length (fs_upvalues s')"
  by (auto simp: add_upvalue_def captures_def intro!: unat_of_nat_less)

lemma chained_add:
  assumes "chained (s # ss)" and "list_all2 captures ss ss'" and "chained ss'" and "found (Some d) ss'"
    and "add_upvalue name d s = (i, s')"
  shows "chained (s' # ss')"
  using assms(1,2,4,5) chained_tail [OF assms(1,2,3)]
  by (cases ss') (auto simp: found_def add_upvalue_def)

lemma find_upvalue_ok:
  assumes "\<forall>s \<in> set ss. scope_ok ps s" and "chained ss" and "find_upvalue name ss = (d, ss')"
  shows "list_all2 captures ss ss' \<and> (\<forall>s \<in> set ss'. scope_ok ps s) \<and> chained ss' \<and> found d ss'"
  using assms
proof (induction ss arbitrary: d ss')
  case (Cons s ss)
  have ss: "\<forall>s \<in> set ss. scope_ok ps s" "chained ss" "scope_ok ps s"
    using Cons.prems(1,2) by (cases ss; simp)+
  show ?case
  proof (cases "scope_local s name")
    case (Some slot)
    then show ?thesis using Cons.prems local_found [OF ss(3) Some] by (auto simp: found_def)
  next
    case None
    note no_local = None
    show ?thesis
    proof (cases "scope_upvalue s name")
      case (Some i)
      then show ?thesis using Cons.prems no_local upvalue_found [OF Some] by (auto simp: found_def)
    next
      case None
      obtain d1 ss1 where f: "find_upvalue name ss = (d1, ss1)" by (cases "find_upvalue name ss")
      note IH = Cons.IH [OF ss(1,2) f]
      show ?thesis
      proof (cases d1)
        case None
        with f no_local \<open>scope_upvalue s name = None\<close> IH Cons.prems ss show ?thesis
          by (auto simp: found_def intro: chained_tail)
      next
        case (Some d2)
        obtain i s1 where a: "add_upvalue name d2 s = (i, s1)" by (cases "add_upvalue name d2 s")
        have "ss' = s1 # ss1" "d = Some (FromUpvalue i)"
          using Cons.prems(3) no_local None f Some a by auto
        with IH Some a Cons.prems(2) ss show ?thesis
          using captures_add [OF a] chained_add [OF Cons.prems(2) _ _ _ a]
          by (auto simp: found_def intro: scope_ok_captures)
      qed
    qed
  qed
qed (simp add: found_def)

primrec var_facts :: "var_ref \<Rightarrow> fact set" where
  "var_facts (VarLocal slot) = {Slot (of_nat slot)}"
| "var_facts (VarUpvalue i) = {Upval i}"
| "var_facts VarGlobal = {}"

lemma gen_resolve: "gen n F (resolve_var name) n var_facts"
proof (rule genI)
  fix c assume c: "state_ok c" "at_block n c" "knows c F"
  then obtain s ss where s: "cg_scopes c = s # ss" "length (fs_blocks s) = Suc n"
    by (auto simp: at_block_def)
  have ok: "scope_ok (cg_prototypes c) s" "\<forall>s \<in> set ss. scope_ok (cg_prototypes c) s" "chained (s # ss)" "chained ss"
    using c(1) s(1) by (auto simp: state_ok_def) (cases ss; simp)
  have same: "state_ok c \<and> at_block n c \<and> extends c c" using c extends_refl by auto
  show "ends_in (resolve_var name c)
      (\<lambda>a c'. state_ok c' \<and> at_block n c' \<and> extends c c' \<and> knows c' (var_facts a))"
  proof (cases "scope_local s name")
    case (Some slot)
    then show ?thesis using same s local_found [OF ok(1) Some] by (simp add: resolve_var_def knows_def)
  next
    case None
    note no_local = None
    show ?thesis
    proof (cases "scope_upvalue s name")
      case (Some i)
      then show ?thesis using same s no_local upvalue_found [OF Some] by (simp add: resolve_var_def knows_def)
    next
      case None
      obtain d ss' where f: "find_upvalue name ss = (d, ss')" by (cases "find_upvalue name ss")
      note F = find_upvalue_ok [OF ok(2,4) f]
      have new: "state_ok c' \<and> at_block n c' \<and> extends c c'"
        if "captures s s'" "chained (s' # ss')" "c' = c\<lparr>cg_scopes := s' # ss'\<rparr>" for s' c'
        using that c(1) s F scope_ok_captures [OF ok(1) that(1)] captures_grows [OF that(1)] captures_blocks [OF that(1)]
        by (simp add: state_ok_def at_block_def extends_def)
      show ?thesis
      proof (cases d)
        case None
        have "state_ok c' \<and> at_block n c' \<and> extends c c'" if "c' = c\<lparr>cg_scopes := s # ss'\<rparr>" for c'
          using F that by (intro new [OF captures_refl]) (auto intro: chained_tail [OF ok(3)])
        with None f no_local \<open>scope_upvalue s name = None\<close> s show ?thesis by (simp add: resolve_var_def)
      next
        case (Some d2)
        obtain i s' where a: "add_upvalue name d2 s = (i, s')" by (cases "add_upvalue name d2 s")
        have "state_ok c' \<and> at_block n c' \<and> extends c c'" if "c' = c\<lparr>cg_scopes := s' # ss'\<rparr>" for c'
          using F Some captures_add [OF a] that by (intro new [of s']) (auto intro: chained_add [OF ok(3) _ _ _ a])
        with Some f no_local None s a captures_add [OF a] show ?thesis
          by (simp add: resolve_var_def knows_def)
      qed
    qed
  qed
qed

section \<open>Function bodies\<close>

lemma unat_narrow:
  "x < 256 \<Longrightarrow> unat (of_nat x :: u8) = x"
  "x < 65536 \<Longrightarrow> unat (of_nat x :: u16) = x"
  by (simp_all add: unat_of_nat take_bit_nat_eq_self)

lemma gen_register_param: "Slot (of_nat slot) \<in> F \<Longrightarrow> slot < 256 \<Longrightarrow> gen n F (register_param name slot) n (\<lambda>_. {})"
  unfolding register_param_def
proof (intro gen_on_scope scope_stepI, goal_cases)
  case (1 ps s)
  then obtain b bs where b: "fs_blocks s = b # bs" by (cases "fs_blocks s") auto
  have "unat (of_nat slot :: u8) < fs_max_locals s" using 1 by force
  then have "slot < fs_max_locals s" using 1(2) by (simp add: unat_narrow)
  then have "scope_ok ps (s\<lparr>fs_blocks := ((name, slot) # b) # bs\<rparr>)"
    using scope_okD(4) [OF 1(3)] b by (intro scope_ok_blocks [OF 1(3)]) auto
  with 1 b show ?case by (simp add: push_local_def scope_grows_def)
qed

lemma gen_register_params:
  "(\<forall>i < length names. Slot (of_nat (slot + i)) \<in> F) \<Longrightarrow> slot + length names \<le> 255 \<Longrightarrow>
   gen n F (register_params slot names) n (\<lambda>_. {})"
proof (induction names arbitrary: slot)
  case (Cons name names)
  have "Slot (of_nat slot) \<in> F" using Cons.prems(1) [rule_format, of 0] by simp
  moreover have "Slot (of_nat (Suc slot + i)) \<in> F" if "i < length names" for i
    using Cons.prems(1) [rule_format, of "Suc i"] that by simp
  ultimately show ?case using Cons.prems(2) Cons.IH [of "Suc slot"]
    by (auto intro!: gen_bnd [OF gen_register_param] intro: gen_weaken)
qed (simp add: gen_ret)

text \<open>With more parameters than a \<open>u8\<close> counts, registering them overflows.\<close>

lemma register_params_overflow:
  "256 \<le> slot + length names \<Longrightarrow> slot < 256 \<Longrightarrow> at_block n c \<Longrightarrow>
   fst (register_params slot names c) = Panic Arithmetic_overflow"
proof (induction names arbitrary: slot c)
  case (Cons name names)
  obtain s ss b bs where s: "cg_scopes c = s # ss" "fs_blocks s = b # bs" "length (b # bs) = Suc n"
    using Cons.prems(3) by (auto simp: at_block_def length_Suc_conv)
  let ?c = "c\<lparr>cg_scopes := s\<lparr>fs_blocks := ((name, slot) # b) # bs\<rparr> # ss\<rparr>"
  have r: "register_param name slot c = (Ok (), ?c)"
    using s by (simp add: register_param_def on_scope_eq push_local_def)
  have "at_block n ?c" using s by (simp add: at_block_def)
  then show ?case using Cons.IH [of "Suc slot" ?c] Cons.prems by (simp add: bnd_eq(1) [where m = "register_param name slot", OF r])
qed simp

lemma code_in_protos:
  assumes "code_in ps nl nu p"
  shows "code_in (ps @ qs) nl nu p"
proof -
  have "fact_in ps nl nu p f \<Longrightarrow> fact_in (ps @ qs) nl nu p f" for f
    by (cases f) (auto simp: nth_append)
  with assms show ?thesis by (auto simp: code_in_def)
qed

lemma scope_ok_protos: "scope_ok ps s \<Longrightarrow> scope_ok (ps @ qs) s"
  by (auto simp: scope_ok_def intro: code_in_protos)

lemma proto_ok_protos: "proto_ok ps p \<Longrightarrow> proto_ok (ps @ qs) p"
  by (simp add: proto_ok_def code_in_protos)

lemma code_in_counts [simp]:
  "code_in ps nl nu (p\<lparr>fp_local_count := a, fp_upvalue_count := b, fp_upvalues := us\<rparr>) \<longleftrightarrow> code_in ps nl nu p"
proof -
  have "fact_in ps nl nu (p\<lparr>fp_local_count := a, fp_upvalue_count := b, fp_upvalues := us\<rparr>) f = fact_in ps nl nu p f" for f
    by (cases f) auto
  then show ?thesis by (simp add: code_in_def)
qed

lemma state_ok_enter:
  assumes "state_ok c" and "at_block n c" and "k \<le> 255"
  shows "state_ok (c\<lparr>cg_scopes := (new_function_scope k)\<lparr>fs_blocks := [[]]\<rparr> # cg_scopes c\<rparr>)"
proof -
  have "scope_ok ps ((new_function_scope k)\<lparr>fs_blocks := [[]]\<rparr>)" for ps
    using assms(3) by (simp add: scope_ok_def new_function_scope_def code_in_def new_function_proto_def)
  then show ?thesis using assms(1,2)
    by (auto simp: state_ok_def at_block_def new_function_scope_def)
qed

text \<open>Leaving a function and storing its prototype: what the enclosing function knows of it.\<close>

lemma leave_function:
  assumes c: "state_ok c" "at_block n c"
    and d: "state_ok d" "extends (c\<lparr>cg_scopes := s0 # cg_scopes c\<rparr>) d"
  shows "ends_in (bnd exit_function (\<lambda>p. bnd (push_proto p) (\<lambda>idx. ret (of_nat idx :: u16))) d)
    (\<lambda>i c'. state_ok c' \<and> at_block n c' \<and> extends c c' \<and> knows c' {Proto_at i})"
proof -
  obtain t ts where c1: "cg_scopes c = t # ts" "length (fs_blocks t) = Suc n"
    using c(2) by (auto simp: at_block_def)
  obtain s t' ts' ps where d1: "cg_scopes d = s # t' # ts'" "captures t t'" "list_all2 captures ts ts'"
      "cg_prototypes d = cg_prototypes c @ ps"
    using d(2) c1(1) by (auto simp: extends_def list_all2_Cons1)
  let ?ps = "cg_prototypes d"
  let ?p = "(fs_proto s)\<lparr>fp_local_count := of_nat (fs_max_locals s),
      fp_upvalue_count := of_nat (length (fs_upvalues s)), fp_upvalues := map snd (fs_upvalues s)\<rparr>"
  let ?d = "d\<lparr>cg_scopes := t' # ts', cg_prototypes := ?ps @ [?p]\<rparr>"
  have s: "scope_ok ?ps s" and chain: "chained (s # t' # ts')"
    using d(1) d1(1) by (auto simp: state_ok_def)
  have "proto_ok ?ps ?p"
    using scope_okD(1,2) [OF s] by (simp add: proto_ok_def unat_narrow)
  then have "state_ok ?d" if "length ?ps < 65535"
    using d(1) d1(1) that chain
    by (auto simp: state_ok_def intro: scope_ok_protos proto_ok_protos)
  moreover have "at_block n ?d" using captures_blocks [OF d1(2)] c1 by (simp add: at_block_def)
  moreover have "extends c ?d" using c1 d1 captures_grows [OF d1(2)] by (simp add: extends_def)
  moreover have "knows ?d {Proto_at (of_nat (length ?ps))}" if "length ?ps < 65535"
  proof -
    have "unat (of_nat (length ?ps) :: u16) = length ?ps" using that by (simp add: unat_narrow)
    then show ?thesis using chain d(1) by (auto simp: knows_def nth_append state_ok_def)
  qed
  ultimately show ?thesis using d1(1)
    by (simp add: bnd_def exit_function_def push_proto_def Let_def)
qed

lemma gen_function_body:
  assumes "\<And>n F. gen n F (cb block) n (\<lambda>_. {})"
  shows "gen n F (compile_function_body cb (FuncBody params block span) extra) n (\<lambda>i. {Proto_at i})"
proof (rule genI)
  fix c assume c: "state_ok c" "at_block n c" "knows c F"
  let ?names = "extra @ map fst params"
  let ?s0 = "(new_function_scope (length ?names mod 256))\<lparr>fs_blocks := [[]]\<rparr>"
  let ?c = "c\<lparr>cg_scopes := ?s0 # cg_scopes c\<rparr>"
  let ?body = "bnd (register_params 0 ?names) (\<lambda>_. bnd (cb block) (\<lambda>_.
     bnd (on_scope (reads (\<lambda>s. ends_with_ret (fp_code (fs_proto s))))) (\<lambda>has_ret.
     if has_ret then ret () else emit1 (I_Ret 0) (span_line span))))"
  let ?leave = "bnd exit_function (\<lambda>p. bnd (push_proto p) (\<lambda>idx. ret (of_nat idx :: u16)))"
  have eq: "compile_function_body cb (FuncBody params block span) extra c = bnd ?body (\<lambda>_. ?leave) ?c"
    by (simp add: enter_function_def bnd_assoc) (simp add: bnd_def)
  have c0: "state_ok ?c" using c by (intro state_ok_enter) auto
  have at0: "at_block 0 ?c" by (simp add: at_block_def)
  show "ends_in (compile_function_body cb (FuncBody params block span) extra c)
      (\<lambda>i c'. state_ok c' \<and> at_block n c' \<and> extends c c' \<and> knows c' {Proto_at i})"
  proof (cases "length ?names \<le> 255")
    case True
    let ?F = "{Slot (of_nat i) | i. i < length ?names}"
    have reads: "gen 0 G (on_scope (reads (\<lambda>s. ends_with_ret (fp_code (fs_proto s))))) 0 (\<lambda>_. {})" for G
      by (intro gen_on_scope scope_stepI) auto
    have "gen 0 ?F ?body 0 (\<lambda>_. {})"
      using True by (intro gen_bnd [OF gen_register_params] gen_bnd [OF assms] gen_bnd [OF reads] gen_if
          gen_ret gen_emit1) (auto simp: jumps_def)
    moreover have "knows ?c ?F"
      using True by (auto simp: knows_def new_function_scope_def intro!: unat_of_nat_less)
    ultimately have "ends_in (?body ?c) (\<lambda>_ d. state_ok d \<and> at_block 0 d \<and> extends ?c d \<and> knows d {})"
      using c0 at0 by (intro genD)
    then show ?thesis unfolding eq
      by (rule ends_in_bnd [OF ends_in_mono]) (auto intro: leave_function [OF c(1,2)])
  next
    case False
    then have "fst (register_params 0 ?names ?c) = Panic Arithmetic_overflow"
      using at0 by (intro register_params_overflow) auto
    then show ?thesis unfolding eq by (auto simp: bnd_def split: prod.split)
  qed
qed

section \<open>Expressions\<close>

lemma gen_push_string: "gen n F (push_string b line) n (\<lambda>_. {})"
  unfolding push_string_def by (intro gen_bnd [OF gen_string_constant] gen_emit1) (auto simp: jumps_def)

lemma gen_name: "gen n F (compile_name name line) n (\<lambda>_. {})"
proof -
  have "gen n (F \<union> var_facts v) (case v of
      VarLocal slot \<Rightarrow> emit1 (I_LoadLocal (of_nat slot)) line
    | VarUpvalue idx \<Rightarrow> emit1 (I_LoadUp idx) line
    | VarGlobal \<Rightarrow> if name \<in> set library_globals then push_string (''__'' @ name) line
                   else fail (CE_Unknown_global name line)) n (\<lambda>_. {})" for v
    by (cases v) (auto simp: jumps_def intro!: gen_emit1 gen_if gen_push_string gen_fail simp del: of_nat_id)
  then show ?thesis unfolding compile_name_def
    by (intro gen_if gen_bnd [OF gen_resolve] gen_fail) auto
qed

definition compilable :: "expr \<Rightarrow> bool" where
  "compilable e \<longleftrightarrow> expr_ok e \<or> (\<exists>s. e = EName ''tool'' s)"

lemma compilable_ok [simp]: "expr_ok e \<Longrightarrow> compilable e"
  by (simp add: compilable_def)

text \<open>\<open>break\<close> emits its code without leaving the loop it is recorded in.\<close>

lemma same_scopes: "cg_scopes c = xs \<Longrightarrow> c\<lparr>cg_scopes := xs\<rparr> = c"
  by (cases c) simp

lemma emits_breaks:
  "cg_scopes c = s # ss \<Longrightarrow>
   \<exists>s'. emits line is c = (Ok (), c\<lparr>cg_scopes := s' # ss\<rparr>) \<and> fs_break_patches s' = fs_break_patches s"
proof (induction "is" arbitrary: c s)
  case (Cons i "is")
  let ?s = "s\<lparr>fs_proto := (fs_proto s)\<lparr>fp_code := fp_code (fs_proto s) @ [i],
      fp_lines := fp_lines (fs_proto s) @ [line]\<rparr>\<rparr>"
  have "bnd (emit i line) (\<lambda>_. ret ()) c = (Ok (), c\<lparr>cg_scopes := ?s # ss\<rparr>)"
    using Cons.prems by (simp add: emit_def on_scope_eq bnd_def)
  then show ?case using Cons.IH [of "c\<lparr>cg_scopes := ?s # ss\<rparr>" ?s] by (simp add: emits_def bnd_eq(1))
qed (auto simp: emits_def intro: same_scopes [symmetric])

lemma record_break:
  assumes "state_ok c" and "at_block n c" and "knows c {Jump_at idx}"
    and "cg_scopes c = s # ss" and "fs_break_patches s \<noteq> []"
  shows "ends_in (on_scope (\<lambda>s. case fs_break_patches s of
      [] \<Rightarrow> (Panic Unwrap_on_none, s)
    | (k, js) # rest \<Rightarrow> (Ok (), s\<lparr>fs_break_patches := (k, js @ [idx]) # rest\<rparr>)) c)
    (\<lambda>_ c'. state_ok c' \<and> at_block n c' \<and> extends c c' \<and> knows c' {})"
proof -
  obtain k js rest where b: "fs_break_patches s = (k, js) # rest" using assms(5) by (cases "fs_break_patches s") auto
  let ?s = "s\<lparr>fs_break_patches := (k, js @ [idx]) # rest\<rparr>"
  have "scope_ok (cg_prototypes c) ?s"
    using assms(1,3,4) b by (auto simp: state_ok_def scope_ok_def knows_def)
  moreover have "chained (?s # ss)"
    using assms(1,4) by (auto simp: state_ok_def intro: chained_head)
  ultimately show ?thesis
    using assms b by (auto simp: on_scope_eq state_ok_def at_block_def extends_def scope_grows_def)
qed

lemma gen_break: "gen n F (compile_break line) n (\<lambda>_. {})"
proof (rule genI)
  fix c assume c: "state_ok c" "at_block n c" "knows c F"
  then obtain s ss where s: "cg_scopes c = s # ss" by (auto simp: at_block_def)
  let ?Q = "\<lambda>_ c'. state_ok c' \<and> at_block n c' \<and> extends c c' \<and> knows c' {}"
  let ?rec = "\<lambda>idx. on_scope (\<lambda>s. case fs_break_patches s of
      [] \<Rightarrow> (Panic Unwrap_on_none, s)
    | (n, js) # rest \<Rightarrow> (Ok (), s\<lparr>fs_break_patches := (n, js @ [idx]) # rest\<rparr>))"
  show "ends_in (compile_break line c) ?Q"
  proof (cases "fs_break_patches s")
    case Nil
    then show ?thesis using s by (simp add: compile_break_def bnd_def on_scope_eq)
  next
    case (Cons b bs)
    let ?jump = "bnd (emits line (replicate (fst b) I_Pop)) (\<lambda>_. emit_placeholder line)"
    have eq: "compile_break line c = bnd ?jump ?rec c"
      using s Cons by (cases b) (simp add: compile_break_def bnd_assoc, simp add: bnd_def on_scope_eq same_scopes)
    have "gen n F ?jump n (\<lambda>idx. {Jump_at idx})"
      by (rule gen_bnd [OF gen_emits gen_placeholder]) (auto simp: jumps_def)
    note jump = genD [OF this c]
    obtain s1 where s1: "emits line (replicate (fst b) I_Pop) c = (Ok (), c\<lparr>cg_scopes := s1 # ss\<rparr>)"
        "fs_break_patches s1 = b # bs"
      using emits_breaks [OF s] Cons by metis
    obtain idx s2 where s2: "?jump c = (Ok idx, c\<lparr>cg_scopes := s2 # ss\<rparr>)" "fs_break_patches s2 = b # bs"
      using s1 by (auto simp: bnd_def emit_placeholder_def emit_def on_scope_eq)
    show ?thesis unfolding eq
    proof (rule ends_in_bnd)
      have "state_ok (c\<lparr>cg_scopes := s2 # ss\<rparr>)" "at_block n (c\<lparr>cg_scopes := s2 # ss\<rparr>)"
          "extends c (c\<lparr>cg_scopes := s2 # ss\<rparr>)" "knows (c\<lparr>cg_scopes := s2 # ss\<rparr>) {Jump_at idx}"
        using jump unfolding s2(1) by simp_all
      then show "ends_in (?jump c) (\<lambda>a s'. ends_in (?rec a s') ?Q)"
        unfolding s2(1) using s2(2)
        by (auto intro: ends_in_mono [OF record_break] extends_trans)
    qed
  qed
qed

lemma size_concat_args: "e \<in> set (collect_concat_args x) \<Longrightarrow> size e \<le> size x"
  by (induction x rule: collect_concat_args.induct) force+

lemma concat_args_ok: "expr_ok x \<Longrightarrow> e \<in> set (collect_concat_args x) \<Longrightarrow> expr_ok e"
  by (induction x rule: collect_concat_args.induct) auto

lemma size_in_list: "x \<in> set xs \<Longrightarrow> size x \<le> size_list size xs"
  by (rule size_list_estimation' [of x xs "size x" size]) simp_all

lemma binop_not_jump: "binop_instruction k = Some i \<Longrightarrow> needs i = {} \<and> \<not> jumps i"
  by (cases k) (auto simp: binop_instruction_def jumps_def)

text \<open>The contract of the two functions all recursion goes through, for trees smaller than a bound.\<close>

locale codegen_knots =
  fixes ce :: expr_compiler and cb :: block_compiler and bound :: nat
  assumes expr: "size e < bound \<Longrightarrow> compilable e \<Longrightarrow> gen n F (ce e) n (\<lambda>_. {})"
    and block: "size b < bound \<Longrightarrow> block_ok b \<Longrightarrow> gen n F (cb b) n (\<lambda>_. {})"
begin

lemma exprs: "\<forall>e \<in> set es. size e < bound \<and> compilable e \<Longrightarrow> gen n F (for_each ce es) n (\<lambda>_. {})"
  by (intro gen_for_each expr) auto

lemma field: "size f < bound \<Longrightarrow> field_ok f \<Longrightarrow> gen n F (compile_field ce i f) n (\<lambda>_. {})"
  by (cases f)
    (auto simp: jumps_def intro!: gen_bnd [where G = "\<lambda>_. {}"] gen_bnd [OF gen_string_constant]
      gen_bnd [OF gen_int_constant] gen_emit1 expr gen_ret)

lemma fields: "\<forall>f \<in> set fs. size f < bound \<and> field_ok f \<Longrightarrow> gen n F (compile_fields ce i fs) n (\<lambda>_. {})"
  by (induction fs arbitrary: i F) (auto intro!: gen_ret gen_bnd [OF field])

lemma short_circuit:
  "size l < bound \<Longrightarrow> size r < bound \<Longrightarrow> expr_ok l \<Longrightarrow> expr_ok r \<Longrightarrow> Lua_Verifier.jump_offset i = Some 0 \<Longrightarrow>
   needs i = {} \<Longrightarrow> gen n F (short_circuit ce i l r line) n (\<lambda>_. {})"
  unfolding short_circuit_def
  by (intro gen_bnd [OF expr] gen_bnd [OF gen_emit] gen_bnd [OF gen_emit1] gen_patch) (auto simp: jumps_def)

lemma binop:
  assumes "size l < bound" and "size r < bound" and "expr_ok l" and "expr_ok r"
  shows "gen n F (compile_binop ce k l r span) n (\<lambda>_. {})"
proof -
  have sub: "gen n F (ce e) n (\<lambda>_. {})" if "e \<in> set (collect_concat_args (EBinOp OpConcat l r span))" for e n F
  proof -
    have "e \<in> set (collect_concat_args l) \<or> e \<in> set (collect_concat_args r)" using that by simp
    then show ?thesis using assms concat_args_ok [of l e] concat_args_ok [of r e]
        size_concat_args [of e l] size_concat_args [of e r] by (intro expr) auto
  qed
  have "gen n F (compile_concat_expr ce (EBinOp OpConcat l r span)) n (\<lambda>_. {})"
    unfolding compile_concat_expr_def Let_def using sub
    by (intro gen_bnd [OF gen_for_each] gen_emit1) (auto simp: jumps_def simp del: collect_concat_args.simps)
  moreover have "binop_instruction k \<noteq> None" if "k \<noteq> OpAnd" "k \<noteq> OpOr" "k \<noteq> OpConcat"
    using that by (cases k) (auto simp: binop_instruction_def)
  ultimately show ?thesis using assms unfolding compile_binop_def
    by (auto intro!: short_circuit gen_bnd [OF expr] gen_emit1 dest: binop_not_jump split: option.split)
qed

lemma pcall_values:
  "\<forall>e \<in> set args. size e < bound \<and> expr_ok e \<Longrightarrow>
   gen n F (compile_pcall_two_values ce args span) n (\<lambda>_. {})"
  by (cases args) (auto simp: compile_pcall_two_values_def jumps_def
      intro!: gen_bnd [OF gen_emit1] gen_bnd [OF expr] gen_bnd [OF exprs] gen_emit1)

lemma first_arg:
  "\<forall>e \<in> set args. size e < bound \<and> expr_ok e \<Longrightarrow> gen n F (first_arg_or_nil ce args line) n (\<lambda>_. {})"
  by (cases args) (auto simp: first_arg_or_nil_def jumps_def intro!: gen_emit1 expr)

lemma call:
  assumes "size func < bound" and "compilable func" and args: "\<forall>e \<in> set args. size e < bound \<and> expr_ok e"
  shows "gen n F (compile_call ce func args span) n (\<lambda>_. {})"
proof -
  have tool: "gen n F (case args of
       [name, arg] \<Rightarrow> bnd (ce name) (\<lambda>_. bnd (ce arg) (\<lambda>_. emit1 I_ToolCall (span_line span)))
     | _ \<Rightarrow> fail (CE_Tool_as_value (span_line span))) n (\<lambda>_. {})"
    using args by (auto simp: jumps_def intro!: gen_fail gen_bnd [OF expr] gen_emit1 split: list.split)
  have plain: "gen n F (normal_call ce func args (span_line span)) n (\<lambda>_. {})"
    using assms unfolding normal_call_def
    by (intro gen_bnd [OF expr] gen_bnd [OF exprs] gen_emit1) (auto simp: jumps_def)
  have pcall: "gen n F (compile_pcall ce args span) n (\<lambda>_. {})"
    using args unfolding compile_pcall_def
    by (intro gen_bnd [OF pcall_values] gen_emit1) (auto simp: jumps_def)
  have err: "gen n F (bnd (first_arg_or_nil ce args line) (\<lambda>_. emit1 I_Error line)) n (\<lambda>_. {})" for line
    using args by (intro gen_bnd [OF first_arg] gen_emit1) (auto simp: jumps_def)
  have log: "gen n F (bnd (first_arg_or_nil ce args line) (\<lambda>_. emits line [I_Log, I_PushNil])) n (\<lambda>_. {})" for line
    using args by (intro gen_bnd [OF first_arg] gen_emits) (auto simp: jumps_def)
  show ?thesis unfolding compile_call_def Let_def
    by (auto simp: tool plain pcall err log intro!: gen_fail split: option.split)
qed

lemma method_call:
  assumes "size object < bound" and "expr_ok object" and "\<forall>e \<in> set args. size e < bound \<and> expr_ok e"
  shows "gen n F (compile_method_call ce object m args span) n (\<lambda>_. {})"
  unfolding compile_method_call_def Let_def using assms
  by (intro gen_bnd [OF expr] gen_bnd [OF gen_alloc_temp] gen_bnd [OF gen_emits] gen_bnd [OF gen_string_constant]
      gen_bnd [OF gen_free_temp] gen_bnd [OF exprs] gen_if gen_emit1 gen_overflow) (auto simp: jumps_def)

lemma func_body: "size body < bound \<Longrightarrow> func_ok body \<Longrightarrow>
    gen n F (compile_function_body cb body extra) n (\<lambda>i. {Proto_at i})"
  by (cases body) (auto intro!: gen_function_body block simp del: compile_function_body.simps)

lemma expression:
  assumes "size e \<le> bound" and "compilable e"
  shows "gen n F (compile_expr ce cb e) n (\<lambda>_. {})"
proof (cases e)
  case (EField table f s)
  have "size table < bound" using assms(1) EField by simp
  moreover have "compilable table" if "\<not> (is_tool_ref table \<and> f = ''call'')"
    using assms(2) EField that
    by (auto simp: compilable_def is_tool_call_field_def is_tool_ref_def split: expr.splits)
  ultimately show ?thesis unfolding compile_expr_def EField Let_def
    by (auto simp: jumps_def intro!: gen_fail gen_bnd [OF expr] gen_bnd [OF gen_string_constant] gen_emit1)
next
  case (ETable fs s)
  with assms show ?thesis unfolding compile_expr_def compile_table_constructor_def
    by (auto simp: jumps_def compilable_def list_all_iff less_Suc_eq_le intro!: gen_bnd [OF gen_emit1] fields
        dest: size_in_list)
next
  case (EMethodCall object m ms args s)
  with assms show ?thesis unfolding compile_expr_def
    by (auto simp: compilable_def list_all_iff less_Suc_eq_le intro!: method_call dest: size_in_list)
next
  case (ECall func args s)
  with assms show ?thesis unfolding compile_expr_def
    by (auto simp: compilable_def list_all_iff less_Suc_eq_le intro!: call dest: size_in_list)
next
  case (EUnOp k operand s)
  with assms show ?thesis unfolding compile_expr_def
    by (cases k) (auto simp: jumps_def compilable_def unop_instruction_def intro!: gen_bnd [OF expr] gen_emit1)
next
  case (EFuncDef body s)
  with assms show ?thesis unfolding compile_expr_def
    by (auto simp: jumps_def compilable_def intro!: gen_bnd [OF func_body] gen_emit1)
next
  case (EBinOp k l r s)
  with assms show ?thesis unfolding compile_expr_def by (auto simp: compilable_def intro!: binop)
qed (use assms in \<open>auto simp: compile_expr_def compilable_def jumps_def Let_def intro!: gen_emit1 gen_name gen_push_string
    gen_bnd [OF expr] gen_bnd [OF gen_int_constant]\<close>)

lemma gen_option: "(\<And>x. v = Some x \<Longrightarrow> gen n F (m x) n' G) \<Longrightarrow> (v = None \<Longrightarrow> gen n F m0 n' G) \<Longrightarrow>
    gen n F (case v of Some x \<Rightarrow> m x | None \<Rightarrow> m0) n' G"
  by (cases v) auto

lemma return: "size r < bound \<Longrightarrow> return_ok r \<Longrightarrow> gen n F (compile_return ce r) n (\<lambda>_. {})"
  by (cases r) (auto simp: jumps_def intro!: gen_option gen_emit1 gen_bnd [OF expr])

lemma expr_stmt:
  "size e < bound \<Longrightarrow> expr_ok e \<Longrightarrow> is_call_expr e \<Longrightarrow> gen n F (compile_expr_stmt ce e span) n (\<lambda>_. {})"
  by (cases e) (auto simp: compile_expr_stmt_def jumps_def list_all_iff is_call_expr_def
      intro!: gen_bnd [OF call] gen_bnd [OF method_call] gen_emit1 dest: size_in_list)

lemma local_function:
  "size func < bound \<Longrightarrow> func_ok func \<Longrightarrow> gen n F (compile_local_function_decl cb name ns func span) n (\<lambda>_. {})"
  unfolding compile_local_function_decl_def Let_def
  by (intro gen_bnd [OF gen_declare_local] gen_bnd [OF gen_emits] gen_bnd [OF func_body] gen_emits)
    (auto simp: jumps_def)

lemma get_fields: "gen n F (get_fields parts line) n (\<lambda>_. {})"
  unfolding get_fields_def
  by (intro gen_for_each gen_bnd [OF gen_string_constant] gen_emit1) (auto simp: jumps_def)

lemma store_var_needs: "store_var v = Some i \<Longrightarrow> needs i = var_facts v \<and> \<not> jumps i"
  by (cases v) (auto simp: store_var_def jumps_def)

lemma load_var_needs: "load_var v = Some i \<Longrightarrow> needs i = var_facts v \<and> \<not> jumps i"
  by (cases v) (auto simp: load_var_def jumps_def)

lemma function_name:
  assumes "fn_parts name \<noteq> []"
  shows "gen n F (store_func_name name line) n (\<lambda>_. {})"
proof -
  have single: "gen n F (bnd (resolve_var x) (\<lambda>v. case store_var v of
        Some i \<Rightarrow> emit1 i line
      | None \<Rightarrow> bnd (declare_local x line) (\<lambda>slot. emit1 (I_StoreLocal (of_nat slot)) line))) n (\<lambda>_. {})" for x
    by (intro gen_bnd [OF gen_resolve] gen_option gen_bnd [OF gen_declare_local] gen_emit1)
      (auto simp: jumps_def dest: store_var_needs)
  have dotted: "gen n F (bnd (resolve_var base) (\<lambda>v. case load_var v of
           None \<Rightarrow> fail (CE_Unknown_global base line)
         | Some load \<Rightarrow>
             bnd (emit1 load line) (\<lambda>_.
             bnd (get_fields (butlast rest) line) (\<lambda>_.
             bnd alloc_temp_slot (\<lambda>tmp.
             bnd (emits line [I_StoreLocal (of_nat tmp), load]) (\<lambda>_.
             bnd (get_fields (butlast rest) line) (\<lambda>_.
             bnd (emit1 (I_LoadLocal (of_nat tmp)) line) (\<lambda>_.
             bnd free_temp_slot (\<lambda>_.
             bnd (add_string_constant (last rest) line) (\<lambda>idx.
             emit1 (I_SetField idx) line)))))))))) n (\<lambda>_. {})" for base rest
    by (intro gen_bnd [OF gen_resolve] gen_option gen_bnd [OF gen_emit1] gen_bnd [OF get_fields]
        gen_bnd [OF gen_alloc_temp] gen_bnd [OF gen_emits] gen_bnd [OF gen_free_temp]
        gen_bnd [OF gen_string_constant] gen_emit1 gen_fail)
      (auto simp: jumps_def dest!: load_var_needs)
  let ?parts = "map fst (fn_parts name) @ (case fn_method name of Some m \<Rightarrow> [fst m] | None \<Rightarrow> [])"
  obtain x xs where "?parts = x # xs" using assms by (cases "fn_parts name") auto
  then show ?thesis unfolding store_func_name_def Let_def
    using single dotted by (cases xs) simp_all
qed

lemma function_decl:
  "size func < bound \<Longrightarrow> func_ok func \<Longrightarrow> fn_parts name \<noteq> [] \<Longrightarrow>
   gen n F (compile_function_decl cb name func span) n (\<lambda>_. {})"
  unfolding compile_function_decl_def Let_def
  by (intro gen_bnd [OF func_body] gen_bnd [OF gen_emit1] function_name) (auto simp: jumps_def)

lemma patches: "\<forall>j \<in> set js. Jump_at j \<in> F \<Longrightarrow> gen n F (for_each patch_jump js) n (\<lambda>_. {})"
  by (intro gen_for_each gen_patch) auto

lemma patches_to: "\<forall>j \<in> set js. Jump_at j \<in> F \<Longrightarrow> Target t \<in> F \<Longrightarrow>
    gen n F (for_each (\<lambda>j. patch_jump_to j t) js) n (\<lambda>_. {})"
  by (intro gen_for_each gen_patch_to) auto

lemma while_loop:
  "size c < bound \<Longrightarrow> expr_ok c \<Longrightarrow> size b < bound \<Longrightarrow> block_ok b \<Longrightarrow>
   gen n F (compile_while ce cb c b span) n (\<lambda>_. {})"
  unfolding compile_while_def Let_def
  by (intro gen_bnd [OF gen_code_len] gen_bnd [OF gen_push_break] gen_bnd [OF expr] gen_bnd [OF gen_emit]
      gen_bnd [OF block] gen_bnd [OF gen_back_jump] gen_bnd [OF gen_patch] gen_bnd [OF gen_pop_break] patches)
    auto

lemma generic_for:
  assumes "\<forall>e \<in> set its. size e < bound \<and> expr_ok e" and "size b < bound" and "block_ok b"
  shows "gen n F (compile_generic_for ce cb vars its b span) n (\<lambda>_. {})"
proof -
  have loop: "gen n F (bnd (ce t) (\<lambda>_. bnd (push_break_scope 1) (\<lambda>_.
       bnd (emit (case kind of IterSorted \<Rightarrow> I_IterInitSorted 0 | IterArray \<Rightarrow> I_IterInitArray 0) line) (\<lambda>init_idx.
       bnd code_len (\<lambda>loop_top.
       bnd (emit (I_IterNext 0) line) (\<lambda>next_idx.
       bnd enter_block (\<lambda>_.
       bnd (declare_local k kl) (\<lambda>k_slot.
       bnd (declare_local v vl) (\<lambda>v_slot.
       bnd (emits line [I_StoreLocal (of_nat v_slot), I_StoreLocal (of_nat k_slot)]) (\<lambda>_.
       bnd (cb b) (\<lambda>_.
       bnd exit_block (\<lambda>_.
       bnd (back_jump loop_top line) (\<lambda>_.
       bnd code_len (\<lambda>loop_end.
       bnd (patch_jump_to next_idx loop_end) (\<lambda>_.
       bnd (patch_jump_to init_idx loop_end) (\<lambda>_.
       bnd pop_break_scope (\<lambda>breaks.
       for_each (\<lambda>idx. patch_jump_to idx loop_end) breaks))))))))))))))))) n (\<lambda>_. {})"
    if "size t < bound" "expr_ok t" for t kind line k kl v vl
    using that assms(2,3)
    by (intro gen_bnd [OF expr] gen_bnd [OF gen_push_break] gen_bnd [OF gen_emit] gen_bnd [OF gen_code_len]
        gen_bnd [OF gen_enter_block] gen_bnd [OF gen_declare_local] gen_bnd [OF gen_emits] gen_bnd [OF block]
        gen_bnd [OF gen_exit_block] gen_bnd [OF gen_back_jump] gen_bnd [OF gen_patch_to]
        gen_bnd [OF gen_pop_break] patches_to)
      (auto simp: jumps_def split: iter_kind.split)
  have arg: "size t < bound \<and> expr_ok t" if "its = [e]" "extract_iter_table_arg e = Some t" for e t
    using assms(1) that
    by (cases e) (auto simp: extract_iter_table_arg_def split: list.splits)
  show ?thesis unfolding compile_generic_for_def Let_def
    using arg loop by (auto intro!: gen_fail gen_option split: list.split)
qed

lemma step_value:
  "pred_option (\<lambda>e. size e < bound \<and> expr_ok e) step \<Longrightarrow>
   gen n F (case step of Some e \<Rightarrow> ce e
     | None \<Rightarrow> bnd (add_int_constant 1 line) (\<lambda>idx. emit1 (I_PushK idx) line)) n (\<lambda>_. {})"
  by (cases step) (auto simp: jumps_def intro!: expr gen_bnd [OF gen_int_constant] gen_emit1)

lemma numeric_for:
  assumes "size start < bound" "expr_ok start" "size limit < bound" "expr_ok limit"
    and "pred_option (\<lambda>e. size e < bound \<and> expr_ok e) step" and "size b < bound" and "block_ok b"
  shows "gen n F (compile_numeric_for ce cb var vs start limit step b span) n (\<lambda>_. {})"
  unfolding compile_numeric_for_def Let_def using assms
  by (intro gen_bnd [OF gen_enter_block] gen_bnd [OF expr] gen_bnd [OF gen_declare_local]
      gen_bnd [OF gen_emit1] gen_bnd [OF step_value] gen_bnd [OF gen_code_len] gen_bnd [OF gen_push_break]
      gen_bnd [OF gen_int_constant] gen_bnd [OF gen_emits] gen_bnd [OF gen_emit] gen_bnd [OF gen_placeholder]
      gen_bnd [OF gen_patch] gen_bnd [OF block] gen_bnd [OF gen_back_jump] gen_bnd [OF gen_pop_break]
      gen_bnd [OF patches] gen_exit_block)
    (auto simp: jumps_def)

lemma elseif: "size c < bound \<Longrightarrow> elseif_ok c \<Longrightarrow> gen n F (compile_elseif ce cb c) n (\<lambda>idx. {Jump_at idx})"
  by (cases c) (auto intro!: gen_bnd [OF expr] gen_bnd [OF gen_emit] gen_bnd [OF block] gen_bnd [OF gen_placeholder]
      gen_bnd [OF gen_patch] gen_ret)

lemma elseifs: "\<forall>c \<in> set cs. size c < bound \<and> elseif_ok c \<Longrightarrow>
    gen n F (collect (compile_elseif ce cb) cs) n (\<lambda>js. Jump_at ` set js)"
proof (induction cs arbitrary: F)
  case (Cons c cs)
  then show ?case by (auto intro!: gen_bnd [OF elseif] gen_bnd [OF Cons.IH] gen_ret)
qed (simp add: gen_ret)

lemma if_stmt:
  assumes "size c < bound" "expr_ok c" "size b < bound" "block_ok b"
    and "\<forall>c \<in> set es. size c < bound \<and> elseif_ok c" and "pred_option (\<lambda>b. size b < bound \<and> block_ok b) e"
  shows "gen n F (compile_if ce cb c b es e span) n (\<lambda>_. {})"
proof -
  have first: "gen n F (if q then bnd (emit_placeholder line) (\<lambda>j. ret [j]) else ret []) n (\<lambda>js. Jump_at ` set js)"
    for q line n F by (auto intro!: gen_bnd [OF gen_placeholder] gen_ret)
  have els: "gen n F (case e of Some b \<Rightarrow> cb b | None \<Rightarrow> ret ()) n (\<lambda>_. {})" for n F
    using assms(6) by (cases e) (auto intro!: block gen_ret)
  show ?thesis unfolding compile_if_def Let_def using assms
    by (intro gen_bnd [OF expr] gen_bnd [OF gen_emit] gen_bnd [OF block] gen_bnd [OF first] gen_bnd [OF gen_patch]
        gen_bnd [OF elseifs] gen_bnd [OF els] patches) auto
qed

lemma assign:
  assumes "size target < bound" "target_ok target" "size v < bound" "expr_ok v"
  shows "gen n F (compile_assign ce target v span) n (\<lambda>_. {})"
proof (cases target)
  case (TargetName x s)
  show ?thesis using assms unfolding compile_assign_def TargetName Let_def
    by (auto intro!: gen_bnd [OF gen_resolve] gen_bnd [OF expr] gen_option gen_emit1 gen_fail dest: store_var_needs)
next
  case (TargetIndex e k s)
  have e: "size e < bound" "compilable e" "size k < bound" "expr_ok k"
    using assms(1,2) TargetIndex
    by (auto simp: compilable_def is_tool_call_field_def split: expr.splits)
  show ?thesis using assms(3,4) e unfolding compile_assign_def TargetIndex Let_def
    by (auto simp: jumps_def intro!: gen_bnd [OF expr] gen_bnd [OF gen_string_constant] gen_emit1 split: expr.split)
qed

lemma declare_store: "gen n F (declare_and_store line x) n (\<lambda>_. {})"
  unfolding declare_and_store_def by (intro gen_bnd [OF gen_declare_local] gen_emit1) (auto simp: jumps_def)

lemma local_pairs:
  "\<forall>e \<in> set vs. size e < bound \<and> expr_ok e \<Longrightarrow> gen n F (local_pairs ce line xs vs) n (\<lambda>_. {})"
proof (induction xs arbitrary: vs F)
  case (Cons x xs)
  have "gen n F (case vs of v # _ \<Rightarrow> ce v | [] \<Rightarrow> emit1 I_PushNil line) n (\<lambda>_. {})" for F
    using Cons.prems by (cases vs) (auto simp: jumps_def intro!: expr gen_emit1)
  then show ?case using Cons by (cases vs) (auto intro!: gen_bnd gen_bnd [OF declare_store])
qed (simp add: gen_ret)

lemma pcall_expr:
  "size v < bound \<Longrightarrow> expr_ok v \<Longrightarrow> is_pcall_expr v \<Longrightarrow> gen n F (compile_pcall_expr ce v) n (\<lambda>_. {})"
  by (cases v) (auto simp: compile_pcall_expr_def is_pcall_expr_def list_all_iff intro!: pcall_values dest: size_in_list)

lemma local_decl:
  assumes "\<forall>e \<in> set vs. size e < bound \<and> expr_ok e"
  shows "gen n F (compile_local_decl ce xs vs span) n (\<lambda>_. {})"
proof -
  have two: "gen n F (bnd (compile_pcall_expr ce v) (\<lambda>_. bnd (declare_local a al) (\<lambda>slot_a.
       bnd (declare_local b bl) (\<lambda>slot_b.
       bnd (emits line [I_StoreLocal (of_nat slot_b), I_StoreLocal (of_nat slot_a)]) (\<lambda>_.
       for_each (\<lambda>name. bnd (emit1 I_PushNil line) (\<lambda>_. declare_and_store line name)) others))))) n (\<lambda>_. {})"
    if "size v < bound" "expr_ok v" "is_pcall_expr v" for v a al b bl line others
    using that by (intro gen_bnd [OF pcall_expr] gen_bnd [OF gen_declare_local] gen_bnd [OF gen_emits] gen_for_each
        gen_bnd [OF gen_emit1] declare_store) (auto simp: jumps_def)
  show ?thesis unfolding compile_local_decl_def Let_def
    using assms by (auto intro!: two local_pairs simp del: local_pairs.simps split: list.split)
qed

lemma statement:
  assumes "size st \<le> bound" and "stmt_ok st"
  shows "gen n F (compile_stmt ce cb st) n (\<lambda>_. {})"
proof (cases st)
  case (LocalDecl xs vs s)
  with assms have "\<forall>e \<in> set vs. size e < bound \<and> expr_ok e"
    by (auto simp: list_all_iff dest!: size_in_list)
  with LocalDecl show ?thesis by (simp add: compile_stmt_def local_decl)
next
  case (IfStmt c b es e s)
  with assms have "pred_option (\<lambda>b. size b < bound \<and> block_ok b) e" by (cases e) auto
  moreover have "\<forall>c \<in> set es. size c < bound \<and> elseif_ok c"
    using assms IfStmt by (auto simp: list_all_iff dest!: size_in_list)
  ultimately show ?thesis using assms IfStmt by (simp add: compile_stmt_def if_stmt)
next
  case (NumericFor v vs a l step b s)
  with assms have "pred_option (\<lambda>e. size e < bound \<and> expr_ok e) step" by (cases step) auto
  with assms NumericFor show ?thesis by (simp add: compile_stmt_def numeric_for)
next
  case (GenericFor vs its b s)
  with assms have "\<forall>e \<in> set its. size e < bound \<and> expr_ok e"
    by (auto simp: list_all_iff dest!: size_in_list)
  with assms GenericFor show ?thesis by (simp add: compile_stmt_def generic_for)
next
  case (AssignStmt t v s)
  with assms show ?thesis by (simp add: compile_stmt_def assign)
next
  case (WhileStmt c b s)
  with assms show ?thesis by (simp add: compile_stmt_def while_loop)
next
  case (FunctionDecl name f s)
  with assms show ?thesis by (simp add: compile_stmt_def function_decl)
next
  case (LocalFunctionDecl x xs f s)
  with assms show ?thesis by (simp add: compile_stmt_def local_function)
next
  case (ExprStmt e s)
  with assms show ?thesis by (simp add: compile_stmt_def expr_stmt)
next
  case (BreakStmt s)
  then show ?thesis by (simp add: compile_stmt_def gen_break)
next
  case (DoStmt b s)
  with assms show ?thesis by (simp add: compile_stmt_def block)
qed

lemma whole_block:
  assumes "size b \<le> bound" and "block_ok b"
  shows "gen n F (compile_block ce cb b) n (\<lambda>_. {})"
proof (cases b)
  case (Block ss r s)
  have "\<forall>st \<in> set ss. size st \<le> bound \<and> stmt_ok st"
    using assms Block by (auto simp: list_all_iff dest: size_in_list)
  moreover have "gen n F (case r of Some r \<Rightarrow> compile_return ce r | None \<Rightarrow> ret ()) n (\<lambda>_. {})" for n F
    using assms Block by (auto intro!: gen_option return gen_ret)
  ultimately show ?thesis unfolding Block compile_block.simps
    by (intro gen_bnd [OF gen_enter_block] gen_bnd [OF gen_for_each] gen_bnd [where G = "\<lambda>_. {}", OF _ gen_exit_block]
        statement) auto
qed

end

section \<open>The whole program\<close>

lemma knot_contract:
  "(\<forall>e n' F. size e < n \<longrightarrow> compilable e \<longrightarrow> gen n' F (compile_expr_rec n e) n' (\<lambda>_. {})) \<and>
   (\<forall>b n' F. size b < n \<longrightarrow> block_ok b \<longrightarrow> gen n' F (compile_block_rec n b) n' (\<lambda>_. {}))"
proof (induction n)
  case (Suc n)
  then have knot: "codegen_knots (compile_expr_rec n) (compile_block_rec n) n"
    by unfold_locales auto
  show ?case
    using codegen_knots.expression [OF knot] codegen_knots.whole_block [OF knot] by auto
qed simp

interpretation compiled: codegen_knots "compile_expr_rec n" "compile_block_rec n" n for n
  by unfold_locales (use knot_contract in auto)

lemma leave_main:
  assumes d: "state_ok d" "cg_scopes d = [s]" "p = (fs_proto s)\<lparr>fp_local_count := of_nat (fs_max_locals s),
      fp_upvalue_count := of_nat (length (fs_upvalues s)), fp_upvalues := map snd (fs_upvalues s)\<rparr>"
    and q: "q \<in> set ((cg_prototypes d)[0 := p])"
  shows "proto_ok ((cg_prototypes d)[0 := p]) q"
proof -
  let ?ps = "cg_prototypes d"
  have s: "scope_ok ?ps s" using d(1,2) by (simp add: state_ok_def)
  have "proto_ok ?ps p" unfolding d(3) using scope_okD(1,2) [OF s] by (simp add: proto_ok_def unat_narrow)
  then have "proto_ok ?ps q" using q d(1) set_update_subset_insert [of ?ps 0 p] by (auto simp: state_ok_def)
  moreover have "fact_in ?ps nl nu q f \<Longrightarrow> fact_in (?ps[0 := p]) nl nu q f" for nl nu f
    by (cases f) auto
  ultimately show ?thesis by (auto simp: proto_ok_def code_in_def)
qed

definition program_ok :: "function_proto list \<Rightarrow> bool" where
  "program_ok ps \<longleftrightarrow> 0 < length ps \<and> length ps \<le> 65535 \<and> fp_upvalues (ps ! 0) = [] \<and>
     (\<forall>p \<in> set ps. proto_ok ps p)"

lemma compile_prototypes_ends:
  assumes "block_ok b"
  shows "ends_in (compile_prototypes b \<lparr>cg_scopes = [], cg_prototypes = []\<rparr>) (\<lambda>ps _. program_ok ps)"
proof -
  let ?s0 = "(new_function_scope 0)\<lparr>fs_blocks := [[]]\<rparr>"
  let ?c = "\<lparr>cg_scopes = [?s0], cg_prototypes = [new_function_proto 0]\<rparr>"
  let ?body = "bnd (compile_block_rec (Suc (size b)) b) (\<lambda>_. emit1 (I_Ret 0) (span_line (block_span b)))"
  let ?leave = "bnd exit_function (\<lambda>p. bnd (modifies (\<lambda>c. c\<lparr>cg_prototypes := (cg_prototypes c)[0 := p]\<rparr>))
     (\<lambda>_. reads cg_prototypes))"
  have eq: "compile_prototypes b \<lparr>cg_scopes = [], cg_prototypes = []\<rparr> = bnd ?body (\<lambda>_. ?leave) ?c"
    by (simp add: compile_prototypes_def enter_function_def bnd_assoc) (simp add: bnd_def)
  have "gen 0 {} ?body 0 (\<lambda>_. {})"
    using assms by (intro gen_bnd [OF compiled.block] gen_emit1) (auto simp: jumps_def)
  moreover have "state_ok ?c" "at_block 0 ?c"
    by (auto simp: state_ok_def at_block_def scope_ok_def proto_ok_def code_in_def new_function_scope_def
        new_function_proto_def)
  ultimately have body: "ends_in (?body ?c) (\<lambda>_ d. state_ok d \<and> at_block 0 d \<and> extends ?c d \<and> knows d {})"
    by (intro genD) auto
  show ?thesis unfolding eq
  proof (rule ends_in_bnd, rule ends_in_mono [OF body])
    fix a d assume d: "state_ok d \<and> at_block 0 d \<and> extends ?c d \<and> knows d {}"
    then obtain s where s: "cg_scopes d = [s]" by (auto simp: extends_def)
    then have "fs_upvalues s = []" using d by (simp add: state_ok_def)
    with d s leave_main [OF _ s refl]
    show "ends_in (?leave d) (\<lambda>ps _. program_ok ps)"
      by (simp add: bnd_def exit_function_def program_ok_def state_ok_def)
  qed
qed

lemma compile_ends:
  assumes "block_ok b"
  shows "ends_in (compile hash b, ()) (\<lambda>program _. program_ok (prototypes program) \<and>
    program_hash program = hash (prototypes program))"
  using compile_prototypes_ends [OF assms]
  by (auto simp: compile_def bnd_def ends_in_def split: prod.splits outcome.splits)

end
