(* ===== verification/Lua_Pipeline.thy ===== *)
theory Lua_Pipeline
  imports Lua_Codegen_Facts
begin

text \<open>
  From source text to verified bytecode: what parser, code generator and verifier guarantee together,
  and two places where they disagree. Concrete programs are compiled by rewriting with \<open>cg_run\<close>, under
  a congruence rule that keeps the continuation of \<open>bnd\<close> untouched until its turn comes.
\<close>

section \<open>Compiling a concrete program\<close>

lemma bnd_stop: "bnd m f s = bnd m f s" ..

lemma compile_rec_applied:
  "compile_expr_rec (Suc n) e s = compile_expr (compile_expr_rec n) (compile_block_rec n) e s"
  "compile_block_rec (Suc n) b s = compile_block (compile_expr_rec n) (compile_block_rec n) b s"
  by simp_all

lemmas cg_run = compile_def compile_prototypes_def bnd_def compile_rec_applied compile_stmt_def
  compile_expr_def compile_local_decl_def declare_and_store_def declare_local_def on_scope_def take_slot_def
  push_local_def enter_block_def exit_block_def enter_function_def exit_function_def emit1_def emit_def
  add_int_constant_def add_string_constant_def add_constant_def compile_name_def resolve_var_def scope_local_def
  scope_upvalue_def expr_span_def new_function_scope_def new_function_proto_def Let_def compile_while_def
  compile_if_def compile_assign_def push_break_scope_def pop_break_scope_def code_len_def back_jump_def
  Lua_Codegen.jump_offset_def patch_jump_def patch_jump_to_def store_var_def load_var_def emits_def
  emit_placeholder_def compile_local_function_decl_def register_param_def ends_with_ret_def push_proto_def
  compile_function_decl_def store_func_name_def get_fields_def alloc_temp_slot_def free_temp_slot_def
  compile_table_constructor_def

section \<open>What compiled programs are like\<close>

text \<open>C34: The code generator is total on parsed programs. Whatever the parser accepts, compiling it
  returns a program or a compile error, or panics on an arithmetic overflow (a 256th slot, parameter or
  method argument); no index is out of range, no scope or block is missing, no jump is patched that is
  not one, and the fuel is never used up. Of the errors, \<open>VariadicNotAllowed\<close>, \<open>ExprStmtNotCall\<close>,
  \<open>MultiReturnNotAllowed\<close>, \<open>IndirectToolCall\<close>, \<open>TooManyUpvalues\<close> and \<open>BytecodeTooLarge\<close> are never raised.\<close>

theorem compile_total:
  assumes "parse src = Ok block"
  shows "(\<exists>program. compile hash block = Ok program) \<or> (\<exists>e. compile hash block = Err e \<and> raised e) \<or>
    compile hash block = Panic Arithmetic_overflow"
  using compile_ends [OF parsed_block_ok [OF assms], of hash]
  by (cases "compile hash block") auto

text \<open>C35: Compiled code is well formed. Every prototype of the program has one line per instruction,
  pairwise distinct integer and string constants, at most 65535 of them, and instructions whose
  operands are all in range: constants, local slots below the local count, upvalues, and for \<open>Closure\<close>
  a prototype other than the main one, each of whose captured variables is a local or an upvalue of
  this one; every jump
  offset is the distance to an instruction of the function or to its end.\<close>

theorem compiled_well_formed:
  assumes "parse src = Ok block" and "compile hash block = Ok program"
  shows "program_ok (prototypes program)"
  using compile_ends [OF parsed_block_ok [OF assms(1)], of hash] assms(2) by simp

section \<open>The structural checks accept compiled code\<close>

lemma dfs_all_no_edges: "\<forall>n < length adj. adj ! n = [] \<Longrightarrow> \<forall>i \<in> set xs. i < length adj \<Longrightarrow>
    length color = length adj \<Longrightarrow> \<exists>color'. dfs_all adj color xs = Inr color'"
  by (induction xs arbitrary: color) simp_all

lemma compiled_proto_dag:
  assumes "program_ok (prototypes program)"
  shows "check_proto_dag program = Inr ()"
proof -
  let ?adj = "proto_edges program"
  have "\<forall>k \<in> set (fp_constants p). literal k" if "p \<in> set (prototypes program)" for p
    using assms that by (simp add: program_ok_def proto_ok_def code_in_def)
  then have "List.map_filter (\<lambda>c. case c of K_Proto i \<Rightarrow> Some (unat i) | _ \<Rightarrow> None) (fp_constants p) = []"
    if "p \<in> set (prototypes program)" for p
    using that by (fastforce simp: List.map_filter_def filter_empty_conv split: constant_entry.splits)
  then have "\<forall>n < length ?adj. ?adj ! n = []" by (simp add: proto_edges_def)
  then have "\<exists>color. dfs_all ?adj (replicate (length (prototypes program)) 0) [0..<length (prototypes program)] = Inr color"
    by (intro dfs_all_no_edges) (auto simp: proto_edges_def)
  then show ?thesis by (auto simp: check_proto_dag_def Let_def)
qed

lemma short_jump:
  assumes "t \<le> len" and "pc < len" and "len \<le> 32768"
  shows "int pc + 1 + sint (Lua_Codegen.jump_offset pc t) = int t"
proof -
  have "- (2 ^ 15) \<le> int t - int pc - 1" "int t - int pc - 1 < 2 ^ 15" using assms by simp_all
  then have "sint (Lua_Codegen.jump_offset pc t) = int t - int pc - 1"
    unfolding Lua_Codegen.jump_offset_def by (subst int_word_sint) (simp add: mod_pos_pos_trivial)
  then show ?thesis by simp
qed

lemma proto_operands_ok:
  assumes p: "proto_ok (prototypes program) p" and "length (fp_code p) \<le> 32768" and "length (fp_upvalues p) \<le> 255"
    and pc: "pc < length (fp_code p)"
  shows "operands_ok program p pc (fp_code p ! pc)"
proof -
  let ?i = "fp_code p ! pc"
  have needs: "fact_in (prototypes program) (unat (fp_local_count p)) (length (fp_upvalues p)) p f"
    if "f \<in> needs ?i" for f
    using p that pc by (auto simp: proto_ok_def code_in_def)
  have up: "unat (fp_upvalue_count p) = length (fp_upvalues p)"
    using p assms(3) by (simp add: proto_ok_def unat_narrow)
  have "lands (length (fp_code p)) pc ?i" using p pc by (simp add: proto_ok_def code_in_def)
  then have jump: "0 \<le> int pc + 1 + sint off \<and> int pc + 1 + sint off \<le> int (length (fp_code p))"
    if "Lua_Verifier.jump_offset ?i = Some off" for off
    using that pc assms(2) by (auto simp: lands_def short_jump)
  show ?thesis
    using needs jump by (cases ?i) (auto simp: operands_ok_def word_less_nat_alt up)
qed

text \<open>C36: The verifier's prototype and structural checks accept what the code generator emits. For a
  parsed program that compiles, has at most 32768 instructions per function (so that no jump offset
  wraps) and at most 255 upvalues per function (so that the upvalue count does not), both checks
  succeed; only the stack analysis can still refuse it.\<close>

theorem compiled_passes_structural_checks:
  assumes "parse src = Ok block" and "compile hash block = Ok program"
    and "\<forall>p \<in> set (prototypes program). length (fp_code p) \<le> 32768 \<and> length (fp_upvalues p) \<le> 255"
  shows "check_proto_dag program = Inr () \<and>
    (\<forall>p \<in> set (prototypes program). \<forall>i. structural_checks program i p = Inr ())"
proof -
  have ok: "program_ok (prototypes program)"
    using compile_ends [OF parsed_block_ok [OF assms(1)], of hash] assms(2) by simp
  then have "structural_checks program i p = Inr ()" if "p \<in> set (prototypes program)" for i p
    using that assms(3) by (intro structural_checks_ok proto_operands_ok) (auto simp: program_ok_def)
  with compiled_proto_dag [OF ok] show ?thesis by simp
qed

section \<open>Witnesses\<close>

definition loop_source :: string where
  "loop_source = ''local n=3 while n do n=nil end''"

definition loop_block :: block where
  "loop_block = Block
     [LocalDecl [(''n'', Span 6 7 1)] [EInteger 3 (Span 8 9 1)] (Span 0 5 1),
      WhileStmt (EName ''n'' (Span 16 17 1))
        (Block [AssignStmt (TargetName ''n'' (Span 21 22 1)) (ENil (Span 23 26 1)) (Span 22 23 1)]
           None (Span 21 22 1)) (Span 10 15 1)]
     None (Span 0 5 1)"

definition loop_proto :: function_proto where
  "loop_proto = \<lparr>fp_code = [I_PushK 0, I_StoreLocal 0, I_LoadLocal 0, I_JmpIfNot 3, I_PushNil,
       I_StoreLocal 0, I_Jmp (- 5), I_Ret 0],
     fp_constants = [K_Integer 3], fp_local_count = 1, fp_upvalue_count = 0, fp_param_count = 0,
     fp_lines = [1, 1, 1, 1, 1, 1, 1, 1], fp_max_stack = 0, fp_upvalues = []\<rparr>"

definition loop_program :: compiled_program where
  "loop_program = \<lparr>prototypes = [loop_proto], program_hash = []\<rparr>"

lemma parse_loop: "parse loop_source = Ok loop_block"
  by code_simp

lemma compile_loop: "compile (\<lambda>_. []) loop_block = Ok loop_program"
  by (simp add: loop_block_def loop_program_def loop_proto_def cg_run cong: bnd_stop
      del: compile_expr_rec.simps compile_block_rec.simps)

theorem compile_total_witness:
  "compile (\<lambda>_. []) loop_block \<noteq> Timeout \<and> compile (\<lambda>_. []) loop_block \<noteq> Panic Index_out_of_bounds"
  using compile_total [OF parse_loop, of "\<lambda>_. []"] by auto

theorem compiled_well_formed_witness: "program_ok [loop_proto]"
  using compiled_well_formed [OF parse_loop compile_loop] by (simp add: loop_program_def)

theorem compiled_passes_structural_checks_witness: "structural_checks loop_program 0 loop_proto = Inr ()"
  using compiled_passes_structural_checks [OF parse_loop compile_loop]
  by (simp add: loop_program_def loop_proto_def)

section \<open>Where code generator and verifier disagree\<close>

text \<open>\<open>local function f(c) if c then return nil end end\<close>, at any places of the source.\<close>

definition trailing_if :: "string \<Rightarrow> (nat \<Rightarrow> span) \<Rightarrow> block" where
  "trailing_if f s = Block [LocalFunctionDecl f (s 0) (FuncBody [(''c'', s 1)]
     (Block [IfStmt (EName ''c'' (s 2)) (Block [] (Some (ReturnStmt (Some (ENil (s 3))) (s 4))) (s 5))
        [] None (s 6)] None (s 7)) (s 8)) (s 9)] None (s 10)"

definition trailing_if_protos :: "(nat \<Rightarrow> span) \<Rightarrow> function_proto list" where
  "trailing_if_protos s = (let l = (\<lambda>i. span_line (s i)) in
    [\<lparr>fp_code = [I_PushNil, I_StoreLocal 0, I_Closure 1, I_StoreLocal 0, I_Ret 0], fp_constants = [],
       fp_local_count = 1, fp_upvalue_count = 0, fp_param_count = 0,
       fp_lines = [l 9, l 9, l 9, l 9, l 10], fp_max_stack = 0, fp_upvalues = []\<rparr>,
     \<lparr>fp_code = [I_LoadLocal 0, I_JmpIfNot 2, I_PushNil, I_Ret 1], fp_constants = [],
       fp_local_count = 1, fp_upvalue_count = 0, fp_param_count = 1,
       fp_lines = [l 2, l 6, l 3, l 4], fp_max_stack = 0, fp_upvalues = []\<rparr>])"


text \<open>\<open>local t = {} function t.f() end\<close>, at any places of the source.\<close>

definition dotted_function :: "(nat \<Rightarrow> span) \<Rightarrow> block" where
  "dotted_function s = Block [LocalDecl [(''t'', s 0)] [ETable [] (s 1)] (s 2),
     FunctionDecl (FuncName [(''t'', s 3), (''f'', s 4)] None) (FuncBody [] (Block [] None (s 5)) (s 6)) (s 7)]
     None (s 8)"

definition dotted_function_protos :: "(nat \<Rightarrow> span) \<Rightarrow> function_proto list" where
  "dotted_function_protos s = (let l = (\<lambda>i. span_line (s i)) in
    [\<lparr>fp_code = [I_NewTable, I_StoreLocal 0, I_Closure 1, I_LoadLocal 0, I_StoreLocal 1, I_LoadLocal 0,
         I_LoadLocal 1, I_SetField 0, I_Ret 0],
       fp_constants = [K_String ''f''], fp_local_count = 2, fp_upvalue_count = 0, fp_param_count = 0,
       fp_lines = [l 1, l 2, l 7, l 7, l 7, l 7, l 7, l 7, l 8], fp_max_stack = 0, fp_upvalues = []\<rparr>,
     \<lparr>fp_code = [I_Ret 0], fp_constants = [], fp_local_count = 0, fp_upvalue_count = 0,
       fp_param_count = 0, fp_lines = [l 6], fp_max_stack = 0, fp_upvalues = []\<rparr>])"


end
