(* ===== verification/Lua_Expr_Code.thy ===== *)
theory Lua_Expr_Code
  imports Lua_Pipeline
begin

text \<open>
  A reference compiler for expressions built from literals, local variables, arithmetic, comparison,
  equality, \<open>not\<close>, \<open>and\<close> and \<open>or\<close>. \<open>code_of\<close> is a function of the tree, the slots of the variables and
  the final constant pool, with jump distances computed from lengths; the imperative code generator,
  which finds constants and patches jumps as it goes, emits exactly that code (\<open>straight_code\<close>).
\<close>

section \<open>The fragment and its reference code\<close>

definition plain_name :: "string \<Rightarrow> bool" where
  "plain_name x \<longleftrightarrow> x \<notin> {''tool'', ''pairs_sorted'', ''pairs'', ''ipairs''}"

fun straight :: "string set \<Rightarrow> expr \<Rightarrow> bool" where
  "straight X (ENil s) \<longleftrightarrow> True"
| "straight X (ETrue s) \<longleftrightarrow> True"
| "straight X (EFalse s) \<longleftrightarrow> True"
| "straight X (EInteger n s) \<longleftrightarrow> True"
| "straight X (EStringLit b s) \<longleftrightarrow> True"
| "straight X (EName x s) \<longleftrightarrow> x \<in> X \<and> plain_name x"
| "straight X (EUnOp k e s) \<longleftrightarrow> k \<noteq> OpLen \<and> straight X e"
| "straight X (EBinOp k l r s) \<longleftrightarrow> k \<noteq> OpConcat \<and> straight X l \<and> straight X r"
| "straight X _ \<longleftrightarrow> False"

definition push_const :: "constant_entry list \<Rightarrow> constant_entry \<Rightarrow> instruction" where
  "push_const K k = I_PushK (case index_of K k of Some i \<Rightarrow> of_nat i | None \<Rightarrow> 0)"

definition skip_over :: "(i16 \<Rightarrow> instruction) \<Rightarrow> instruction list \<Rightarrow> instruction list" where
  "skip_over jump code = jump (of_nat (Suc (length code))) # I_Pop # code"

fun code_of :: "(string \<Rightarrow> nat option) \<Rightarrow> constant_entry list \<Rightarrow> expr \<Rightarrow> instruction list" where
  "code_of \<sigma> K (ENil s) = [I_PushNil]"
| "code_of \<sigma> K (ETrue s) = [I_PushTrue]"
| "code_of \<sigma> K (EFalse s) = [I_PushFalse]"
| "code_of \<sigma> K (EInteger n s) = [push_const K (K_Integer n)]"
| "code_of \<sigma> K (EStringLit b s) = [push_const K (K_String b)]"
| "code_of \<sigma> K (EName x s) = [I_LoadLocal (case \<sigma> x of Some i \<Rightarrow> of_nat i | None \<Rightarrow> 0)]"
| "code_of \<sigma> K (EUnOp k e s) = code_of \<sigma> K e @ [unop_instruction k]"
| "code_of \<sigma> K (EBinOp k l r s) =
     (if k = OpAnd then code_of \<sigma> K l @ skip_over I_And (code_of \<sigma> K r)
      else if k = OpOr then code_of \<sigma> K l @ skip_over I_Or (code_of \<sigma> K r)
      else code_of \<sigma> K l @ code_of \<sigma> K r @ (case binop_instruction k of Some i \<Rightarrow> [i] | None \<Rightarrow> []))"
| "code_of \<sigma> K _ = []"

fun consts_of :: "expr \<Rightarrow> constant_entry set" where
  "consts_of (EInteger n s) = {K_Integer n}"
| "consts_of (EStringLit b s) = {K_String b}"
| "consts_of (EUnOp k e s) = consts_of e"
| "consts_of (EBinOp k l r s) = consts_of l \<union> consts_of r"
| "consts_of _ = {}"

section \<open>Operations that append code\<close>

text \<open>\<open>appends B m F C\<close>: run in a scope with the blocks \<open>B\<close>, \<open>m\<close> at most appends constants, after which
  those of \<open>C\<close> are in the pool, and appends the code \<open>F K\<close>, where \<open>K\<close> is the constant pool it leaves
  behind or any extension of it.\<close>

definition grown :: "function_proto \<Rightarrow> (constant_entry list \<Rightarrow> instruction list) \<Rightarrow> constant_entry set \<Rightarrow>
    function_proto \<Rightarrow> bool" where
  "grown p F C p' \<longleftrightarrow> (\<exists>ks ls. p' = p\<lparr>fp_code := fp_code p @ F (fp_constants p @ ks),
       fp_constants := fp_constants p @ ks, fp_lines := fp_lines p @ ls\<rparr> \<and>
     (\<forall>ks'. F (fp_constants p @ ks @ ks') = F (fp_constants p @ ks)) \<and>
     (length (fp_constants p) \<le> 65535 \<longrightarrow> length (fp_constants p @ ks) \<le> 65535) \<and>
     C \<subseteq> set (fp_constants p @ ks))"

definition appends :: "(string \<times> nat) list list \<Rightarrow> unit cg_op \<Rightarrow> (constant_entry list \<Rightarrow> instruction list) \<Rightarrow>
    constant_entry set \<Rightarrow> bool" where
  "appends B m F C \<longleftrightarrow> (\<forall>c c' s ss. cg_scopes c = s # ss \<longrightarrow> fs_blocks s = B \<longrightarrow> m c = (Ok (), c') \<longrightarrow>
     (\<exists>p. c' = c\<lparr>cg_scopes := s\<lparr>fs_proto := p\<rparr> # ss\<rparr> \<and> grown (fs_proto s) F C p))"

lemma grown_trans:
  assumes "grown p F C q" and "grown q G D r"
  shows "grown p (\<lambda>K. F K @ G K) (C \<union> D) r"
proof -
  obtain ks ls where q: "q = p\<lparr>fp_code := fp_code p @ F (fp_constants p @ ks),
      fp_constants := fp_constants p @ ks, fp_lines := fp_lines p @ ls\<rparr>"
    and F: "\<forall>ks'. F (fp_constants p @ ks @ ks') = F (fp_constants p @ ks)"
      "length (fp_constants p) \<le> 65535 \<longrightarrow> length (fp_constants p @ ks) \<le> 65535" "C \<subseteq> set (fp_constants p @ ks)"
    using assms(1) by (auto simp: grown_def)
  obtain ks2 ls2 where r: "r = q\<lparr>fp_code := fp_code q @ G (fp_constants q @ ks2),
      fp_constants := fp_constants q @ ks2, fp_lines := fp_lines q @ ls2\<rparr>"
    and G: "\<forall>ks'. G (fp_constants q @ ks2 @ ks') = G (fp_constants q @ ks2)"
      "length (fp_constants q) \<le> 65535 \<longrightarrow> length (fp_constants q @ ks2) \<le> 65535" "D \<subseteq> set (fp_constants q @ ks2)"
    using assms(2) by (auto simp: grown_def)
  show ?thesis unfolding grown_def
    using q r F G by (intro exI [of _ "ks @ ks2"] exI [of _ "ls @ ls2"]) auto
qed

lemma grown_refl: "grown p (\<lambda>_. []) {} p"
  unfolding grown_def by (intro exI [of _ "[]"]) simp

lemma grownD:
  "grown p F C q \<Longrightarrow> fp_code q = fp_code p @ F (fp_constants q) \<and> fp_param_count q = fp_param_count p \<and>
   (length (fp_constants p) \<le> 65535 \<longrightarrow> length (fp_constants q) \<le> 65535) \<and> C \<subseteq> set (fp_constants q)"
  by (auto simp: grown_def)

lemma appendsD:
  "appends B m F C \<Longrightarrow> m c = (Ok (), c') \<Longrightarrow> cg_scopes c = s # ss \<Longrightarrow> fs_blocks s = B \<Longrightarrow>
   \<exists>p. c' = c\<lparr>cg_scopes := s\<lparr>fs_proto := p\<rparr> # ss\<rparr> \<and> grown (fs_proto s) F C p"
  by (auto simp: appends_def)

lemma appendsI:
  "(\<And>c c' s ss. cg_scopes c = s # ss \<Longrightarrow> fs_blocks s = B \<Longrightarrow> m c = (Ok (), c') \<Longrightarrow>
     \<exists>p. c' = c\<lparr>cg_scopes := s\<lparr>fs_proto := p\<rparr> # ss\<rparr> \<and> grown (fs_proto s) F C p) \<Longrightarrow> appends B m F C"
  by (simp add: appends_def)

lemma appends_bnd:
  assumes "appends B m F C" and "appends B m' G D"
  shows "appends B (bnd m (\<lambda>_. m')) (\<lambda>K. F K @ G K) (C \<union> D)"
proof (rule appendsI)
  fix c c' s ss assume c: "cg_scopes c = s # ss" "fs_blocks s = B" "bnd m (\<lambda>_. m') c = (Ok (), c')"
  then obtain d where d: "m c = (Ok (), d)" "m' d = (Ok (), c')" by (auto simp: bnd_Ok_iff)
  obtain p where p: "d = c\<lparr>cg_scopes := s\<lparr>fs_proto := p\<rparr> # ss\<rparr>" "grown (fs_proto s) F C p"
    using appendsD [OF assms(1) d(1) c(1,2)] by blast
  obtain q where "c' = d\<lparr>cg_scopes := s\<lparr>fs_proto := p, fs_proto := q\<rparr> # ss\<rparr>" "grown p G D q"
    using appendsD [OF assms(2) d(2), of "s\<lparr>fs_proto := p\<rparr>" ss] p(1) c(2) by auto
  with p show "\<exists>p. c' = c\<lparr>cg_scopes := s\<lparr>fs_proto := p\<rparr> # ss\<rparr> \<and> grown (fs_proto s) (\<lambda>K. F K @ G K) (C \<union> D) p"
    by (auto intro: grown_trans)
qed

lemma appends_fail [simp]: "appends B (fail e) F C" "appends B (panic_with x) F C"
  by (auto simp: appends_def)

lemma grown_emit: "grown p (\<lambda>_. [i]) {} (p\<lparr>fp_code := fp_code p @ [i], fp_lines := fp_lines p @ [line]\<rparr>)"
  unfolding grown_def by (intro exI [of _ "[]"] exI [of _ "[line]"]) simp

lemma appends_emit: "appends B (emit1 i line) (\<lambda>_. [i]) {}"
  by (rule appendsI) (auto simp: emit1_def emit_def bnd_def on_scope_eq intro: grown_emit)

lemma appends_bnd_emit: "appends B m F C \<Longrightarrow> appends B (bnd m (\<lambda>_. emit1 i line)) (\<lambda>K. F K @ [i]) C"
  using appends_bnd [OF _ appends_emit, of B m F C i line] by simp

lemma index_of_append: "index_of xs x = Some i \<Longrightarrow> index_of (xs @ ys) x = Some i"
  by (induction xs arbitrary: i) (auto split: if_splits)

lemma index_of_snoc: "index_of xs x = None \<Longrightarrow> index_of (xs @ x # ys) x = Some (length xs)"
  by (induction xs) (auto split: if_splits)

lemma index_of_nth: "index_of xs x = Some i \<Longrightarrow> i < length xs \<and> xs ! i = x"
  by (induction xs arbitrary: i) (auto split: if_splits)

lemma index_of_mem: "index_of xs x = Some i \<Longrightarrow> x \<in> set xs"
  by (metis index_of_nth nth_mem)

lemma index_of_defined: "x \<in> set xs \<Longrightarrow> \<exists>i. index_of xs x = Some i"
  by (induction xs) auto

lemma grown_push:
  "index_of (fp_constants p) k = Some i \<Longrightarrow>
   grown p (\<lambda>K. [push_const K k]) {k} (p\<lparr>fp_code := fp_code p @ [I_PushK (of_nat i)], fp_lines := fp_lines p @ [line]\<rparr>)"
  "index_of (fp_constants p) k = None \<Longrightarrow> length (fp_constants p) < 65535 \<Longrightarrow>
   grown p (\<lambda>K. [push_const K k]) {k} (p\<lparr>fp_constants := fp_constants p @ [k],
     fp_code := fp_code p @ [I_PushK (of_nat (length (fp_constants p)))], fp_lines := fp_lines p @ [line]\<rparr>)"
  unfolding grown_def
  by (intro exI [of _ "[]"] exI [of _ "[line]"], simp add: push_const_def index_of_append index_of_mem)
    (intro exI [of _ "[k]"] exI [of _ "[line]"], simp add: push_const_def index_of_snoc)

lemma appends_constant: "appends B (bnd (add_constant k line) (\<lambda>idx. emit1 (I_PushK idx) line))
    (\<lambda>K. [push_const K k]) {k}"
proof (rule appendsI)
  fix c c' s ss assume c: "cg_scopes c = s # ss" "fs_blocks s = B"
    "bnd (add_constant k line) (\<lambda>idx. emit1 (I_PushK idx) line) c = (Ok (), c')"
  let ?p = "fs_proto s"
  show "\<exists>p. c' = c\<lparr>cg_scopes := s\<lparr>fs_proto := p\<rparr> # ss\<rparr> \<and> grown ?p (\<lambda>K. [push_const K k]) {k} p"
  proof (cases "index_of (fp_constants ?p) k")
    case None
    with c have "length (fp_constants ?p) < 65535 \<and>
        c' = c\<lparr>cg_scopes := s\<lparr>fs_proto := ?p\<lparr>fp_constants := fp_constants ?p @ [k],
        fp_code := fp_code ?p @ [I_PushK (of_nat (length (fp_constants ?p)))],
        fp_lines := fp_lines ?p @ [line]\<rparr>\<rparr> # ss\<rparr>"
      by (auto simp: bnd_def add_constant_def on_scope_eq emit1_def emit_def Let_def split: if_splits)
    with grown_push(2) [OF None] show ?thesis by blast
  next
    case (Some i)
    with c have "c' = c\<lparr>cg_scopes := s\<lparr>fs_proto := ?p\<lparr>fp_code := fp_code ?p @ [I_PushK (of_nat i)],
        fp_lines := fp_lines ?p @ [line]\<rparr>\<rparr> # ss\<rparr>"
      by (auto simp: bnd_def add_constant_def on_scope_eq emit1_def emit_def Let_def)
    with grown_push(1) [OF Some] show ?thesis by blast
  qed
qed

text \<open>A jump over the code of \<open>m\<close>, patched once that code is there.\<close>

lemma jump_distance: "Lua_Codegen.jump_offset idx (idx + Suc n) = of_nat n"
  by (simp add: Lua_Codegen.jump_offset_def)

lemma appends_skip:
  assumes m: "appends B m F C" and J: "\<And>off off'. with_offset off (J off') = Some (J off)"
  shows "appends B (bnd (emit (J 0) line) (\<lambda>idx. bnd (emit1 I_Pop line) (\<lambda>_. bnd m (\<lambda>_. patch_jump idx))))
    (\<lambda>K. skip_over J (F K)) C"
proof (rule appendsI)
  fix c c' s ss assume c: "cg_scopes c = s # ss" "fs_blocks s = B"
    "bnd (emit (J 0) line) (\<lambda>idx. bnd (emit1 I_Pop line) (\<lambda>_. bnd m (\<lambda>_. patch_jump idx))) c = (Ok (), c')"
  let ?p = "fs_proto s"
  let ?idx = "length (fp_code ?p)"
  let ?p1 = "?p\<lparr>fp_code := fp_code ?p @ [J 0], fp_lines := fp_lines ?p @ [line]\<rparr>"
  let ?c1 = "c\<lparr>cg_scopes := s\<lparr>fs_proto := ?p1\<rparr> # ss\<rparr>"
  have "emit (J 0) line c = (Ok ?idx, ?c1)" using c(1) by (simp add: emit_def on_scope_eq)
  then obtain d where d: "bnd (emit1 I_Pop line) (\<lambda>_. m) ?c1 = (Ok (), d)" "patch_jump ?idx d = (Ok (), c')"
    using c(3) by (auto simp: bnd_assoc [symmetric] bnd_Ok_iff)
  obtain q where q: "d = ?c1\<lparr>cg_scopes := s\<lparr>fs_proto := ?p1, fs_proto := q\<rparr> # ss\<rparr>"
      "grown ?p1 (\<lambda>K. [I_Pop] @ F K) ({} \<union> C) q"
    using appendsD [OF appends_bnd [OF appends_emit m] d(1), of "s\<lparr>fs_proto := ?p1\<rparr>" ss] c(2) by auto
  then obtain ks ls where K: "q = ?p1\<lparr>fp_code := fp_code ?p @ J 0 # I_Pop # F (fp_constants ?p @ ks),
      fp_constants := fp_constants ?p @ ks, fp_lines := fp_lines ?p1 @ ls\<rparr>"
      "\<forall>ks'. F (fp_constants ?p @ ks @ ks') = F (fp_constants ?p @ ks)"
      "length (fp_constants ?p) \<le> 65535 \<longrightarrow> length (fp_constants ?p @ ks) \<le> 65535" "C \<subseteq> set (fp_constants ?p @ ks)"
    by (auto simp: grown_def)
  let ?code = "fp_code ?p @ skip_over J (F (fp_constants ?p @ ks))"
  have "Lua_Codegen.jump_offset ?idx (length (fp_code q)) = of_nat (Suc (length (F (fp_constants ?p @ ks))))"
    using jump_distance [of ?idx "Suc (length (F (fp_constants ?p @ ks)))"] by (simp add: K(1))
  then have "c' = c\<lparr>cg_scopes := s\<lparr>fs_proto := q\<lparr>fp_code := ?code\<rparr>\<rparr> # ss\<rparr>"
    using d(2) q(1) J
    by (auto simp: patch_jump_def bnd_def code_len_def on_scope_eq patch_jump_to_def Let_def K(1) skip_over_def
        list_update_append)
  moreover have "grown ?p (\<lambda>K. skip_over J (F K)) C (q\<lparr>fp_code := ?code\<rparr>)"
    unfolding grown_def using K
    by (intro exI [of _ ks] exI [of _ "line # ls"]) (auto simp: skip_over_def)
  ultimately show "\<exists>p. c' = c\<lparr>cg_scopes := s\<lparr>fs_proto := p\<rparr> # ss\<rparr> \<and> grown ?p (\<lambda>K. skip_over J (F K)) C p" by blast
qed

lemma appends_local:
  assumes "map_of (concat B) x = Some i" and "plain_name x"
  shows "appends B (compile_name x line) (\<lambda>_. [I_LoadLocal (of_nat i)]) {}"
proof (rule appendsI)
  fix c c' s ss assume c: "cg_scopes c = s # ss" "fs_blocks s = B" "compile_name x line c = (Ok (), c')"
  then have "compile_name x line c = emit1 (I_LoadLocal (of_nat i)) line c"
    using assms by (simp add: compile_name_def plain_name_def bnd_def resolve_var_def scope_local_def)
  with c show "\<exists>p. c' = c\<lparr>cg_scopes := s\<lparr>fs_proto := p\<rparr> # ss\<rparr> \<and> grown (fs_proto s) (\<lambda>_. [I_LoadLocal (of_nat i)]) {} p"
    using appendsD [OF appends_emit, of "I_LoadLocal (of_nat i)" line c c' s ss] by simp
qed

lemma compile_expr_pos:
  "0 < n \<Longrightarrow> compile_expr_rec n e = compile_expr (compile_expr_rec (n - 1)) (compile_block_rec (n - 1)) e"
  by (cases n) simp_all

lemma straight_code:
  "size e < n \<Longrightarrow> straight (dom (map_of (concat B))) e \<Longrightarrow>
   appends B (compile_expr_rec n e) (\<lambda>K. code_of (map_of (concat B)) K e) (consts_of e)"
proof (induction "dom (map_of (concat B))" e arbitrary: n rule: straight.induct [case_names ENil ETrue EFalse EInteger EStringLit EName EUnOp EBinOp])
  case (EName x s)
  then obtain i where "map_of (concat B) x = Some i" "plain_name x" by (auto simp: dom_def)
  then show ?case using EName(1) appends_local by (cases n) (auto simp: compile_expr_def)
next
  case (EUnOp k e s)
  then obtain m where "n = Suc m" "size e < m" by (cases n) auto
  with EUnOp show ?case by (auto simp: compile_expr_def intro!: appends_bnd_emit)
next
  case (EBinOp k l r s)
  then obtain m where n: "n = Suc m" "size l < m" "size r < m" by (cases n) auto
  have l: "appends B (compile_expr_rec m l) (\<lambda>K. code_of (map_of (concat B)) K l) (consts_of l)"
    and r: "appends B (compile_expr_rec m r) (\<lambda>K. code_of (map_of (concat B)) K r) (consts_of r)"
    using EBinOp n by auto
  have "compile_expr_rec n (EBinOp k l r s) = compile_binop (compile_expr_rec m) k l r s"
    by (simp add: n(1) compile_expr_def)
  moreover have "binop_instruction k \<noteq> None" if "k \<noteq> OpAnd" "k \<noteq> OpOr" "k \<noteq> OpConcat"
    using that by (cases k) (auto simp: binop_instruction_def)
  ultimately show ?case using EBinOp.prems(2) l r
    by (auto simp: compile_binop_def short_circuit_def intro!: appends_bnd appends_skip appends_bnd_emit)
qed (auto simp: compile_expr_pos compile_expr_def Let_def add_int_constant_def push_string_def add_string_constant_def
    intro: appends_emit appends_constant)

end
