(* ===== verification/Lua_Structured_Code.thy ===== *)
theory Lua_Structured_Code
  imports Lua_Expr_Code
begin

text \<open>
  A reference compiler for structured programs: \<open>local x = e\<close>, assignments to locals, \<open>do\<close>, \<open>if\<close> with or
  without \<open>else\<close> and \<open>while\<close>, over the expressions of \<open>Lua_Expr_Code\<close>, ending in \<open>return e\<close>. The
  scope is the list of the names that are live, innermost first; a name's slot is the number of names
  below it. \<open>stmt_code\<close> is a function of the tree, the scope and the final constant pool; the code
  generator, with its blocks of slots and its jumps patched afterwards, emits exactly that code
  (\<open>structured_compiles\<close>).
\<close>

section \<open>The fragment and its reference code\<close>

fun scope_of :: "string list \<Rightarrow> (string \<times> nat) list" where
  "scope_of [] = []"
| "scope_of (x # xs) = (x, length xs) # scope_of xs"

lemma scope_of_names [simp]: "map fst (scope_of N) = N" "length (scope_of N) = length N"
  by (induction N) simp_all

lemma dom_scope_of [simp]: "dom (map_of (scope_of N)) = set N"
  by (metis dom_map_of_conv_image_fst list.set_map scope_of_names(1))

lemma scope_of_slot: "map_of (scope_of N) x = Some i \<Longrightarrow> i < length N"
  by (induction N) (auto split: if_splits)

text \<open>The names a statement leaves in scope.\<close>

fun names_after :: "string list \<Rightarrow> stmt \<Rightarrow> string list" where
  "names_after N (LocalDecl [x] [d] s) = fst x # N"
| "names_after N _ = N"

fun slot_of :: "string list \<Rightarrow> string \<Rightarrow> u8" where
  "slot_of N x = (case map_of (scope_of N) x of Some i \<Rightarrow> of_nat i | None \<Rightarrow> 0)"

definition unless_over :: "instruction list \<Rightarrow> nat \<Rightarrow> instruction list" where
  "unless_over code extra = I_JmpIfNot (of_nat (length code + extra)) # code"

fun stmt_code :: "string list \<Rightarrow> constant_entry list \<Rightarrow> stmt \<Rightarrow> instruction list"
  and stmts_code :: "string list \<Rightarrow> constant_entry list \<Rightarrow> stmt list \<Rightarrow> instruction list"
  and block_code :: "string list \<Rightarrow> constant_entry list \<Rightarrow> block \<Rightarrow> instruction list" where
  "stmt_code N K (LocalDecl [x] [d] s) = code_of (map_of (scope_of N)) K d @ [I_StoreLocal (of_nat (length N))]"
| "stmt_code N K (AssignStmt (TargetName x xs) d s) = code_of (map_of (scope_of N)) K d @ [I_StoreLocal (slot_of N x)]"
| "stmt_code N K (DoStmt b s) = block_code N K b"
| "stmt_code N K (IfStmt c b [] None s) = code_of (map_of (scope_of N)) K c @ unless_over (block_code N K b) 0"
| "stmt_code N K (IfStmt c b [] (Some b') s) = code_of (map_of (scope_of N)) K c @ unless_over (block_code N K b) 1 @
     I_Jmp (of_nat (length (block_code N K b'))) # block_code N K b'"
| "stmt_code N K (WhileStmt c b s) = code_of (map_of (scope_of N)) K c @ unless_over (block_code N K b) 1 @
     [I_Jmp (- of_nat (length (code_of (map_of (scope_of N)) K c) + length (block_code N K b) + 2))]"
| "stmt_code N K _ = []"
| "stmts_code N K [] = []"
| "stmts_code N K (st # sts) = stmt_code N K st @ stmts_code (names_after N st) K sts"
| "block_code N K (Block sts None s) = stmts_code N K sts"
| "block_code N K _ = []"

text \<open>The conditions of the fragment, its constants, and the most names that are live at once.\<close>

fun plain_stmt :: "string list \<Rightarrow> stmt \<Rightarrow> bool"
  and plain_stmts :: "string list \<Rightarrow> stmt list \<Rightarrow> bool"
  and plain_block :: "string list \<Rightarrow> block \<Rightarrow> bool" where
  "plain_stmt N (LocalDecl [x] [d] s) \<longleftrightarrow> straight (set N) d"
| "plain_stmt N (AssignStmt (TargetName x xs) d s) \<longleftrightarrow> x \<in> set N \<and> straight (set N) d"
| "plain_stmt N (DoStmt b s) \<longleftrightarrow> plain_block N b"
| "plain_stmt N (IfStmt c b [] None s) \<longleftrightarrow> straight (set N) c \<and> plain_block N b"
| "plain_stmt N (IfStmt c b [] (Some b') s) \<longleftrightarrow> straight (set N) c \<and> plain_block N b \<and> plain_block N b'"
| "plain_stmt N (WhileStmt c b s) \<longleftrightarrow> straight (set N) c \<and> plain_block N b"
| "plain_stmt N _ \<longleftrightarrow> False"
| "plain_stmts N [] \<longleftrightarrow> True"
| "plain_stmts N (st # sts) \<longleftrightarrow> plain_stmt N st \<and> plain_stmts (names_after N st) sts"
| "plain_block N (Block sts None s) \<longleftrightarrow> plain_stmts N sts"
| "plain_block N _ \<longleftrightarrow> False"

fun stmt_consts :: "stmt \<Rightarrow> constant_entry set"
  and stmts_consts :: "stmt list \<Rightarrow> constant_entry set"
  and block_consts :: "block \<Rightarrow> constant_entry set" where
  "stmt_consts (LocalDecl [x] [d] s) = consts_of d"
| "stmt_consts (AssignStmt t d s) = consts_of d"
| "stmt_consts (DoStmt b s) = block_consts b"
| "stmt_consts (IfStmt c b [] None s) = consts_of c \<union> block_consts b"
| "stmt_consts (IfStmt c b [] (Some b') s) = consts_of c \<union> block_consts b \<union> block_consts b'"
| "stmt_consts (WhileStmt c b s) = consts_of c \<union> block_consts b"
| "stmt_consts _ = {}"
| "stmts_consts [] = {}"
| "stmts_consts (st # sts) = stmt_consts st \<union> stmts_consts sts"
| "block_consts (Block sts r s) = stmts_consts sts"

fun stmt_high :: "string list \<Rightarrow> stmt \<Rightarrow> nat"
  and stmts_high :: "string list \<Rightarrow> stmt list \<Rightarrow> nat"
  and block_high :: "string list \<Rightarrow> block \<Rightarrow> nat" where
  "stmt_high N (LocalDecl [x] [d] s) = Suc (length N)"
| "stmt_high N (DoStmt b s) = block_high N b"
| "stmt_high N (IfStmt c b [] None s) = block_high N b"
| "stmt_high N (IfStmt c b [] (Some b') s) = max (block_high N b) (block_high N b')"
| "stmt_high N (WhileStmt c b s) = block_high N b"
| "stmt_high N _ = length N"
| "stmts_high N [] = length N"
| "stmts_high N (st # sts) = max (stmt_high N st) (stmts_high (names_after N st) sts)"
| "block_high N (Block sts r s) = stmts_high N sts"

abbreviation names_of :: "string list \<Rightarrow> stmt list \<Rightarrow> string list" where
  "names_of N sts \<equiv> foldl names_after N sts"

section \<open>Scopes\<close>

lemma names_after_length: "length N \<le> length (names_after N st)"
  by (cases "(N, st)" rule: names_after.cases) auto

lemma stmts_high_names: "length N \<le> stmts_high N sts \<and> length (names_of N sts) \<le> stmts_high N sts"
proof (induction sts arbitrary: N)
  case (Cons st sts)
  then show ?case using names_after_length [of N st] Cons [of "names_after N st"] by (auto simp: le_max_iff_disj intro: le_trans)
qed simp

lemma block_high_names: "length N \<le> block_high N b"
  by (cases b) (simp add: stmts_high_names)

lemma stmt_high_names: "length (names_after N st) \<le> stmt_high N st"
  using block_high_names by (cases "(N, st)" rule: stmt_high.cases) (auto simp: le_max_iff_disj)

section \<open>Operations that append code and declare names\<close>

text \<open>\<open>declares N m F C N' h\<close>: in a scope with the names \<open>N\<close>, \<open>m\<close> appends code as in \<open>appends\<close>, adds names to
  the innermost block so that they are \<open>N'\<close>, and has used the slots below \<open>h\<close>.\<close>

definition scope_at :: "string list \<Rightarrow> function_scope \<Rightarrow> bool" where
  "scope_at N s \<longleftrightarrow> fs_blocks s \<noteq> [] \<and> concat (fs_blocks s) = scope_of N \<and> fs_next_slot s = length N \<and>
     length N \<le> fs_max_locals s \<and> length N \<le> 200"

definition extends_scope :: "string list \<Rightarrow> nat \<Rightarrow> function_scope \<Rightarrow> function_scope \<Rightarrow> bool" where
  "extends_scope N' h s s' \<longleftrightarrow> fs_blocks s' \<noteq> [] \<and> tl (fs_blocks s') = tl (fs_blocks s) \<and>
     concat (fs_blocks s') = scope_of N' \<and> fs_next_slot s' = length N' \<and>
     fs_max_locals s' = max (fs_max_locals s) h \<and> fs_upvalues s' = fs_upvalues s \<and>
     fs_break_patches s' = fs_break_patches s \<and> length N' \<le> h \<and> h \<le> 200"

definition declares :: "string list \<Rightarrow> unit cg_op \<Rightarrow> (constant_entry list \<Rightarrow> instruction list) \<Rightarrow>
    constant_entry set \<Rightarrow> string list \<Rightarrow> nat \<Rightarrow> bool" where
  "declares N m F C N' h \<longleftrightarrow> (\<forall>c c' s ss. cg_scopes c = s # ss \<longrightarrow> scope_at N s \<longrightarrow> m c = (Ok (), c') \<longrightarrow>
     (\<exists>s'. c' = c\<lparr>cg_scopes := s' # ss\<rparr> \<and> extends_scope N' h s s' \<and> grown (fs_proto s) F C (fs_proto s')))"

lemma declaresI:
  "(\<And>c c' s ss. cg_scopes c = s # ss \<Longrightarrow> scope_at N s \<Longrightarrow> m c = (Ok (), c') \<Longrightarrow>
     \<exists>s'. c' = c\<lparr>cg_scopes := s' # ss\<rparr> \<and> extends_scope N' h s s' \<and> grown (fs_proto s) F C (fs_proto s')) \<Longrightarrow>
   declares N m F C N' h"
  by (simp add: declares_def)

lemma declaresD:
  "declares N m F C N' h \<Longrightarrow> m c = (Ok (), c') \<Longrightarrow> cg_scopes c = s # ss \<Longrightarrow> scope_at N s \<Longrightarrow>
   \<exists>s'. c' = c\<lparr>cg_scopes := s' # ss\<rparr> \<and> extends_scope N' h s s' \<and> grown (fs_proto s) F C (fs_proto s')"
  by (auto simp: declares_def)

lemma extends_scope_at: "extends_scope N' h s s' \<Longrightarrow> scope_at N' s'"
  by (auto simp: extends_scope_def scope_at_def)

lemma extends_scope_trans:
  "extends_scope N' h s s' \<Longrightarrow> extends_scope N'' h' s' s'' \<Longrightarrow> extends_scope N'' (max h h') s s''"
  by (auto simp: extends_scope_def max.assoc)

text \<open>Only the code has changed, or has changed as well.\<close>

lemma extends_scope_code: "scope_at N s \<Longrightarrow> extends_scope N (length N) s (s\<lparr>fs_proto := p\<rparr>)"
  by (auto simp: extends_scope_def scope_at_def max_def)

lemma extends_scope_proto [simp]:
  "extends_scope N' h s (s'\<lparr>fs_proto := p\<rparr>) = extends_scope N' h s s'"
  "extends_scope N' h (s\<lparr>fs_proto := p\<rparr>) s' = extends_scope N' h s s'"
  by (simp_all add: extends_scope_def)

lemma scope_at_proto [simp]: "scope_at N (s\<lparr>fs_proto := p\<rparr>) = scope_at N s"
  by (simp add: scope_at_def)

lemma declares_appends:
  assumes "\<And>B. concat B = scope_of N \<Longrightarrow> appends B m F C"
  shows "declares N m F C N (length N)"
proof (rule declaresI)
  fix c c' s ss assume c: "cg_scopes c = s # ss" "scope_at N s" "m c = (Ok (), c')"
  have "appends (fs_blocks s) m F C" using assms c(2) by (simp add: scope_at_def)
  from appendsD [OF this c(3,1) refl] obtain p where
    "c' = c\<lparr>cg_scopes := s\<lparr>fs_proto := p\<rparr> # ss\<rparr>" "grown (fs_proto s) F C p" by blast
  with extends_scope_code [OF c(2)] show "\<exists>s'. c' = c\<lparr>cg_scopes := s' # ss\<rparr> \<and> extends_scope N (length N) s s' \<and>
      grown (fs_proto s) F C (fs_proto s')" by fastforce
qed

lemma declares_bnd:
  assumes "declares N m F C N' h" and "declares N' m' G D N'' h'"
  shows "declares N (bnd m (\<lambda>_. m')) (\<lambda>K. F K @ G K) (C \<union> D) N'' (max h h')"
proof (rule declaresI)
  fix c c' s ss assume c: "cg_scopes c = s # ss" "scope_at N s" "bnd m (\<lambda>_. m') c = (Ok (), c')"
  then obtain d where d: "m c = (Ok (), d)" "m' d = (Ok (), c')" by (auto simp: bnd_Ok_iff)
  obtain s1 where s1: "d = c\<lparr>cg_scopes := s1 # ss\<rparr>" "extends_scope N' h s s1" "grown (fs_proto s) F C (fs_proto s1)"
    using declaresD [OF assms(1) d(1) c(1,2)] by blast
  obtain s2 where s2: "c' = d\<lparr>cg_scopes := s2 # ss\<rparr>" "extends_scope N'' h' s1 s2" "grown (fs_proto s1) G D (fs_proto s2)"
    using declaresD [OF assms(2) d(2), of s1 ss] s1(1) extends_scope_at [OF s1(2)] by auto
  have "c' = c\<lparr>cg_scopes := s2 # ss\<rparr>" using s1(1) s2(1) by simp
  with extends_scope_trans [OF s1(2) s2(2)] grown_trans [OF s1(3) s2(3)]
  show "\<exists>s'. c' = c\<lparr>cg_scopes := s' # ss\<rparr> \<and> extends_scope N'' (max h h') s s' \<and>
      grown (fs_proto s) (\<lambda>K. F K @ G K) (C \<union> D) (fs_proto s')" by blast
qed

lemma appends_nothing: "appends B (ret ()) (\<lambda>_. []) {}"
proof (rule appendsI)
  fix c c' s ss assume "cg_scopes c = s # ss" "ret () c = (Ok (), c')"
  then have "c' = c\<lparr>cg_scopes := s\<lparr>fs_proto := fs_proto s\<rparr> # ss\<rparr>" by (simp add: same_scopes)
  with grown_refl show "\<exists>p. c' = c\<lparr>cg_scopes := s\<lparr>fs_proto := p\<rparr> # ss\<rparr> \<and> grown (fs_proto s) (\<lambda>_. []) {} p" by blast
qed

lemma declares_block:
  assumes "declares N m F C N' h"
  shows "declares N (bnd enter_block (\<lambda>_. bnd m (\<lambda>_. exit_block))) F C N h"
proof (rule declaresI)
  fix c c' s ss assume c: "cg_scopes c = s # ss" "scope_at N s" "bnd enter_block (\<lambda>_. bnd m (\<lambda>_. exit_block)) c = (Ok (), c')"
  let ?s = "s\<lparr>fs_blocks := [] # fs_blocks s\<rparr>"
  obtain d where d: "m (c\<lparr>cg_scopes := ?s # ss\<rparr>) = (Ok (), d)" "exit_block d = (Ok (), c')"
    using c(1,3) by (auto simp: bnd_Ok_iff enter_block_def on_scope_eq)
  have "scope_at N ?s" using c(2) by (simp add: scope_at_def)
  from declaresD [OF assms d(1) _ this, of ss]
  obtain s1 where s1: "d = c\<lparr>cg_scopes := s1 # ss\<rparr>" "extends_scope N' h ?s s1" "grown (fs_proto s) F C (fs_proto s1)"
    by auto
  obtain b where b: "fs_blocks s1 = b # fs_blocks s" "b @ scope_of N = scope_of N'"
    using s1(2) c(2) by (cases "fs_blocks s1") (auto simp: extends_scope_def scope_at_def)
  have "length b + length N = length N'" using arg_cong [OF b(2), of length] by simp
  then have b': "fs_next_slot s1 - length b mod 256 = length N" "length N \<le> h"
    using s1(2) by (auto simp: extends_scope_def)
  let ?t = "s1\<lparr>fs_blocks := fs_blocks s, fs_next_slot := length N\<rparr>"
  have "c' = c\<lparr>cg_scopes := ?t # ss\<rparr>" using d(2) s1(1) b(1) b'(1) by (auto simp: exit_block_def on_scope_eq)
  moreover have "extends_scope N h s ?t" using s1(2) c(2) b'(2) by (auto simp: extends_scope_def scope_at_def)
  ultimately show "\<exists>s'. c' = c\<lparr>cg_scopes := s' # ss\<rparr> \<and> extends_scope N h s s' \<and> grown (fs_proto s) F C (fs_proto s')"
    using s1(3) by (intro exI [of _ ?t]) simp
qed

lemma declares_local:
  assumes "\<And>B. concat B = scope_of N \<Longrightarrow> appends B m F C"
  shows "declares N (bnd m (\<lambda>_. declare_and_store line (x, sp))) (\<lambda>K. F K @ [I_StoreLocal (of_nat (length N))]) C
    (x # N) (Suc (length N))"
proof (rule declaresI)
  fix c c' s ss
  assume c: "cg_scopes c = s # ss" "scope_at N s" "bnd m (\<lambda>_. declare_and_store line (x, sp)) c = (Ok (), c')"
  then obtain c1 where c1: "m c = (Ok (), c1)" "declare_and_store line (x, sp) c1 = (Ok (), c')" by (auto simp: bnd_Ok_iff)
  have "appends (fs_blocks s) m F C" using assms c(2) by (simp add: scope_at_def)
  from appendsD [OF this c1(1) c(1) refl] obtain p where
    p: "c1 = c\<lparr>cg_scopes := s\<lparr>fs_proto := p\<rparr> # ss\<rparr>" "grown (fs_proto s) F C p" by blast
  obtain b bs where b: "fs_blocks s = b # bs" using c(2) by (cases "fs_blocks s") (auto simp: scope_at_def)
  let ?q = "p\<lparr>fp_code := fp_code p @ [I_StoreLocal (of_nat (length N))], fp_lines := fp_lines p @ [line]\<rparr>"
  let ?t = "s\<lparr>fs_proto := ?q, fs_blocks := ((x, length N) # b) # bs, fs_next_slot := Suc (length N),
      fs_max_locals := max (fs_max_locals s) (Suc (length N))\<rparr>"
  have "length N < 200 \<and> c' = c\<lparr>cg_scopes := ?t # ss\<rparr>"
    using c1(2) p(1) c(2) b
    by (auto simp: declare_and_store_def bnd_def declare_local_def on_scope_eq take_slot_def push_local_def
        scope_at_def Let_def emit1_def emit_def split: if_splits)
  moreover have "extends_scope (x # N) (Suc (length N)) s ?t" if "length N < 200"
    using c(2) b that by (auto simp: extends_scope_def scope_at_def)
  moreover have "grown (fs_proto s) (\<lambda>K. F K @ [I_StoreLocal (of_nat (length N))]) C ?q"
    using grown_trans [OF p(2) grown_emit] by simp
  ultimately show "\<exists>s'. c' = c\<lparr>cg_scopes := s' # ss\<rparr> \<and> extends_scope (x # N) (Suc (length N)) s s' \<and>
      grown (fs_proto s) (\<lambda>K. F K @ [I_StoreLocal (of_nat (length N))]) C (fs_proto s')"
    by (intro exI [of _ ?t]) simp
qed

section \<open>Forward and backward jumps\<close>

lemma grown_emitted:
  "grown p F C q \<Longrightarrow> grown p (\<lambda>K. F K @ [i]) C (q\<lparr>fp_code := fp_code q @ [i], fp_lines := fp_lines q @ [line]\<rparr>)"
  using grown_trans [OF _ grown_emit, of p F C q i line] by simp

lemma patch_forward:
  assumes J: "\<And>off off'. with_offset off (J off') = Some (J off)"
    and q: "grown p (\<lambda>K. A K @ [J 0]) C q" and r: "grown q B D (fs_proto s)"
    and run: "patch_jump (length (fp_code q) - 1) c = (Ok (), c')" "cg_scopes c = s # ss"
  shows "\<exists>r. c' = c\<lparr>cg_scopes := s\<lparr>fs_proto := r\<rparr> # ss\<rparr> \<and>
    grown p (\<lambda>K. A K @ J (of_nat (length (B K))) # B K) (C \<union> D) r"
proof -
  obtain ks ls where q: "q = p\<lparr>fp_code := fp_code p @ A (fp_constants p @ ks) @ [J 0],
      fp_constants := fp_constants p @ ks, fp_lines := fp_lines p @ ls\<rparr>"
    and A: "\<forall>ks'. A (fp_constants p @ ks @ ks') = A (fp_constants p @ ks)"
      "length (fp_constants p) \<le> 65535 \<longrightarrow> length (fp_constants p @ ks) \<le> 65535" "C \<subseteq> set (fp_constants p @ ks)"
    using q by (auto simp: grown_def)
  obtain ks2 ls2 where r: "fs_proto s = q\<lparr>fp_code := fp_code q @ B (fp_constants q @ ks2),
      fp_constants := fp_constants q @ ks2, fp_lines := fp_lines q @ ls2\<rparr>"
    and B: "\<forall>ks'. B (fp_constants q @ ks2 @ ks') = B (fp_constants q @ ks2)"
      "length (fp_constants q) \<le> 65535 \<longrightarrow> length (fp_constants q @ ks2) \<le> 65535" "D \<subseteq> set (fp_constants q @ ks2)"
    using r by (auto simp: grown_def)
  let ?K = "fp_constants p @ ks @ ks2"
  let ?i = "length (fp_code p) + length (A ?K)"
  have i: "length (fp_code q) - 1 = ?i" using q A(1) by simp
  have code: "fp_code (fs_proto s) = (fp_code p @ A ?K) @ J 0 # B ?K" using q r A(1) by simp
  have "Lua_Codegen.jump_offset ?i (Suc (length (fp_code p) + (length (A ?K) + length (B ?K)))) = of_nat (length (B ?K))"
    using jump_distance [of ?i "length (B ?K)"] by (simp add: add.assoc)
  then have "c' = c\<lparr>cg_scopes := s\<lparr>fs_proto := (fs_proto s)\<lparr>fp_code := (fp_code p @ A ?K) @ J (of_nat (length (B ?K))) # B ?K\<rparr>\<rparr> # ss\<rparr>"
    using run J unfolding i
    by (auto simp: patch_jump_def bnd_def code_len_def on_scope_eq patch_jump_to_def Let_def code list_update_append)
  moreover have "grown p (\<lambda>K. A K @ J (of_nat (length (B K))) # B K) (C \<union> D)
      ((fs_proto s)\<lparr>fp_code := (fp_code p @ A ?K) @ J (of_nat (length (B ?K))) # B ?K\<rparr>)"
    unfolding grown_def using q r A B
    by (intro exI [of _ "ks @ ks2"] exI [of _ "ls @ ls2"]) auto
  ultimately show ?thesis by blast
qed

text \<open>A statement in pieces: \<open>after\<close> says what code the scope \<open>s\<close> has grown to, with unchanged names.\<close>

definition after_code :: "string list \<Rightarrow> compiler \<Rightarrow> function_scope \<Rightarrow> function_scope list \<Rightarrow> nat \<Rightarrow>
    (constant_entry list \<Rightarrow> instruction list) \<Rightarrow> constant_entry set \<Rightarrow> compiler \<Rightarrow> function_scope \<Rightarrow> bool" where
  "after_code N c s ss h F C c' s' \<longleftrightarrow> c' = c\<lparr>cg_scopes := s' # ss\<rparr> \<and> extends_scope N h s s' \<and>
     grown (fs_proto s) F C (fs_proto s')"

lemma after_start: "cg_scopes c = s # ss \<Longrightarrow> scope_at N s \<Longrightarrow> after_code N c s ss (length N) (\<lambda>_. []) {} c s"
  using extends_scope_code [of N s "fs_proto s"] by (simp add: after_code_def same_scopes grown_refl)

lemma after_declares:
  assumes "after_code N c s ss h F C c1 s1" and "declares N m G D N h'" and "m c1 = (Ok (), c2)"
  shows "\<exists>s2. after_code N c s ss (max h h') (\<lambda>K. F K @ G K) (C \<union> D) c2 s2 \<and> grown (fs_proto s1) G D (fs_proto s2)"
proof -
  have c1: "cg_scopes c1 = s1 # ss" "scope_at N s1" using assms(1) extends_scope_at by (auto simp: after_code_def)
  from declaresD [OF assms(2,3) this] obtain s2 where
    s2: "c2 = c1\<lparr>cg_scopes := s2 # ss\<rparr>" "extends_scope N h' s1 s2" "grown (fs_proto s1) G D (fs_proto s2)" by blast
  have "extends_scope N (max h h') s s2" "grown (fs_proto s) (\<lambda>K. F K @ G K) (C \<union> D) (fs_proto s2)"
    using assms(1) extends_scope_trans [OF _ s2(2), of N h s] grown_trans [OF _ s2(3), of "fs_proto s" F C]
    by (simp_all add: after_code_def)
  then show ?thesis using assms(1) s2 by (auto simp: after_code_def)
qed

lemma after_emit:
  assumes "after_code N c s ss h F C c1 s1" and "emit i line c1 = (Ok idx, c2)"
  shows "\<exists>s2. after_code N c s ss h (\<lambda>K. F K @ [i]) C c2 s2 \<and> idx = length (fp_code (fs_proto s2)) - 1 \<and>
    (\<forall>p G D. grown p G D (fs_proto s1) \<longrightarrow> grown p (\<lambda>K. G K @ [i]) D (fs_proto s2))"
proof -
  let ?q = "(fs_proto s1)\<lparr>fp_code := fp_code (fs_proto s1) @ [i], fp_lines := fp_lines (fs_proto s1) @ [line]\<rparr>"
  have "idx = length (fp_code (fs_proto s1))" "c2 = c\<lparr>cg_scopes := s1\<lparr>fs_proto := ?q\<rparr> # ss\<rparr>"
    using assms by (auto simp: after_code_def emit_def on_scope_eq)
  then show ?thesis using assms(1) grown_emitted [of _ _ _ "fs_proto s1" i line]
    by (intro exI [of _ "s1\<lparr>fs_proto := ?q\<rparr>"]) (simp add: after_code_def)
qed

lemma after_patch:
  assumes J: "\<And>off off'. with_offset off (J off') = Some (J off)"
    and "after_code N c s ss h (\<lambda>K. A K @ [J 0]) C c1 s1" and "after_code N c s ss h' F C' c2 s2"
    and "grown (fs_proto s1) B D (fs_proto s2)"
    and "patch_jump (length (fp_code (fs_proto s1)) - 1) c2 = (Ok (), c3)"
  shows "\<exists>s3. after_code N c s ss h' (\<lambda>K. A K @ J (of_nat (length (B K))) # B K) (C \<union> D) c3 s3"
proof -
  have "cg_scopes c2 = s2 # ss" using assms(3) by (simp add: after_code_def)
  moreover have "grown (fs_proto s) (\<lambda>K. A K @ [J 0]) C (fs_proto s1)" using assms(2) by (simp add: after_code_def)
  ultimately obtain r where "c3 = c2\<lparr>cg_scopes := s2\<lparr>fs_proto := r\<rparr> # ss\<rparr>"
    "grown (fs_proto s) (\<lambda>K. A K @ J (of_nat (length (B K))) # B K) (C \<union> D) r"
    using patch_forward [where J = J, OF J _ assms(4,5)] by blast
  then show ?thesis using assms(3) by (intro exI [of _ "s2\<lparr>fs_proto := r\<rparr>"]) (auto simp: after_code_def)
qed

lemma grown_emitted_of:
  assumes "grown p F C q" and "\<forall>ks'. i (fp_constants q @ ks') = i (fp_constants q)"
  shows "grown p (\<lambda>K. F K @ [i K]) C (q\<lparr>fp_code := fp_code q @ [i (fp_constants q)], fp_lines := fp_lines q @ [line]\<rparr>)"
proof -
  obtain ks ls where q: "q = p\<lparr>fp_code := fp_code p @ F (fp_constants p @ ks), fp_constants := fp_constants p @ ks,
      fp_lines := fp_lines p @ ls\<rparr>" "\<forall>ks'. F (fp_constants p @ ks @ ks') = F (fp_constants p @ ks)"
      "length (fp_constants p) \<le> 65535 \<longrightarrow> length (fp_constants p @ ks) \<le> 65535" "C \<subseteq> set (fp_constants p @ ks)"
    using assms(1) by (auto simp: grown_def)
  then show ?thesis using assms(2) unfolding grown_def
    by (intro exI [of _ ks] exI [of _ "ls @ [line]"]) simp
qed

lemma grown_stable: "grown p F C q \<Longrightarrow> F (fp_constants q @ ks') = F (fp_constants q)"
  by (auto simp: grown_def)

lemma after_back:
  assumes "after_code N c s ss h X C c1 s1" and "grown p G D (fs_proto s1)"
    and "back_jump (length (fp_code (fs_proto s))) line c1 = (Ok (), c2)"
  defines "i \<equiv> \<lambda>K. I_Jmp (- of_nat (length (X K) + 1))"
  shows "\<exists>s2. after_code N c s ss h (\<lambda>K. X K @ [i K]) C c2 s2 \<and> grown p (\<lambda>K. G K @ [i K]) D (fs_proto s2)"
proof -
  let ?q = "fs_proto s1"
  have X: "grown (fs_proto s) X C ?q" "cg_scopes c1 = s1 # ss" using assms(1) by (simp_all add: after_code_def)
  have stable: "\<forall>ks'. i (fp_constants ?q @ ks') = i (fp_constants ?q)" using grown_stable [OF X(1)] by (simp add: i_def)
  let ?q' = "?q\<lparr>fp_code := fp_code ?q @ [i (fp_constants ?q)], fp_lines := fp_lines ?q @ [line]\<rparr>"
  have "Lua_Codegen.jump_offset (length (fp_code ?q)) (length (fp_code (fs_proto s))) = - of_nat (length (X (fp_constants ?q)) + 1)"
    using grownD [OF X(1)] by (simp add: Lua_Codegen.jump_offset_def)
  then have "c2 = c1\<lparr>cg_scopes := s1\<lparr>fs_proto := ?q'\<rparr> # ss\<rparr>"
    using assms(3) X(2) by (auto simp: back_jump_def bnd_def code_len_def emit_def on_scope_eq i_def)
  then show ?thesis
    using assms(1) grown_emitted_of [OF X(1) stable] grown_emitted_of [OF assms(2) stable]
    by (intro exI [of _ "s1\<lparr>fs_proto := ?q'\<rparr>"]) (auto simp: after_code_def)
qed

section \<open>Statements\<close>

lemma after_declared:
  "after_code N c s ss h F C c' s' \<Longrightarrow>
   \<exists>s'. c' = c\<lparr>cg_scopes := s' # ss\<rparr> \<and> extends_scope N h s s' \<and> grown (fs_proto s) F C (fs_proto s')"
  by (auto simp: after_code_def)

text \<open>The common beginning of \<open>if\<close> and \<open>while\<close>: the condition and the jump that is patched later.\<close>

lemma after_condition:
  assumes "after_code N c s ss (length N) (\<lambda>_. []) {} c s" and "declares N ce F C N (length N)"
    and "bnd ce (\<lambda>_. bnd (emit i line) f) c = (Ok (), c')"
  shows "\<exists>s1 c1 s2. after_code N c s ss (length N) (\<lambda>K. F K @ [i]) C c1 s1 \<and>
    f (length (fp_code (fs_proto s1)) - 1) c1 = (Ok (), c')"
proof -
  obtain c1 c2 idx where c: "ce c = (Ok (), c1)" "emit i line c1 = (Ok idx, c2)" "f idx c2 = (Ok (), c')"
    using assms(3) by (auto simp: bnd_Ok_iff)
  obtain s1 where "after_code N c s ss (length N) F C c1 s1" using after_declares [OF assms(1,2) c(1)] by auto
  from after_emit [OF this c(2)] c(3) show ?thesis by auto
qed

lemma jump_offsets: "with_offset off (I_JmpIfNot off') = Some (I_JmpIfNot off)" "with_offset off (I_Jmp off') = Some (I_Jmp off)"
  by simp_all

lemma declares_if:
  assumes ce: "declares N ce F C N (length N)" and cb: "declares N cb G D N h" and h: "length N \<le> h"
  shows "declares N (bnd ce (\<lambda>_. bnd (emit (I_JmpIfNot 0) line) (\<lambda>idx. bnd cb (\<lambda>_. patch_jump idx))))
    (\<lambda>K. F K @ unless_over (G K) 0) (C \<union> D) N h"
proof (rule declaresI)
  fix c c' s ss assume c: "cg_scopes c = s # ss" "scope_at N s"
    "bnd ce (\<lambda>_. bnd (emit (I_JmpIfNot 0) line) (\<lambda>idx. bnd cb (\<lambda>_. patch_jump idx))) c = (Ok (), c')"
  from after_condition [OF after_start [OF c(1,2)] ce c(3)]
  obtain s1 c1 c2 where 1: "after_code N c s ss (length N) (\<lambda>K. F K @ [I_JmpIfNot 0]) C c1 s1"
      "cb c1 = (Ok (), c2)" "patch_jump (length (fp_code (fs_proto s1)) - 1) c2 = (Ok (), c')"
    by (auto simp: bnd_Ok_iff)
  from after_declares [OF 1(1) cb 1(2)] obtain X E s2 where
    2: "after_code N c s ss (max (length N) h) X E c2 s2" "grown (fs_proto s1) G D (fs_proto s2)" by blast
  from after_patch [where J = I_JmpIfNot, OF jump_offsets(1) 1(1) 2 1(3)] obtain s3 where
    "after_code N c s ss h (\<lambda>K. F K @ unless_over (G K) 0) (C \<union> D) c' s3"
    using h by (auto simp: unless_over_def max_def)
  then show "\<exists>s'. c' = c\<lparr>cg_scopes := s' # ss\<rparr> \<and> extends_scope N h s s' \<and>
      grown (fs_proto s) (\<lambda>K. F K @ unless_over (G K) 0) (C \<union> D) (fs_proto s')"
    by (rule after_declared)
qed

lemma patch_length:
  assumes "patch_jump i c = (Ok (), c')" and "cg_scopes c = s # ss"
  shows "length (fp_code (fs_proto (hd (cg_scopes c')))) = length (fp_code (fs_proto s))"
  using assms by (auto simp: patch_jump_def bnd_def code_len_def patch_jump_to_def on_scope_eq Let_def
      split: if_splits option.splits)

lemma declares_if_else:
  assumes ce: "declares N ce F C N (length N)" and cb: "declares N cb G D N h" and cb': "declares N cb' G' D' N h'"
    and h: "length N \<le> h"
  shows "declares N (bnd ce (\<lambda>_. bnd (emit (I_JmpIfNot 0) line) (\<lambda>idx. bnd cb (\<lambda>_.
      bnd (emit (I_Jmp 0) line) (\<lambda>end. bnd (patch_jump idx) (\<lambda>_. bnd cb' (\<lambda>_. patch_jump end)))))))
    (\<lambda>K. F K @ unless_over (G K) 1 @ I_Jmp (of_nat (length (G' K))) # G' K) (C \<union> D \<union> D') N (max h h')"
proof (rule declaresI)
  fix c c' s ss assume c: "cg_scopes c = s # ss" "scope_at N s"
    "bnd ce (\<lambda>_. bnd (emit (I_JmpIfNot 0) line) (\<lambda>idx. bnd cb (\<lambda>_.
      bnd (emit (I_Jmp 0) line) (\<lambda>end. bnd (patch_jump idx) (\<lambda>_. bnd cb' (\<lambda>_. patch_jump end)))))) c = (Ok (), c')"
  from after_condition [OF after_start [OF c(1,2)] ce c(3)]
  obtain s1 c1 c2 c3 c4 c5 i where 1: "after_code N c s ss (length N) (\<lambda>K. F K @ [I_JmpIfNot 0]) C c1 s1"
      "cb c1 = (Ok (), c2)" "emit (I_Jmp 0) line c2 = (Ok i, c3)"
      "patch_jump (length (fp_code (fs_proto s1)) - 1) c3 = (Ok (), c4)" "cb' c4 = (Ok (), c5)" "patch_jump i c5 = (Ok (), c')"
    by (auto simp: bnd_Ok_iff)
  from after_declares [OF 1(1) cb 1(2)] h obtain X E s2 where
    2: "after_code N c s ss h X E c2 s2" "grown (fs_proto s1) G D (fs_proto s2)" by (auto simp: max_def)
  from after_emit [OF 2(1) 1(3)] 2(2) obtain s3 where
    3: "after_code N c s ss h (\<lambda>K. X K @ [I_Jmp 0]) E c3 s3" "i = length (fp_code (fs_proto s3)) - 1"
      "grown (fs_proto s1) (\<lambda>K. G K @ [I_Jmp 0]) D (fs_proto s3)" by blast
  from after_patch [where J = I_JmpIfNot, OF jump_offsets(1) 1(1) 3(1,3) 1(4)] obtain s4 where
    4: "after_code N c s ss h (\<lambda>K. (F K @ unless_over (G K) 1) @ [I_Jmp 0]) (C \<union> D) c4 s4"
    by (auto simp: unless_over_def)
  have same: "length (fp_code (fs_proto s4)) = length (fp_code (fs_proto s3))"
    using patch_length [OF 1(4), of s3 ss] 3(1) 4 by (simp add: after_code_def)
  from after_declares [OF 4 cb' 1(5)] obtain Y E' s5 where
    5: "after_code N c s ss (max h h') Y E' c5 s5" "grown (fs_proto s4) G' D' (fs_proto s5)" by blast
  have "patch_jump (length (fp_code (fs_proto s4)) - 1) c5 = (Ok (), c')" using 1(6) 3(2) same by simp
  from after_patch [where J = I_Jmp, OF jump_offsets(2) 4 5 this]
  show "\<exists>s'. c' = c\<lparr>cg_scopes := s' # ss\<rparr> \<and> extends_scope N (max h h') s s' \<and>
      grown (fs_proto s) (\<lambda>K. F K @ unless_over (G K) 1 @ I_Jmp (of_nat (length (G' K))) # G' K) (C \<union> D \<union> D') (fs_proto s')"
    using after_declared by fastforce
qed

lemma scope_at_breaks [simp]: "scope_at N (s\<lparr>fs_break_patches := b\<rparr>) = scope_at N s"
  by (simp add: scope_at_def)

lemma declares_while:
  assumes ce: "declares N ce F C N (length N)" and cb: "declares N cb G D N h" and h: "length N \<le> h"
  shows "declares N (bnd code_len (\<lambda>start. bnd (push_break_scope 0) (\<lambda>_. bnd ce (\<lambda>_.
      bnd (emit (I_JmpIfNot 0) line) (\<lambda>idx. bnd cb (\<lambda>_. bnd (back_jump start line) (\<lambda>_. bnd (patch_jump idx) (\<lambda>_.
      bnd pop_break_scope (\<lambda>breaks. for_each patch_jump breaks)))))))))
    (\<lambda>K. F K @ unless_over (G K) 1 @ [I_Jmp (- of_nat (length (F K) + length (G K) + 2))]) (C \<union> D) N h"
proof (rule declaresI)
  fix c c' s ss assume c: "cg_scopes c = s # ss" "scope_at N s"
    "bnd code_len (\<lambda>start. bnd (push_break_scope 0) (\<lambda>_. bnd ce (\<lambda>_.
      bnd (emit (I_JmpIfNot 0) line) (\<lambda>idx. bnd cb (\<lambda>_. bnd (back_jump start line) (\<lambda>_. bnd (patch_jump idx) (\<lambda>_.
      bnd pop_break_scope (\<lambda>breaks. for_each patch_jump breaks)))))))) c = (Ok (), c')"
  let ?s = "s\<lparr>fs_break_patches := (0, []) # fs_break_patches s\<rparr>"
  let ?c = "c\<lparr>cg_scopes := ?s # ss\<rparr>"
  let ?start = "length (fp_code (fs_proto ?s))"
  have start: "after_code N ?c ?s ss (length N) (\<lambda>_. []) {} ?c ?s" using c(2) by (intro after_start) simp_all
  have "bnd ce (\<lambda>_. bnd (emit (I_JmpIfNot 0) line) (\<lambda>idx. bnd cb (\<lambda>_. bnd (back_jump ?start line) (\<lambda>_.
      bnd (patch_jump idx) (\<lambda>_. bnd pop_break_scope (\<lambda>breaks. for_each patch_jump breaks)))))) ?c = (Ok (), c')"
    using c(1,3) by (simp add: bnd_def code_len_def push_break_scope_def on_scope_eq)
  from after_condition [OF start ce this]
  obtain s1 c1 c2 c3 c4 where 1: "after_code N ?c ?s ss (length N) (\<lambda>K. F K @ [I_JmpIfNot 0]) C c1 s1"
      "cb c1 = (Ok (), c2)" "back_jump ?start line c2 = (Ok (), c3)"
      "patch_jump (length (fp_code (fs_proto s1)) - 1) c3 = (Ok (), c4)"
      "bnd pop_break_scope (\<lambda>breaks. for_each patch_jump breaks) c4 = (Ok (), c')"
    by (auto simp: bnd_Ok_iff)
  from after_declares [OF 1(1) cb 1(2)] h obtain s2 where
    2: "after_code N ?c ?s ss h (\<lambda>K. (F K @ [I_JmpIfNot 0]) @ G K) (C \<union> D) c2 s2" "grown (fs_proto s1) G D (fs_proto s2)"
    by (auto simp: max_def)
  let ?goto = "\<lambda>K. I_Jmp (- of_nat (length (F K) + length (G K) + 2))"
  have "length ((F K @ [I_JmpIfNot 0]) @ G K) + 1 = length (F K) + length (G K) + 2" for K by simp
  with after_back [OF 2 1(3)] obtain X s3 where
    3: "after_code N ?c ?s ss h X (C \<union> D) c3 s3" "grown (fs_proto s1) (\<lambda>K. G K @ [?goto K]) D (fs_proto s3)"
    by (simp only:) blast
  from after_patch [where J = I_JmpIfNot, OF jump_offsets(1) 1(1) 3 1(4)] obtain s4 where
    4: "after_code N ?c ?s ss h (\<lambda>K. F K @ unless_over (G K) 1 @ [?goto K]) (C \<union> D) c4 s4"
    by (auto simp: unless_over_def)
  let ?t = "s4\<lparr>fs_break_patches := fs_break_patches s\<rparr>"
  have "fs_break_patches s4 = (0, []) # fs_break_patches s" using 4 by (simp add: after_code_def extends_scope_def)
  then have "c' = c\<lparr>cg_scopes := ?t # ss\<rparr>"
    using 1(5) 4 by (auto simp: after_code_def bnd_def pop_break_scope_def on_scope_eq)
  moreover have "extends_scope N h s ?t" using 4 by (simp add: after_code_def extends_scope_def)
  ultimately show "\<exists>s'. c' = c\<lparr>cg_scopes := s' # ss\<rparr> \<and> extends_scope N h s s' \<and>
      grown (fs_proto s) (\<lambda>K. F K @ unless_over (G K) 1 @ [?goto K]) (C \<union> D) (fs_proto s')"
    using 4 by (intro exI [of _ ?t]) (simp add: after_code_def)
qed

section \<open>Programs\<close>

lemma bnd_ret_right: "bnd m ret = m" "bnd m' (\<lambda>u :: unit. ret ()) = m'"
  by (rule ext; simp add: bnd_def split: prod.split outcome.split)+

lemma declares_expr:
  assumes "size e < n" and "straight (set N) e"
  shows "declares N (compile_expr_rec n e) (\<lambda>K. code_of (map_of (scope_of N)) K e) (consts_of e) N (length N)"
proof (rule declares_appends)
  fix B assume B: "concat B = scope_of N"
  show "appends B (compile_expr_rec n e) (\<lambda>K. code_of (map_of (scope_of N)) K e) (consts_of e)"
    using straight_code [of e n B] assms by (simp add: B)
qed

lemma compile_block_pos:
  "0 < n \<Longrightarrow> compile_block_rec n b = compile_block (compile_expr_rec (n - 1)) (compile_block_rec (n - 1)) b"
  by (cases n) simp_all

lemma declares_assign:
  assumes "size d < n" and "straight (set N) d" and "x \<in> set N"
  shows "declares N (compile_assign (compile_expr_rec n) (TargetName x xs) d sp)
    (\<lambda>K. code_of (map_of (scope_of N)) K d @ [I_StoreLocal (slot_of N x)]) (consts_of d) N (length N)"
proof (rule declares_appends, rule appendsI)
  fix B c c' s ss assume B: "concat B = scope_of N" and c: "cg_scopes c = s # ss" "fs_blocks s = B"
    "compile_assign (compile_expr_rec n) (TargetName x xs) d sp c = (Ok (), c')"
  obtain i where "map_of (scope_of N) x = Some i" using assms(3) dom_scope_of [of N] by (auto simp: dom_def)
  then have "compile_assign (compile_expr_rec n) (TargetName x xs) d sp c
      = bnd (compile_expr_rec n d) (\<lambda>_. emit1 (I_StoreLocal (slot_of N x)) (span_line sp)) c"
    using c(1,2) B by (simp add: compile_assign_def bnd_def resolve_var_def scope_local_def store_var_def Let_def)
  moreover have "appends B (compile_expr_rec n d) (\<lambda>K. code_of (map_of (scope_of N)) K d) (consts_of d)"
    using straight_code [of d n B] assms(1,2) by (simp add: B)
  ultimately show "\<exists>p. c' = c\<lparr>cg_scopes := s\<lparr>fs_proto := p\<rparr> # ss\<rparr> \<and>
      grown (fs_proto s) (\<lambda>K. code_of (map_of (scope_of N)) K d @ [I_StoreLocal (slot_of N x)]) (consts_of d) p"
    using appendsD [OF appends_bnd_emit, of B "compile_expr_rec n d"] c by simp
qed

lemma plain_block_cases: "plain_block N b \<Longrightarrow> \<exists>sts s. b = Block sts None s \<and> plain_stmts N sts"
  by (cases "(N, b)" rule: plain_block.cases) auto

text \<open>The body of a program or block, before its \<open>return\<close>.\<close>

lemma structured_code:
  "size st < n \<Longrightarrow> plain_stmt N st \<Longrightarrow> declares N (compile_stmt (compile_expr_rec n) (compile_block_rec n) st)
     (\<lambda>K. stmt_code N K st) (stmt_consts st) (names_after N st) (stmt_high N st)"
  "size_list size sts < n \<Longrightarrow> plain_stmts N sts \<Longrightarrow> declares N (for_each (compile_stmt (compile_expr_rec n) (compile_block_rec n)) sts)
     (\<lambda>K. stmts_code N K sts) (stmts_consts sts) (names_of N sts) (stmts_high N sts)"
  "size b < n \<Longrightarrow> plain_block N b \<Longrightarrow> declares N (compile_block_rec n b)
     (\<lambda>K. block_code N K b) (block_consts b) N (block_high N b)"
proof (induction N st and N sts and N b arbitrary: n and n and n rule: plain_stmt_plain_stmts_plain_block.induct)
  case (1 N x d s)
  have "declares N (bnd (compile_expr_rec n d) (\<lambda>_. declare_and_store (span_line s) (fst x, snd x)))
      (\<lambda>K. code_of (map_of (scope_of N)) K d @ [I_StoreLocal (of_nat (length N))]) (consts_of d) (fst x # N) (Suc (length N))"
  proof (rule declares_local)
    fix B assume "concat B = scope_of N"
    then show "appends B (compile_expr_rec n d) (\<lambda>K. code_of (map_of (scope_of N)) K d) (consts_of d)"
      using straight_code [of d n B] 1 by simp
  qed
  then show ?case by (simp add: compile_stmt_def compile_local_decl_def bnd_ret_right)
next
  case (2 N x xs d s)
  then show ?case using declares_assign [of d n N x xs s] by (simp add: compile_stmt_def)
next
  case (3 N b s)
  then show ?case by (simp add: compile_stmt_def)
next
  case (4 N c b s)
  then have "declares N (compile_expr_rec n c) (\<lambda>K. code_of (map_of (scope_of N)) K c) (consts_of c) N (length N)"
    "declares N (compile_block_rec n b) (\<lambda>K. block_code N K b) (block_consts b) N (block_high N b)"
    by (auto intro!: declares_expr)
  from declares_if [OF this block_high_names] show ?case
    by (simp add: compile_stmt_def compile_if_def bnd_ret_right Let_def)
next
  case (5 N c b b' s)
  then have "declares N (compile_expr_rec n c) (\<lambda>K. code_of (map_of (scope_of N)) K c) (consts_of c) N (length N)"
    "declares N (compile_block_rec n b) (\<lambda>K. block_code N K b) (block_consts b) N (block_high N b)"
    "declares N (compile_block_rec n b') (\<lambda>K. block_code N K b') (block_consts b') N (block_high N b')"
    by (auto intro!: declares_expr)
  from declares_if_else [OF this block_high_names] show ?case
    by (simp add: compile_stmt_def compile_if_def bnd_ret_right emit_placeholder_def bnd_assoc Let_def)
next
  case (6 N c b s)
  then have "declares N (compile_expr_rec n c) (\<lambda>K. code_of (map_of (scope_of N)) K c) (consts_of c) N (length N)"
    "declares N (compile_block_rec n b) (\<lambda>K. block_code N K b) (block_consts b) N (block_high N b)"
    by (auto intro!: declares_expr)
  from declares_while [OF this block_high_names] show ?case
    by (simp add: compile_stmt_def compile_while_def Let_def)
next
  case (9 N st sts)
  then have "size st < n" "size_list size sts < n" "plain_stmt N st" "plain_stmts (names_after N st) sts" by auto
  from declares_bnd [OF "9.IH"(1) [OF this(1,3)] "9.IH"(2) [OF this(2,4)]] show ?case by simp
next
  case (10 N sts s)
  then have "size_list size sts < n - 1" "0 < n" "plain_stmts N sts" by auto
  from declares_block [OF "10.IH" [OF this(1,3)]] \<open>0 < n\<close> show ?case by (simp add: compile_block_pos)
qed (auto intro!: declares_appends appends_nothing)

text \<open>A structured program: a block that ends in \<open>return e\<close>.\<close>

fun plain_program :: "block \<Rightarrow> bool" where
  "plain_program (Block sts (Some (ReturnStmt (Some e) r)) s) \<longleftrightarrow> plain_stmts [] sts \<and> straight (set (names_of [] sts)) e"
| "plain_program _ \<longleftrightarrow> False"

definition structured_proto :: "function_proto \<Rightarrow> stmt list \<Rightarrow> expr \<Rightarrow> bool" where
  "structured_proto p sts e \<longleftrightarrow>
     fp_code p = stmts_code [] (fp_constants p) sts @
       code_of (map_of (scope_of (names_of [] sts))) (fp_constants p) e @ [I_Ret 1, I_Ret 0] \<and>
     stmts_high [] sts \<le> 200 \<and> fp_local_count p = of_nat (stmts_high [] sts) \<and> fp_param_count p = 0 \<and>
     length (fp_constants p) \<le> 65535 \<and> stmts_consts sts \<union> consts_of e \<subseteq> set (fp_constants p)"

lemma structured_block:
  assumes n: "size_list size sts < n" "size e < n" and plain: "plain_program (Block sts (Some (ReturnStmt (Some e) r)) sp)"
  shows "declares [] (bnd (compile_block (compile_expr_rec n) (compile_block_rec n) (Block sts (Some (ReturnStmt (Some e) r)) sp))
      (\<lambda>_. emit1 (I_Ret 0) line))
    (\<lambda>K. stmts_code [] K sts @ code_of (map_of (scope_of (names_of [] sts))) K e @ [I_Ret 1, I_Ret 0])
    (stmts_consts sts \<union> consts_of e) [] (stmts_high [] sts)"
proof -
  let ?N = "names_of [] sts" and ?line = "span_line r"
  have emit: "declares N (emit1 i l) (\<lambda>K. [i]) {} N (length N)" for N i l
    by (rule declares_appends) (rule appends_emit)
  have "declares ?N (bnd (compile_expr_rec n e) (\<lambda>_. emit1 (I_Ret 1) ?line))
      (\<lambda>K. code_of (map_of (scope_of ?N)) K e @ [I_Ret 1]) (consts_of e \<union> {}) ?N (max (length ?N) (length ?N))"
    using plain n(2) by (intro declares_bnd [OF declares_expr emit]) auto
  from declares_bnd [OF structured_code(2) [OF n(1)] this] plain
  have "declares [] (bnd (for_each (compile_stmt (compile_expr_rec n) (compile_block_rec n)) sts)
      (\<lambda>_. bnd (compile_expr_rec n e) (\<lambda>_. emit1 (I_Ret 1) ?line)))
      (\<lambda>K. stmts_code [] K sts @ code_of (map_of (scope_of ?N)) K e @ [I_Ret 1])
      (stmts_consts sts \<union> consts_of e) ?N (max (stmts_high [] sts) (length ?N))" by simp
  moreover have "max (stmts_high [] sts) (length ?N) = stmts_high [] sts" using stmts_high_names [of "[]" sts] by simp
  ultimately have "declares [] (bnd (for_each (compile_stmt (compile_expr_rec n) (compile_block_rec n)) sts)
      (\<lambda>_. bnd (compile_expr_rec n e) (\<lambda>_. emit1 (I_Ret 1) ?line)))
      (\<lambda>K. stmts_code [] K sts @ code_of (map_of (scope_of ?N)) K e @ [I_Ret 1])
      (stmts_consts sts \<union> consts_of e) ?N (stmts_high [] sts)" by simp
  from declares_bnd [OF declares_block [OF this] emit, of "I_Ret 0" line] show ?thesis
    by (simp add: bnd_assoc)
qed

lemma structured_compiles:
  assumes "compile hash (Block sts (Some (ReturnStmt (Some e) r)) sp) = Ok program"
    and "plain_program (Block sts (Some (ReturnStmt (Some e) r)) sp)"
  shows "\<exists>p. prototypes program = [p] \<and> structured_proto p sts e"
proof -
  let ?b = "Block sts (Some (ReturnStmt (Some e) r)) sp"
  let ?s = "(new_function_scope 0)\<lparr>fs_blocks := [[]]\<rparr>"
  let ?c = "\<lparr>cg_scopes = [?s], cg_prototypes = [new_function_proto 0]\<rparr>"
  let ?body = "bnd (compile_block (compile_expr_rec (size ?b)) (compile_block_rec (size ?b)) ?b) (\<lambda>_. emit1 (I_Ret 0) (span_line sp))"
  let ?leave = "bnd exit_function (\<lambda>p. bnd (modifies (\<lambda>c. c\<lparr>cg_prototypes := (cg_prototypes c)[0 := p]\<rparr>))
     (\<lambda>_. reads cg_prototypes))"
  have "compile_prototypes ?b \<lparr>cg_scopes = [], cg_prototypes = []\<rparr> = bnd ?body (\<lambda>_. ?leave) ?c"
    by (simp add: compile_prototypes_def enter_function_def bnd_assoc) (simp add: bnd_def)
  then obtain c1 where c1: "?body ?c = (Ok (), c1)" "fst (?leave c1) = Ok (prototypes program)"
    using assms(1) by (auto simp: compile_def bnd_def split: prod.splits outcome.splits)
  have "scope_at [] ?s" by (simp add: scope_at_def new_function_scope_def)
  moreover have "size_list size sts < size ?b" "size e < size ?b" by simp_all
  ultimately obtain s where s: "c1 = \<lparr>cg_scopes = [s], cg_prototypes = [new_function_proto 0]\<rparr>"
      "extends_scope [] (stmts_high [] sts) ?s s"
      "grown (fs_proto ?s) (\<lambda>K. stmts_code [] K sts @ code_of (map_of (scope_of (names_of [] sts))) K e @ [I_Ret 1, I_Ret 0])
        (stmts_consts sts \<union> consts_of e) (fs_proto s)"
    using declaresD [OF structured_block [OF _ _ assms(2)] c1(1), of ?s "[]"] by auto
  have high: "fs_max_locals s = stmts_high [] sts" "fs_upvalues s = []" "stmts_high [] sts \<le> 200"
    using s(2) by (auto simp: extends_scope_def new_function_scope_def)
  have "prototypes program = [(fs_proto s)\<lparr>fp_local_count := of_nat (stmts_high [] sts), fp_upvalue_count := 0,
      fp_upvalues := []\<rparr>]"
    using c1(2) s(1) high by (simp add: bnd_def exit_function_def)
  then show ?thesis using grownD [OF s(3)] high
    by (simp add: structured_proto_def new_function_scope_def new_function_proto_def)
qed

text \<open>C4: The code generator is equal to a reference compiler on structured programs. A program of local
  declarations, assignments to locals, \<open>do\<close>, \<open>if\<close> and \<open>while\<close> that ends in \<open>return e\<close> (over literals,
  variables, unary, arithmetic, comparison and short-circuit operators) compiles to one prototype whose
  code is \<open>stmts_code\<close> of the tree, the code of the result and two returns: a variable has the number of
  variables below it as its slot, every jump goes exactly over the code it must skip or back to the
  condition, constants are numbered by their first occurrence, and the local count is the most
  variables that are ever live at once.\<close>

theorem structured_program_code:
  assumes "compile hash (Block sts (Some (ReturnStmt (Some e) r)) sp) = Ok program"
    and "plain_program (Block sts (Some (ReturnStmt (Some e) r)) sp)"
  shows "\<exists>p. prototypes program = [p] \<and> structured_proto p sts e"
  using assms by (rule structured_compiles)

text \<open>\<open>local i = 0 local n = 0 while i < 3 do local k = i i = i + 1 if k == 1 then n = 40 else n = n + i end end return n\<close>\<close>

definition sum_stmts :: "stmt list" where
  "sum_stmts = (let s = Span 0 1 1; i = EName ''i'' s; n = EName ''n'' s; k = EName ''k'' s in
     [LocalDecl [(''i'', s)] [EInteger 0 s] s,
      LocalDecl [(''n'', s)] [EInteger 0 s] s,
      WhileStmt (EBinOp OpLt i (EInteger 3 s) s) (Block
        [LocalDecl [(''k'', s)] [i] s,
         AssignStmt (TargetName ''i'' s) (EBinOp OpAdd i (EInteger 1 s) s) s,
         IfStmt (EBinOp OpEq k (EInteger 1 s) s)
           (Block [AssignStmt (TargetName ''n'' s) (EInteger 40 s) s] None s) []
           (Some (Block [AssignStmt (TargetName ''n'' s) (EBinOp OpAdd n i s) s] None s)) s] None s) s])"

definition sum_result :: expr where
  "sum_result = EName ''n'' (Span 0 1 1)"

definition sum_program :: compiled_program where
  "sum_program = \<lparr>prototypes = [\<lparr>fp_code = [
       I_PushK 0, I_StoreLocal 0, I_PushK 0, I_StoreLocal 1,
       I_LoadLocal 0, I_PushK 1, I_Lt, I_JmpIfNot 18,
       I_LoadLocal 0, I_StoreLocal 2,
       I_LoadLocal 0, I_PushK 2, I_Add, I_StoreLocal 0,
       I_LoadLocal 2, I_PushK 2, I_Eq, I_JmpIfNot 3,
       I_PushK 3, I_StoreLocal 1, I_Jmp 4,
       I_LoadLocal 1, I_LoadLocal 0, I_Add, I_StoreLocal 1,
       I_Jmp (-22), I_LoadLocal 1, I_Ret 1, I_Ret 0],
     fp_constants = [K_Integer 0, K_Integer 3, K_Integer 1, K_Integer 40], fp_local_count = 3, fp_upvalue_count = 0,
     fp_param_count = 0, fp_lines = [1, 1, 1, 1, 1, 1, 1, 1, 1, 1, 1, 1, 1, 1, 1, 1, 1, 1, 1, 1, 1, 1, 1, 1, 1, 1, 1, 1, 1],
     fp_max_stack = 0, fp_upvalues = []\<rparr>], program_hash = []\<rparr>"

abbreviation sum_block :: block where
  "sum_block \<equiv> Block sum_stmts (Some (ReturnStmt (Some sum_result) (Span 0 1 1))) (Span 0 1 1)"

lemma compile_sum: "compile (\<lambda>_. []) sum_block = Ok sum_program"
  by (simp add: sum_stmts_def sum_result_def sum_program_def cg_run
      compile_binop_def binop_instruction_def cong: bnd_stop
      del: compile_expr_rec.simps compile_block_rec.simps)

lemma plain_sum: "plain_program sum_block"
  by (simp add: sum_stmts_def sum_result_def plain_name_def Let_def)

theorem structured_program_code_witness:
  "\<exists>p. prototypes sum_program = [p] \<and> structured_proto p sum_stmts sum_result"
  by (rule structured_program_code [OF compile_sum plain_sum])

end
