(* ===== verification/Lua_Expr_Run.thy ===== *)
theory Lua_Expr_Run
  imports Lua_Expr_Code Lua_Engine
begin

text \<open>
  Running the code of expressions. \<open>eval\<close> is a reference semantics written on the tree; \<open>machine_runs\<close>
  the step relation of the virtual machine inside one function. The code of an expression, run from
  any stack, ends behind that code with the value of \<open>eval\<close> pushed, or raises the error \<open>eval\<close> gives
  (\<open>code_of_delivers\<close>). The main loop of the machine follows \<open>machine_runs\<close> (\<open>exec_loop_runs\<close>).
\<close>

section \<open>The reference semantics\<close>

definition and_then :: "'e + 'a \<Rightarrow> ('a \<Rightarrow> 'e + 'b) \<Rightarrow> 'e + 'b" where
  "and_then r f = (case r of Inl e \<Rightarrow> Inl e | Inr a \<Rightarrow> f a)"

lemma and_then_simps [simp]: "and_then (Inl e) f = Inl e" "and_then (Inr a) f = f a"
  by (simp_all add: and_then_def)

definition compare :: "(cmp_ordering \<Rightarrow> bool) \<Rightarrow> lua_value \<Rightarrow> lua_value \<Rightarrow> lua_error + lua_value" where
  "compare p a b = and_then (lua_cmp a b) (\<lambda>ord. Inr (VBool (p ord)))"

fun binary_value :: "bin_op_kind \<Rightarrow> lua_value \<Rightarrow> lua_value \<Rightarrow> lua_error + lua_value" where
  "binary_value OpAdd a b = lua_add a b"
| "binary_value OpSub a b = lua_sub a b"
| "binary_value OpMul a b = lua_mul a b"
| "binary_value OpIDiv a b = lua_idiv a b"
| "binary_value OpMod a b = lua_mod a b"
| "binary_value OpEq a b = Inr (VBool (lua_eq a b))"
| "binary_value OpNe a b = Inr (VBool (\<not> lua_eq a b))"
| "binary_value OpLt a b = compare (\<lambda>ord. ord = Less) a b"
| "binary_value OpLe a b = compare (\<lambda>ord. ord \<noteq> Greater) a b"
| "binary_value OpGt a b = compare (\<lambda>ord. ord = Greater) a b"
| "binary_value OpGe a b = compare (\<lambda>ord. ord \<noteq> Less) a b"
| "binary_value _ a b = Inr VNil"

fun unary_value :: "un_op_kind \<Rightarrow> lua_value \<Rightarrow> lua_error + lua_value" where
  "unary_value OpNeg a = lua_unm a"
| "unary_value OpNot a = Inr (VBool (\<not> is_truthy a))"
| "unary_value OpLen a = Inr VNil"

fun eval :: "(string \<Rightarrow> lua_value) \<Rightarrow> expr \<Rightarrow> lua_error + lua_value" where
  "eval \<rho> (ENil s) = Inr VNil"
| "eval \<rho> (ETrue s) = Inr (VBool True)"
| "eval \<rho> (EFalse s) = Inr (VBool False)"
| "eval \<rho> (EInteger n s) = Inr (VInt n)"
| "eval \<rho> (EStringLit b s) = Inr (VStr b)"
| "eval \<rho> (EName x s) = Inr (\<rho> x)"
| "eval \<rho> (EUnOp k e s) = and_then (eval \<rho> e) (unary_value k)"
| "eval \<rho> (EBinOp k l r s) =
     (if k = OpAnd then and_then (eval \<rho> l) (\<lambda>v. if is_truthy v then eval \<rho> r else Inr v)
      else if k = OpOr then and_then (eval \<rho> l) (\<lambda>v. if is_truthy v then Inr v else eval \<rho> r)
      else and_then (eval \<rho> l) (\<lambda>a. and_then (eval \<rho> r) (binary_value k a)))"
| "eval \<rho> _ = Inr VNil"

section \<open>Steps of the machine inside a function\<close>

text \<open>\<open>n\<close> instructions, none of which returns or calls back into the machine: to another state, or to
  an error.\<close>

inductive machine_runs :: "'h vm_env \<Rightarrow> 'h vm \<Rightarrow> nat \<Rightarrow> vm_error option \<Rightarrow> 'h vm \<Rightarrow> bool" for env where
  Done: "machine_runs env s 0 None s"
| Step: "fetch env s = (Ok (Some i), s1) \<Longrightarrow> (\<And>runner. dispatch runner env i s1 = (Ok None, s2)) \<Longrightarrow>
     length (vm_frames s2) = length (vm_frames s) \<Longrightarrow> machine_runs env s2 n r s3 \<Longrightarrow> machine_runs env s (Suc n) r s3"
| Stop: "fetch env s = (Ok (Some i), s1) \<Longrightarrow> (\<And>runner. dispatch runner env i s1 = (Err e, s2)) \<Longrightarrow>
     machine_runs env s 1 (Some e) s2"

lemma machine_runs_trans:
  "machine_runs env s n r t \<Longrightarrow> r = None \<Longrightarrow> machine_runs env t m r' u \<Longrightarrow> machine_runs env s (n + m) r' u"
  by (induction rule: machine_runs.induct) (auto intro: machine_runs.intros)

text \<open>The state that differs from \<open>s\<close> in the gas left, the pc of the running function and the stack.\<close>

definition conf :: "'h vm \<Rightarrow> nat \<Rightarrow> nat \<Rightarrow> stack_slot list \<Rightarrow> 'h vm" where
  "conf s g pc st = s\<lparr>vm_rt := (vm_rt s)\<lparr>rt_gas := (rt_gas (vm_rt s))\<lparr>gas_remaining := g\<rparr>\<rparr>, vm_stack := st,
     vm_frames := butlast (vm_frames s) @ [(last (vm_frames s))\<lparr>fr_pc := pc\<rparr>]\<rparr>"

text \<open>The function being run.\<close>

definition running :: "'h vm_env \<Rightarrow> 'h vm \<Rightarrow> function_proto \<Rightarrow> bool" where
  "running env s p \<longleftrightarrow> vm_frames s \<noteq> [] \<and> fr_proto (last (vm_frames s)) < length (prototypes (env_program env)) \<and>
     prototypes (env_program env) ! fr_proto (last (vm_frames s)) = p"

lemma conf_fields [simp]:
  "vm_stack (conf s g pc st) = st"
  "vm_frames (conf s g pc st) = butlast (vm_frames s) @ [(last (vm_frames s))\<lparr>fr_pc := pc\<rparr>]"
  "vm_cells (conf s g pc st) = vm_cells s"
  "gas_remaining (rt_gas (vm_rt (conf s g pc st))) = g"
  by (simp_all add: conf_def)

lemma conf_conf [simp]: "vm_frames s \<noteq> [] \<Longrightarrow> conf (conf s g pc st) g' pc' st' = conf s g' pc' st'"
  by (simp add: conf_def)

lemma conf_stack [simp]: "(conf s g pc st)\<lparr>vm_stack := st'\<rparr> = conf s g pc st'"
  by (simp add: conf_def)

lemma conf_charge: "0 < g \<Longrightarrow> on_rt (charge BASE_INSTRUCTION) (conf s g pc st) = (Ok (), conf s (g - 1) pc st)"
  by (simp add: on_rt_def charge_def gas_charge_def conf_def)

lemma conf_charge_bnd: "0 < g \<Longrightarrow> bnd (on_rt (charge BASE_INSTRUCTION)) f (conf s g pc st) = f () (conf s (g - 1) pc st)"
  by (rule bnd_eq(1)) (rule conf_charge)

lemma conf_set_pc: "set_pc pc' (conf s g pc st) = (Ok (), conf s g pc' st)"
  by (simp add: set_pc_def bnd_def top_frame_def conf_def)

lemma conf_top: "top_frame (conf s g pc st) = (Ok ((last (vm_frames s))\<lparr>fr_pc := pc\<rparr>), conf s g pc st)"
  by (simp add: top_frame_def bnd_def)

lemma conf_fetch:
  "running env s p \<Longrightarrow> pc < length (fp_code p) \<Longrightarrow>
   fetch env (conf s g pc st) = (Ok (Some (fp_code p ! pc)), conf s g (Suc pc) st)"
  by (simp add: fetch_def bnd_def conf_top proto_at_def index_or_panic_def running_def conf_set_pc)

text \<open>One instruction that is not a return and does not call back.\<close>

definition simple :: "instruction \<Rightarrow> bool" where
  "simple i \<longleftrightarrow> (case i of I_Ret _ \<Rightarrow> False | I_Call _ \<Rightarrow> False | I_PCall _ \<Rightarrow> False | _ \<Rightarrow> True)"

lemma dispatch_simple:
  "simple i \<Longrightarrow> 0 < g \<Longrightarrow> run_instruction undefined env i (conf s (g - 1) pc st) = (r, s') \<Longrightarrow>
   dispatch runner env i (conf s g pc st) = (case r of Ok _ \<Rightarrow> Ok None | Err e \<Rightarrow> Err e | Panic x \<Rightarrow> Panic x | Timeout \<Rightarrow> Timeout, s')"
  unfolding dispatch_def conf_charge_bnd by (cases i) (auto simp: simple_def bnd_def split: outcome.splits)

lemma run_step:
  assumes "running env s p" and "pc < length (fp_code p)" and "simple (fp_code p ! pc)" and "0 < g"
    and "run_instruction undefined env (fp_code p ! pc) (conf s (g - 1) (Suc pc) st) = (Ok (), conf s (g - 1) pc' st')"
  shows "machine_runs env (conf s g pc st) 1 None (conf s (g - 1) pc' st')"
  using machine_runs.Step [OF conf_fetch [OF assms(1,2)] _ _ machine_runs.Done]
    dispatch_simple [OF assms(3,4,5)] by fastforce

lemma run_stop:
  assumes "running env s p" and "pc < length (fp_code p)" and "simple (fp_code p ! pc)" and "0 < g"
    and "run_instruction undefined env (fp_code p ! pc) (conf s (g - 1) (Suc pc) st) = (Err e, s')"
  shows "machine_runs env (conf s g pc st) 1 (Some e) s'"
  using machine_runs.Stop [OF conf_fetch [OF assms(1,2)]] dispatch_simple [OF assms(3,4,5)] by fastforce

section \<open>The code of an expression delivers its value\<close>

text \<open>Starting at \<open>pc\<close> with the stack \<open>st0\<close>, at most \<open>len\<close> instructions lead behind the next \<open>len\<close> ones with
  the result pushed on \<open>st\<close>, or to the error.\<close>

definition delivers :: "'h vm_env \<Rightarrow> 'h vm \<Rightarrow> nat \<Rightarrow> nat \<Rightarrow> nat \<Rightarrow> stack_slot list \<Rightarrow> stack_slot list \<Rightarrow>
    lua_error + lua_value \<Rightarrow> bool" where
  "delivers env s g pc len st0 st res \<longleftrightarrow> (case res of
       Inr v \<Rightarrow> \<exists>n\<le>len. machine_runs env (conf s g pc st0) n None (conf s (g - n) (pc + len) (st @ [SValue v]))
     | Inl e \<Rightarrow> \<exists>n\<le>len. \<exists>s'. machine_runs env (conf s g pc st0) n (Some (vm_error_of e)) s')"

lemma delivers_then:
  assumes "delivers env s g pc k st0 st r"
    and "\<And>v n. r = Inr v \<Longrightarrow> n \<le> k \<Longrightarrow> delivers env s (g - n) (pc + k) l (st @ [SValue v]) st' (f v)"
  shows "delivers env s g pc (k + l) st0 st' (and_then r f)"
proof (cases r)
  case (Inl e)
  then show ?thesis using assms(1) by (auto simp: delivers_def) (meson trans_le_add1)
next
  case (Inr v)
  then obtain n where n: "n \<le> k" "machine_runs env (conf s g pc st0) n None (conf s (g - n) (pc + k) (st @ [SValue v]))"
    using assms(1) by (auto simp: delivers_def)
  note run = machine_runs_trans [OF n(2) refl]
  have f: "delivers env s (g - n) (pc + k) l (st @ [SValue v]) st' (f v)" using assms(2) Inr n(1) by blast
  show ?thesis
  proof (cases "f v")
    case (Inl e)
    then obtain m t where m: "m \<le> l" "machine_runs env (conf s (g - n) (pc + k) (st @ [SValue v])) m (Some (vm_error_of e)) t"
      using f by (auto simp: delivers_def)
    have "n + m \<le> k + l" using n(1) m(1) by simp
    with run [OF m(2)] \<open>r = Inr v\<close> Inl show ?thesis by (auto simp: delivers_def)
  next
    case (Inr w)
    then obtain m where m: "m \<le> l" "machine_runs env (conf s (g - n) (pc + k) (st @ [SValue v])) m None
        (conf s (g - n - m) (pc + k + l) (st' @ [SValue w]))"
      using f by (auto simp: delivers_def)
    have "n + m \<le> k + l" using n(1) m(1) by simp
    with run [OF m(2)] \<open>r = Inr v\<close> Inr show ?thesis by (auto simp: delivers_def add.assoc)
  qed
qed

definition located :: "function_proto \<Rightarrow> nat \<Rightarrow> instruction list \<Rightarrow> bool" where
  "located p pc code \<longleftrightarrow> (\<exists>pre post. fp_code p = pre @ code @ post \<and> length pre = pc)"

lemma located_append: "located p pc (a @ b) \<Longrightarrow> located p pc a \<and> located p (pc + length a) b"
  unfolding located_def
  by (metis append.assoc length_append)

lemma located_Cons:
  assumes "located p pc (i # code)"
  shows "pc < length (fp_code p)" "fp_code p ! pc = i" "located p (Suc pc) code"
proof -
  obtain pre post where p: "fp_code p = pre @ (i # code) @ post" "length pre = pc"
    using assms by (auto simp: located_def)
  then show "pc < length (fp_code p)" "fp_code p ! pc = i" by (auto simp: nth_append)
  have "fp_code p = (pre @ [i]) @ code @ post" "length (pre @ [i]) = Suc pc" using p by simp_all
  then show "located p (Suc pc) code" unfolding located_def by blast
qed

lemma located_end: "located p pc code \<Longrightarrow> pc + length code \<le> length (fp_code p)"
  by (auto simp: located_def)

lemma one_delivers:
  assumes "running env s p" and "located p pc [i]" and "simple i" and "0 < g"
    and "case res of
      Inr v \<Rightarrow> run_instruction undefined env i (conf s (g - 1) (Suc pc) st0) = (Ok (), conf s (g - 1) (Suc pc) (st @ [SValue v]))
    | Inl e \<Rightarrow> \<exists>s'. run_instruction undefined env i (conf s (g - 1) (Suc pc) st0) = (Err (vm_error_of e), s')"
  shows "delivers env s g pc 1 st0 st res"
proof (cases res)
  case (Inl e)
  then obtain s' where "run_instruction undefined env i (conf s (g - 1) (Suc pc) st0) = (Err (vm_error_of e), s')"
    using assms(5) by auto
  with run_stop [OF assms(1), of pc g st0] located_Cons [OF assms(2)] assms(3,4) Inl show ?thesis
    by (auto simp: delivers_def intro!: exI [of _ 1])
next
  case (Inr v)
  with run_step [OF assms(1), of pc g st0] located_Cons [OF assms(2)] assms show ?thesis
    by (auto simp: delivers_def intro!: exI [of _ 1])
qed

lemma pop_value_conf [simp]: "pop_value (conf s g pc (st @ [SValue v])) = (Ok v, conf s g pc st)"
  by (simp add: pop_value_def bnd_def slot_value_def)

lemma push_value_conf [simp]: "push_value v (conf s g pc st) = (Ok (), conf s g pc (st @ [SValue v]))"
  by (simp add: push_value_def push_slot_def)

lemma pop_value_bnd [simp]: "bnd pop_value f (conf s g pc (st @ [SValue v])) = f v (conf s g pc st)"
  by (rule bnd_eq(1)) simp

lemma pop_two_bnd [simp]: "bnd pop_value f (conf s g pc (st @ [a, SValue v])) = f v (conf s g pc (st @ [a]))"
  using pop_value_bnd [of f s g pc "st @ [a]" v] by simp

lemma binary_delivers:
  assumes "running env s p" and "located p pc [i]" and "binop_instruction k = Some i" and "0 < g"
  shows "delivers env s g pc 1 (st @ [SValue a, SValue b]) st (binary_value k a b)"
proof (rule one_delivers [OF assms(1,2) _ assms(4)])
  show "simple i" using assms(3) by (cases k) (auto simp: binop_instruction_def simple_def)
  show "case binary_value k a b of
      Inr v \<Rightarrow> run_instruction undefined env i (conf s (g - 1) (Suc pc) (st @ [SValue a, SValue b])) =
        (Ok (), conf s (g - 1) (Suc pc) (st @ [SValue v]))
    | Inl e \<Rightarrow> \<exists>s'. run_instruction undefined env i (conf s (g - 1) (Suc pc) (st @ [SValue a, SValue b])) =
        (Err (vm_error_of e), s')"
    using assms(3)
    by (cases k) (auto simp: binop_instruction_def do_binary_def do_equal_def do_compare_def compare_def and_then_def
        lift_lua_def split: sum.splits)
qed

text \<open>The jump of \<open>and\<close> and \<open>or\<close>: over the second operand, or into it after dropping the first.\<close>

lemma sint_small: "n < 2 ^ 15 \<Longrightarrow> sint (of_nat n :: i16) = int n"
  using int_word_sint [of "int n", where 'a = 16] by (simp add: mod_pos_pos_trivial)

lemma short_circuit_step:
  assumes "running env s p" and code: "located p pc (skip_over J code)" and "length (fp_code p) \<le> 32768"
    and J: "J = I_And \<and> \<not> on \<or> J = I_Or \<and> on" and "0 < g"
  shows "is_truthy v = on \<Longrightarrow> machine_runs env (conf s g pc (st @ [SValue v])) 1 None
           (conf s (g - 1) (pc + 2 + length code) (st @ [SValue v]))"
    and "is_truthy v \<noteq> on \<Longrightarrow> machine_runs env (conf s g pc (st @ [SValue v])) 1 None
           (conf s (g - 1) (Suc pc) (st @ [SValue v]))"
proof -
  let ?i = "J (of_nat (Suc (length code)))"
  have at: "pc < length (fp_code p)" "fp_code p ! pc = ?i"
    using located_Cons [OF code [unfolded skip_over_def]] by auto
  have fits: "pc + 2 + length code \<le> 32768"
    using located_end [OF code] assms(3) by (simp add: skip_over_def)
  then have off: "sint (of_nat (Suc (length code)) :: i16) = int (Suc (length code))"
    by (intro sint_small) simp
  have simple: "simple ?i" using J by (auto simp: simple_def)
  have run: "run_instruction undefined env ?i = do_short_circuit on (of_nat (Suc (length code)))"
    using J by auto
  have target: "nat ((int (Suc pc) + sint (of_nat (Suc (length code)) :: i16)) mod 2 ^ 64) = pc + 2 + length code"
    unfolding off using fits by (simp add: mod_pos_pos_trivial)
  show "machine_runs env (conf s g pc (st @ [SValue v])) 1 None
      (conf s (g - 1) (pc + 2 + length code) (st @ [SValue v]))" if "is_truthy v = on"
    using at simple that target
    by (intro run_step [OF assms(1) at(1) _ assms(5)])
      (auto simp: run do_short_circuit_def stack_top_def bnd_def slot_value_def jump_by_def conf_top conf_set_pc
        simp del: of_nat_Suc)
  show "machine_runs env (conf s g pc (st @ [SValue v])) 1 None (conf s (g - 1) (Suc pc) (st @ [SValue v]))"
    if "is_truthy v \<noteq> on"
    using at simple that
    by (intro run_step [OF assms(1) at(1) _ assms(5)])
      (auto simp: run do_short_circuit_def stack_top_def bnd_def slot_value_def simp del: of_nat_Suc)
qed

lemma pop_step:
  assumes "running env s p" and "located p pc [I_Pop]" and "0 < g"
  shows "machine_runs env (conf s g pc (st @ [x])) 1 None (conf s (g - 1) (Suc pc) st)"
  using located_Cons [OF assms(2)]
  by (intro run_step [OF assms(1) _ _ assms(3)]) (auto simp: simple_def do_pop_def)

lemma delivers_from:
  assumes "machine_runs env (conf s g pc st0) n None (conf s (g - n) (pc + k) st1)" and "n \<le> k"
    and "delivers env s (g - n) (pc + k) l st1 st r"
  shows "delivers env s g pc (k + l) st0 st r"
proof (cases r)
  case (Inl e)
  then obtain m t where m: "m \<le> l" "machine_runs env (conf s (g - n) (pc + k) st1) m (Some (vm_error_of e)) t"
    using assms(3) by (auto simp: delivers_def)
  have "n + m \<le> k + l" using assms(2) m(1) by simp
  with machine_runs_trans [OF assms(1) refl m(2)] Inl show ?thesis by (auto simp: delivers_def)
next
  case (Inr v)
  then obtain m where m: "m \<le> l" "machine_runs env (conf s (g - n) (pc + k) st1) m None
      (conf s (g - n - m) (pc + k + l) (st @ [SValue v]))"
    using assms(3) by (auto simp: delivers_def)
  have "n + m \<le> k + l" using assms(2) m(1) by simp
  with machine_runs_trans [OF assms(1) refl m(2)] Inr show ?thesis by (auto simp: delivers_def add.assoc)
qed

lemma skip_delivers:
  assumes "running env s p" and code: "located p pc (skip_over J code)" and "length (fp_code p) \<le> 32768"
    and J: "J = I_And \<and> \<not> on \<or> J = I_Or \<and> on" and g: "length code + 2 \<le> g"
    and r: "\<And>h. length code \<le> h \<Longrightarrow> delivers env s h (pc + 2) (length code) st st r"
  shows "delivers env s g pc (length (skip_over J code)) (st @ [SValue v]) st (if is_truthy v = on then Inr v else r)"
proof (cases "is_truthy v = on")
  case True
  have "machine_runs env (conf s g pc (st @ [SValue v])) 1 None (conf s (g - 1) (pc + length (skip_over J code)) (st @ [SValue v]))"
    using short_circuit_step(1) [OF assms(1-4) _ True, of g] g by (simp add: skip_over_def)
  with True show ?thesis by (auto simp: delivers_def skip_over_def intro!: exI [of _ 1])
next
  case False
  have "located p (Suc pc) ([I_Pop] @ code)" using located_Cons(3) [OF code [unfolded skip_over_def]] by simp
  then have pop: "located p (Suc pc) [I_Pop]" using located_append by blast
  have "machine_runs env (conf s g pc (st @ [SValue v])) (1 + 1) None (conf s (g - 1 - 1) (Suc (Suc pc)) st)"
    using short_circuit_step(2) [OF assms(1-4) _ False, of g st] pop_step [OF assms(1) pop, of "g - 1" st "SValue v"] g
    by (intro machine_runs_trans [OF _ refl]) auto
  then have "machine_runs env (conf s g pc (st @ [SValue v])) 2 None (conf s (g - 2) (pc + 2) st)" by (simp add: numeral_2_eq_2)
  from delivers_from [OF this] r [of "g - 2"] g have "delivers env s g pc (2 + length code) (st @ [SValue v]) st r"
    by auto
  with False show ?thesis by (simp add: skip_over_def)
qed

definition holds_locals :: "(string \<Rightarrow> nat option) \<Rightarrow> (string \<Rightarrow> lua_value) \<Rightarrow> nat \<Rightarrow> stack_slot list \<Rightarrow> bool" where
  "holds_locals \<sigma> \<rho> base st \<longleftrightarrow> (\<forall>x i. \<sigma> x = Some i \<longrightarrow>
     i < 256 \<and> base + i < length st \<and> st ! (base + i) = SValue (\<rho> x))"

lemma holds_locals_append: "holds_locals \<sigma> \<rho> base st \<Longrightarrow> holds_locals \<sigma> \<rho> base (st @ xs)"
  by (fastforce simp: holds_locals_def nth_append)

abbreviation frame_base :: "'h vm \<Rightarrow> nat" where
  "frame_base s \<equiv> fr_base (last (vm_frames s))"

lemma push_delivers:
  assumes "running env s p" and "located p pc [i]" and "simple i" and "0 < g"
    and "run_instruction undefined env i (conf s (g - 1) (Suc pc) st) = (Ok (), conf s (g - 1) (Suc pc) (st @ [SValue v]))"
  shows "delivers env s g pc 1 st st (Inr v)"
  using assms by (intro one_delivers) auto

lemma constant_delivers:
  assumes "running env s p" and "located p pc [push_const (fp_constants p) k]" and "0 < g"
    and "k \<in> set (fp_constants p)" and "length (fp_constants p) \<le> 65535"
  shows "delivers env s g pc 1 st st (Inr (constant_to_value k))"
proof -
  obtain i where i: "index_of (fp_constants p) k = Some i" using index_of_defined [OF assms(4)] by blast
  note nth = index_of_nth [OF i]
  have "unat (of_nat i :: u16) = i" using nth assms(5) by (intro unat_narrow) simp
  then have "constant_at env (of_nat i) (conf s h pc' st) = (Ok k, conf s h pc' st)" for h pc'
    using assms(1) nth
    by (simp add: constant_at_def bnd_def conf_top proto_at_def index_or_panic_def running_def)
  then show ?thesis using assms(1,2,3) i
    by (intro push_delivers) (auto simp: push_const_def simple_def do_push_k_def bnd_def)
qed

lemma local_delivers:
  assumes "running env s p" and "located p pc [I_LoadLocal (of_nat i)]" and "0 < g"
    and "\<sigma> x = Some i" and "holds_locals \<sigma> \<rho> (frame_base s) st"
  shows "delivers env s g pc 1 st st (Inr (\<rho> x))"
proof -
  have i: "i < 256" "frame_base s + i < length st" "st ! (frame_base s + i) = SValue (\<rho> x)"
    using assms(4,5) by (auto simp: holds_locals_def)
  show ?thesis using assms(1,2,3) i
    by (intro push_delivers) (auto simp: simple_def do_load_local_def bnd_def conf_top stack_at_def index_or_panic_def
        slot_value_def unat_narrow)
qed

lemma unary_delivers:
  assumes "running env s p" and "located p pc [unop_instruction k]" and "k \<noteq> OpLen" and "0 < g"
  shows "delivers env s g pc 1 (st @ [SValue a]) st (unary_value k a)"
proof (rule one_delivers [OF assms(1,2) _ assms(4)])
  show "simple (unop_instruction k)" by (cases k) (auto simp: unop_instruction_def simple_def)
  show "case unary_value k a of
      Inr v \<Rightarrow> run_instruction undefined env (unop_instruction k) (conf s (g - 1) (Suc pc) (st @ [SValue a])) =
        (Ok (), conf s (g - 1) (Suc pc) (st @ [SValue v]))
    | Inl e \<Rightarrow> \<exists>s'. run_instruction undefined env (unop_instruction k) (conf s (g - 1) (Suc pc) (st @ [SValue a])) =
        (Err (vm_error_of e), s')"
    using assms(3)
    by (cases k) (auto simp: unop_instruction_def do_neg_def do_not_def lift_lua_def split: sum.split)
qed

text \<open>A function of representable size being run.\<close>

definition code_running :: "'h vm_env \<Rightarrow> 'h vm \<Rightarrow> function_proto \<Rightarrow> bool" where
  "code_running env s p \<longleftrightarrow> running env s p \<and> length (fp_code p) \<le> 32768 \<and> length (fp_constants p) \<le> 65535"

lemma code_runningD:
  assumes "code_running env s p"
  shows "running env s p" and "length (fp_code p) \<le> 32768" and "length (fp_constants p) \<le> 65535"
  using assms by (auto simp: code_running_def)

lemma code_of_delivers:
  assumes "straight (dom \<sigma>) e" and "consts_of e \<subseteq> set (fp_constants p)"
    and "located p pc (code_of \<sigma> (fp_constants p) e)" and "holds_locals \<sigma> \<rho> (frame_base s) st"
    and "length (code_of \<sigma> (fp_constants p) e) \<le> g" and run: "code_running env s p"
  shows "delivers env s g pc (length (code_of \<sigma> (fp_constants p) e)) st st (eval \<rho> e)"
  using assms(1-5)
proof (induction "dom \<sigma>" e arbitrary: pc st g rule: straight.induct
    [case_names ENil ETrue EFalse EInteger EStringLit EName EUnOp EBinOp])
  case (ENil l)
  then show ?case using push_delivers [OF code_runningD(1) [OF run], of pc I_PushNil g st VNil] by (simp add: simple_def)
next
  case (ETrue l)
  then show ?case using push_delivers [OF code_runningD(1) [OF run], of pc I_PushTrue g st "VBool True"] by (simp add: simple_def)
next
  case (EFalse l)
  then show ?case using push_delivers [OF code_runningD(1) [OF run], of pc I_PushFalse g st "VBool False"] by (simp add: simple_def)
next
  case (EInteger n l)
  then show ?case using constant_delivers [OF code_runningD(1) [OF run], of pc "K_Integer n" g st] code_runningD(3) [OF run] by simp
next
  case (EStringLit b l)
  then show ?case using constant_delivers [OF code_runningD(1) [OF run], of pc "K_String b" g st] code_runningD(3) [OF run] by simp
next
  case (EName x l)
  then obtain i where "\<sigma> x = Some i" by auto
  with EName show ?case using local_delivers [OF code_runningD(1) [OF run], of pc i g \<sigma> x] by simp
next
  case (EUnOp k e l)
  let ?c = "code_of \<sigma> (fp_constants p) e"
  have at: "located p pc ?c" "located p (pc + length ?c) [unop_instruction k]"
    using EUnOp.prems(3) located_append [of p pc ?c] by auto
  have "delivers env s g pc (length ?c) st st (eval \<rho> e)" using EUnOp at by auto
  then have "delivers env s g pc (length ?c + 1) st st (and_then (eval \<rho> e) (unary_value k))"
  proof (rule delivers_then)
    fix v n assume "n \<le> length ?c"
    then show "delivers env s (g - n) (pc + length ?c) 1 (st @ [SValue v]) st (unary_value k v)"
      using EUnOp.prems by (intro unary_delivers [OF code_runningD(1) [OF run] at(2)]) auto
  qed
  then show ?case by simp
next
  case (EBinOp k l r sp)
  let ?l = "code_of \<sigma> (fp_constants p) l" and ?r = "code_of \<sigma> (fp_constants p) r"
  have sub: "straight (dom \<sigma>) l" "straight (dom \<sigma>) r" "k \<noteq> OpConcat" "consts_of l \<subseteq> set (fp_constants p)"
      "consts_of r \<subseteq> set (fp_constants p)"
    using EBinOp.prems(1,2) by auto
  have right: "delivers env s h pc' (length ?r) st' st' (eval \<rho> r)"
    if "located p pc' ?r" "length ?r \<le> h" "holds_locals \<sigma> \<rho> (frame_base s) st'" for h pc' st'
    using EBinOp.hyps(2) sub that by auto
  have skip: ?case if k: "k = OpAnd \<and> J = I_And \<and> \<not> on \<or> k = OpOr \<and> J = I_Or \<and> on" for J on
  proof -
    let ?j = "skip_over J ?r"
    have code: "code_of \<sigma> (fp_constants p) (EBinOp k l r sp) = ?l @ ?j" using k by auto
    have at: "located p pc ?l" "located p (pc + length ?l) ?j"
      using EBinOp.prems(3) located_append [of p pc ?l ?j] unfolding code by auto
    have at_r: "located p (pc + length ?l + 2) ?r"
      using located_Cons(3) [OF located_Cons(3) [OF at(2) [unfolded skip_over_def]]] by simp
    have left: "delivers env s g pc (length ?l) st st (eval \<rho> l)"
      using EBinOp sub at(1) code by auto
    have "delivers env s g pc (length ?l + length ?j) st st
        (and_then (eval \<rho> l) (\<lambda>v. if is_truthy v = on then Inr v else eval \<rho> r))"
    proof (rule delivers_then [OF left])
      fix v n assume "n \<le> length ?l"
      then have enough: "length ?r + 2 \<le> g - n" using EBinOp.prems(5) code by (simp add: skip_over_def)
      have J: "J = I_And \<and> \<not> on \<or> J = I_Or \<and> on" using k by auto
      show "delivers env s (g - n) (pc + length ?l) (length ?j) (st @ [SValue v]) st
          (if is_truthy v = on then Inr v else eval \<rho> r)"
        by (rule skip_delivers [OF code_runningD(1) [OF run] at(2) code_runningD(2) [OF run] J enough]) (rule right [OF at_r _ EBinOp.prems(4)])
    qed
    moreover have "eval \<rho> (EBinOp k l r sp) = and_then (eval \<rho> l) (\<lambda>v. if is_truthy v = on then Inr v else eval \<rho> r)"
      using k by (elim disjE conjE) (simp_all add: and_then_def split: sum.split)
    ultimately show ?thesis by (simp only: code length_append)
  qed
  show ?case
  proof (cases "k = OpAnd \<or> k = OpOr")
    case True
    with skip [of I_And False] skip [of I_Or True] show ?thesis by blast
  next
    case False
    with sub(3) obtain i where i: "binop_instruction k = Some i"
      by (cases k) (auto simp: binop_instruction_def)
    have code: "code_of \<sigma> (fp_constants p) (EBinOp k l r sp) = ?l @ ?r @ [i]" using False i by auto
    have at: "located p pc ?l" "located p (pc + length ?l) ?r" "located p (pc + length ?l + length ?r) [i]"
      using EBinOp.prems(3) located_append [of p pc ?l "?r @ [i]"] located_append [of p "pc + length ?l" ?r "[i]"]
      unfolding code by auto
    have left: "delivers env s g pc (length ?l) st st (eval \<rho> l)"
      using EBinOp sub at(1) code by auto
    have "delivers env s g pc (length ?l + (length ?r + 1)) st st
        (and_then (eval \<rho> l) (\<lambda>a. and_then (eval \<rho> r) (binary_value k a)))"
    proof (rule delivers_then [OF left], rule delivers_then)
      fix v n assume n: "n \<le> length ?l"
      show "delivers env s (g - n) (pc + length ?l) (length ?r) (st @ [SValue v]) (st @ [SValue v]) (eval \<rho> r)"
        using n EBinOp.prems(4,5) code by (intro right at(2) holds_locals_append) auto
      fix w m assume "m \<le> length ?r"
      then show "delivers env s (g - n - m) (pc + length ?l + length ?r) 1 ((st @ [SValue v]) @ [SValue w]) st (binary_value k v w)"
        using n EBinOp.prems(5) code binary_delivers [OF code_runningD(1) [OF run] at(3) i] by simp
    qed
    then show ?thesis using False code by simp
  qed
qed auto

section \<open>Stores\<close>

text \<open>The slots of a function that has captured nothing.\<close>

definition plain_slots :: "nat \<Rightarrow> nat \<Rightarrow> stack_slot list \<Rightarrow> bool" where
  "plain_slots base n st \<longleftrightarrow> length st = base + n \<and> (\<forall>i<n. \<exists>v. st ! (base + i) = SValue v)"

lemma store_step:
  assumes "located p pc [I_StoreLocal (of_nat i)]" and "0 < g" and "i < n" and "n \<le> 256" and "plain_slots (frame_base s) n st"
    and run: "code_running env s p"
  shows "machine_runs env (conf s g pc (st @ [SValue v])) 1 None (conf s (g - 1) (Suc pc) (st[frame_base s + i := SValue v]))"
proof -
  obtain w where w: "st ! (frame_base s + i) = SValue w" "frame_base s + i < length st"
    using assms(3,5) by (auto simp: plain_slots_def)
  have i: "unat (of_nat i :: u8) = i" using assms(3,4) by (intro unat_narrow) simp
  have step: "do_store_local (of_nat i) (conf s h pc' (st @ [SValue v])) = (Ok (), conf s h pc' (st[frame_base s + i := SValue v]))" for h pc'
    using w by (simp add: do_store_local_def) (simp add: bnd_def conf_top Let_def stack_at_def index_or_panic_def set_stack_def i)
  show ?thesis using located_Cons [OF assms(1)] assms(2) step
    by (intro run_step [OF code_runningD(1) [OF run] _ _ assms(2)]) (auto simp: simple_def)
qed

section \<open>Whole programs\<close>

text \<open>The main loop follows the steps of the machine.\<close>

declare exec_loop.simps(2) [simp del]

lemma fetch_frame:
  assumes "fetch env s = (Ok (Some i), s1)"
  shows "\<exists>f p. top_frame s = (Ok f, s) \<and> proto_at env (fr_proto f) s = (Ok p, s) \<and> vm_frames s \<noteq> []"
  using assms
  by (auto simp: fetch_def top_frame_def bnd_def proto_at_def index_or_panic_def split: if_splits)

lemma exec_loop_step:
  assumes "fetch env s = (Ok (Some i), s1)" and "\<And>runner. dispatch runner env i s1 = (r, s2)"
  shows "\<exists>line trace'. exec_loop env (Suc fuel) trace s = (case r of
      Ok (Some v) \<Rightarrow> (Ok (v, trace'), s2)
    | Ok None \<Rightarrow> if vm_frames s2 = [] then (Ok (VNil, trace'), s2) else exec_loop env fuel trace' s2
    | Err e \<Rightarrow> (Err (WithLine line e), s2) | Panic x \<Rightarrow> (Panic x, s2) | Timeout \<Rightarrow> (Timeout, s2))"
proof -
  obtain f p where f: "top_frame s = (Ok f, s)" "proto_at env (fr_proto f) s = (Ok p, s)"
    using fetch_frame [OF assms(1)] by blast
  let ?line = "if fr_pc f < length (fp_lines p) then fp_lines p ! fr_pc f else 0"
  let ?trace = "trace @ trace_entry env s1 f i s2"
  have "exec_loop env (Suc fuel) trace s = bnd (with_line p (fr_pc f) (dispatch (run_inner env fuel) env i)) (\<lambda>r.
       bnd (reads (\<lambda>s. trace @ trace_entry env s1 f i s)) (\<lambda>trace'. case r of Some v \<Rightarrow> ret (v, trace')
         | None \<Rightarrow> bnd (reads vm_frames) (\<lambda>fs. if fs = [] then ret (VNil, trace') else exec_loop env fuel trace'))) s1"
    using f assms(1) by (simp add: exec_loop.simps(2) bnd_eq(1))
  then show ?thesis
    by (intro exI [of _ ?line] exI [of _ ?trace])
      (simp add: bnd_def with_line_def map_err_def assms(2) split: outcome.split option.split)
qed

lemma exec_loop_runs:
  assumes "machine_runs env s n r t"
  shows "case r of
      None \<Rightarrow> \<exists>trace'. exec_loop env (n + fuel) trace s = exec_loop env fuel trace' t
    | Some e \<Rightarrow> \<exists>line. exec_loop env (n + fuel) trace s = (Err (WithLine line e), t)"
  using assms
proof (induction arbitrary: trace rule: machine_runs.induct)
  case (Step s i s1 s2 n r s3)
  have "vm_frames s2 \<noteq> []" using Step.hyps(3) fetch_frame [OF Step.hyps(1)] by (metis length_0_conv)
  then obtain trace' where "exec_loop env (Suc (n + fuel)) trace s = exec_loop env (n + fuel) trace' s2"
    using exec_loop_step [OF Step.hyps(1,2), of "n + fuel" trace] by auto
  then show ?case using Step.IH [of trace'] by (simp split: option.splits)
next
  case (Stop s i s1 e s2)
  show ?case using exec_loop_step [OF Stop(1,2), of fuel trace] by auto
qed auto

lemma return_value:
  assumes "running env s p" and "vm_frames s = [f]" and "located p pc [I_Ret 1]" and "6 \<le> g"
  shows "\<exists>trace' t. exec_loop env (Suc fuel) trace (conf s g pc (st @ [SValue v])) = (Ok (v, trace'), t)"
proof -
  have at: "pc < length (fp_code p)" "fp_code p ! pc = I_Ret 1" using located_Cons [OF assms(3)] by auto
  have "on_rt (charge FUNCTION_RETURN) (conf s (g - 1) pc' st') = (Ok (), conf s (g - 1 - 5) pc' st')" for pc' st'
    using assms(4) by (simp add: on_rt_def charge_def gas_charge_def conf_def)
  then have "dispatch runner env (I_Ret 1) (conf s g (Suc pc) (st @ [SValue v])) =
      do_return 1 (conf s (g - 1 - 5) (Suc pc) (st @ [SValue v]))" for runner
    using assms(4) unfolding dispatch_def by (subst conf_charge_bnd) (simp_all add: bnd_def)
  moreover have "\<exists>t. do_return 1 (conf s h pc' (st @ [SValue v])) = (Ok (Some v), t)" for h pc'
    using assms(2) by (simp add: do_return_def bnd_assoc) (simp add: bnd_def conf_top Let_def)
  ultimately obtain t where "\<And>runner. dispatch runner env (I_Ret 1) (conf s g (Suc pc) (st @ [SValue v])) = (Ok (Some v), t)"
    by metis
  from exec_loop_step [OF conf_fetch [OF assms(1) at(1), unfolded at(2)] this, of fuel trace]
  show ?thesis by auto
qed

text \<open>The state in which the top-level function starts, when its frame can be paid for.\<close>

lemma start_program_conf:
  assumes "prototypes (env_program env) = [p]" and "fp_param_count p = 0"
    and "mem_allocated (rt_mem (vm_rt s)) + size_stack_frame (unat (fp_local_count p)) \<le> mem_limit (rt_mem (vm_rt s))"
    and "mem_limit (rt_mem (vm_rt s)) \<le> u64_max"
  shows "\<exists>t f. start_program env input s = (Ok (), t) \<and> vm_frames t = [f] \<and> fr_base f = 0 \<and> running env t p \<and>
    t = conf t (gas_remaining (rt_gas (vm_rt s))) 0 (replicate (unat (fp_local_count p)) (SValue VNil))"
  using assms
  by (simp add: start_program_def bnd_def proto_at_def index_or_panic_def on_rt_def alloc_def track_alloc_def Let_def
      running_def conf_def)

end
