(* ===== verification/Lua_Structured_Run.thy ===== *)
theory Lua_Structured_Run
  imports Lua_Structured_Code Lua_Expr_Run
begin

text \<open>
  Running structured programs. \<open>run_stmts\<close> is a reference semantics on the tree: the state is the list of
  the live variables with their values, innermost first; a block forgets the variables it declared; a
  loop takes one unit of fuel per iteration, so that not ending is the value \<open>None\<close>. Whenever the
  reference semantics ends, the machine running the compiled code ends with the same result
  (\<open>stmts_lead\<close>).
\<close>

section \<open>The reference semantics\<close>

type_synonym locals = "(string \<times> lua_value) list"

definition look :: "locals \<Rightarrow> string \<Rightarrow> lua_value" where
  "look \<rho> x = (case map_of \<rho> x of Some v \<Rightarrow> v | None \<Rightarrow> VNil)"

fun assign :: "string \<Rightarrow> lua_value \<Rightarrow> locals \<Rightarrow> locals" where
  "assign x v [] = []"
| "assign x v ((y, w) # \<rho>) = (if x = y then (x, v) # \<rho> else (y, w) # assign x v \<rho>)"

definition back_to :: "locals \<Rightarrow> locals \<Rightarrow> locals" where
  "back_to \<rho> \<rho>' = drop (length \<rho>' - length \<rho>) \<rho>'"

function (sequential) run_stmt :: "nat \<Rightarrow> locals \<Rightarrow> stmt \<Rightarrow> (lua_error + locals) option"
  and run_stmts :: "nat \<Rightarrow> locals \<Rightarrow> stmt list \<Rightarrow> (lua_error + locals) option"
  and run_block :: "nat \<Rightarrow> locals \<Rightarrow> block \<Rightarrow> (lua_error + locals) option" where
  "run_stmt n \<rho> (LocalDecl [x] [d] s) = Some (and_then (eval (look \<rho>) d) (\<lambda>v. Inr ((fst x, v) # \<rho>)))"
| "run_stmt n \<rho> (AssignStmt (TargetName x xs) d s) = Some (and_then (eval (look \<rho>) d) (\<lambda>v. Inr (assign x v \<rho>)))"
| "run_stmt n \<rho> (DoStmt b s) = run_block n \<rho> b"
| "run_stmt n \<rho> (IfStmt c b [] None s) = (case eval (look \<rho>) c of Inl e \<Rightarrow> Some (Inl e)
     | Inr v \<Rightarrow> if is_truthy v then run_block n \<rho> b else Some (Inr \<rho>))"
| "run_stmt n \<rho> (IfStmt c b [] (Some b') s) = (case eval (look \<rho>) c of Inl e \<Rightarrow> Some (Inl e)
     | Inr v \<Rightarrow> if is_truthy v then run_block n \<rho> b else run_block n \<rho> b')"
| "run_stmt 0 \<rho> (WhileStmt c b s) = None"
| "run_stmt (Suc n) \<rho> (WhileStmt c b s) = (case eval (look \<rho>) c of Inl e \<Rightarrow> Some (Inl e)
     | Inr v \<Rightarrow> if \<not> is_truthy v then Some (Inr \<rho>)
       else (case run_block n \<rho> b of None \<Rightarrow> None | Some (Inl e) \<Rightarrow> Some (Inl e)
         | Some (Inr \<rho>') \<Rightarrow> run_stmt n \<rho>' (WhileStmt c b s)))"
| "run_stmt n \<rho> _ = None"
| "run_stmts n \<rho> [] = Some (Inr \<rho>)"
| "run_stmts n \<rho> (st # sts) = (case run_stmt n \<rho> st of None \<Rightarrow> None | Some (Inl e) \<Rightarrow> Some (Inl e)
     | Some (Inr \<rho>') \<Rightarrow> run_stmts n \<rho>' sts)"
| "run_block n \<rho> (Block sts None s) = map_option (\<lambda>r. and_then r (\<lambda>\<rho>'. Inr (back_to \<rho> \<rho>'))) (run_stmts n \<rho> sts)"
| "run_block n \<rho> _ = None"
  by pat_completeness auto
termination
  by (relation "measures [\<lambda>x. case x of Inl (n, \<rho>, st) \<Rightarrow> n | Inr (Inl (n, \<rho>, sts)) \<Rightarrow> n | Inr (Inr (n, \<rho>, b)) \<Rightarrow> n,
      \<lambda>x. case x of Inl (n, \<rho>, st) \<Rightarrow> size st | Inr (Inl (n, \<rho>, sts)) \<Rightarrow> size_list size sts | Inr (Inr (n, \<rho>, b)) \<Rightarrow> size b]") auto

text \<open>The value of a program.\<close>

definition run_program :: "nat \<Rightarrow> stmt list \<Rightarrow> expr \<Rightarrow> (lua_error + lua_value) option" where
  "run_program n sts e = map_option (\<lambda>r. and_then r (\<lambda>\<rho>. eval (look \<rho>) e)) (run_stmts n [] sts)"

section \<open>Variables and slots\<close>

definition slots_hold :: "nat \<Rightarrow> nat \<Rightarrow> locals \<Rightarrow> stack_slot list \<Rightarrow> bool" where
  "slots_hold base n \<rho> st \<longleftrightarrow> plain_slots base n st \<and> length \<rho> \<le> n \<and>
     (\<forall>i < length \<rho>. st ! (base + i) = SValue (snd (rev \<rho> ! i)))"

lemma slot_value_of:
  "map_of (scope_of (map fst \<rho>)) x = Some i \<Longrightarrow> i < length \<rho> \<and> look \<rho> x = snd (rev \<rho> ! i)"
proof (induction \<rho>)
  case (Cons b \<rho>)
  then show ?case by (cases b) (auto simp: look_def nth_append split: if_splits)
qed simp

lemma assign_slot:
  "map_of (scope_of (map fst \<rho>)) x = Some i \<Longrightarrow> rev (assign x v \<rho>) = (rev \<rho>)[i := (x, v)]"
proof (induction x v \<rho> rule: assign.induct)
  case (2 x v y w \<rho>)
  then show ?case using scope_of_slot [of "map fst \<rho>" x i]
    by (auto simp: list_update_append split: if_splits)
qed simp

lemma assign_names [simp]: "map fst (assign x v \<rho>) = map fst \<rho>" "length (assign x v \<rho>) = length \<rho>"
  by (induction x v \<rho> rule: assign.induct) auto

lemma slots_hold_locals:
  assumes "slots_hold base n \<rho> st" and "n \<le> 200"
  shows "holds_locals (map_of (scope_of (map fst \<rho>))) (look \<rho>) base st"
  using assms slot_value_of by (fastforce simp: holds_locals_def slots_hold_def plain_slots_def)

lemma slots_hold_store:
  assumes "slots_hold base n \<rho> st" and "i < n"
  shows "plain_slots base n (st[base + i := SValue v])"
  using assms by (auto simp: slots_hold_def plain_slots_def nth_list_update)

lemma slots_hold_declare:
  assumes "slots_hold base n \<rho> st" and "length \<rho> < n"
  shows "slots_hold base n ((x, v) # \<rho>) (st[base + length \<rho> := SValue v])"
  using assms slots_hold_store [OF assms]
  by (auto simp: slots_hold_def plain_slots_def nth_list_update nth_append less_Suc_eq)

lemma slots_hold_assign:
  assumes "slots_hold base n \<rho> st" and "map_of (scope_of (map fst \<rho>)) x = Some i"
  shows "slots_hold base n (assign x v \<rho>) (st[base + i := SValue v])"
proof -
  have i: "i < length \<rho>" using slot_value_of [OF assms(2)] by blast
  then have "i < n" using assms(1) by (simp add: slots_hold_def)
  from slots_hold_store [OF assms(1) this] show ?thesis
    using assms i by (auto simp: slots_hold_def plain_slots_def assign_slot [OF assms(2)] nth_list_update)
qed

lemma slots_hold_back: "slots_hold base n (\<sigma> @ \<rho>) st \<Longrightarrow> slots_hold base n \<rho> st"
  by (auto simp: slots_hold_def nth_append)

section \<open>Runs between program points\<close>

text \<open>With the locals \<open>\<rho>\<close> in the slots of a frame of \<open>n\<close> slots, at most \<open>k\<close> instructions lead from \<open>pc\<close> to \<open>pc'\<close>
  and other locals, or to an error, whatever else the machine's state is.\<close>

definition leads :: "'h vm_env \<Rightarrow> function_proto \<Rightarrow> nat \<Rightarrow> nat \<Rightarrow> nat \<Rightarrow> locals \<Rightarrow> lua_error + locals \<Rightarrow> nat \<Rightarrow> bool" where
  "leads env p n k pc \<rho> res pc' \<longleftrightarrow> (\<forall>s g st. code_running env s p \<longrightarrow> slots_hold (frame_base s) n \<rho> st \<longrightarrow> k \<le> g \<longrightarrow>
     (case res of
       Inr \<rho>' \<Rightarrow> \<exists>m\<le>k. \<exists>st'. machine_runs env (conf s g pc st) m None (conf s (g - m) pc' st') \<and> slots_hold (frame_base s) n \<rho>' st'
     | Inl e \<Rightarrow> \<exists>m\<le>k. \<exists>s'. machine_runs env (conf s g pc st) m (Some (vm_error_of e)) s'))"

lemma leads_ok:
  "leads env p n k pc \<rho> (Inr \<rho>') pc' \<Longrightarrow> code_running env s p \<Longrightarrow> slots_hold (frame_base s) n \<rho> st \<Longrightarrow> k \<le> g \<Longrightarrow>
   \<exists>m\<le>k. \<exists>st'. machine_runs env (conf s g pc st) m None (conf s (g - m) pc' st') \<and> slots_hold (frame_base s) n \<rho>' st'"
  by (simp add: leads_def)

lemma leads_err:
  "leads env p n k pc \<rho> (Inl e) pc' \<Longrightarrow> code_running env s p \<Longrightarrow> slots_hold (frame_base s) n \<rho> st \<Longrightarrow> k \<le> g \<Longrightarrow>
   \<exists>m\<le>k. \<exists>s'. machine_runs env (conf s g pc st) m (Some (vm_error_of e)) s'"
  by (simp add: leads_def)

lemma leads_here: "leads env p n 0 pc \<rho> (Inr \<rho>) pc"
  by (auto simp: leads_def intro: machine_runs.Done)

lemma leads_error: "leads env p n k pc \<rho> (Inl e) pc' \<Longrightarrow> leads env p n k pc \<rho> (Inl e) pc''"
  by (simp add: leads_def)

lemma leads_back: "leads env p n k pc \<rho> (Inr (\<sigma> @ \<rho>')) pc' \<Longrightarrow> leads env p n k pc \<rho> (Inr \<rho>') pc'"
  unfolding leads_def by (simp del: split_paired_All) (meson slots_hold_back)

lemma leads_trans:
  assumes "leads env p n k pc \<rho> (Inr \<rho>1) pc1" and "leads env p n l pc1 \<rho>1 res pc'"
  shows "leads env p n (k + l) pc \<rho> res pc'"
  unfolding leads_def
proof (intro allI impI)
  fix s g st assume s: "code_running env s p" "slots_hold (frame_base s) n \<rho> st" "k + l \<le> g"
  obtain m st1 where m: "m \<le> k" "machine_runs env (conf s g pc st) m None (conf s (g - m) pc1 st1)"
      "slots_hold (frame_base s) n \<rho>1 st1"
    using leads_ok [OF assms(1) s(1,2), of g] s(3) by auto
  have l: "l \<le> g - m" using m(1) s(3) by simp
  note run = machine_runs_trans [OF m(2) refl]
  show "case res of
      Inr \<rho>' \<Rightarrow> \<exists>m\<le>k + l. \<exists>st'. machine_runs env (conf s g pc st) m None (conf s (g - m) pc' st') \<and> slots_hold (frame_base s) n \<rho>' st'
    | Inl e \<Rightarrow> \<exists>m\<le>k + l. \<exists>s'. machine_runs env (conf s g pc st) m (Some (vm_error_of e)) s'"
  proof (cases res)
    case (Inl e)
    then obtain m' s' where "m' \<le> l" "machine_runs env (conf s (g - m) pc1 st1) m' (Some (vm_error_of e)) s'"
      using leads_err [of env p n l pc1 \<rho>1 e pc' s st1 "g - m"] assms(2) s(1) m(3) l by blast
    with run m(1) Inl show ?thesis by (auto intro!: exI [of _ "m + m'"])
  next
    case (Inr \<rho>')
    then obtain m' st' where "m' \<le> l" "machine_runs env (conf s (g - m) pc1 st1) m' None (conf s (g - m - m') pc' st')"
        "slots_hold (frame_base s) n \<rho>' st'"
      using leads_ok [of env p n l pc1 \<rho>1 \<rho>' pc' s st1 "g - m"] assms(2) s(1) m(3) l by blast
    with run m(1) Inr show ?thesis by (auto intro!: exI [of _ "m + m'"] exI [of _ st'])
  qed
qed

text \<open>An expression and the instruction that takes its value.\<close>

definition placed :: "function_proto \<Rightarrow> nat \<Rightarrow> locals \<Rightarrow> nat \<Rightarrow> expr \<Rightarrow> bool" where
  "placed p pc \<rho> n e \<longleftrightarrow> straight (fst ` set \<rho>) e \<and> consts_of e \<subseteq> set (fp_constants p) \<and> n \<le> 200 \<and>
     located p pc (code_of (map_of (scope_of (map fst \<rho>))) (fp_constants p) e)"

abbreviation expr_end :: "function_proto \<Rightarrow> nat \<Rightarrow> locals \<Rightarrow> expr \<Rightarrow> nat" where
  "expr_end p pc \<rho> e \<equiv> pc + length (code_of (map_of (scope_of (map fst \<rho>))) (fp_constants p) e)"

lemma placed_delivers:
  assumes "placed p pc \<rho> n e" and "code_running env s p" and "slots_hold (frame_base s) n \<rho> st"
    and "expr_end p 0 \<rho> e \<le> g"
  shows "delivers env s g pc (expr_end p 0 \<rho> e) st st (eval (look \<rho>) e)"
  using assms slots_hold_locals [OF assms(3)] unfolding placed_def add_0
  by (intro code_of_delivers) simp_all

lemma leads_eval_error:
  assumes "placed p pc \<rho> n e" and "eval (look \<rho>) e = Inl err"
  shows "leads env p n (expr_end p 0 \<rho> e) pc \<rho> (Inl err) pc'"
  using placed_delivers [OF assms(1)] assms(2) unfolding leads_def by (fastforce simp: delivers_def)

lemma leads_eval:
  assumes e: "placed p pc \<rho> n e" "eval (look \<rho>) e = Inr v"
    and step: "\<And>s g st. code_running env s p \<Longrightarrow> slots_hold (frame_base s) n \<rho> st \<Longrightarrow> 0 < g \<Longrightarrow>
      \<exists>st'. machine_runs env (conf s g (expr_end p pc \<rho> e) (st @ [SValue v])) 1 None (conf s (g - 1) pc' st') \<and>
        slots_hold (frame_base s) n \<rho>' st'"
  shows "leads env p n (expr_end p 0 \<rho> e + 1) pc \<rho> (Inr \<rho>') pc'"
  unfolding leads_def sum.case
proof (intro allI impI)
  fix s g st assume s: "code_running env s p" "slots_hold (frame_base s) n \<rho> st" "expr_end p 0 \<rho> e + 1 \<le> g"
  obtain m where m: "m \<le> expr_end p 0 \<rho> e"
      "machine_runs env (conf s g pc st) m None (conf s (g - m) (expr_end p pc \<rho> e) (st @ [SValue v]))"
    using placed_delivers [OF e(1) s(1,2), of g] s(3) e(2) by (auto simp: delivers_def)
  have "0 < g - m" using m(1) s(3) by simp
  from step [OF s(1,2) this] obtain st' where
    "machine_runs env (conf s (g - m) (expr_end p pc \<rho> e) (st @ [SValue v])) 1 None (conf s (g - m - 1) pc' st')"
    "slots_hold (frame_base s) n \<rho>' st'" by blast
  moreover from machine_runs_trans [OF m(2) refl this(1)]
  have "machine_runs env (conf s g pc st) (m + 1) None (conf s (g - (m + 1)) pc' st')" by simp
  ultimately show "\<exists>m\<le>expr_end p 0 \<rho> e + 1. \<exists>st'. machine_runs env (conf s g pc st) m None (conf s (g - m) pc' st') \<and>
      slots_hold (frame_base s) n \<rho>' st'"
    using m(1) by (intro exI [of _ "m + 1"] conjI exI [of _ st']) auto
qed

section \<open>Jumps and stores\<close>

definition lands :: "nat \<Rightarrow> i16 \<Rightarrow> nat \<Rightarrow> bool" where
  "lands pc off pc' \<longleftrightarrow> nat ((int (Suc pc) + sint off) mod 2 ^ 64) = pc'"

lemma lands_forward: "pc + k < 32768 \<Longrightarrow> lands pc (of_nat k) (Suc pc + k)"
  unfolding lands_def by (subst sint_small) (simp_all add: mod_pos_pos_trivial)

lemma sint_minus: "k \<le> 32768 \<Longrightarrow> sint (- of_nat k :: i16) = - int k"
  using int_word_sint [of "- int k", where 'a = 16] by (simp add: mod_pos_pos_trivial)

lemma lands_backward: "k \<le> Suc pc \<Longrightarrow> Suc pc \<le> 32768 \<Longrightarrow> lands pc (- of_nat k) (Suc pc - k)"
  unfolding lands_def by (subst sint_minus) (simp_all add: mod_pos_pos_trivial nat_diff_distrib)

lemma jump_step:
  assumes "running env s p" and "located p pc [I_Jmp off]" and "0 < g" and "lands pc off pc'"
  shows "machine_runs env (conf s g pc st) 1 None (conf s (g - 1) pc' st)"
  using located_Cons [OF assms(2)] assms(4)
  by (intro run_step [OF assms(1) _ _ assms(3)])
    (auto simp: simple_def jump_by_def bnd_def conf_top conf_set_pc lands_def)

lemma jump_if_not_step:
  assumes "running env s p" and "located p pc [I_JmpIfNot off]" and "0 < g"
    and "if is_truthy v then pc' = Suc pc else lands pc off pc'"
  shows "machine_runs env (conf s g pc (st @ [SValue v])) 1 None (conf s (g - 1) pc' st)"
  using located_Cons [OF assms(2)] assms(4)
  by (intro run_step [OF assms(1) _ _ assms(3)])
    (auto simp: simple_def do_jump_if_def jump_by_def bnd_def conf_top conf_set_pc lands_def split: if_splits)

lemma leads_jump:
  fixes env :: "'h vm_env"
  assumes "located p pc [I_Jmp off]" and "lands pc off pc'"
  shows "leads env p n 1 pc \<rho> (Inr \<rho>) pc'"
  unfolding leads_def sum.case
proof (intro allI impI)
  fix s :: "'h vm" and g :: nat and st :: "stack_slot list"
  assume s: "code_running env s p" "slots_hold (frame_base s) n \<rho> st" "1 \<le> g"
  have "machine_runs env (conf s g pc st) 1 None (conf s (g - 1) pc' st)"
    using s(3) by (intro jump_step [OF code_runningD(1) [OF s(1)] assms(1) _ assms(2)]) simp
  with s(2) show "\<exists>m\<le>1. \<exists>st'. machine_runs env (conf s g pc st) m None (conf s (g - m) pc' st') \<and> slots_hold (frame_base s) n \<rho> st'"
    by blast
qed

text \<open>A condition with the jump that leaves when it is false.\<close>

lemma leads_condition:
  fixes env :: "'h vm_env"
  assumes e: "placed p pc \<rho> n e" "eval (look \<rho>) e = Inr v" and jump: "located p (expr_end p pc \<rho> e) [I_JmpIfNot off]"
    and target: "if is_truthy v then pc' = Suc (expr_end p pc \<rho> e) else lands (expr_end p pc \<rho> e) off pc'"
  shows "leads env p n (expr_end p 0 \<rho> e + 1) pc \<rho> (Inr \<rho>) pc'"
proof (rule leads_eval [OF e])
  fix s :: "'h vm" and g :: nat and st :: "stack_slot list"
  assume s: "code_running env s p" "slots_hold (frame_base s) n \<rho> st" "0 < g"
  from jump_if_not_step [OF code_runningD(1) [OF s(1)] jump s(3) target, of st] s(2)
  show "\<exists>st'. machine_runs env (conf s g (expr_end p pc \<rho> e) (st @ [SValue v])) 1 None (conf s (g - 1) pc' st') \<and>
      slots_hold (frame_base s) n \<rho> st'" by blast
qed

lemma leads_store:
  fixes env :: "'h vm_env"
  assumes e: "placed p pc \<rho> n e" "eval (look \<rho>) e = Inr v" and store: "located p (expr_end p pc \<rho> e) [I_StoreLocal (of_nat i)]"
    and slot: "i < n" "\<And>base st. slots_hold base n \<rho> st \<Longrightarrow> slots_hold base n \<rho>' (st[base + i := SValue v])"
  shows "leads env p n (expr_end p 0 \<rho> e + 1) pc \<rho> (Inr \<rho>') (Suc (expr_end p pc \<rho> e))"
proof (rule leads_eval [OF e])
  fix s :: "'h vm" and g :: nat and st :: "stack_slot list"
  assume s: "code_running env s p" "slots_hold (frame_base s) n \<rho> st" "0 < g"
  have "plain_slots (frame_base s) n st" "n \<le> 256" using s(2) e(1) by (auto simp: slots_hold_def placed_def)
  from store_step [OF store s(3) slot(1) this(2,1) s(1), of v] slot(2) [OF s(2)]
  show "\<exists>st'. machine_runs env (conf s g (expr_end p pc \<rho> e) (st @ [SValue v])) 1 None
      (conf s (g - 1) (Suc (expr_end p pc \<rho> e)) st') \<and> slots_hold (frame_base s) n \<rho>' st'" by blast
qed

section \<open>Compiled programs follow the reference semantics\<close>

lemma names_after_suffix: "\<exists>xs. names_after N st = xs @ N"
  by (cases "(N, st)" rule: names_after.cases) auto

lemma names_of_suffix: "\<exists>xs. names_of N sts = xs @ N"
proof (induction sts arbitrary: N)
  case (Cons st sts)
  obtain xs where "names_after N st = xs @ N" using names_after_suffix by blast
  moreover obtain ys where "names_of (xs @ N) sts = ys @ xs @ N" using Cons by blast
  ultimately show ?case by simp
qed simp

lemma back_to_names:
  assumes "map fst \<rho>' = names_of (map fst \<rho>) sts"
  shows "map fst (back_to \<rho> \<rho>') = map fst \<rho>"
proof -
  obtain xs where "map fst \<rho>' = xs @ map fst \<rho>" using assms names_of_suffix by metis
  moreover from arg_cong [OF this, of length] have "length \<rho>' - length \<rho> = length xs" by simp
  ultimately show ?thesis by (simp add: back_to_def drop_map [symmetric])
qed

lemma run_names:
  "run_stmt m \<rho> st = Some res \<Longrightarrow> plain_stmt (map fst \<rho>) st \<Longrightarrow> \<forall>\<rho>'. res = Inr \<rho>' \<longrightarrow> map fst \<rho>' = names_after (map fst \<rho>) st"
  "run_stmts m \<rho> sts = Some res \<Longrightarrow> plain_stmts (map fst \<rho>) sts \<Longrightarrow> \<forall>\<rho>'. res = Inr \<rho>' \<longrightarrow> map fst \<rho>' = names_of (map fst \<rho>) sts"
  "run_block m \<rho> b = Some res \<Longrightarrow> plain_block (map fst \<rho>) b \<Longrightarrow> \<forall>\<rho>'. res = Inr \<rho>' \<longrightarrow> map fst \<rho>' = map fst \<rho>"
proof (induction m \<rho> st and m \<rho> sts and m \<rho> b arbitrary: res and res and res rule: run_stmt_run_stmts_run_block.induct)
  case (1 n \<rho> x d s)
  then show ?case by (cases "eval (look \<rho>) d") auto
next
  case (2 n \<rho> x xs d s)
  then show ?case by (cases "eval (look \<rho>) d") auto
next
  case (4 n \<rho> c b s)
  then show ?case by (auto split: sum.splits if_splits)
next
  case (5 n \<rho> c b b' s)
  then show ?case by (auto split: sum.splits if_splits)
next
  case (7 n \<rho> c b s)
  show ?case
  proof (cases "eval (look \<rho>) c")
    case (Inr v)
    show ?thesis
    proof (cases "is_truthy v")
      case True
      obtain r where r: "run_block n \<rho> b = Some r" using "7.prems"(1) Inr True by (auto split: option.splits)
      show ?thesis
      proof (cases r)
        case (Inr \<rho>1)
        have "map fst \<rho>1 = map fst \<rho>" using "7.IH"(1) [OF \<open>eval (look \<rho>) c = Inr v\<close> _ r] True Inr "7.prems"(2) by simp
        then show ?thesis using "7.IH"(2) [OF \<open>eval (look \<rho>) c = Inr v\<close> _ r Inr] "7.prems" True \<open>eval (look \<rho>) c = Inr v\<close> r Inr by simp
      qed (use "7.prems" Inr True r in auto)
    qed (use "7.prems" Inr in auto)
  qed (use "7.prems" in auto)
next
  case (10 n \<rho> st sts)
  then show ?case by (auto split: sum.split_asm option.split_asm)
next
  case (11 n \<rho> sts s)
  from "11.prems" obtain r where r: "run_stmts n \<rho> sts = Some r" "res = and_then r (\<lambda>\<rho>'. Inr (back_to \<rho> \<rho>'))"
    by auto
  show ?case using "11.IH" [OF r(1)] "11.prems"(2) r(2) back_to_names by (cases r) auto
qed auto

text \<open>A piece of code at a place, with what it needs of the constants and the slots.\<close>

definition code_at :: "function_proto \<Rightarrow> nat \<Rightarrow> nat \<Rightarrow> instruction list \<Rightarrow> constant_entry set \<Rightarrow> nat \<Rightarrow> bool" where
  "code_at p n pc code C h \<longleftrightarrow> located p pc code \<and> C \<subseteq> set (fp_constants p) \<and> h \<le> n \<and> n \<le> 200 \<and> length (fp_code p) \<le> 32768"

lemma code_at_placed:
  "code_at p n pc (code_of (map_of (scope_of (map fst \<rho>))) (fp_constants p) e @ code) C h \<Longrightarrow> consts_of e \<subseteq> C \<Longrightarrow>
   straight (set (map fst \<rho>)) e \<Longrightarrow> placed p pc \<rho> n e"
  using located_append [of p pc] by (auto simp: code_at_def placed_def)

lemma code_at_part: "code_at p n pc code C h \<Longrightarrow> C' \<subseteq> C \<Longrightarrow> h' \<le> h \<Longrightarrow> code_at p n pc code C' h'"
  by (auto simp: code_at_def)

lemma code_at_append: "code_at p n pc (a @ b) C h \<Longrightarrow> code_at p n pc a C h \<and> code_at p n (pc + length a) b C h"
  using located_append by (auto simp: code_at_def)

lemma leads_on:
  "leads env p n k pc \<rho> (Inr \<rho>1) pc1 \<Longrightarrow> \<exists>l. leads env p n l pc1 \<rho>1 res pc' \<Longrightarrow> \<exists>k. leads env p n k pc \<rho> res pc'"
  using leads_trans by blast

lemma local_leads:
  assumes "code_at p n pc (code_of (map_of (scope_of (map fst \<rho>))) (fp_constants p) d @ [I_StoreLocal (of_nat (length \<rho>))]) C (Suc (length \<rho>))"
    and "consts_of d \<subseteq> C" and "straight (set (map fst \<rho>)) d"
  shows "\<exists>k. leads env p n k pc \<rho> (and_then (eval (look \<rho>) d) (\<lambda>v. Inr ((x, v) # \<rho>))) (Suc (expr_end p pc \<rho> d))"
proof (cases "eval (look \<rho>) d")
  case (Inl e)
  then show ?thesis using leads_eval_error [OF code_at_placed [OF assms]] by fastforce
next
  case (Inr v)
  have "located p (expr_end p pc \<rho> d) [I_StoreLocal (of_nat (length \<rho>))]" "length \<rho> < n"
    using assms(1) located_append by (fastforce simp: code_at_def)+
  from leads_store [OF code_at_placed [OF assms] Inr this slots_hold_declare [OF _ this(2)]] Inr show ?thesis by auto
qed

lemma assign_leads:
  assumes "code_at p n pc (code_of (map_of (scope_of (map fst \<rho>))) (fp_constants p) d @ [I_StoreLocal (slot_of (map fst \<rho>) x)]) C (length \<rho>)"
    and "consts_of d \<subseteq> C" and "straight (set (map fst \<rho>)) d" and "x \<in> set (map fst \<rho>)"
  shows "\<exists>k. leads env p n k pc \<rho> (and_then (eval (look \<rho>) d) (\<lambda>v. Inr (assign x v \<rho>))) (Suc (expr_end p pc \<rho> d))"
proof (cases "eval (look \<rho>) d")
  case (Inl e)
  then show ?thesis using leads_eval_error [OF code_at_placed [OF assms(1-3)]] by fastforce
next
  case (Inr v)
  obtain i where i: "map_of (scope_of (map fst \<rho>)) x = Some i"
    using assms(4) dom_scope_of [of "map fst \<rho>"] by (auto simp: dom_def)
  have "located p (expr_end p pc \<rho> d) [I_StoreLocal (of_nat i)]" "i < n"
    using assms(1) located_append scope_of_slot [OF i] i by (fastforce simp: code_at_def)+
  from leads_store [OF code_at_placed [OF assms(1-3)] Inr this slots_hold_assign [OF _ i]] Inr show ?thesis by auto
qed

text \<open>The two ways through \<open>unless_over\<close>, and the errors of the condition.\<close>

lemma condition_leads:
  assumes at: "code_at p n pc (code_of (map_of (scope_of (map fst \<rho>))) (fp_constants p) c @ unless_over code extra @ rest) C h"
    and c: "consts_of c \<subseteq> C" "straight (set (map fst \<rho>)) c" and rest: "extra \<le> length rest"
  shows "eval (look \<rho>) c = Inl e \<Longrightarrow> \<exists>k. leads env p n k pc \<rho> (Inl e) pc'"
    and "eval (look \<rho>) c = Inr v \<Longrightarrow> is_truthy v \<Longrightarrow> leads env p n (expr_end p 0 \<rho> c + 1) pc \<rho> (Inr \<rho>) (Suc (expr_end p pc \<rho> c))"
    and "eval (look \<rho>) c = Inr v \<Longrightarrow> \<not> is_truthy v \<Longrightarrow>
      leads env p n (expr_end p 0 \<rho> c + 1) pc \<rho> (Inr \<rho>) (Suc (expr_end p pc \<rho> c) + (length code + extra))"
    and "code_at p n (Suc (expr_end p pc \<rho> c)) code C h"
    and "code_at p n (Suc (expr_end p pc \<rho> c) + length code) rest C h"
proof -
  note placed = code_at_placed [OF at c]
  have all: "located p (expr_end p pc \<rho> c) (I_JmpIfNot (of_nat (length code + extra)) # code @ rest)"
    using at located_append [of p pc] by (auto simp: code_at_def unless_over_def)
  then have jump: "located p (expr_end p pc \<rho> c) [I_JmpIfNot (of_nat (length code + extra))]"
    using located_append [of p _ "[_]"] by fastforce
  have rest': "located p (Suc (expr_end p pc \<rho> c)) (code @ rest)" by (rule located_Cons(3) [OF all])
  have "expr_end p pc \<rho> c + (length code + extra) < 32768"
    using located_end [OF all] rest at by (simp add: code_at_def)
  from lands_forward [OF this] have lands: "lands (expr_end p pc \<rho> c) (of_nat (length code + extra)) (Suc (expr_end p pc \<rho> c) + (length code + extra))" .
  show "\<exists>k. leads env p n k pc \<rho> (Inl e) pc'" if "eval (look \<rho>) c = Inl e"
    using leads_eval_error [OF placed that] by blast
  show "leads env p n (expr_end p 0 \<rho> c + 1) pc \<rho> (Inr \<rho>) (Suc (expr_end p pc \<rho> c))"
    if "eval (look \<rho>) c = Inr v" "is_truthy v"
    using leads_condition [OF placed that(1) jump, where pc' = "Suc (expr_end p pc \<rho> c)"] that(2) by simp
  show "leads env p n (expr_end p 0 \<rho> c + 1) pc \<rho> (Inr \<rho>) (Suc (expr_end p pc \<rho> c) + (length code + extra))"
    if "eval (look \<rho>) c = Inr v" "\<not> is_truthy v"
    using leads_condition [OF placed that(1) jump, where pc' = "Suc (expr_end p pc \<rho> c) + (length code + extra)"]
      that(2) lands by simp
  show "code_at p n (Suc (expr_end p pc \<rho> c)) code C h" "code_at p n (Suc (expr_end p pc \<rho> c) + length code) rest C h"
    using located_append [OF rest'] at by (simp_all add: code_at_def)
qed

text \<open>One unrolling of each construct, with what the bodies do as given.\<close>

lemma if_leads:
  assumes at: "code_at p n pc (code_of (map_of (scope_of (map fst \<rho>))) (fp_constants p) c @ unless_over code 0) C h"
    and c: "consts_of c \<subseteq> C" "straight (set (map fst \<rho>)) c"
    and run: "(case eval (look \<rho>) c of Inl e \<Rightarrow> Some (Inl e) | Inr v \<Rightarrow> if is_truthy v then r else Some (Inr \<rho>)) = Some res"
    and body: "\<And>v pc'. eval (look \<rho>) c = Inr v \<Longrightarrow> is_truthy v \<Longrightarrow> r = Some res \<Longrightarrow> code_at p n pc' code C h \<Longrightarrow> \<exists>k. leads env p n k pc' \<rho> res (pc' + length code)"
  shows "\<exists>k. leads env p n k pc \<rho> res (Suc (expr_end p pc \<rho> c) + length code)"
proof -
  have at': "code_at p n pc (code_of (map_of (scope_of (map fst \<rho>))) (fp_constants p) c @ unless_over code 0 @ []) C h"
    using at by simp
  show ?thesis
  proof (cases "eval (look \<rho>) c")
    case (Inl e)
    with condition_leads(1) [OF at' c _ Inl] run show ?thesis by simp
  next
    case (Inr v)
    show ?thesis
    proof (cases "is_truthy v")
      case True
      with Inr run have "r = Some res" by simp
      from leads_on [OF condition_leads(2) [OF at' c _ Inr True] body [OF Inr True this condition_leads(4) [OF at' c]]] show ?thesis by simp
    next
      case False
      with Inr run condition_leads(3) [OF at' c _ Inr False] show ?thesis by auto
    qed
  qed
qed

lemma if_else_leads:
  assumes at: "code_at p n pc (code_of (map_of (scope_of (map fst \<rho>))) (fp_constants p) c @ unless_over code 1 @
      I_Jmp (of_nat (length code')) # code') C h"
    and c: "consts_of c \<subseteq> C" "straight (set (map fst \<rho>)) c"
    and run: "(case eval (look \<rho>) c of Inl e \<Rightarrow> Some (Inl e) | Inr v \<Rightarrow> if is_truthy v then r else r') = Some res"
    and body: "\<And>v pc'. eval (look \<rho>) c = Inr v \<Longrightarrow> is_truthy v \<Longrightarrow> r = Some res \<Longrightarrow> code_at p n pc' code C h \<Longrightarrow> \<exists>k. leads env p n k pc' \<rho> res (pc' + length code)"
    and body': "\<And>v pc'. eval (look \<rho>) c = Inr v \<Longrightarrow> \<not> is_truthy v \<Longrightarrow> r' = Some res \<Longrightarrow> code_at p n pc' code' C h \<Longrightarrow> \<exists>k. leads env p n k pc' \<rho> res (pc' + length code')"
  shows "\<exists>k. leads env p n k pc \<rho> res (Suc (Suc (expr_end p pc \<rho> c)) + length code + length code')"
proof -
  let ?out = "Suc (expr_end p pc \<rho> c) + length code"
  have "1 \<le> length (I_Jmp (of_nat (length code')) # code')" by simp
  note cond = condition_leads [OF at c this]
  have rest: "code_at p n ?out [I_Jmp (of_nat (length code'))] C h" "code_at p n (Suc ?out) code' C h"
    using code_at_append [of p n _ "[I_Jmp (of_nat (length code'))]" code' C h] cond(5) by auto
  show ?thesis
  proof (cases "eval (look \<rho>) c")
    case (Inl e)
    with cond(1) [OF Inl] run show ?thesis by auto
  next
    case (Inr v)
    show ?thesis
    proof (cases "is_truthy v")
      case True
      with Inr run have r: "r = Some res" by simp
      obtain k where k: "leads env p n k pc \<rho> res ?out"
        using leads_on [OF cond(2) [OF Inr True] body [OF Inr True r cond(4)]] by auto
      have "?out + length code' < 32768"
        using rest(2) located_end [of p "Suc ?out" code'] by (simp add: code_at_def)
      from lands_forward [OF this]
      have jump: "leads env p n 1 ?out \<rho>1 (Inr \<rho>1) (Suc ?out + length code')" for \<rho>1
        using rest(1) by (intro leads_jump) (auto simp: code_at_def)
      show ?thesis
      proof (cases res)
        case (Inl e)
        with k leads_error show ?thesis by blast
      next
        case (Inr \<rho>1)
        with leads_trans [OF k [unfolded Inr] jump] show ?thesis by auto
      qed
    next
      case False
      with Inr run have "r' = Some res" by simp
      from leads_on [OF cond(3) [OF Inr False]] body' [OF Inr False this rest(2)] show ?thesis by simp
    qed
  qed
qed

lemma while_leads:
  assumes at: "code_at p n pc (code_of (map_of (scope_of (map fst \<rho>))) (fp_constants p) c @ unless_over code 1 @
      [I_Jmp (- of_nat (length (code_of (map_of (scope_of (map fst \<rho>))) (fp_constants p) c) + length code + 2))]) C h"
    and c: "consts_of c \<subseteq> C" "straight (set (map fst \<rho>)) c"
    and run: "(case eval (look \<rho>) c of Inl e \<Rightarrow> Some (Inl e) | Inr v \<Rightarrow> if \<not> is_truthy v then Some (Inr \<rho>) else
       (case r of None \<Rightarrow> None | Some (Inl e) \<Rightarrow> Some (Inl e) | Some (Inr \<rho>') \<Rightarrow> next \<rho>')) = Some res"
    and body: "\<And>v pc' r1. eval (look \<rho>) c = Inr v \<Longrightarrow> is_truthy v \<Longrightarrow> r = Some r1 \<Longrightarrow> code_at p n pc' code C h \<Longrightarrow> \<exists>k. leads env p n k pc' \<rho> r1 (pc' + length code)"
    and again: "\<And>v \<rho>'. eval (look \<rho>) c = Inr v \<Longrightarrow> is_truthy v \<Longrightarrow> r = Some (Inr \<rho>') \<Longrightarrow> next \<rho>' = Some res \<Longrightarrow>
      \<exists>k. leads env p n k pc \<rho>' res (Suc (Suc (expr_end p pc \<rho> c)) + length code)"
  shows "\<exists>k. leads env p n k pc \<rho> res (Suc (Suc (expr_end p pc \<rho> c)) + length code)"
proof -
  let ?out = "Suc (expr_end p pc \<rho> c) + length code"
  have "1 \<le> length [i]" for i :: instruction by simp
  note cond = condition_leads [OF at c this]
  show ?thesis
  proof (cases "eval (look \<rho>) c")
    case (Inl e)
    with cond(1) [OF Inl] run show ?thesis by auto
  next
    case (Inr v)
    show ?thesis
    proof (cases "is_truthy v")
      case False
      with Inr run cond(3) [OF Inr False] show ?thesis by auto
    next
      case True
      obtain r1 where r: "r = Some r1" using Inr run True by (auto split: option.splits)
      obtain k where k: "leads env p n k pc \<rho> r1 ?out"
        using leads_on [OF cond(2) [OF Inr True] body [OF Inr True r cond(4)]] by auto
      show ?thesis
      proof (cases r1)
        case (Inl e)
        with r run \<open>eval (look \<rho>) c = Inr v\<close> True have "res = Inl e" by simp
        with k Inl leads_error show ?thesis by blast
      next
        case (Inr \<rho>1)
        let ?goto = "I_Jmp (- of_nat (length (code_of (map_of (scope_of (map fst \<rho>))) (fp_constants p) c) + length code + 2))"
        have at_jump: "located p ?out [?goto]" and "length (fp_code p) \<le> 32768" using cond(5) by (simp_all only: code_at_def)
        then have fits: "Suc ?out \<le> 32768" using located_end [OF at_jump] by simp
        have "lands ?out (- of_nat (length (code_of (map_of (scope_of (map fst \<rho>))) (fp_constants p) c) + length code + 2)) pc"
          using lands_backward [OF _ fits, of "length (code_of (map_of (scope_of (map fst \<rho>))) (fp_constants p) c) + length code + 2"]
          by simp
        then have jump: "leads env p n 1 ?out \<rho>1 (Inr \<rho>1) pc" by (rule leads_jump [OF at_jump])
        have "next \<rho>1 = Some res" using r run \<open>eval (look \<rho>) c = Inr v\<close> True Inr by simp
        from leads_on [OF leads_trans [OF k [unfolded Inr] jump] again [OF \<open>eval (look \<rho>) c = Inr v\<close> True r [unfolded Inr] this]] show ?thesis .
      qed
    qed
  qed
qed

lemma program_leads:
  "run_stmt m \<rho> st = Some res \<Longrightarrow> plain_stmt (map fst \<rho>) st \<Longrightarrow>
   code_at p n pc (stmt_code (map fst \<rho>) (fp_constants p) st) (stmt_consts st) (stmt_high (map fst \<rho>) st) \<Longrightarrow>
   \<exists>k. leads env p n k pc \<rho> res (pc + length (stmt_code (map fst \<rho>) (fp_constants p) st))"
  "run_stmts m \<rho> sts = Some res \<Longrightarrow> plain_stmts (map fst \<rho>) sts \<Longrightarrow>
   code_at p n pc (stmts_code (map fst \<rho>) (fp_constants p) sts) (stmts_consts sts) (stmts_high (map fst \<rho>) sts) \<Longrightarrow>
   \<exists>k. leads env p n k pc \<rho> res (pc + length (stmts_code (map fst \<rho>) (fp_constants p) sts))"
  "run_block m \<rho> b = Some res \<Longrightarrow> plain_block (map fst \<rho>) b \<Longrightarrow>
   code_at p n pc (block_code (map fst \<rho>) (fp_constants p) b) (block_consts b) (block_high (map fst \<rho>) b) \<Longrightarrow>
   \<exists>k. leads env p n k pc \<rho> res (pc + length (block_code (map fst \<rho>) (fp_constants p) b))"
proof (induction m \<rho> st and m \<rho> sts and m \<rho> b arbitrary: res pc and res pc and res pc
    rule: run_stmt_run_stmts_run_block.induct)
  case (1 m \<rho> x d s)
  then show ?case using local_leads [of p n pc \<rho> d "consts_of d"] by auto
next
  case (2 m \<rho> x xs d s)
  then show ?case using assign_leads [of p n pc \<rho> d x "consts_of d"] by auto
next
  case (3 m \<rho> b s)
  then show ?case by auto
next
  case (4 m \<rho> c b s)
  let ?code = "\<lambda>b. block_code (map fst \<rho>) (fp_constants p) b"
  have "\<exists>k. leads env p n k pc \<rho> res (Suc (expr_end p pc \<rho> c) + length (?code b))"
  proof (rule if_leads)
    fix v pc' assume v: "eval (look \<rho>) c = Inr v" "is_truthy v" and run: "run_block m \<rho> b = Some res"
      and at: "code_at p n pc' (?code b) (stmt_consts (IfStmt c b [] None s)) (stmt_high (map fst \<rho>) (IfStmt c b [] None s))"
    show "\<exists>k. leads env p n k pc' \<rho> res (pc' + length (?code b))"
      using "4.prems"(2) by (intro "4.IH" [OF v run] code_at_part [OF at]) auto
  qed (use "4.prems" in auto)
  then show ?case by (simp add: unless_over_def add.assoc)
next
  case (5 m \<rho> c b b' s)
  let ?code = "\<lambda>b. block_code (map fst \<rho>) (fp_constants p) b" and ?st = "IfStmt c b [] (Some b') s"
  have "\<exists>k. leads env p n k pc \<rho> res (Suc (Suc (expr_end p pc \<rho> c)) + length (?code b) + length (?code b'))"
  proof (rule if_else_leads)
    fix v pc' assume v: "eval (look \<rho>) c = Inr v" "is_truthy v" and run: "run_block m \<rho> b = Some res"
      and at: "code_at p n pc' (?code b) (stmt_consts ?st) (stmt_high (map fst \<rho>) ?st)"
    show "\<exists>k. leads env p n k pc' \<rho> res (pc' + length (?code b))"
      using "5.prems"(2) by (intro "5.IH"(1) [OF v run] code_at_part [OF at]) auto
  next
    fix v pc' assume v: "eval (look \<rho>) c = Inr v" "\<not> is_truthy v" and run: "run_block m \<rho> b' = Some res"
      and at: "code_at p n pc' (?code b') (stmt_consts ?st) (stmt_high (map fst \<rho>) ?st)"
    show "\<exists>k. leads env p n k pc' \<rho> res (pc' + length (?code b'))"
      using "5.prems"(2) by (intro "5.IH"(2) [OF v run] code_at_part [OF at]) auto
  qed (use "5.prems" in auto)
  then show ?case by (simp add: unless_over_def add.assoc)
next
  case (7 m \<rho> c b s)
  let ?code = "\<lambda>\<rho>. block_code (map fst \<rho>) (fp_constants p) b" and ?st = "WhileStmt c b s"
  note at = "7.prems"(3) and plain = "7.prems"(2)
  have "\<exists>k. leads env p n k pc \<rho> res (Suc (Suc (expr_end p pc \<rho> c)) + length (?code \<rho>))"
  proof (rule while_leads)
    fix v pc' r1 assume v: "eval (look \<rho>) c = Inr v" "is_truthy v" and run: "run_block m \<rho> b = Some r1"
      and at': "code_at p n pc' (?code \<rho>) (stmt_consts ?st) (stmt_high (map fst \<rho>) ?st)"
    show "\<exists>k. leads env p n k pc' \<rho> r1 (pc' + length (?code \<rho>))"
      using v plain by (intro "7.IH"(1) [OF v(1) _ run] code_at_part [OF at']) auto
  next
    fix v \<rho>' assume v: "eval (look \<rho>) c = Inr v" "is_truthy v" and run: "run_block m \<rho> b = Some (Inr \<rho>')"
      and again: "run_stmt m \<rho>' ?st = Some res"
    have names: "map fst \<rho>' = map fst \<rho>" using run_names(3) [OF run] plain by simp
    show "\<exists>k. leads env p n k pc \<rho>' res (Suc (Suc (expr_end p pc \<rho> c)) + length (?code \<rho>))"
      using "7.IH"(2) [OF v(1) _ run refl again, of pc] v(2) plain at unfolding names
      by (simp add: unless_over_def add.commute add.left_commute)
  qed (use "7.prems" in auto)
  then show ?case by (simp add: unless_over_def add.assoc)
next
  case (10 m \<rho> st sts)
  let ?code = "stmt_code (map fst \<rho>) (fp_constants p) st"
  note plain = "10.prems"(2)
  have at: "code_at p n pc ?code (stmt_consts st) (stmt_high (map fst \<rho>) st)"
    and rest: "code_at p n (pc + length ?code) (stmts_code (names_after (map fst \<rho>) st) (fp_constants p) sts)
      (stmts_consts sts) (stmts_high (names_after (map fst \<rho>) st) sts)"
    using code_at_append [OF "10.prems"(3) [unfolded stmts_code.simps stmts_consts.simps stmts_high.simps]] by (auto elim!: code_at_part)
  obtain r where r: "run_stmt m \<rho> st = Some r" using "10.prems"(1) by (auto split: option.splits)
  obtain k where k: "leads env p n k pc \<rho> r (pc + length ?code)" using "10.IH"(1) [OF r _ at] plain by auto
  show ?case
  proof (cases r)
    case (Inl e)
    with r "10.prems"(1) have "res = Inl e" by simp
    with k Inl leads_error show ?thesis by blast
  next
    case (Inr \<rho>1)
    have names: "map fst \<rho>1 = names_after (map fst \<rho>) st" using run_names(1) [OF r] plain Inr by simp
    have run: "run_stmts m \<rho>1 sts = Some res" using r Inr "10.prems"(1) by simp
    from leads_on [OF k [unfolded Inr] "10.IH"(2) [OF r Inr run, unfolded names, OF _ rest]] plain
    show ?thesis by (simp add: add.assoc)
  qed
next
  case (11 m \<rho> sts s)
  from "11.prems"(1) obtain r where r: "run_stmts m \<rho> sts = Some r" "res = and_then r (\<lambda>\<rho>'. Inr (back_to \<rho> \<rho>'))" by auto
  obtain k where k: "leads env p n k pc \<rho> r (pc + length (stmts_code (map fst \<rho>) (fp_constants p) sts))"
    using "11.IH" [OF r(1)] "11.prems"(2,3) by auto
  show ?case
  proof (cases r)
    case (Inl e)
    with k r(2) leads_error show ?thesis by auto
  next
    case (Inr \<rho>1)
    have "\<rho>1 = take (length \<rho>1 - length \<rho>) \<rho>1 @ back_to \<rho> \<rho>1" by (simp add: back_to_def)
    with k Inr have "leads env p n k pc \<rho> (Inr (back_to \<rho> \<rho>1)) (pc + length (stmts_code (map fst \<rho>) (fp_constants p) sts))"
      by (metis leads_back)
    with r(2) Inr show ?thesis by auto
  qed
qed (auto intro: leads_here)

section \<open>Whole programs\<close>

text \<open>The main loop on a program's code: the steps before the result, the result, and the return.\<close>

definition outcome_of :: "lua_error + lua_value \<Rightarrow> ((vm_error, lua_value \<times> trace_step list) outcome \<times> 'h vm) \<Rightarrow> bool" where
  "outcome_of res out \<longleftrightarrow> (case res of
     Inr v \<Rightarrow> \<exists>trace u. out = (Ok (v, trace), u)
   | Inl err \<Rightarrow> \<exists>line u. out = (Err (WithLine line (vm_error_of err)), u))"

lemma exec_loop_error:
  assumes "machine_runs env s j (Some (vm_error_of err)) u" and "j \<le> fuel"
  shows "outcome_of (Inl err) (exec_loop env fuel trace s)"
  using exec_loop_runs [OF assms(1), of "fuel - j" trace] assms(2) by (auto simp: outcome_of_def)

lemma exec_loop_value:
  assumes "machine_runs env s j None (conf t g pc (st @ [SValue v]))" and "j < fuel"
    and "running env t p" "vm_frames t = [f]" "located p pc [I_Ret 1]" "6 \<le> g"
  shows "outcome_of (Inr v) (exec_loop env fuel trace s)"
proof -
  have "fuel = j + Suc (fuel - j - 1)" using assms(2) by simp
  then obtain trace' where "exec_loop env fuel trace s = exec_loop env (Suc (fuel - j - 1)) trace' (conf t g pc (st @ [SValue v]))"
    using exec_loop_runs [OF assms(1), of "Suc (fuel - j - 1)" trace] by auto
  with return_value [OF assms(3-6)] show ?thesis by (fastforce simp: outcome_of_def)
qed

lemma structured_loop:
  fixes env :: "'h vm_env" and t :: "'h vm"
  assumes p: "structured_proto p sts e" and plain: "plain_stmts [] sts" "straight (set (names_of [] sts)) e"
    and lead: "leads env p (stmts_high [] sts) k 0 [] r (length (stmts_code [] (fp_constants p) sts))"
    and names: "\<And>\<rho>. r = Inr \<rho> \<Longrightarrow> map fst \<rho> = names_of [] sts"
    and t: "vm_frames t = [f]" "fr_base f = 0" "code_running env t p"
    and g: "k + length (fp_code p) + 6 \<le> g" and fuel: "k + length (fp_code p) \<le> fuel"
  shows "outcome_of (and_then r (\<lambda>\<rho>. eval (look \<rho>) e))
    (exec_loop env fuel trace (conf t g 0 (replicate (stmts_high [] sts) (SValue VNil))))"
proof -
  let ?n = "stmts_high [] sts" and ?body = "stmts_code [] (fp_constants p) sts"
  let ?result = "code_of (map_of (scope_of (names_of [] sts))) (fp_constants p) e"
  have code: "fp_code p = ?body @ (?result @ [I_Ret 1]) @ [I_Ret 0]" using p by (simp add: structured_proto_def)
  then have "located p (length ?body) (?result @ [I_Ret 1])" unfolding located_def by blast
  from located_append [OF this]
  have at: "located p (length ?body) ?result" "located p (length ?body + length ?result) [I_Ret 1]" by auto
  have len: "length ?result + 1 < length (fp_code p)" unfolding code by simp
  have slots: "slots_hold (frame_base t) ?n [] (replicate ?n (SValue VNil))"
    using t by (simp add: slots_hold_def plain_slots_def)
  show ?thesis
  proof (cases r)
    case (Inl err)
    have "k \<le> g" using g by simp
    from leads_err [OF lead [unfolded Inl] t(3) slots this] obtain j u where
      "j \<le> k" "machine_runs env (conf t g 0 (replicate ?n (SValue VNil))) j (Some (vm_error_of err)) u" by blast
    with Inl fuel show ?thesis by (auto intro: exec_loop_error)
  next
    case (Inr \<rho>)
    note names = names [OF Inr]
    have "k \<le> g" using g by simp
    from leads_ok [OF lead [unfolded Inr] t(3) slots this] obtain j st where
      j: "j \<le> k" "machine_runs env (conf t g 0 (replicate ?n (SValue VNil))) j None (conf t (g - j) (length ?body) st)"
        "slots_hold (frame_base t) ?n \<rho> st" by blast
    note run = machine_runs_trans [OF j(2) refl]
    have "set (names_of [] sts) = fst ` set \<rho>" unfolding names [symmetric] by simp
    then have "placed p (length ?body) \<rho> ?n e" using at(1) plain(2) p by (simp add: placed_def structured_proto_def names)
    from placed_delivers [OF this t(3) j(3), of "g - j"] g len j(1)
    have d: "delivers env t (g - j) (length ?body) (length ?result) st st (eval (look \<rho>) e)" by (simp add: names)
    show ?thesis
    proof (cases "eval (look \<rho>) e")
      case (Inl err)
      then obtain i u where "i \<le> length ?result"
          "machine_runs env (conf t (g - j) (length ?body) st) i (Some (vm_error_of err)) u"
        using d by (auto simp: delivers_def)
      with exec_loop_error [OF run [OF this(2)]] j(1) fuel len \<open>r = Inr \<rho>\<close> Inl show ?thesis by simp
    next
      case (Inr v)
      then obtain i where i: "i \<le> length ?result" "machine_runs env (conf t (g - j) (length ?body) st) i None
          (conf t (g - j - i) (length ?body + length ?result) (st @ [SValue v]))"
        using d by (auto simp: delivers_def)
      with exec_loop_value [OF run [OF i(2)] _ code_runningD(1) [OF t(3)] t(1) at(2)] j(1) fuel g len \<open>r = Inr \<rho>\<close> Inr
      show ?thesis by simp
    qed
  qed
qed

text \<open>C3: Compiling and running a structured program computes what its tree means.  For a program of local
  declarations, assignments to locals, \<open>do\<close>, \<open>if\<close> and \<open>while\<close> that ends in \<open>return e\<close>, whose compiled code
  is not too long for its jumps: if the reference semantics \<open>run_program\<close> on the tree ends, there is a
  bound \<open>k\<close> such that, with at least \<open>k\<close> units of gas and fuel and the memory for the frame, \<open>execute\<close> on
  the compiled program returns the value of the reference semantics, or raises the error it gives under
  the line of the failing instruction.\<close>

theorem structured_program_runs:
  fixes env :: "'h vm_env"
  assumes "compile hash (Block sts (Some (ReturnStmt (Some e) r)) sp) = Ok program"
    and "plain_program (Block sts (Some (ReturnStmt (Some e) r)) sp)" and "env_program env = program"
    and "length (fp_code (hd (prototypes program))) \<le> 32768" and "run_program m sts e = Some res"
  shows "\<exists>k. \<forall>(s :: 'h vm) input fuel. k \<le> gas_remaining (rt_gas (vm_rt s)) \<longrightarrow> k \<le> fuel \<longrightarrow>
    mem_allocated (rt_mem (vm_rt s)) + size_stack_frame (stmts_high [] sts) \<le> mem_limit (rt_mem (vm_rt s)) \<longrightarrow>
    mem_limit (rt_mem (vm_rt s)) \<le> u64_max \<longrightarrow> (case res of
      Inr v \<Rightarrow> \<exists>out t. execute env fuel input s = (Ok out, t) \<and> out_return_value out = v
    | Inl err \<Rightarrow> \<exists>line t. execute env fuel input s = (Err (WithLine line (vm_error_of err)), t))"
proof -
  obtain p where p: "prototypes program = [p]" "structured_proto p sts e"
    using structured_compiles [OF assms(1,2)] by blast
  have plain: "plain_stmts [] sts" "straight (set (names_of [] sts)) e" using assms(2) by simp_all
  obtain r' where r': "run_stmts m [] sts = Some r'" "res = and_then r' (\<lambda>\<rho>. eval (look \<rho>) e)"
    using assms(5) by (auto simp: run_program_def)
  have "located p 0 (stmts_code [] (fp_constants p) sts)"
    using p(2) by (fastforce simp: located_def structured_proto_def)
  with p assms(4) have "code_at p (stmts_high [] sts) 0 (stmts_code (map fst []) (fp_constants p) sts) (stmts_consts sts)
      (stmts_high (map fst []) sts)" by (simp add: code_at_def structured_proto_def)
  from program_leads(2) [OF r'(1) _ this, where env = env] plain obtain k
    where k: "leads env p (stmts_high [] sts) k 0 [] r' (length (stmts_code [] (fp_constants p) sts))" by auto
  show ?thesis
  proof (intro exI [of _ "k + length (fp_code p) + 6"] allI impI)
    fix s :: "'h vm" and input fuel
    let ?g = "gas_remaining (rt_gas (vm_rt s))"
    assume s: "k + length (fp_code p) + 6 \<le> ?g" "k + length (fp_code p) + 6 \<le> fuel"
      "mem_allocated (rt_mem (vm_rt s)) + size_stack_frame (stmts_high [] sts) \<le> mem_limit (rt_mem (vm_rt s))"
      "mem_limit (rt_mem (vm_rt s)) \<le> u64_max"
    have n: "unat (fp_local_count p) = stmts_high [] sts" using p(2) by (auto simp: structured_proto_def unat_narrow)
    obtain t f where t: "start_program env input s = (Ok (), t)" "vm_frames t = [f]" "fr_base f = 0" "running env t p"
        "t = conf t ?g 0 (replicate (stmts_high [] sts) (SValue VNil))"
      using start_program_conf [of env p s input] assms(3) s(3,4) p n by (auto simp: structured_proto_def)
    have "code_running env t p" using t(4) assms(4) p by (simp add: code_running_def structured_proto_def)
    from structured_loop [OF p(2) plain k _ t(2,3) this s(1), of fuel "[]"] s(2) run_names(2) [OF r'(1)] plain t(5)
    have "outcome_of res (exec_loop env fuel [] t)" by (simp add: r'(2))
    with t(1) show "case res of
        Inr v \<Rightarrow> \<exists>out t. execute env fuel input s = (Ok out, t) \<and> out_return_value out = v
      | Inl err \<Rightarrow> \<exists>line t. execute env fuel input s = (Err (WithLine line (vm_error_of err)), t)"
      by (auto simp: outcome_of_def execute_def bnd_def split: sum.splits)
  qed
qed

definition sum_env :: "unit vm_env" where
  "sum_env = \<lparr>env_config = default_config, env_host = noop_host (\<lambda>_. []), env_program = sum_program\<rparr>"

lemma run_sum: "run_program (Suc (Suc (Suc (Suc 0)))) sum_stmts sum_result = Some (Inr (VInt 43))"
  by (simp add: run_program_def sum_stmts_def sum_result_def look_def back_to_def lua_add_def int_op_def
      compare_def cmp_i64_def Let_def)

theorem structured_program_runs_witness:
  "\<exists>g fuel out t. execute sum_env fuel VNil (new_vm (default_config\<lparr>cfg_gas_limit := g\<rparr>) ()) = (Ok out, t) \<and>
     out_return_value out = VInt 43"
proof -
  obtain k where "\<forall>(s :: unit vm) input fuel. k \<le> gas_remaining (rt_gas (vm_rt s)) \<longrightarrow> k \<le> fuel \<longrightarrow>
      mem_allocated (rt_mem (vm_rt s)) + size_stack_frame (stmts_high [] sum_stmts) \<le> mem_limit (rt_mem (vm_rt s)) \<longrightarrow>
      mem_limit (rt_mem (vm_rt s)) \<le> u64_max \<longrightarrow>
      (\<exists>out t. execute sum_env fuel input s = (Ok out, t) \<and> out_return_value out = VInt 43)"
    using structured_program_runs [OF compile_sum plain_sum _ _ run_sum, of sum_env]
    by (auto simp: sum_env_def sum_program_def)
  from this [rule_format, of "new_vm (default_config\<lparr>cfg_gas_limit := k\<rparr>) ()" k VNil] show ?thesis
    by (auto simp: new_vm_def new_gas_meter_def new_memory_meter_def default_config_def size_stack_frame_def u64_max_def
        sum_stmts_def Let_def)
qed

end
