(* ===== verification/Lua_Closure_Slots.thy ===== *)
theory Lua_Closure_Slots
  imports Lua_Expr_Run
begin

text \<open>
  A captured local becomes a cell that stays in its stack slot (\<open>capture\<close>), the code generator gives the
  slot to the next local when the block ends (\<open>exit_block\<close>), and a store into a slot that holds a cell
  writes the cell (\<open>do_store_local\<close>). Together: a closure sees the locals declared after its own block.
  The program below is compiled, verified and run by rewriting with \<open>cg_run\<close> and \<open>vm_run\<close>.
\<close>

section \<open>Running a concrete program\<close>

lemmas exec_loop_numeral = exec_loop.simps(2) [where fuel = "pred_numeral k" for k, folded numeral_eq_Suc]

lemma replicate_unroll: "replicate (numeral k) x = x # replicate (pred_numeral k) x"
  by (simp add: numeral_eq_Suc)

lemmas vm_run = exec_loop.simps exec_loop_numeral replicate_unroll execute_def start_program_def bnd_def
  proto_at_def index_or_panic_def on_rt_def alloc_def track_alloc_def charge_def gas_charge_def set_stack_def
  stack_at_def top_frame_def fetch_def set_pc_def dispatch_def do_push_k_def constant_at_def push_value_def
  push_slot_def do_store_local_def pop_value_def slot_value_def set_cell_def new_cell_def do_closure_def
  capture_def do_load_local_def do_call_def resolve_sentinel_def push_call_frame_def bind_args_def
  do_load_up_def read_cell_def do_return_def with_line_def map_err_def trace_entry_def Let_def
  size_stack_frame_def size_closure_def u64_max_def new_vm_def new_gas_meter_def new_memory_meter_def
  default_config_def

section \<open>The program\<close>

text \<open>\<open>local f do local x = 1 f = function() return x end end local y = 2 return f()\<close>, anywhere in the source.\<close>

definition captured_block :: "(nat \<Rightarrow> span) \<Rightarrow> block" where
  "captured_block s = Block [
     LocalDecl [(''f'', s 0)] [] (s 1),
     DoStmt (Block [
       LocalDecl [(''x'', s 2)] [EInteger 1 (s 3)] (s 4),
       AssignStmt (TargetName ''f'' (s 5))
         (EFuncDef (FuncBody [] (Block [] (Some (ReturnStmt (Some (EName ''x'' (s 6))) (s 7))) (s 8)) (s 9)) (s 10)) (s 11)]
       None (s 12)) (s 13),
     LocalDecl [(''y'', s 14)] [EInteger 2 (s 15)] (s 16)]
     (Some (ReturnStmt (Some (ECall (EName ''f'' (s 17)) [] (s 18))) (s 19))) (s 20)"

definition captured_protos :: "(nat \<Rightarrow> span) \<Rightarrow> function_proto list" where
  "captured_protos s = (let line = (\<lambda>i. span_line (s i)) in [
     \<lparr>fp_code = [I_PushNil, I_StoreLocal 0, I_PushK 0, I_StoreLocal 1, I_Closure 1, I_StoreLocal 0, I_PushK 1,
        I_StoreLocal 1, I_LoadLocal 0, I_Call 0, I_Ret 1, I_Ret 0],
      fp_constants = [K_Integer 1, K_Integer 2], fp_local_count = 2, fp_upvalue_count = 0, fp_param_count = 0,
      fp_lines = map line [1, 1, 3, 4, 10, 11, 15, 16, 17, 18, 19, 20],
      fp_max_stack = 0, fp_upvalues = []\<rparr>,
     \<lparr>fp_code = [I_LoadUp 0, I_Ret 1], fp_constants = [], fp_local_count = 0, fp_upvalue_count = 1,
      fp_param_count = 0, fp_lines = map line [6, 7], fp_max_stack = 0, fp_upvalues = [FromLocal 1]\<rparr>])"

lemma compile_captured:
  "compile hash (captured_block s) = Ok \<lparr>prototypes = captured_protos s, program_hash = hash (captured_protos s)\<rparr>"
  by (simp add: captured_block_def captured_protos_def cg_run add_upvalue_def compile_call_def is_tool_call_def call_name_def normal_call_def
      cong: bnd_stop
      del: compile_expr_rec.simps compile_block_rec.simps)

lemma verify_captured: "verify \<lparr>prototypes = captured_protos s, program_hash = h\<rparr> = Ok ()"
  unfolding captured_protos_def Let_def by code_simp

lemma run_captured:
  assumes "env_program env = \<lparr>prototypes = captured_protos s, program_hash = h\<rparr>" "env_config env = default_config"
  shows "\<exists>out t. execute env 14 input (new_vm default_config host) = (Ok out, t) \<and> out_return_value out = VInt 2"
  by (simp add: assms captured_protos_def vm_run cong: bnd_stop)

text \<open>C39: A closure reads a variable that is not its own. The program, in which \<open>f\<close> returns the local \<open>x = 1\<close> of
  a block that has ended, compiles, passes the verifier, and returns 2, the value of a later local \<open>y\<close>:
  the two share a stack slot, which still holds the cell of \<open>x\<close> when \<open>y\<close> is stored into it.\<close>

theorem captured_slot_reused:
  "\<exists>program. compile hash (captured_block s) = Ok program \<and> verify program = Ok () \<and>
    (\<exists>out t. execute \<lparr>env_config = default_config, env_host = host, env_program = program\<rparr> 14 input
        (new_vm default_config state) = (Ok out, t) \<and> out_return_value out = VInt 2)"
  using compile_captured [of _ s] verify_captured [of s] run_captured [of _ s] by (metis vm_env.select_convs)

end
