(* ===== verification/Lua_Table_Sort.thy ===== *)
theory Lua_Table_Sort
  imports Lua_Engine
begin

text \<open>
  \<open>table.sort\<close> without a comparator (\<open>do_table_sort\<close> of \<open>src/vm/engine.rs\<close>), from the stored table to
  the stored table: when it succeeds, what it leaves in the table, and what it raises otherwise.
\<close>

section \<open>Comparable and mixed lists\<close>

definition one_kind :: "lua_value list \<Rightarrow> bool" where
  "one_kind xs \<longleftrightarrow> set xs \<subseteq> integers \<or> set xs \<subseteq> strings"

abbreviation mixed_types :: vm_error where
  "mixed_types \<equiv> TypeError ''table.sort: cannot compare mixed types''"

lemma not_comparable:
  "\<not> one_kind [x, y] \<Longrightarrow> default_less x y s = (Err mixed_types, s)"
  by (cases x; cases y) (auto simp: one_kind_def integers_def strings_def default_less_def)

lemma one_kind_pair: "one_kind xs \<Longrightarrow> one_kind ys \<Longrightarrow> x \<in> set xs \<Longrightarrow> y \<in> set ys \<Longrightarrow> one_kind [x, y] \<Longrightarrow>
    one_kind (xs @ ys)"
  by (auto simp: one_kind_def integers_def strings_def subset_iff)

lemma one_kind_singleton: "one_kind [x, y] \<Longrightarrow> one_kind [x]"
  by (auto simp: one_kind_def)

text \<open>Sorting a list of one kind succeeds, and a list of at least two elements of different or incomparable
  kinds is refused.\<close>

lemma sort_one_kind:
  assumes "one_kind arr"
  shows "\<exists>out. merge_sort_slice default_less arr s = (Ok out, s) \<and> mset out = mset arr \<and>
    sorted_wrt (\<lambda>x y. \<not> value_less y x) out"
proof -
  have "\<exists>out. merge_sort_slice default_less arr s = (Ok out, s) \<and> sorted_wrt (\<lambda>x y. \<not> value_less y x) out"
    using assms int_sort.sort_ordered [of arr s] string_sort.sort_ordered [of arr s]
    by (auto simp: one_kind_def int_sort.ordered_def string_sort.ordered_def)
  then show ?thesis using merge_sort_slice_perm by fastforce
qed

lemma sort_small: "length arr \<le> 1 \<Longrightarrow> merge_sort_slice cmp arr s = (Ok arr, s)"
  by (simp add: merge_sort_slice.simps [of cmp arr])

lemma sort_mixed:
  fixes s :: 's
  shows "2 \<le> length arr \<Longrightarrow> \<not> one_kind arr \<Longrightarrow> merge_sort_slice default_less arr s = (Err mixed_types, s)"
proof (induction arr arbitrary: s rule: length_induct)
  case (1 arr)
  let ?l = "take (length arr div 2) arr" and ?r = "drop (length arr div 2) arr"
  have unfold: "merge_sort_slice default_less arr = bnd (merge_sort_slice default_less ?l) (\<lambda>left.
      bnd (merge_sort_slice default_less ?r) (merge_runs default_less left))"
    using "1.prems"(1) by (simp add: merge_sort_slice.simps [of default_less arr] Let_def)
  have nonempty: "?l \<noteq> []" "?r \<noteq> []" "length ?l < length arr" "length ?r < length arr"
    using "1.prems"(1) by auto
  have half: "(\<exists>out. merge_sort_slice default_less h s = (Ok out, s) \<and> mset out = mset h \<and> (2 \<le> length h \<longrightarrow> one_kind h))
      \<or> merge_sort_slice default_less h s = (Err mixed_types, s)" if "length h < length arr" for h and s :: 's
  proof -
    consider "length h \<le> 1" | "one_kind h" | "2 \<le> length h" "\<not> one_kind h" by linarith
    then show ?thesis
    proof cases
      case 1
      then show ?thesis using sort_small [OF 1, of default_less s] by simp
    next
      case 2
      then show ?thesis using sort_one_kind [of h s] by auto
    next
      case 3
      then show ?thesis using "1.IH" that by blast
    qed
  qed
  consider "merge_sort_slice default_less ?l s = (Err mixed_types, s)"
    | l where "merge_sort_slice default_less ?l s = (Ok l, s)" "merge_sort_slice default_less ?r s = (Err mixed_types, s)"
    | l r where "merge_sort_slice default_less ?l s = (Ok l, s)" "merge_sort_slice default_less ?r s = (Ok r, s)"
      "mset l = mset ?l" "mset r = mset ?r" "2 \<le> length ?l \<longrightarrow> one_kind ?l" "2 \<le> length ?r \<longrightarrow> one_kind ?r"
    using half [OF nonempty(3), of s] half [OF nonempty(4), of s] by blast
  then show ?case
  proof cases
    case (3 l r)
    obtain x l' y r' where lr: "l = x # l'" "r = y # r'" using 3(3,4) nonempty(1,2) by (cases l; cases r) auto
    have "\<not> one_kind [x, y]"
    proof
      assume xy: "one_kind [x, y]"
      have x: "x \<in> set ?l" and y: "y \<in> set ?r" using 3(3,4) lr by (metis list.set_intros(1) set_mset_mset)+
      have "one_kind h" if "z \<in> set h" "one_kind [z]" "2 \<le> length h \<longrightarrow> one_kind h" for h z
        using that by (cases h; cases "tl h") (auto simp: one_kind_def)
      moreover have "one_kind [x]" "one_kind [y]" using xy by (auto simp: one_kind_def)
      ultimately have "one_kind (?l @ ?r)" using one_kind_pair [OF _ _ x y xy] x y 3(5,6) by blast
      then show False using "1.prems"(2) by simp
    qed
    then show ?thesis using 3(1,2) by (simp add: unfold bnd_def lr not_comparable)
  qed (simp_all add: unfold bnd_def)
qed

section \<open>Reading and writing the array part\<close>

lemma get_array:
  assumes "table_ok t" and "1 \<le> i" and "i \<le> int (length (tab_array t))"
  shows "table_get t (KInt (i64_of i)) = Some (tab_array t ! nat (i - 1))"
    and "in_array (tab_array t) (i64_of i)" and "sint (i64_of i) = i"
proof -
  show s: "sint (i64_of i) = i"
    using table_inv_lengths(2) [OF assms(1)] assms(2,3) by (simp add: in_i64_def)
  then show "in_array (tab_array t) (i64_of i)" using assms by (simp add: in_array_def)
  then show "table_get t (KInt (i64_of i)) = Some (tab_array t ! nat (i - 1))"
    using s by (simp add: table_get_def split_get_def)
qed

lemma collect_reads: "collect (\<lambda>k. reads (g k)) ks s = (Ok (map (\<lambda>k. g k s) ks), s)"
  by (induction ks) (simp_all add: bnd_def)

lemma get_range_array:
  assumes "table_ok (deref (rt_tables s) t)"
  shows "get_range t 1 (int (table_length (deref (rt_tables s) t))) s = (Ok (tab_array (deref (rt_tables s) t)), s)"
proof -
  let ?tab = "deref (rt_tables s) t"
  have "map (\<lambda>k. case table_get ?tab (KInt (i64_of k)) of None \<Rightarrow> VNil | Some v \<Rightarrow> v) [1..int (table_length ?tab)]
      = tab_array ?tab"
    using get_array(1) [OF assms] by (intro nth_equalityI) (auto simp: table_length_def nth_upto)
  then show ?thesis by (simp add: get_range_def get_entry_def collect_reads)
qed

lemma store_array:
  assumes "length (tab_array tab) < 2 ^ 63 - 1" and "tab_entries tab \<le> max_table_entries"
    and "deref (rt_tables s) t = tab" and "i < length (tab_array tab)" and "v \<noteq> VNil"
  shows "store_free t (KInt (i64_of (int (i + 1)))) v s
    = (Ok (), s\<lparr>rt_tables := (rt_tables s)[t := tab\<lparr>tab_array := (tab_array tab)[i := v]\<rparr>]\<rparr>)"
proof -
  have k: "sint (i64_of (int (i + 1))) = int (i + 1)"
    using assms(1,4) by (simp add: in_i64_def)
  then have "KInt (i64_of (int (i + 1))) \<noteq> KInt i64_min" by auto
  moreover have "nat (1 + int i) = Suc i" by simp
  ultimately have "rawset_tracked (KInt (i64_of (int (i + 1)))) v tab = (Inr Updated, tab\<lparr>tab_array := (tab_array tab)[i := v]\<rparr>)"
    using k assms(2,4,5) by (simp add: rawset_tracked_def store_value_def Let_def)
  then show ?thesis using assms(3) by (simp add: store_free_def bnd_def map_err_def raw_store_def)
qed

lemma write_back_array:
  assumes "length (tab_array tab) < 2 ^ 63 - 1" and "tab_entries tab \<le> max_table_entries"
    and "t < length (rt_tables s)" and "deref (rt_tables s) t = tab" and "tab_array tab = front @ rest"
    and "length vs = length rest" and "VNil \<notin> set vs"
  shows "for_each (\<lambda>(i, v). store_free t (KInt (i64_of (int (i + 1)))) v) (enumerate (length front) vs) s
    = (Ok (), s\<lparr>rt_tables := (rt_tables s)[t := tab\<lparr>tab_array := front @ vs\<rparr>]\<rparr>)"
  using assms
proof (induction vs arbitrary: s tab front rest)
  case Nil
  then have "tab\<lparr>tab_array := front\<rparr> = tab" by simp
  moreover have "(rt_tables s)[t := tab] = rt_tables s" using Nil.prems(3,4) by (auto simp: deref_def)
  ultimately have "s\<lparr>rt_tables := (rt_tables s)[t := tab\<lparr>tab_array := front\<rparr>]\<rparr> = s" by simp
  then show ?case using Nil by simp
next
  case (Cons v vs)
  obtain r rest' where rest: "rest = r # rest'" using Cons.prems(6) by (cases rest) auto
  let ?tab = "tab\<lparr>tab_array := (front @ [v]) @ rest'\<rparr>"
  let ?s = "s\<lparr>rt_tables := (rt_tables s)[t := ?tab]\<rparr>"
  have "v \<noteq> VNil" using Cons.prems(7) by auto
  then have "store_free t (KInt (i64_of (int (length front + 1)))) v s = (Ok (), ?s)"
    using store_array [OF Cons.prems(1,2,4), of "length front" v] Cons.prems(5) rest by simp
  moreover have "for_each (\<lambda>(i, v). store_free t (KInt (i64_of (int (i + 1)))) v) (enumerate (length (front @ [v])) vs) ?s
      = (Ok (), ?s\<lparr>rt_tables := (rt_tables ?s)[t := ?tab\<lparr>tab_array := (front @ [v]) @ vs\<rparr>]\<rparr>)"
    using Cons.prems rest by (intro Cons.IH) (simp_all add: deref_def)
  ultimately show ?case by (simp add: bnd_def)
qed

section \<open>The whole operation\<close>

definition sort_cost :: "nat \<Rightarrow> nat" where
  "sort_cost n = (if n \<le> 1 then 0 else n * ceil_log2 (n + 1))"

definition paying :: "nat \<Rightarrow> 'h vm \<Rightarrow> 'h vm" where
  "paying n s = s\<lparr>vm_rt := (vm_rt s)\<lparr>rt_gas := (rt_gas (vm_rt s))\<lparr>gas_remaining := gas_remaining (rt_gas (vm_rt s)) - n\<rparr>\<rparr>\<rparr>"

definition with_table :: "table_ref \<Rightarrow> lua_table \<Rightarrow> 'h vm \<Rightarrow> 'h vm" where
  "with_table t tab s = s\<lparr>vm_rt := (vm_rt s)\<lparr>rt_tables := (rt_tables (vm_rt s))[t := tab]\<rparr>\<rparr>"

lemma do_table_sort_default:
  fixes s :: "'h vm" and t :: table_ref
  defines "tab \<equiv> deref (rt_tables (vm_rt s)) t"
  assumes "t < length (rt_tables (vm_rt s))" and "table_ok tab"
    and "sort_cost (table_length tab) \<le> gas_remaining (rt_gas (vm_rt s))"
  shows "if table_length tab \<le> 1 \<or> one_kind (tab_array tab)
    then \<exists>out. do_table_sort runner env [VTable t] s = (Ok (), with_table t (tab\<lparr>tab_array := out\<rparr>) (paying (sort_cost (table_length tab)) s))
      \<and> mset out = mset (tab_array tab) \<and> sorted_wrt (\<lambda>x y. \<not> value_less y x) out
    else do_table_sort runner env [VTable t] s = (Err mixed_types, paying (sort_cost (table_length tab)) s)"
proof (cases "table_length tab \<le> 1")
  case True
  have "(rt_tables (vm_rt s))[t := tab] = rt_tables (vm_rt s)" using assms by (auto simp: deref_def)
  then have "with_table t (tab\<lparr>tab_array := tab_array tab\<rparr>) (paying 0 s) = s" by (simp add: with_table_def paying_def)
  moreover have "do_table_sort runner env [VTable t] s = (Ok (), s)"
    using True by (simp add: do_table_sort_def bnd_def on_rt_def borrow_def tab_def)
  moreover have "sorted_wrt (\<lambda>x y. \<not> value_less y x) (tab_array tab)"
    using True by (cases "tab_array tab") (auto simp: table_length_def)
  ultimately show ?thesis using True by (auto simp: sort_cost_def intro!: exI [of _ "tab_array tab"])
next
  case False
  let ?s = "paying (sort_cost (table_length tab)) s"
  have pay: "on_rt (charge (table_length tab * ceil_log2 (Suc (table_length tab)))) s = (Ok (), ?s)"
    using assms(4) False by (simp add: on_rt_def charge_def gas_charge_def sort_cost_def paying_def)
  have stored: "on_rt (borrow t) s = (Ok tab, s)" by (simp add: on_rt_def borrow_def tab_def)
  have tab: "deref (rt_tables (vm_rt ?s)) t = tab" by (simp add: paying_def tab_def)
  have range: "on_rt (get_range t 1 (int (table_length tab))) ?s = (Ok (tab_array tab), ?s)"
    using get_range_array [of "vm_rt ?s" t] assms(3) tab by (simp add: on_rt_def)
  have run: "do_table_sort runner env [VTable t] s = bnd (merge_sort_slice default_less (tab_array tab)) (\<lambda>out. on_rt (write_back t out)) ?s"
    using False
    by (simp add: do_table_sort_def bnd_def stored pay range Let_def merge_sort_default_def)
  show ?thesis
  proof (cases "one_kind (tab_array tab)")
    case True
    obtain out where out: "merge_sort_slice default_less (tab_array tab) ?s = (Ok out, ?s)"
        "mset out = mset (tab_array tab)" "sorted_wrt (\<lambda>x y. \<not> value_less y x) out"
      using sort_one_kind [OF True, of ?s] by blast
    have "VNil \<notin> set (tab_array tab)" "tab_entries tab \<le> max_table_entries"
      using assms(3) unfolding table_ok_def table_inv_def split_inv_def by blast+
    note ok = this [folded mset_eq_setD [OF out(2)]]
    have "write_back t out (vm_rt ?s) = (Ok (), (vm_rt ?s)\<lparr>rt_tables := (rt_tables (vm_rt ?s))[t := tab\<lparr>tab_array := out\<rparr>]\<rparr>)"
      using write_back_array [of tab t "vm_rt ?s" "[]" "tab_array tab" out] table_inv_lengths(2) [OF assms(3)] assms(2) tab
        mset_eq_length [OF out(2)] ok
      by (simp add: write_back_def paying_def)
    then have "on_rt (write_back t out) ?s = (Ok (), with_table t (tab\<lparr>tab_array := out\<rparr>) ?s)"
      by (simp add: on_rt_def with_table_def)
    then show ?thesis using True False out by (auto simp: run bnd_def)
  next
    case mixed: False
    have "merge_sort_slice default_less (tab_array tab) ?s = (Err mixed_types, ?s)"
      using sort_mixed [of "tab_array tab"] mixed False by (simp add: table_length_def)
    then show ?thesis using mixed False by (simp add: run bnd_def)
  qed
qed

text \<open>C5: \<open>table.sort\<close> with the default order, completely. It succeeds exactly when the array part has at most
  one element, only integers or only strings; then the array part becomes a permutation of itself in
  ascending order, and nothing else in the table or the machine changes but the gas, by
  \<open>n * ceil_log2 (n + 1)\<close>. Otherwise it raises the error of mixed types and leaves the table as it was.\<close>

theorem table_sort_default:
  assumes "deref (rt_tables (vm_rt s)) t = tab" and "t < length (rt_tables (vm_rt s))" and "table_ok tab"
    and "sort_cost (table_length tab) \<le> gas_remaining (rt_gas (vm_rt s))"
  shows "if table_length tab \<le> 1 \<or> one_kind (tab_array tab)
    then \<exists>out. do_table_sort runner env [VTable t] s
        = (Ok (), with_table t (tab\<lparr>tab_array := out\<rparr>) (paying (sort_cost (table_length tab)) s))
      \<and> mset out = mset (tab_array tab) \<and> sorted_wrt (\<lambda>x y. \<not> value_less y x) out
    else do_table_sort runner env [VTable t] s = (Err mixed_types, paying (sort_cost (table_length tab)) s)"
  using do_table_sort_default [of t s runner env] assms(2-4) unfolding assms(1) by blast

definition unsorted_table :: lua_table where
  "unsorted_table = new_table\<lparr>tab_array := [VInt 3, VInt 1, VInt 2], tab_entries := 3\<rparr>"

definition unsorted_vm :: "unit vm" where
  "unsorted_vm = (new_vm default_config ())\<lparr>vm_rt := \<lparr>rt_gas = new_gas_meter 100, rt_mem = new_memory_meter 100,
     rt_tables = [unsorted_table]\<rparr>\<rparr>"

theorem table_sort_default_witness:
  "\<forall>runner env. \<exists>out. do_table_sort runner env [VTable 0] unsorted_vm
      = (Ok (), with_table 0 (unsorted_table\<lparr>tab_array := out\<rparr>) (paying 6 unsorted_vm))
    \<and> mset out = {#VInt 3, VInt 1, VInt 2#} \<and> sorted_wrt (\<lambda>x y. \<not> value_less y x) out"
proof -
  have ok: "table_ok unsorted_table"
    by (simp add: unsorted_table_def new_table_def table_ok_def table_inv_def split_inv_def
        next_power_of_two_capacity_def max_table_entries_def)
  have tab: "tab_array unsorted_table = [VInt 3, VInt 1, VInt 2]" "table_length unsorted_table = 3"
    by (simp_all add: unsorted_table_def table_length_def)
  have kind: "one_kind (tab_array unsorted_table)" by (simp add: tab one_kind_def integers_def)
  have cost: "sort_cost 3 = 6" by code_simp
  have "deref (rt_tables (vm_rt unsorted_vm)) 0 = unsorted_table" "0 < length (rt_tables (vm_rt unsorted_vm))"
    "gas_remaining (rt_gas (vm_rt unsorted_vm)) = 100"
    by (simp_all add: unsorted_vm_def deref_def new_gas_meter_def)
  then show ?thesis
    using table_sort_default [of unsorted_vm 0 unsorted_table] ok kind cost tab by simp
qed

end
