(* ===== verification/Lua_Json_Roundtrip.thy ===== *)
theory Lua_Json_Roundtrip
  imports Lua_Json_Fuel Lua_Canonical_Roundtrip
begin

text \<open>
  \<open>src/vm/builtins.rs\<close>: what \<open>json.decode\<close> makes of the strings \<open>json.encode\<close> writes. The encoder
  writes a byte above 126 as \<open>\\u00XX\<close>, its canonical escape; the canonical decoder reads that as one
  byte, but \<open>json.decode\<close> reads it as a code point and stores its UTF-8 encoding.
\<close>

section \<open>One byte\<close>

text \<open>A byte read as a Latin-1 character and written in UTF-8.\<close>

definition latin1_to_utf8 :: "string \<Rightarrow> string" where
  "latin1_to_utf8 s = concat (map (\<lambda>c. utf8_encode (byte_of c)) s)"

lemma hex_escape_u32: "n < 256 \<Longrightarrow> parse_unsigned 4294967295 16 (''00'' @ hex_byte n) = Some n"
proof -
  assume "n < 256"
  then have "n div 16 < 16" "n mod 16 < 16" by simp_all
  then have "digit_value 16 (digit_char (n div 16)) = Some (n div 16)"
    "digit_value 16 (digit_char (n mod 16)) = Some (n mod 16)"
    by (simp_all add: digit_value_digit_char)
  moreover have "digit_value 16 (CHR ''0'') = Some 0" by code_simp
  ultimately show ?thesis using \<open>n < 256\<close> by (simp add: parse_unsigned_def hex_byte_def)
qed

lemma utf8_encode_ascii: "byte_of c < 128 \<Longrightarrow> utf8_encode (byte_of c) = [c]"
  by (simp add: utf8_encode_def)

lemma length_utf8_encode: "128 \<le> n \<Longrightarrow> n < 256 \<Longrightarrow> length (utf8_encode n) = 2"
  by (simp add: utf8_encode_def)

lemma json_string_escape:
  "json_string_body buf (escape_byte b @ rest) = json_string_body (buf @ utf8_encode (byte_of b)) rest"
proof -
  have u: "json_string_body buf (CHR 0x5C # CHR ''u'' # ''00'' @ hex_byte n @ rest) = json_string_body (buf @ utf8_encode n) rest"
    if "n < 256" for n
  proof -
    have "length (hex_byte n) = 2" by (simp add: hex_byte_def)
    then have "take 4 (''00'' @ hex_byte n @ rest) = ''00'' @ hex_byte n" "drop 4 (''00'' @ hex_byte n @ rest) = rest"
      "\<not> length (''00'' @ hex_byte n @ rest) < 4"
      by simp_all
    then show ?thesis
      by (subst json_string_body.simps)
        (simp add: json_escape_def simple_escape_def hex_escape_u32 [OF that] hex_ascii [OF that] Let_def
          del: append.simps)
  qed
  consider "b \<in> {CHR 0x22, CHR 0x5C, CHR 0x0A, CHR 0x0D, CHR 0x09}"
    | "b \<notin> {CHR 0x22, CHR 0x5C, CHR 0x0A, CHR 0x0D, CHR 0x09}" "32 \<le> byte_of b \<and> byte_of b \<le> 126"
    | "b \<notin> {CHR 0x22, CHR 0x5C, CHR 0x0A, CHR 0x0D, CHR 0x09}" "\<not> (32 \<le> byte_of b \<and> byte_of b \<le> 126)" by blast
  then show ?thesis
  proof cases
    case 1
    then have "byte_of b < 128" by (auto simp: byte_of_def)
    note utf8 = utf8_encode_ascii [OF this]
    from 1 show ?thesis unfolding utf8
      by (subst json_string_body.simps) (auto simp: escape_byte_def json_escape_def simple_escape_def)
  next
    case 2
    then have "utf8_encode (byte_of b) = [b]" by (simp add: utf8_encode_ascii)
    then show ?thesis using 2 by (auto simp: escape_byte_def json_string_body.simps [of buf "b # rest"])
  next
    case 3
    then show ?thesis using u [of "byte_of b"] by (auto simp: escape_byte_def)
  qed
qed

lemma json_string_serialized:
  "json_string_body buf (concat (map escape_byte s) @ CHR 0x22 # r) = Inr (buf @ latin1_to_utf8 s, r)"
proof (induction s arbitrary: buf)
  case Nil
  show ?case by (subst json_string_body.simps) (simp add: latin1_to_utf8_def)
next
  case (Cons b s)
  then show ?case by (simp add: json_string_escape latin1_to_utf8_def)
qed

lemma latin1_to_utf8_id: "latin1_to_utf8 s = s \<longleftrightarrow> (\<forall>c \<in> set s. byte_of c < 128)"
proof
  show "\<forall>c \<in> set s. byte_of c < 128 \<Longrightarrow> latin1_to_utf8 s = s"
    by (induction s) (simp_all add: latin1_to_utf8_def utf8_encode_ascii)
  have shorter: "length s \<le> length (latin1_to_utf8 s)" for s
  proof (induction s)
    case (Cons c s)
    have "1 \<le> length (utf8_encode (byte_of c))" by (simp add: utf8_encode_def replacement_character_def)
    then show ?case using Cons by (simp add: latin1_to_utf8_def)
  qed simp
  have "\<forall>c \<in> set s. byte_of c < 128" if "length (latin1_to_utf8 s) = length s"
    using that
  proof (induction s)
    case (Cons c s)
    have e: "length (utf8_encode (byte_of c)) + length (latin1_to_utf8 s) = Suc (length s)"
      using Cons.prems by (simp add: latin1_to_utf8_def)
    have "byte_of c < 128"
      using e shorter [of s] length_utf8_encode [of "byte_of c"] by (cases "byte_of c < 128") auto
    then show ?case using Cons e by (simp add: utf8_encode_ascii)
  qed simp
  then show "latin1_to_utf8 s = s \<Longrightarrow> \<forall>c \<in> set s. byte_of c < 128" by simp
qed

section \<open>The functions\<close>

lemma json_encode_string:
  assumes "json_encode [VStr s] st = (Ok out, st')"
  shows "out = [VStr (serialize_string s)]"
  using assms
  by (auto simp: json_encode_def require_arg_def bnd_Ok_iff canonical_serialize_def serialize_value.simps
      split: sum.splits if_splits)

lemma json_decode_string:
  assumes "length (serialize_string s) \<le> gas_remaining (rt_gas st)"
    and "mem_allocated (rt_mem st) + size_string (length (latin1_to_utf8 s)) \<le> mem_limit (rt_mem st)"
    and "mem_limit (rt_mem st) \<le> u64_max"
  shows "\<exists>st'. json_decode [VStr (serialize_string s)] st = (Ok [VStr (latin1_to_utf8 s)], st')"
proof -
  let ?j = "serialize_string s"
  have j: "?j = CHR 0x22 # concat (map escape_byte s) @ [CHR 0x22]" by (simp add: serialize_string_def)
  have skip: "skip_ws ?j = ?j" by (simp add: skip_ws_def j json_space_def)
  have body: "json_string_body [] (concat (map escape_byte s) @ [CHR 0x22]) = Inr (latin1_to_utf8 s, [])"
    using json_string_serialized [of "[]" s "[]"] by simp
  show ?thesis
    using assms
    by (simp add: json_decode_def json_decode_mode_def require_string_def require_arg_def bnd_def charge_def
      gas_charge_def json_parse_with_mode_def json_value.simps skip)
      (simp add: j body json_parse_string_def json_expect_def bnd_def alloc_def track_alloc_def json_max_depth_def
      skip_ws_def pos_of_def Let_def)
qed

text \<open>C40: A string that goes through \<open>json.encode\<close> and \<open>json.decode\<close> comes back with every byte from 128 on
  replaced by the two bytes of its UTF-8 encoding, if the decoder's gas and memory suffice; it comes back
  unchanged exactly when it is ASCII. (The canonical decoder gives every string back.)\<close>

theorem json_string_roundtrip:
  assumes "json_encode [VStr s] st = (Ok [VStr j], st1)"
    and "length j \<le> gas_remaining (rt_gas st1)"
    and "mem_allocated (rt_mem st1) + size_string (length (latin1_to_utf8 s)) \<le> mem_limit (rt_mem st1)"
    and "mem_limit (rt_mem st1) \<le> u64_max"
  shows "(\<exists>st2. json_decode [VStr j] st1 = (Ok [VStr (latin1_to_utf8 s)], st2)) \<and>
    (latin1_to_utf8 s = s \<longleftrightarrow> (\<forall>c \<in> set s. byte_of c < 128))"
  using json_encode_string [OF assms(1)] json_decode_string [of s st1] assms(2-4) latin1_to_utf8_id [of s] by simp

definition small_rt :: rt where
  "small_rt = \<lparr>rt_gas = new_gas_meter 100, rt_mem = new_memory_meter 1000, rt_tables = []\<rparr>"

theorem json_string_roundtrip_witness:
  "\<exists>st1 st2. json_encode [VStr [CHR 0xE9]] small_rt = (Ok [VStr (serialize_string [CHR 0xE9])], st1) \<and>
    json_decode [VStr (serialize_string [CHR 0xE9])] st1 = (Ok [VStr [CHR 0xC3, CHR 0xA9]], st2)"
proof -
  have len: "length (serialize_string [CHR 0xE9]) = 8" "length (latin1_to_utf8 [CHR 0xE9]) = 2"
    by (simp_all add: serialize_string_def escape_byte_def hex_byte_def latin1_to_utf8_def utf8_encode_def byte_of_def)
  let ?j = "serialize_string [CHR 0xE9]"
  define st1 where "st1 = small_rt\<lparr>rt_gas := \<lparr>gas_remaining = 92, gas_limit = 100\<rparr>,
    rt_mem := \<lparr>mem_allocated = size_string 8, mem_limit = 1000\<rparr>\<rparr>"
  have encode: "canonical_serialize [] (VStr [CHR 0xE9]) = Inr ?j"
    using len by (simp add: canonical_serialize_def serialize_value.simps canon_max_depth_def canon_max_len_def)
  have st1: "json_encode [VStr [CHR 0xE9]] small_rt = (Ok [VStr ?j], st1)"
    using encode len
    by (simp add: small_rt_def json_encode_def require_arg_def bnd_def check_string_len_def st1_def
        max_string_len_def charge_def gas_charge_def alloc_def track_alloc_def new_gas_meter_def
        new_memory_meter_def size_string_def u64_max_def Let_def)
  have enough: "length ?j \<le> gas_remaining (rt_gas st1)"
    "mem_allocated (rt_mem st1) + size_string (length (latin1_to_utf8 [CHR 0xE9])) \<le> mem_limit (rt_mem st1)"
    "mem_limit (rt_mem st1) \<le> u64_max"
    by (simp_all add: st1_def len size_string_def u64_max_def)
  have "latin1_to_utf8 [CHR 0xE9] = [CHR 0xC3, CHR 0xA9]"
    by (simp add: latin1_to_utf8_def utf8_encode_def byte_of_def char_of_eq_iff)
  with json_string_roundtrip [OF st1 enough] st1 show ?thesis by auto
qed

end
