(* ===== verification/Spec2Isabelle.thy ===== *)
theory Spec2Isabelle
  imports Lua_Metering Lua_Proto_Graph Lua_Tape Lua_Parser_Facts Lua_Pipeline Lua_Structured_Run
    Lua_Closure_Slots Lua_Table_Sort Lua_Json_Roundtrip
begin

text \<open>
  Verification of proveno-core (\<open>src/\<close>): a deterministic, metered Lua runtime whose runs are recorded
  and replayed.

  \<^bold>\<open>The program.\<close> Source text is lexed, parsed and compiled to prototypes of bytecode
  (\<open>parser/\<close>, \<open>compiler/\<close>), checked by a verifier (\<open>bytecode/verifier.rs\<close>) and run by a stack machine
  (\<open>vm/engine.rs\<close>) over values and tables (\<open>types/\<close>), with a library of builtins (\<open>vm/builtins.rs\<close>).
  Every instruction and allocation is charged to two meters (\<open>vm/gas.rs\<close>, \<open>vm/memory.rs\<close>). The only
  side effect is a tool call, which goes through a registry with quotas (\<open>host/tool_registry.rs\<close>),
  is written down in a canonical encoding (\<open>host/canonicalize.rs\<close>) in a transcript
  (\<open>host/transcript.rs\<close>), from which an oracle tape is made that is committed to and replayed
  (\<open>host/tape.rs\<close>, \<open>host/poseidon2.rs\<close>, \<open>compiler/program_hash.rs\<close>).

  \<^bold>\<open>The model.\<close> A Rust function with mutable state is an \<open>op\<close> (\<open>Lua_Prelude\<close>): from a state to an
  outcome (\<open>Ok\<close>, \<open>Err\<close>, \<open>Panic\<close>, or \<open>Timeout\<close> when the model's fuel is used up) and the state after.
  \<open>i64\<close> and the operands of instructions are machine words; byte strings are HOL strings; shared
  tables (\<open>Rc<RefCell<LuaTable>>\<close>) are addresses into a store, captured variables cells of another.

  \<^item> \<open>Lua_Text\<close>: what the source uses of Rust's text routines. \<open>Lua_Values\<close>, \<open>Lua_Tables\<close>: \<open>types/\<close>.
    The interface \<open>table_spec\<close> states what callers rely on when they store; the invariant \<open>table_ok\<close>
    is kept by every operation.
  \<^item> \<open>Lua_Lexer\<close>, \<open>Lua_Lexer_Facts\<close>: \<open>parser/lexer.rs\<close>; where tokens stand, and that string and integer
    literals mean what they say. \<open>Lua_Ast\<close>, \<open>Lua_Parser\<close>, \<open>Lua_Parser_Facts\<close>: \<open>parser/\<close>; the parser is
    total and its trees are well formed. The interface \<open>parser_knots\<close> states what every parser that is
    called recursively promises.
  \<^item> \<open>Lua_Codegen\<close>, \<open>Lua_Codegen_Facts\<close>: \<open>compiler/codegen.rs\<close> and \<open>compiler/error.rs\<close>, and the contract
    \<open>gen\<close> of every operation of the code generator, stated for the recursion by \<open>codegen_knots\<close>.
    \<open>Lua_Pipeline\<close>: parser, code generator and verifier together: compiled code is well formed and
    passes the structural checks, and where the stack analysis disagrees.
  \<^item> \<open>Lua_Expr_Code\<close>, \<open>Lua_Structured_Code\<close>: a reference compiler (\<open>code_of\<close>, \<open>stmts_code\<close>) for structured
    programs (locals, assignments to them, \<open>do\<close>, \<open>if\<close>, \<open>while\<close>, a final \<open>return\<close>), with slots, jump distances
    and constants given by the tree, and that the code generator emits its code. \<open>Lua_Expr_Run\<close>,
    \<open>Lua_Structured_Run\<close>: a reference semantics (\<open>eval\<close>, \<open>run_program\<close>) of these programs, and that the
    machine computes it from the compiled code, errors included. A loop of the reference semantics takes
    one unit of fuel per iteration; not ending is \<open>None\<close>. \<open>Lua_Closure_Slots\<close>: a program whose closure
    reads the wrong variable, compiled, verified and run.
  \<^item> \<open>Lua_Meters\<close>: \<open>vm/gas.rs\<close> and \<open>vm/memory.rs\<close>, both instances of \<open>budget_meter\<close>.
    \<open>Lua_Runtime\<close>: metered access to tables, shared by the machine and the library.
  \<^item> \<open>Lua_Strings\<close>, \<open>Lua_Format\<close>, \<open>Lua_Decimal\<close>, \<open>Lua_Tablelib\<close>, \<open>Lua_Sort\<close>, \<open>Lua_Json\<close>,
    \<open>Lua_Json_Fuel\<close>, \<open>Lua_Builtins\<close>: \<open>vm/builtins.rs\<close>, module by module, and the proof that the
    JSON parsers never use up their fuel. \<open>Lua_Table_Sort\<close>: \<open>table.sort\<close> from stored table to stored
    table. \<open>Lua_Json_Roundtrip\<close>: what \<open>json.decode\<close> makes of an encoded string.
  \<^item> \<open>Lua_Canonical\<close>, \<open>Lua_Canonical_Fuel\<close>, \<open>Lua_Canonical_Roundtrip\<close>: \<open>host/canonicalize.rs\<close>; the
    decoder is total, and decoding inverts encoding up to the addresses of tables.
  \<^item> \<open>Lua_Host\<close>: transcript and tool registry over an arbitrary host.
  \<^item> \<open>Lua_Bytecode\<close>: \<open>compiler/proto.rs\<close> and \<open>isa/\<close>. \<open>Lua_Verifier\<close>, \<open>Lua_Proto_Graph\<close>: the verifier,
    against an abstract stack machine (\<open>stack_step\<close>) and the prototype graph.
  \<^item> \<open>Lua_Engine\<close>, \<open>Lua_Metering\<close>: the machine, one definition per instruction, and what metering gives:
    every run ends. \<open>keeps R m\<close> says that \<open>m\<close> relates its states by the preorder \<open>R\<close> and does not time
    out; the interface \<open>step_preorder\<close> has its closure rules.
  \<^item> \<open>Lua_Hash\<close>, \<open>Lua_Tape\<close>: program hashes, tape, commitments, strict and positional replay.

  \<^bold>\<open>Fuel.\<close> The machine's loop needs at most \<open>2 * gas + 2\<close> iterations (\<open>execute_ends\<close>), the
  canonical decoder \<open>2 * length + 2\<close> calls (\<open>canonical_deserialize_total\<close>), and the JSON parsers
  as much; the parser's recursion and loops take the number of tokens (\<open>parse_total\<close>), the code
  generator the size of the tree. All other loops are structural or have a termination proof.

  \<^bold>\<open>Parameters.\<close> The host (its state, \<open>call_tool\<close>, \<open>take_attestation\<close>), SHA-256, the field and
  the Poseidon2 permutation are code outside the repository. Nothing is assumed of SHA-256 but the
  length of its output: a binding theorem concludes equality or exhibits a collision.

  \<^bold>\<open>Not modelled.\<close> The serde derivations; the command
  line tools; memory addresses, so that \<open>tostring\<close> of a table is its constant text as in the source.
\<close>

end
